(* ===== verification/Prelude.thy ===== *)
theory Prelude imports Main "HOL-Library.Word" begin

text \<open>
  Shared vocabulary of the development: the machine word types, the page arithmetic of
  \<^verbatim>\<open>kernel/include/pmm.h\<close> and \<^verbatim>\<open>kernel/include/vmm.h\<close>, the result type of kernel code that
  can stop (a panic, an endless loop, a spin lock that is never released, an access to
  unmapped memory or through a bad pointer), and the generic lemmas on words and lists the
  components use. Two collections gather the automation: \<open>bitw\<close> turns the
  constants into masks for bit-level proofs, \<open>res\<close> computes with results.
\<close>

unbundle bit_operations_syntax

named_theorems bitw "bit-level characterisations of the kernel's address constants"
named_theorems res "computation rules for results of kernel code"

section \<open>Types\<close>

type_synonym u8 = "8 word"
type_synonym u16 = "16 word"
type_synonym u32 = "32 word"

text \<open>
  The ways in which kernel code fails to return: \<open>Panic\<close> is the \<open>panic\<close> macro (print and
  loop), \<open>Hang\<close> an endless loop of the source, \<open>Deadlock\<close> a \<open>spin_lock\<close> on a lock that is
  already held (the kernel runs with interrupts off on one processor, so nobody releases it),
  \<open>Fault\<close> an access to a virtual address that is not mapped, \<open>BadPtr\<close> an access through a
  null pointer or to an object that was freed, \<open>Overrun\<close> an access outside a buffer,
  \<open>DivError\<close> a division by zero.
\<close>

datatype halt = Panic | Hang | Deadlock | Fault u32 | BadPtr | Overrun | DivError

type_synonym 'a res = "halt + 'a"

definition andthen :: "'a res \<Rightarrow> ('a \<Rightarrow> 'b res) \<Rightarrow> 'b res" where
  "andthen r f = (case r of Inl e \<Rightarrow> Inl e | Inr x \<Rightarrow> f x)"

definition deref :: "'a option \<Rightarrow> 'a res" where
  "deref x = (case x of None \<Rightarrow> Inl BadPtr | Some v \<Rightarrow> Inr v)"

lemma andthen_Inl [simp, res]: "andthen (Inl e) f = Inl e"
  by (simp add: andthen_def)

lemma andthen_Inr [simp, res]: "andthen (Inr x) f = f x"
  by (simp add: andthen_def)

lemma andthen_eq_Inr [res]:
  "andthen r f = Inr y \<longleftrightarrow> (\<exists>x. r = Inr x \<and> f x = Inr y)"
  by (cases r) auto

lemma andthen_cong:
  assumes "r = r'" and "\<And>x. r' = Inr x \<Longrightarrow> f x = g x"
  shows "andthen r f = andthen r' g"
  using assms by (cases r') auto

lemma andthen_assoc: "andthen (andthen r f) g = andthen r (\<lambda>x. andthen (f x) g)"
  by (cases r) auto

lemma deref_Some [simp, res]: "deref (Some x) = Inr x"
  by (simp add: deref_def)

lemma deref_None [simp, res]: "deref None = Inl BadPtr"
  by (simp add: deref_def)

lemma deref_eq_Inr [res]: "deref x = Inr v \<longleftrightarrow> x = Some v"
  by (cases x) auto

section \<open>Page arithmetic\<close>

definition PAGE_MASK :: u32 where "PAGE_MASK = 0xFFFFF000"
definition PAGE_FLAG_MASK :: u32 where "PAGE_FLAG_MASK = 0xFFF"
definition PAGE_SIZE :: u32 where "PAGE_SIZE = 0x1000"

definition PAGE_PRESENT :: u32 where "PAGE_PRESENT = 1"
definition PAGE_WRITE :: u32 where "PAGE_WRITE = 2"
definition PAGE_USER :: u32 where "PAGE_USER = 4"

definition vmm_page_val :: "u32 \<Rightarrow> u32 \<Rightarrow> u32" where
  "vmm_page_val page flags = ((page AND PAGE_MASK) OR (flags AND PAGE_FLAG_MASK))"

definition vmm_table_idx :: "u32 \<Rightarrow> u32" where
  "vmm_table_idx page = drop_bit 12 page"

definition vmm_dir_idx :: "u32 \<Rightarrow> u32" where
  "vmm_dir_idx page = drop_bit 22 page"

lemma PAGE_FLAG_MASK_mask: "PAGE_FLAG_MASK = mask 12"
  by (simp add: PAGE_FLAG_MASK_def mask_eq_exp_minus_1)

lemma PAGE_MASK_mask: "PAGE_MASK = NOT (mask 12)"
  by (simp add: PAGE_MASK_def mask_eq_exp_minus_1)

lemma bit_PAGE_MASK [bitw]: "bit PAGE_MASK n \<longleftrightarrow> 12 \<le> n \<and> n < 32"
  by (auto simp: PAGE_MASK_mask bit_simps)

lemma bit_PAGE_FLAG_MASK [bitw]: "bit PAGE_FLAG_MASK n \<longleftrightarrow> n < 12"
  by (auto simp: PAGE_FLAG_MASK_mask bit_simps)

lemma bit_PAGE_PRESENT [bitw]: "bit PAGE_PRESENT n \<longleftrightarrow> n = 0"
  by (simp add: PAGE_PRESENT_def bit_1_iff)

lemma bit_PAGE_WRITE [bitw]: "bit PAGE_WRITE n \<longleftrightarrow> n = 1"
proof -
  have "PAGE_WRITE = push_bit 1 1" by (simp add: PAGE_WRITE_def)
  show ?thesis unfolding \<open>PAGE_WRITE = push_bit 1 1\<close> by (auto simp only: bit_simps) simp_all
qed

lemma four_times [bitw]: "4 * (x :: u32) = push_bit 2 x"
  by (simp add: push_bit_eq_mult)

lemma word_bit_less: "bit (w :: u32) n \<Longrightarrow> n < 32"
  using bit_imp_le_length by fastforce

lemma and_1_bit: "(w :: u32) AND PAGE_PRESENT = 0 \<longleftrightarrow> \<not> bit w 0"
  by (auto simp: PAGE_PRESENT_def and_one_eq bit_0 odd_iff_mod_2_eq_one)

lemma page_split [simp]: "(x AND PAGE_MASK) OR (x AND PAGE_FLAG_MASK) = x"
  by (rule bit_word_eqI) (auto simp: bit_simps bitw)

lemma page_join:
  "((x AND PAGE_MASK) OR (y AND PAGE_FLAG_MASK)) AND PAGE_FLAG_MASK = y AND PAGE_FLAG_MASK"
  "((x AND PAGE_MASK) OR (y AND PAGE_FLAG_MASK)) AND PAGE_MASK = x AND PAGE_MASK"
  by (rule bit_word_eqI; auto simp: bit_simps bitw)+

lemma page_base_idem [simp]: "(x AND PAGE_MASK) AND PAGE_MASK = x AND PAGE_MASK"
  by (simp add: and.assoc)

lemma page_val_base [simp]: "vmm_page_val page flags AND PAGE_MASK = page AND PAGE_MASK"
  unfolding vmm_page_val_def by (rule bit_word_eqI) (auto simp: bit_simps bitw)

lemma page_val_flags [simp]:
  "vmm_page_val page flags AND PAGE_FLAG_MASK = flags AND PAGE_FLAG_MASK"
  unfolding vmm_page_val_def by (rule bit_word_eqI) (auto simp: bit_simps bitw)

lemma page_val_present:
  "vmm_page_val page flags AND PAGE_PRESENT = flags AND PAGE_PRESENT"
  unfolding vmm_page_val_def by (rule bit_word_eqI) (auto simp: bit_simps bitw)

lemma table_idx_base [simp]: "vmm_table_idx (x AND PAGE_MASK) = vmm_table_idx x"
  unfolding vmm_table_idx_def
  by (rule bit_word_eqI) (auto simp: bit_simps bitw dest: word_bit_less)

lemma dir_idx_base [simp]: "vmm_dir_idx (x AND PAGE_MASK) = vmm_dir_idx x"
  unfolding vmm_dir_idx_def
  by (rule bit_word_eqI) (auto simp: bit_simps bitw dest: word_bit_less)

lemma dir_idx_eq_0x3FF: "vmm_dir_idx x \<le> 0x3FF"
proof -
  have "vmm_dir_idx x = vmm_dir_idx x AND mask 10"
    unfolding vmm_dir_idx_def
    by (rule bit_word_eqI) (auto simp: bit_simps dest: word_bit_less)
  also have "\<dots> \<le> mask 10" by (rule word_and_le1)
  finally show ?thesis by (simp add: mask_eq_exp_minus_1)
qed

end
