(* ===== verification/Lists.thy ===== *)
theory Lists imports Prelude begin

text \<open>
  The intrusive doubly linked lists of \<^verbatim>\<open>kernel/include/lists.h\<close>. A \<open>list_t\<close> field of some
  object is a node; all nodes of one kind live in a link heap that gives every node its
  \<open>prev\<close> and \<open>next\<close>. The macros are sequences of assignments to these fields, translated
  assignment by assignment (so what happens when head and item coincide is what the code
  does). \<open>ring h hd xs\<close> states that \<open>hd\<close> and the nodes \<open>xs\<close> form one well-formed circular
  list; the lemmas show every macro is the matching operation on the list \<open>xs\<close> and leaves
  every other ring alone.
\<close>

record 'n links =
  prv :: "'n \<Rightarrow> 'n"
  nxt :: "'n \<Rightarrow> 'n"

definition set_next :: "'n \<Rightarrow> 'n \<Rightarrow> 'n links \<Rightarrow> 'n links" where
  "set_next a b h = h\<lparr>nxt := (nxt h)(a := b)\<rparr>"

definition set_prev :: "'n \<Rightarrow> 'n \<Rightarrow> 'n links \<Rightarrow> 'n links" where
  "set_prev a b h = h\<lparr>prv := (prv h)(a := b)\<rparr>"

section \<open>The macros\<close>

definition list_empty :: "'n links \<Rightarrow> 'n \<Rightarrow> bool" where
  "list_empty h head \<longleftrightarrow> nxt h head = head"

definition init_list :: "'n links \<Rightarrow> 'n \<Rightarrow> 'n links" where
  "init_list h head =
     (let h = set_next head head h
      in set_prev head head h)"

definition append_to_list :: "'n links \<Rightarrow> 'n \<Rightarrow> 'n \<Rightarrow> 'n links" where
  "append_to_list h head item =
     (let h = set_prev item (prv h head) h;
          h = set_next item head h;
          h = set_next (prv h item) item h
      in set_prev (nxt h item) item h)"

definition remove_from_list :: "'n links \<Rightarrow> 'n \<Rightarrow> 'n links" where
  "remove_from_list h item =
     (let h = set_next (prv h item) (nxt h item) h;
          h = set_prev (nxt h item) (prv h item) h;
          h = set_next item item h
      in set_prev item item h)"

definition list_insert_to_left :: "'n links \<Rightarrow> 'n \<Rightarrow> 'n \<Rightarrow> 'n links" where
  "list_insert_to_left h right item =
     (let h = set_prev item (prv h right) h;
          h = set_next item right h;
          h = set_next (prv h right) item h
      in set_prev right item h)"

definition list_insert_to_right :: "'n links \<Rightarrow> 'n \<Rightarrow> 'n \<Rightarrow> 'n links" where
  "list_insert_to_right h left item =
     (let h = set_prev item left h;
          h = set_next item (nxt h left) h;
          h = set_prev (nxt h left) item h
      in set_next left item h)"

text \<open>
  \<open>for_each_in_list(head, item)\<close> visits \<open>nxt head\<close>, its successor and so on until it is back
  at the head. A loop whose body does not change the list is a walk that returns the nodes
  visited; \<open>None\<close> is a walk that never comes back to the head.
\<close>

partial_function (option) walk :: "'n links \<Rightarrow> 'n \<Rightarrow> 'n \<Rightarrow> 'n list option" where
  "walk h head item =
     (if item = head then Some []
      else Option.bind (walk h head (nxt h item)) (\<lambda>rest. Some (item # rest)))"

definition for_each_in_list :: "'n links \<Rightarrow> 'n \<Rightarrow> 'n list option" where
  "for_each_in_list h head = walk h head (nxt h head)"

definition items :: "'n links \<Rightarrow> 'n \<Rightarrow> 'n list res" where
  "items h head = (case for_each_in_list h head of None \<Rightarrow> Inl Hang | Some xs \<Rightarrow> Inr xs)"

section \<open>Well-formed rings\<close>

fun linked :: "'n links \<Rightarrow> 'n list \<Rightarrow> bool" where
  "linked h [] = True"
| "linked h [a] = True"
| "linked h (a # b # r) = (nxt h a = b \<and> prv h b = a \<and> linked h (b # r))"

definition ring :: "'n links \<Rightarrow> 'n \<Rightarrow> 'n list \<Rightarrow> bool" where
  "ring h c xs \<longleftrightarrow> distinct (c # xs) \<and> linked h (c # xs @ [c])"

lemma linked_append:
  "linked h (xs @ a # ys) \<longleftrightarrow> linked h (xs @ [a]) \<and> linked h (a # ys)"
proof (induction xs)
  case (Cons x xs)
  then show ?case by (cases xs) auto
qed simp

lemma linked_cong:
  assumes "\<And>a. a \<in> set (butlast xs) \<Longrightarrow> nxt h' a = nxt h a"
    and "\<And>b. b \<in> set (tl xs) \<Longrightarrow> prv h' b = prv h b"
  shows "linked h' xs = linked h xs"
  using assms by (induction h xs rule: linked.induct) auto

text \<open>
  The two surgeries on a linked path \<open>L\<close> whose \<open>next\<close> fields (all nodes but the last) and
  \<open>prev\<close> fields (all but the first) are each listed once.
\<close>

lemma path_sides:
  assumes "distinct (butlast (ps @ a # r))" "distinct (tl (ps @ a # r))" "r = us @ b # qs"
  shows "a \<notin> set ps" "a \<notin> set (butlast r)" "b \<notin> set qs" "b \<notin> set (tl (ps @ [a]))"
    "set (butlast r) \<subseteq> set r" "set (tl (ps @ [a])) \<subseteq> set (ps @ [a])"
  using assms by (cases ps; auto simp: butlast_append dest: in_set_butlastD split: if_splits)+

lemma linked_insert:
  assumes L: "linked h (ps @ a # b # qs)"
    and d: "distinct (butlast (ps @ a # b # qs))" "distinct (tl (ps @ a # b # qs))"
    and x: "x \<notin> set (ps @ a # b # qs)"
    and n: "nxt h' = (nxt h)(x := b, a := x)" and p: "prv h' = (prv h)(x := a, b := x)"
  shows "linked h' (ps @ a # x # b # qs)"
proof -
  note sides = path_sides [OF d, of "[]" b qs, simplified append_Nil, OF refl]
  have "linked h' (ps @ [a]) = linked h (ps @ [a])"
    using sides x n p by (intro linked_cong) (auto simp: butlast_append)
  moreover have "linked h' (b # qs) = linked h (b # qs)"
    using sides x n p by (intro linked_cong) auto
  moreover have "linked h (ps @ [a])" "linked h (b # qs)"
    using L linked_append [of h ps a "b # qs"] by auto
  ultimately show ?thesis
    using linked_append [of h' ps a "x # b # qs"] n p x by auto
qed

lemma linked_remove:
  assumes L: "linked h (ps @ a # x # b # qs)"
    and d: "distinct (butlast (ps @ a # x # b # qs))" "distinct (tl (ps @ a # x # b # qs))"
    and x: "x \<notin> set (ps @ a # b # qs)"
    and n: "nxt h' = (nxt h)(a := b, x := x)" and p: "prv h' = (prv h)(b := a, x := x)"
  shows "linked h' (ps @ a # b # qs)"
proof -
  note sides = path_sides [OF d, of "[x]" b qs, simplified append_Nil append_Cons, OF refl]
  have "linked h' (ps @ [a]) = linked h (ps @ [a])"
    using sides x n p by (intro linked_cong) (auto simp: butlast_append)
  moreover have "linked h' (b # qs) = linked h (b # qs)"
    using sides x n p by (intro linked_cong) (auto dest: in_set_butlastD split: if_splits)
  moreover have "linked h (ps @ [a])" "linked h (b # qs)"
    using L linked_append [of h ps a "x # b # qs"] by auto
  ultimately show ?thesis
    using linked_append [of h' ps a "b # qs"] n p x by auto
qed

text \<open>A ring is such a path from the head back to the head.\<close>

lemma ring_cong:
  assumes "\<And>a. a \<in> set (c # xs) \<Longrightarrow> nxt h' a = nxt h a \<and> prv h' a = prv h a"
  shows "ring h' c xs = ring h c xs"
proof -
  have "linked h' (c # xs @ [c]) = linked h (c # xs @ [c])"
    using assms by (intro linked_cong) (auto simp: butlast_append)
  then show ?thesis by (simp add: ring_def)
qed

lemma ring_head: "ring h c xs \<Longrightarrow> nxt h c = hd (xs @ [c]) \<and> prv h c = last (c # xs)"
proof -
  assume "ring h c xs"
  then have L: "linked h (c # xs @ [c])" by (simp add: ring_def)
  have "nxt h c = hd (xs @ [c])" using L by (cases xs) auto
  moreover have "linked h (butlast (c # xs) @ last (c # xs) # [c])"
    using L by (metis append_butlast_last_id append.assoc append_Cons append_Nil list.distinct(1))
  then have "prv h c = last (c # xs)"
    using linked_append [of h "butlast (c # xs)" "last (c # xs)" "[c]"] by simp
  ultimately show ?thesis by simp
qed

lemma ring_mid:
  assumes "ring h c (us @ x # vs)"
  shows "nxt h x = hd (vs @ [c])" "prv h x = last (c # us)"
proof -
  have L: "linked h ((c # us) @ x # (vs @ [c]))" using assms by (simp add: ring_def)
  then have r: "linked h (x # vs @ [c])" and l: "linked h ((c # us) @ [x])"
    using linked_append [of h "c # us" x "vs @ [c]"] by auto
  show "nxt h x = hd (vs @ [c])" using r by (cases vs) auto
  have "linked h (butlast (c # us) @ last (c # us) # [x])"
    using l by (metis append_butlast_last_id append.assoc append_Cons append_Nil list.distinct(1))
  then show "prv h x = last (c # us)"
    using linked_append [of h "butlast (c # us)" "last (c # us)" "[x]"] by simp
qed

lemma ring_distinct: "ring h c xs \<Longrightarrow> distinct (c # xs)"
  by (simp add: ring_def)

lemma last_mem: "last (c # us) \<in> set (c # us)"
  by (rule last_in_set) simp

lemma hd_mem: "hd (vs @ [c]) \<in> set (c # vs)"
  using hd_in_set [of "vs @ [c]"] by auto

text \<open>A ring is closed: the neighbours of its nodes are its nodes.\<close>

lemma ring_closed:
  assumes "ring h c xs" and "y \<in> set (c # xs)"
  shows "nxt h y \<in> set (c # xs)" "prv h y \<in> set (c # xs)"
proof -
  have *: "nxt h y \<in> set (c # xs) \<and> prv h y \<in> set (c # xs)"
  proof (cases "y = c")
    case True
    then show ?thesis
      using ring_head [OF assms(1)] hd_mem [of xs c] last_mem [of c xs] by simp
  next
    case False
    with assms(2) obtain us vs where xs: "xs = us @ y # vs" by (auto dest: split_list)
    have "hd (vs @ [c]) \<in> set (c # xs)" using hd_mem [of vs c] xs by auto
    moreover have "last (c # us) \<in> set (c # xs)" using last_mem [of c us] xs by auto
    ultimately show ?thesis using ring_mid [of h c us y vs] assms(1) xs by simp
  qed
  from * show "nxt h y \<in> set (c # xs)" "prv h y \<in> set (c # xs)" by auto
qed

section \<open>Every macro on a ring\<close>

lemma init_list_ring: "ring (init_list h c) c []"
  by (simp add: init_list_def ring_def set_next_def set_prev_def Let_def)

lemma list_empty_ring: "ring h c xs \<Longrightarrow> list_empty h c \<longleftrightarrow> xs = []"
  using ring_head [of h c xs] ring_distinct [of h c xs] by (cases xs) (auto simp: list_empty_def)

lemma insert_between_ring:
  assumes r: "ring h c (us @ vs)" and x: "x \<notin> set (c # us @ vs)"
    and n: "nxt h' = (nxt h)(x := hd (vs @ [c]), last (c # us) := x)"
    and p: "prv h' = (prv h)(x := last (c # us), hd (vs @ [c]) := x)"
  shows "ring h' c (us @ x # vs)"
proof -
  obtain ps a where ps: "c # us = ps @ [a]" and a: "last (c # us) = a"
    by (metis append_butlast_last_id list.distinct(1))
  obtain b qs where qs: "vs @ [c] = b # qs" and b: "hd (vs @ [c]) = b"
    by (metis append_is_Nil_conv list.collapse list.distinct(1))
  have eq: "c # us @ vs @ [c] = ps @ a # b # qs"
    using ps qs by (metis append.assoc append_Cons append_Nil)
  have "linked h (ps @ a # b # qs)" using r eq by (simp add: ring_def)
  moreover have "distinct (butlast (ps @ a # b # qs))" "distinct (tl (ps @ a # b # qs))"
    using ring_distinct [OF r] unfolding eq [symmetric] by (auto simp: butlast_append)
  moreover have "x \<notin> set (ps @ a # b # qs)"
    using x unfolding eq [symmetric] by auto
  ultimately have "linked h' (ps @ a # x # b # qs)"
    using n p a b by (intro linked_insert) auto
  moreover have "c # us @ x # vs @ [c] = ps @ a # x # b # qs"
    using ps qs by (metis append.assoc append_Cons append_Nil)
  ultimately show ?thesis using ring_distinct [OF r] x by (auto simp: ring_def)
qed

lemma append_to_list_ring:
  assumes r: "ring h c xs" and x: "x \<notin> set (c # xs)"
  shows "ring (append_to_list h c x) c (xs @ [x])"
proof (rule insert_between_ring [of h c xs "[]" x, simplified append_Nil append_Nil2])
  show "ring h c xs" by (rule r)
  show "x \<notin> set (c # xs)" by (rule x)
  show "nxt (append_to_list h c x) = (nxt h)(x := hd [c], last (c # xs) := x)"
    and "prv (append_to_list h c x) = (prv h)(x := last (c # xs), hd [c] := x)"
    using ring_head [OF r] x last_in_set [of "c # xs"]
    by (auto simp: append_to_list_def set_next_def set_prev_def Let_def fun_eq_iff
        split: if_splits)
qed

lemma list_insert_to_left_head:
  "x \<noteq> c \<Longrightarrow> prv h c \<noteq> x \<Longrightarrow> list_insert_to_left h c x = append_to_list h c x"
  by (auto simp: append_to_list_def list_insert_to_left_def set_next_def set_prev_def Let_def)

lemma list_insert_to_left_ring:
  assumes r: "ring h c (us @ y # vs)" and x: "x \<notin> set (c # us @ y # vs)"
  shows "ring (list_insert_to_left h y x) c (us @ x # y # vs)"
proof (rule insert_between_ring [OF r x])
  note last_mem [of c us]
  then show "nxt (list_insert_to_left h y x) = (nxt h)(x := hd ((y # vs) @ [c]), last (c # us) := x)"
    and "prv (list_insert_to_left h y x) = (prv h)(x := last (c # us), hd ((y # vs) @ [c]) := x)"
    using ring_mid [OF r] x
    by (auto simp: list_insert_to_left_def set_next_def set_prev_def Let_def fun_eq_iff
        split: if_splits)
qed

lemma list_insert_to_right_ring:
  assumes r: "ring h c (us @ y # vs)" and x: "x \<notin> set (c # us @ y # vs)"
  shows "ring (list_insert_to_right h y x) c (us @ y # x # vs)"
proof -
  have r': "ring h c ((us @ [y]) @ vs)" and x': "x \<notin> set (c # (us @ [y]) @ vs)"
    using r x by auto
  have "hd (vs @ [c]) \<in> set (vs @ [c])" by (rule hd_in_set) simp
  then have "ring (list_insert_to_right h y x) c ((us @ [y]) @ x # vs)"
    using ring_mid [OF r] x
    by (intro insert_between_ring [OF r' x'])
      (auto simp: list_insert_to_right_def set_next_def set_prev_def Let_def fun_eq_iff
        split: if_splits)
  then show ?thesis by simp
qed

lemma remove_from_list_ring:
  assumes r: "ring h c (us @ x # vs)"
  shows "ring (remove_from_list h x) c (us @ vs)" "ring (remove_from_list h x) x []"
proof -
  obtain ps a where ps: "c # us = ps @ [a]" and a: "last (c # us) = a"
    by (metis append_butlast_last_id list.distinct(1))
  obtain b qs where qs: "vs @ [c] = b # qs" and b: "hd (vs @ [c]) = b"
    by (metis append_is_Nil_conv list.collapse list.distinct(1))
  have eq: "c # us @ x # vs @ [c] = ps @ a # x # b # qs"
    using ps qs by (metis append.assoc append_Cons append_Nil)
  have eq': "c # us @ vs @ [c] = ps @ a # b # qs"
    using ps qs by (metis append.assoc append_Cons append_Nil)
  have nx: "nxt h x = b" and px: "prv h x = a" using ring_mid [OF r] a b by auto
  have x: "x \<notin> set (ps @ a # b # qs)"
    using ring_distinct [OF r] unfolding eq' [symmetric] by auto
  have "linked h (ps @ a # x # b # qs)" using r eq by (simp add: ring_def)
  moreover have "distinct (butlast (ps @ a # x # b # qs))" "distinct (tl (ps @ a # x # b # qs))"
    using ring_distinct [OF r] unfolding eq [symmetric] by (auto simp: butlast_append)
  ultimately have "linked (remove_from_list h x) (ps @ a # b # qs)"
    using x nx px by (intro linked_remove [of h ps a x b qs])
      (auto simp: remove_from_list_def set_next_def set_prev_def Let_def fun_eq_iff)
  then show "ring (remove_from_list h x) c (us @ vs)"
    using ring_distinct [OF r] eq' by (auto simp: ring_def)
  show "ring (remove_from_list h x) x []"
    by (simp add: ring_def remove_from_list_def set_next_def set_prev_def Let_def)
qed

text \<open>Removing a node that is on no list changes nothing: a second removal is harmless.\<close>

lemma remove_single: "ring h x [] \<Longrightarrow> remove_from_list h x = h"
  by (cases h) (auto simp: ring_def remove_from_list_def set_next_def set_prev_def Let_def fun_eq_iff)

section \<open>Rings that the macros do not touch\<close>

lemma macro_frame:
  "y \<noteq> x \<Longrightarrow> y \<noteq> nxt h x \<Longrightarrow> y \<noteq> prv h x \<Longrightarrow>
     nxt (remove_from_list h x) y = nxt h y \<and> prv (remove_from_list h x) y = prv h y"
  "y \<noteq> x \<Longrightarrow> y \<noteq> c \<Longrightarrow> y \<noteq> prv h c \<Longrightarrow>
     nxt (append_to_list h c x) y = nxt h y \<and> prv (append_to_list h c x) y = prv h y"
  "y \<noteq> x \<Longrightarrow> y \<noteq> c \<Longrightarrow> y \<noteq> prv h c \<Longrightarrow>
     nxt (list_insert_to_left h c x) y = nxt h y \<and> prv (list_insert_to_left h c x) y = prv h y"
  "y \<noteq> x \<Longrightarrow> y \<noteq> c \<Longrightarrow> y \<noteq> nxt h c \<Longrightarrow>
     nxt (list_insert_to_right h c x) y = nxt h y \<and> prv (list_insert_to_right h c x) y = prv h y"
  by (simp_all add: remove_from_list_def append_to_list_def list_insert_to_left_def
      list_insert_to_right_def set_next_def set_prev_def Let_def)

lemma disjoint_frame:
  assumes "ring h c xs" and "y \<in> set (c # xs)" and "z \<in> set (d # ys)"
    and "set (c # xs) \<inter> set (d # ys) = {}"
  shows "z \<noteq> y" "z \<noteq> nxt h y" "z \<noteq> prv h y"
  using ring_closed [OF assms(1,2)] assms by blast+

lemma append_other_ring:
  assumes "ring h c xs" and "ring h d ys" and "x \<notin> set (d # ys)"
    and "set (c # xs) \<inter> set (d # ys) = {}"
  shows "ring (append_to_list h c x) d ys"
proof -
  have "ring (append_to_list h c x) d ys = ring h d ys"
  proof (rule ring_cong)
    fix a assume a: "a \<in> set (d # ys)"
    note f = disjoint_frame [OF assms(1) _ a assms(4), of c]
    show "nxt (append_to_list h c x) a = nxt h a \<and> prv (append_to_list h c x) a = prv h a"
      using f a assms(3) by (intro macro_frame) auto
  qed
  with assms(2) show ?thesis by simp
qed

lemma remove_other_ring:
  assumes "ring h c xs" and "ring h d ys" and "x \<in> set (c # xs)"
    and "set (c # xs) \<inter> set (d # ys) = {}"
  shows "ring (remove_from_list h x) d ys"
proof -
  have "ring (remove_from_list h x) d ys = ring h d ys"
    using disjoint_frame [OF assms(1,3) _ assms(4)] by (intro ring_cong macro_frame) blast+
  with assms(2) show ?thesis by simp
qed

lemma insert_left_other_ring:
  assumes "ring h c xs" and "ring h d ys" and "x \<notin> set (d # ys)" and "y \<in> set (c # xs)"
    and "set (c # xs) \<inter> set (d # ys) = {}"
  shows "ring (list_insert_to_left h y x) d ys"
proof -
  have "ring (list_insert_to_left h y x) d ys = ring h d ys"
    using disjoint_frame [OF assms(1,4) _ assms(5)] assms(3)
    by (intro ring_cong macro_frame) blast+
  with assms(2) show ?thesis by simp
qed

lemma insert_right_other_ring:
  assumes "ring h c xs" and "ring h d ys" and "x \<notin> set (d # ys)" and "y \<in> set (c # xs)"
    and "set (c # xs) \<inter> set (d # ys) = {}"
  shows "ring (list_insert_to_right h y x) d ys"
proof -
  have "ring (list_insert_to_right h y x) d ys = ring h d ys"
    using disjoint_frame [OF assms(1,4) _ assms(5)] assms(3)
    by (intro ring_cong macro_frame) blast+
  with assms(2) show ?thesis by simp
qed

lemma init_other_ring:
  "ring h d ys \<Longrightarrow> c \<notin> set (d # ys) \<Longrightarrow> ring (init_list h c) d ys"
  by (subst ring_cong [of _ _ _ h]) (auto simp: init_list_def set_next_def set_prev_def Let_def)

section \<open>Rotation\<close>

text \<open>
  The ring of the \<open>copies\<close> of an area has no distinguished head: seen from any of its
  nodes it lists the others in order.
\<close>

lemma ring_rotate:
  assumes "ring h c (us @ x # vs)"
  shows "ring h x (vs @ c # us)"
proof -
  have L: "linked h ((c # us) @ x # (vs @ [c]))" using assms by (simp add: ring_def)
  then have "linked h (x # vs @ [c])" and "linked h ((c # us) @ [x])"
    using linked_append [of h "c # us" x "vs @ [c]"] by auto
  then have "linked h ((x # vs) @ c # (us @ [x]))"
    using linked_append [of h "x # vs" c "us @ [x]"] by simp
  then show ?thesis using ring_distinct [OF assms] by (auto simp: ring_def)
qed

section \<open>Walks\<close>

declare walk.simps [code]

lemma walk_ring:
  assumes "ring h c (us @ vs)"
  shows "walk h c (hd (vs @ [c])) = Some vs"
  using assms
proof (induction vs arbitrary: us)
  case Nil
  show ?case by (subst walk.simps) simp
next
  case (Cons v vs)
  have "walk h c (hd (vs @ [c])) = Some vs"
    using Cons.IH [of "us @ [v]"] Cons.prems by simp
  moreover have "nxt h v = hd (vs @ [c])" by (rule ring_mid(1) [OF Cons.prems])
  moreover have "v \<noteq> c" using ring_distinct [OF Cons.prems] by auto
  ultimately show ?case by (subst walk.simps) simp
qed

lemma for_each_in_list_ring: "ring h c xs \<Longrightarrow> for_each_in_list h c = Some xs"
  using walk_ring [of h c "[]" xs] ring_head [of h c xs]
  by (simp add: for_each_in_list_def)

lemma items_ring [simp]: "ring h c xs \<Longrightarrow> items h c = Inr xs"
  by (simp add: items_def for_each_in_list_ring)

end
