(* ===== verification/Machine.thy ===== *)
theory Machine imports Prelude begin

text \<open>
  The machine the memory managers run on: physical memory as 32-bit words, the page
  directory register, two-level address translation as the x86 MMU does it, and the kernel's
  memory variables of \<^verbatim>\<open>kernel/mem/pmm.c\<close> and \<^verbatim>\<open>kernel/mem/vmm.c\<close> in one state record, since
  the two files call each other. Kernel code reaches page directories and page tables through
  virtual addresses only, as in the source: the last directory slot points back to the directory
  (\<open>page_directory\<close>, \<open>page_tables\<close>), the slot below it to a second one (\<open>expage_directory\<close>,
  \<open>expage_tables\<close>). The lemmas show what these windows read and write. Translations
  are taken from memory at every access: stale entries of the processor's translation cache
  are not modelled (the source flushes the page it changes).
\<close>

section \<open>Address constants\<close>

definition USER_STACK_TOP :: u32 where "USER_STACK_TOP = 0xBFFFF000"
definition KERNEL_OFFSET :: u32 where "KERNEL_OFFSET = 0xC0000000"
definition KERNEL_HEAP_START :: u32 where "KERNEL_HEAP_START = 0xE0000000"
definition KERNEL_HEAP_END :: u32 where "KERNEL_HEAP_END = 0xF0000000"
definition PMM_PAGE_STACK :: u32 where "PMM_PAGE_STACK = 0xFE000000"
definition PMM_STACK_ENTRIES_PER_PAGE :: u32 where "PMM_STACK_ENTRIES_PER_PAGE = 0x400"
definition VMM_TEMP2 :: u32 where "VMM_TEMP2 = 0xFF7FE000"
definition VMM_TEMP1 :: u32 where "VMM_TEMP1 = 0xFF7FF000"
definition VMM_EXPAGE_TABLES :: u32 where "VMM_EXPAGE_TABLES = 0xFF800000"
definition VMM_EXPAGE_DIR :: u32 where "VMM_EXPAGE_DIR = 0xFFBFF000"
definition VMM_PAGE_TABLES :: u32 where "VMM_PAGE_TABLES = 0xFFC00000"
definition VMM_PAGE_DIR :: u32 where "VMM_PAGE_DIR = 0xFFFFF000"
definition VMM_PAGES_PER_TABLE :: u32 where "VMM_PAGES_PER_TABLE = 1024"

definition assert_higher :: "u32 \<Rightarrow> u32" where
  "assert_higher val = (if val > KERNEL_OFFSET then val else val + KERNEL_OFFSET)"

section \<open>State\<close>

record vm =
  phys :: "u32 \<Rightarrow> u32"
  cr3 :: u32
  pmm_running :: bool
  pmm_pos :: u32
  pmm_page_stack_max :: u32
  pmm_page_stack_ptr :: u32
  pmm_sem :: u32
  vmm_running :: bool
  kernel_pd :: u32
  kernel_pd_sem :: u32
  exdir_sem :: u32
  temp_sem :: u32

text \<open>
  \<open>spin_lock\<close> of \<^verbatim>\<open>kernel/arch/synch.S\<close>: compare-and-exchange of the lock's low byte, from
  0 to 1, retried for ever. \<open>spin_unlock\<close> stores 0.
\<close>

definition spin_lock :: "u32 \<Rightarrow> u32 res" where
  "spin_lock l = (if l AND 0xFF = 0 then Inr ((l AND NOT 0xFF) OR 1) else Inl Deadlock)"

definition lock_pmm :: "vm \<Rightarrow> vm res" where
  "lock_pmm s = andthen (spin_lock (pmm_sem s)) (\<lambda>l. Inr (s\<lparr>pmm_sem := l\<rparr>))"

definition lock_kernel_pd :: "vm \<Rightarrow> vm res" where
  "lock_kernel_pd s = andthen (spin_lock (kernel_pd_sem s)) (\<lambda>l. Inr (s\<lparr>kernel_pd_sem := l\<rparr>))"

definition lock_exdir :: "vm \<Rightarrow> vm res" where
  "lock_exdir s = andthen (spin_lock (exdir_sem s)) (\<lambda>l. Inr (s\<lparr>exdir_sem := l\<rparr>))"

definition lock_temp :: "vm \<Rightarrow> vm res" where
  "lock_temp s = andthen (spin_lock (temp_sem s)) (\<lambda>l. Inr (s\<lparr>temp_sem := l\<rparr>))"

lemma spin_lock_free [simp]: "spin_lock 0 = Inr 1"
  by (simp add: spin_lock_def)

lemma spin_lock_held [simp]: "spin_lock 1 = Inl Deadlock"
  by (simp add: spin_lock_def)

section \<open>Address translation\<close>

text \<open>
  The directory entry of a virtual address lies at index \<open>va >> 22\<close> of the directory, its
  table entry at index \<open>(va >> 12) & 0x3FF\<close> of the table the directory entry points to.
\<close>

definition pde_pa :: "u32 \<Rightarrow> u32 \<Rightarrow> u32" where
  "pde_pa dir va = (dir AND PAGE_MASK) OR (4 * drop_bit 22 va)"

definition pte_pa :: "u32 \<Rightarrow> u32 \<Rightarrow> u32" where
  "pte_pa pde va = (pde AND PAGE_MASK) OR (4 * (drop_bit 12 va AND 0x3FF))"

definition hw_pde :: "vm \<Rightarrow> u32 \<Rightarrow> u32" where
  "hw_pde s va = phys s (pde_pa (cr3 s) va)"

definition hw_pte :: "vm \<Rightarrow> u32 \<Rightarrow> u32 option" where
  "hw_pte s va =
     (if hw_pde s va AND PAGE_PRESENT = 0 then None
      else (let e = phys s (pte_pa (hw_pde s va) va)
            in if e AND PAGE_PRESENT = 0 then None else Some e))"

definition mmu_translate :: "vm \<Rightarrow> u32 \<Rightarrow> u32 option" where
  "mmu_translate s va =
     (case hw_pte s va of None \<Rightarrow> None
      | Some e \<Rightarrow> Some ((e AND PAGE_MASK) OR (va AND PAGE_FLAG_MASK)))"

definition vload :: "u32 \<Rightarrow> vm \<Rightarrow> u32 res" where
  "vload va s = (case mmu_translate s va of None \<Rightarrow> Inl (Fault va) | Some pa \<Rightarrow> Inr (phys s pa))"

definition vstore :: "u32 \<Rightarrow> u32 \<Rightarrow> vm \<Rightarrow> vm res" where
  "vstore va v s =
     (case mmu_translate s va of None \<Rightarrow> Inl (Fault va)
      | Some pa \<Rightarrow> Inr (s\<lparr>phys := (phys s)(pa := v)\<rparr>))"

text \<open>\<open>memset\<close> of one page to 0 and \<open>memcpy\<close> of one page, through virtual page addresses.\<close>

definition vclear_page :: "u32 \<Rightarrow> vm \<Rightarrow> vm res" where
  "vclear_page va s =
     (case mmu_translate s va of None \<Rightarrow> Inl (Fault va)
      | Some pa \<Rightarrow>
          Inr (s\<lparr>phys := (\<lambda>a. if a AND PAGE_MASK = pa AND PAGE_MASK then 0 else phys s a)\<rparr>))"

definition vcopy_page :: "u32 \<Rightarrow> u32 \<Rightarrow> vm \<Rightarrow> vm res" where
  "vcopy_page dst src s =
     (case (mmu_translate s dst, mmu_translate s src) of
        (Some d, Some f) \<Rightarrow>
          Inr (s\<lparr>phys := (\<lambda>a. if a AND PAGE_MASK = d AND PAGE_MASK
                            then phys s ((f AND PAGE_MASK) OR (a AND PAGE_FLAG_MASK))
                            else phys s a)\<rparr>)
      | (None, _) \<Rightarrow> Inl (Fault dst)
      | (_, None) \<Rightarrow> Inl (Fault src))"

lemma translate_offset:
  "mmu_translate s va = Some pa \<Longrightarrow> pa AND PAGE_FLAG_MASK = va AND PAGE_FLAG_MASK"
  using page_join by (auto simp: mmu_translate_def split: option.splits)

section \<open>The directory and table windows\<close>

definition page_directory_get :: "u32 \<Rightarrow> vm \<Rightarrow> u32 res" where
  "page_directory_get i s = vload (VMM_PAGE_DIR + 4 * i) s"

definition page_directory_set :: "u32 \<Rightarrow> u32 \<Rightarrow> vm \<Rightarrow> vm res" where
  "page_directory_set i v s = vstore (VMM_PAGE_DIR + 4 * i) v s"

definition page_tables_get :: "u32 \<Rightarrow> vm \<Rightarrow> u32 res" where
  "page_tables_get i s = vload (VMM_PAGE_TABLES + 4 * i) s"

definition page_tables_set :: "u32 \<Rightarrow> u32 \<Rightarrow> vm \<Rightarrow> vm res" where
  "page_tables_set i v s = vstore (VMM_PAGE_TABLES + 4 * i) v s"

definition expage_directory_get :: "u32 \<Rightarrow> vm \<Rightarrow> u32 res" where
  "expage_directory_get i s = vload (VMM_EXPAGE_DIR + 4 * i) s"

definition expage_directory_set :: "u32 \<Rightarrow> u32 \<Rightarrow> vm \<Rightarrow> vm res" where
  "expage_directory_set i v s = vstore (VMM_EXPAGE_DIR + 4 * i) v s"

definition expage_tables_get :: "u32 \<Rightarrow> vm \<Rightarrow> u32 res" where
  "expage_tables_get i s = vload (VMM_EXPAGE_TABLES + 4 * i) s"

definition expage_tables_set :: "u32 \<Rightarrow> u32 \<Rightarrow> vm \<Rightarrow> vm res" where
  "expage_tables_set i v s = vstore (VMM_EXPAGE_TABLES + 4 * i) v s"

text \<open>The recursive slot: the last directory entry maps the directory itself.\<close>

definition rec_slot :: "vm \<Rightarrow> bool" where
  "rec_slot s \<longleftrightarrow>
     hw_pde s VMM_PAGE_DIR AND PAGE_MASK = cr3 s AND PAGE_MASK \<and>
     hw_pde s VMM_PAGE_DIR AND PAGE_PRESENT \<noteq> 0"

lemma bit_0x3FF [bitw]: "bit (0x3FF :: int) n \<longleftrightarrow> n < 10"
proof -
  have "(0x3FF :: int) = mask 10" by (simp add: mask_eq_exp_minus_1)
  show ?thesis unfolding \<open>(0x3FF :: int) = mask 10\<close> by (auto simp: bit_simps)
qed

lemma bit_0xFFC [bitw]: "bit (0xFFC :: int) n \<longleftrightarrow> 2 \<le> n \<and> n < 12"
proof -
  have "(0xFFC :: int) = push_bit 2 (mask 10)" by (simp add: mask_eq_exp_minus_1 push_bit_eq_mult)
  show ?thesis unfolding \<open>(0xFFC :: int) = push_bit 2 (mask 10)\<close> by (auto simp: bit_simps)
qed

lemma VMM_PAGE_DIR_bits: "VMM_PAGE_DIR = push_bit 12 (mask 20)"
  by (simp add: VMM_PAGE_DIR_def mask_eq_exp_minus_1 push_bit_eq_mult)

lemma VMM_PAGE_TABLES_bits: "VMM_PAGE_TABLES = push_bit 22 (mask 10)"
  by (simp add: VMM_PAGE_TABLES_def mask_eq_exp_minus_1 push_bit_eq_mult)

lemma dir_window_va:
  "VMM_PAGE_DIR + 4 * vmm_dir_idx va = VMM_PAGE_DIR OR push_bit 2 (drop_bit 22 va)"
  unfolding four_times vmm_dir_idx_def VMM_PAGE_DIR_bits
  by (rule disjunctive_add) (auto simp: bit_simps dest: word_bit_less)

lemma table_window_va:
  "VMM_PAGE_TABLES + 4 * vmm_table_idx va = VMM_PAGE_TABLES OR push_bit 2 (drop_bit 12 va)"
  unfolding four_times vmm_table_idx_def VMM_PAGE_TABLES_bits
  by (rule disjunctive_add) (auto simp: bit_simps dest: word_bit_less)

lemma dir_window_idx:
  "drop_bit 22 (VMM_PAGE_DIR + 4 * vmm_dir_idx va) = drop_bit 22 VMM_PAGE_DIR"
  "drop_bit 12 (VMM_PAGE_DIR + 4 * vmm_dir_idx va) AND 0x3FF = drop_bit 22 VMM_PAGE_DIR"
  "(VMM_PAGE_DIR + 4 * vmm_dir_idx va) AND PAGE_FLAG_MASK = 4 * drop_bit 22 va"
  unfolding dir_window_va unfolding VMM_PAGE_DIR_bits
  by (rule bit_word_eqI, force simp: bit_simps bitw dest: word_bit_less)+

lemma table_window_idx:
  "drop_bit 22 (VMM_PAGE_TABLES + 4 * vmm_table_idx va) = drop_bit 22 VMM_PAGE_DIR"
  "drop_bit 12 (VMM_PAGE_TABLES + 4 * vmm_table_idx va) AND 0x3FF = drop_bit 22 va"
  "(VMM_PAGE_TABLES + 4 * vmm_table_idx va) AND PAGE_FLAG_MASK = 4 * (drop_bit 12 va AND 0x3FF)"
  unfolding table_window_va unfolding VMM_PAGE_TABLES_bits VMM_PAGE_DIR_bits
  by (rule bit_word_eqI, force simp: bit_simps bitw dest: word_bit_less)+

lemma translate_dir_window:
  assumes "rec_slot s"
  shows "mmu_translate s (VMM_PAGE_DIR + 4 * vmm_dir_idx va) = Some (pde_pa (cr3 s) va)"
proof -
  let ?w = "VMM_PAGE_DIR + 4 * vmm_dir_idx va"
  have d: "hw_pde s ?w = hw_pde s VMM_PAGE_DIR"
    by (simp add: hw_pde_def pde_pa_def dir_window_idx)
  have "pte_pa (hw_pde s ?w) ?w = pde_pa (cr3 s) VMM_PAGE_DIR"
    using assms unfolding d by (simp add: pte_pa_def pde_pa_def dir_window_idx rec_slot_def)
  then have "hw_pte s ?w = Some (hw_pde s VMM_PAGE_DIR)"
    using assms unfolding hw_pte_def d by (simp add: rec_slot_def hw_pde_def Let_def)
  then show ?thesis
    using assms by (simp add: mmu_translate_def dir_window_idx pde_pa_def rec_slot_def)
qed

lemma translate_table_window:
  assumes "rec_slot s"
  shows "mmu_translate s (VMM_PAGE_TABLES + 4 * vmm_table_idx va) =
    (if hw_pde s va AND PAGE_PRESENT = 0 then None else Some (pte_pa (hw_pde s va) va))"
proof -
  let ?w = "VMM_PAGE_TABLES + 4 * vmm_table_idx va"
  have d: "hw_pde s ?w = hw_pde s VMM_PAGE_DIR"
    by (simp add: hw_pde_def pde_pa_def table_window_idx)
  have "pte_pa (hw_pde s ?w) ?w = pde_pa (cr3 s) va"
    using assms unfolding d by (simp add: pte_pa_def pde_pa_def table_window_idx rec_slot_def)
  then have "hw_pte s ?w = (if hw_pde s va AND PAGE_PRESENT = 0 then None else Some (hw_pde s va))"
    using assms unfolding hw_pte_def d by (simp add: rec_slot_def hw_pde_def Let_def)
  then show ?thesis
    by (simp add: mmu_translate_def table_window_idx pte_pa_def)
qed

text \<open>What the two windows read and write.\<close>

lemma page_directory_get_rec:
  "rec_slot s \<Longrightarrow> page_directory_get (vmm_dir_idx va) s = Inr (hw_pde s va)"
  by (simp add: page_directory_get_def vload_def translate_dir_window hw_pde_def)

lemma page_directory_set_rec:
  "rec_slot s \<Longrightarrow> page_directory_set (vmm_dir_idx va) v s =
     Inr (s\<lparr>phys := (phys s)(pde_pa (cr3 s) va := v)\<rparr>)"
  by (simp add: page_directory_set_def vstore_def translate_dir_window)

lemma page_tables_get_rec:
  "rec_slot s \<Longrightarrow> hw_pde s va AND PAGE_PRESENT \<noteq> 0 \<Longrightarrow>
     page_tables_get (vmm_table_idx va) s = Inr (phys s (pte_pa (hw_pde s va) va))"
  by (simp add: page_tables_get_def vload_def translate_table_window)

lemma page_tables_set_rec:
  "rec_slot s \<Longrightarrow> hw_pde s va AND PAGE_PRESENT \<noteq> 0 \<Longrightarrow>
     page_tables_set (vmm_table_idx va) v s =
     Inr (s\<lparr>phys := (phys s)(pte_pa (hw_pde s va) va := v)\<rparr>)"
  by (simp add: page_tables_set_def vstore_def translate_table_window)

end
