(* ===== verification/Paging.thy ===== *)
theory Paging imports Machine begin

text \<open>
  The physical memory manager (\<^verbatim>\<open>kernel/mem/pmm.c\<close>) and the virtual memory manager
  (\<^verbatim>\<open>kernel/mem/vmm.c\<close>), operation by operation. The two call each other:
  \<open>pmm_alloc_page\<close> unmaps a page of its own stack with \<open>vmm_page_set\<close>, and \<open>vmm_page_set\<close>
  allocates missing page tables with \<open>pmm_alloc_page\<close>. The recursion is unrolled to depth two;
  \<open>pmm_alloc_page_eq\<close> shows that this satisfies the recursive equations of the source, because
  a nested allocation finds the allocator's lock held or the allocator not yet running.
\<close>

section \<open>Reading entries\<close>

definition vmm_page_get :: "u32 \<Rightarrow> vm \<Rightarrow> u32 res" where
  "vmm_page_get page s =
     (let page = page AND PAGE_MASK in
      andthen (page_directory_get (vmm_dir_idx page) s) (\<lambda>pde.
      if pde AND PAGE_PRESENT \<noteq> 0
      then andthen (page_tables_get (vmm_table_idx page) s) (\<lambda>pte.
        if pte AND PAGE_PRESENT \<noteq> 0 then page_tables_get (vmm_table_idx page) s else Inr 0)
      else Inr 0))"

definition vmm_table_get :: "u32 \<Rightarrow> vm \<Rightarrow> u32 res" where
  "vmm_table_get page s =
     (let page = page AND PAGE_MASK in
      andthen (page_directory_get (vmm_dir_idx page) s) (\<lambda>pde.
      if pde AND PAGE_PRESENT \<noteq> 0 then page_directory_get (vmm_dir_idx page) s else Inr 0))"

definition vmm_table_set :: "u32 \<Rightarrow> u32 \<Rightarrow> vm \<Rightarrow> vm res" where
  "vmm_table_set page value s =
     (let page = page AND PAGE_MASK in page_directory_set (vmm_dir_idx page) value s)"

section \<open>The second directory\<close>

definition vmm_exdir_set :: "u32 \<Rightarrow> vm \<Rightarrow> (u32 \<times> vm) res" where
  "vmm_exdir_set pd s =
     andthen (page_directory_get (vmm_dir_idx VMM_EXPAGE_DIR) s) (\<lambda>e.
     let old = e AND PAGE_MASK in
     andthen
       (if pd \<noteq> 0
        then page_directory_set (vmm_dir_idx VMM_EXPAGE_DIR) (pd OR PAGE_PRESENT OR PAGE_WRITE) s
        else page_directory_set (vmm_dir_idx VMM_EXPAGE_DIR) 0 s)
       (\<lambda>s. Inr (old, s)))"

definition vmm_expage_get :: "u32 \<Rightarrow> vm \<Rightarrow> u32 res" where
  "vmm_expage_get page s =
     andthen (page_directory_get (vmm_dir_idx VMM_EXPAGE_DIR) s) (\<lambda>e.
     if e = 0 then Inr 0
     else
      let page = page AND PAGE_MASK in
      andthen (expage_directory_get (vmm_dir_idx page) s) (\<lambda>pde.
      if pde AND PAGE_PRESENT \<noteq> 0
      then andthen (expage_tables_get (vmm_table_idx page) s) (\<lambda>pte.
        if pte AND PAGE_PRESENT \<noteq> 0 then expage_tables_get (vmm_table_idx page) s else Inr 0)
      else Inr 0))"

definition vmm_extable_get :: "u32 \<Rightarrow> vm \<Rightarrow> u32 res" where
  "vmm_extable_get page s =
     (let page = page AND PAGE_MASK in
      andthen (expage_directory_get (vmm_dir_idx page) s) (\<lambda>pde.
      if pde AND PAGE_PRESENT \<noteq> 0 then expage_directory_get (vmm_dir_idx page) s else Inr 0))"

definition vmm_extable_set :: "u32 \<Rightarrow> u32 \<Rightarrow> vm \<Rightarrow> vm res" where
  "vmm_extable_set page value s =
     (let page = page AND PAGE_MASK in expage_directory_set (vmm_dir_idx page) value s)"

section \<open>Making sure a page table exists, and setting an entry\<close>

type_synonym allocator = "vm \<Rightarrow> (u32 \<times> vm) res"

text \<open>
  The branch of \<open>vmm_page_touch\<close> for a kernel page once paging runs: with the kernel's master
  directory as second directory, take the table from there or allocate it and enter it in both.
\<close>

definition copy_or_new_table :: "allocator \<Rightarrow> u32 \<Rightarrow> u32 \<Rightarrow> vm \<Rightarrow> vm res" where
  "copy_or_new_table alloc page flags s =
     andthen (expage_directory_get (vmm_dir_idx page) s) (\<lambda>master.
     if master AND PAGE_PRESENT \<noteq> 0
     then andthen (expage_directory_get (vmm_dir_idx page) s) (\<lambda>e.
          page_directory_set (vmm_dir_idx page) e s)
     else andthen (alloc s) (\<lambda>(table, s).
          andthen (page_directory_set (vmm_dir_idx page) (table OR flags) s) (\<lambda>s.
          andthen (page_directory_get (vmm_dir_idx page) s) (\<lambda>e.
          expage_directory_set (vmm_dir_idx page) e s))))"

definition touch_kernel_table :: "allocator \<Rightarrow> u32 \<Rightarrow> u32 \<Rightarrow> vm \<Rightarrow> vm res" where
  "touch_kernel_table alloc page flags s =
     andthen (lock_kernel_pd s) (\<lambda>s.
     andthen (lock_exdir s) (\<lambda>s.
     andthen (vmm_exdir_set (kernel_pd s) s) (\<lambda>(old_exdir, s).
     andthen (copy_or_new_table alloc page flags s) (\<lambda>s.
     andthen (vmm_exdir_set old_exdir s) (\<lambda>(_, s).
     Inr (s\<lparr>exdir_sem := 0, kernel_pd_sem := 0\<rparr>))))))"

definition vmm_page_touch_with :: "allocator \<Rightarrow> u32 \<Rightarrow> u32 \<Rightarrow> vm \<Rightarrow> vm res" where
  "vmm_page_touch_with alloc page flags s =
     (let page = page AND PAGE_MASK; flags = flags AND PAGE_FLAG_MASK in
      andthen (page_directory_get (vmm_dir_idx page) s) (\<lambda>pde.
      if pde AND PAGE_PRESENT = 0
      then andthen
         (if KERNEL_OFFSET \<le> page \<and> vmm_running s
          then touch_kernel_table alloc page flags s
          else andthen (alloc s) (\<lambda>(table, s).
               page_directory_set (vmm_dir_idx page) (table OR flags) s))
         (\<lambda>s. vclear_page ((VMM_PAGE_TABLES + 4 * vmm_table_idx page) AND PAGE_MASK) s)
      else Inr s))"

definition vmm_page_set_with :: "allocator \<Rightarrow> u32 \<Rightarrow> u32 \<Rightarrow> vm \<Rightarrow> vm res" where
  "vmm_page_set_with alloc page value s =
     (let page = page AND PAGE_MASK in
      andthen (vmm_page_touch_with alloc page (value AND PAGE_FLAG_MASK) s) (\<lambda>s.
      page_tables_set (vmm_table_idx page) value s))"

section \<open>The physical page allocator\<close>

definition pmm_alloc_body :: "(u32 \<Rightarrow> u32 \<Rightarrow> vm \<Rightarrow> vm res) \<Rightarrow> allocator" where
  "pmm_alloc_body page_set s =
     (if \<not> pmm_running s
      then (let s = s\<lparr>pmm_pos := pmm_pos s + PAGE_SIZE\<rparr> in Inr (pmm_pos s - PAGE_SIZE, s))
      else if pmm_page_stack_ptr s = PMM_PAGE_STACK then Inl Panic
      else
       andthen (lock_pmm s) (\<lambda>s.
       andthen
         (if pmm_page_stack_ptr s < pmm_page_stack_max s - 4 * PMM_STACK_ENTRIES_PER_PAGE
          then
           (let s = s\<lparr>pmm_page_stack_max := pmm_page_stack_max s - 4 * PMM_STACK_ENTRIES_PER_PAGE\<rparr> in
            andthen (vmm_page_get (pmm_page_stack_max s) s) (\<lambda>e.
            let ret = e AND PAGE_MASK in
            andthen (page_set (pmm_page_stack_max s) 0 s) (\<lambda>s. Inr (ret, s))))
          else
           (let s = s\<lparr>pmm_page_stack_ptr := pmm_page_stack_ptr s - 4\<rparr> in
            andthen (vload (pmm_page_stack_ptr s) s) (\<lambda>ret. Inr (ret, s))))
         (\<lambda>(ret, s). Inr (ret, s\<lparr>pmm_sem := 0\<rparr>))))"

text \<open>The call depth: an allocation inside the page-table set-up of an allocation is depth one.\<close>

fun alloc_depth :: "nat \<Rightarrow> allocator" where
  "alloc_depth 0 s = Inl Hang"
| "alloc_depth (Suc d) s = pmm_alloc_body (vmm_page_set_with (alloc_depth d)) s"

definition pmm_alloc_page :: allocator where
  "pmm_alloc_page s = alloc_depth 2 s"

definition vmm_page_touch :: "u32 \<Rightarrow> u32 \<Rightarrow> vm \<Rightarrow> vm res" where
  "vmm_page_touch = vmm_page_touch_with pmm_alloc_page"

definition vmm_page_set :: "u32 \<Rightarrow> u32 \<Rightarrow> vm \<Rightarrow> vm res" where
  "vmm_page_set = vmm_page_set_with pmm_alloc_page"

definition pmm_free_page :: "u32 \<Rightarrow> vm \<Rightarrow> vm res" where
  "pmm_free_page page s =
     (let page = page AND PAGE_MASK in
      if page < pmm_pos s + PAGE_SIZE then Inr s
      else
       andthen (lock_pmm s) (\<lambda>s.
       andthen
         (if pmm_page_stack_ptr s \<ge> pmm_page_stack_max s
          then
           andthen (vmm_page_set (pmm_page_stack_max s)
               (vmm_page_val page (PAGE_PRESENT OR PAGE_WRITE)) s) (\<lambda>s.
           Inr (s\<lparr>pmm_page_stack_max := pmm_page_stack_max s + 4 * PMM_STACK_ENTRIES_PER_PAGE\<rparr>))
          else
           andthen (vstore (pmm_page_stack_ptr s) page s) (\<lambda>s.
           Inr (s\<lparr>pmm_page_stack_ptr := pmm_page_stack_ptr s + 4\<rparr>)))
         (\<lambda>s. Inr (s\<lparr>pmm_running := True, pmm_sem := 0\<rparr>))))"

section \<open>Closing the recursion\<close>

lemma vstore_fields:
  assumes "vstore a v s = Inr s'"
  shows "pmm_sem s' = pmm_sem s" "pmm_running s' = pmm_running s" "cr3 s' = cr3 s"
    "pmm_pos s' = pmm_pos s" "pmm_page_stack_ptr s' = pmm_page_stack_ptr s"
    "pmm_page_stack_max s' = pmm_page_stack_max s"
  using assms by (auto simp: vstore_def split: option.splits)

lemma exdir_set_fields:
  "vmm_exdir_set pd s = Inr (old, s') \<Longrightarrow> pmm_sem s' = pmm_sem s"
  by (auto simp: vmm_exdir_set_def page_directory_set_def Let_def andthen_eq_Inr
      dest: vstore_fields split: if_splits)

lemma copy_or_new_table_cong:
  "f s = g s \<Longrightarrow> copy_or_new_table f page flags s = copy_or_new_table g page flags s"
  by (simp add: copy_or_new_table_def cong: if_cong)

lemma touch_kernel_table_cong:
  assumes "\<And>t. pmm_sem t = pmm_sem s \<Longrightarrow> f t = g t"
  shows "touch_kernel_table f page flags s = touch_kernel_table g page flags s"
  unfolding touch_kernel_table_def
proof (intro andthen_cong refl, clarify)
  fix s1 s2 old s3
  assume 1: "lock_kernel_pd s = Inr s1" and 2: "lock_exdir s1 = Inr s2"
    and 3: "vmm_exdir_set (kernel_pd s2) s2 = Inr (old, s3)"
  have "pmm_sem s3 = pmm_sem s"
    using 1 2 exdir_set_fields [OF 3]
    by (auto simp: lock_kernel_pd_def lock_exdir_def andthen_eq_Inr)
  then show "andthen (copy_or_new_table f page flags s3) (\<lambda>s.
      andthen (vmm_exdir_set old s) (\<lambda>(_, s). Inr (s\<lparr>exdir_sem := 0, kernel_pd_sem := 0\<rparr>))) =
    andthen (copy_or_new_table g page flags s3) (\<lambda>s.
      andthen (vmm_exdir_set old s) (\<lambda>(_, s). Inr (s\<lparr>exdir_sem := 0, kernel_pd_sem := 0\<rparr>)))"
    using copy_or_new_table_cong [of f s3 g] assms by simp
qed

lemma page_set_with_cong:
  assumes "\<And>t. pmm_sem t = pmm_sem s \<Longrightarrow> f t = g t"
  shows "vmm_page_set_with f page v s = vmm_page_set_with g page v s"
  using touch_kernel_table_cong [of s f g] assms [of s] assms
  unfolding vmm_page_set_with_def vmm_page_touch_with_def Let_def
  by (intro andthen_cong refl) auto

text \<open>With the lock held, an allocation never reaches \<open>vmm_page_set\<close>.\<close>

lemma alloc_body_held:
  "pmm_sem s AND 0xFF \<noteq> 0 \<Longrightarrow> pmm_alloc_body f s = pmm_alloc_body g s"
  by (simp add: pmm_alloc_body_def lock_pmm_def spin_lock_def)

lemma alloc_body_cong:
  assumes "\<And>p v t. pmm_sem t AND 0xFF \<noteq> 0 \<Longrightarrow> f p v t = g p v t"
  shows "pmm_alloc_body f s = pmm_alloc_body g s"
proof -
  have "f p v (t\<lparr>pmm_sem := (x AND NOT 0xFF) OR 1, pmm_page_stack_max := m\<rparr>) =
    g p v (t\<lparr>pmm_sem := (x AND NOT 0xFF) OR 1, pmm_page_stack_max := m\<rparr>)" for p v t m x
  proof (rule assms)
    have "bit (((x AND NOT 0xFF) OR 1) AND 0xFF) 0" by (simp add: bit_simps)
    then show "pmm_sem (t\<lparr>pmm_sem := (x AND NOT 0xFF) OR 1, pmm_page_stack_max := m\<rparr>) AND 0xFF \<noteq> 0"
      by auto
  qed
  then show ?thesis
    by (simp add: pmm_alloc_body_def lock_pmm_def spin_lock_def Let_def)
qed

lemma alloc_depth_stable:
  "pmm_sem s AND 0xFF \<noteq> 0 \<Longrightarrow> alloc_depth (Suc d) s = alloc_depth (Suc e) s"
  by (simp add: alloc_body_held)

lemma pmm_alloc_page_eq: "pmm_alloc_page s = pmm_alloc_body vmm_page_set s"
proof -
  have "vmm_page_set_with (alloc_depth (Suc 0)) p v t = vmm_page_set_with (alloc_depth 2) p v t"
    if "pmm_sem t AND 0xFF \<noteq> 0" for p v t
    using that alloc_depth_stable [of _ 0 "Suc 0"]
    by (intro page_set_with_cong) (metis numeral_2_eq_2)
  moreover have "vmm_page_set = vmm_page_set_with (alloc_depth 2)"
    unfolding vmm_page_set_def pmm_alloc_page_def by (rule refl)
  ultimately show ?thesis
    unfolding pmm_alloc_page_def numeral_2_eq_2 alloc_depth.simps
    by (intro alloc_body_cong) (simp add: numeral_2_eq_2)
qed

end
