(* ===== verification/Tables.thy ===== *)
theory Tables imports Paging begin

text \<open>
  What \<open>vmm_page_get\<close> and \<open>vmm_page_set\<close> do to the translations of the MMU. \<open>tables_ok\<close>
  is the shape of the address space they keep: the recursive slot is in place and the page
  tables of different directory slots lie in different frames, none of them the directory's
  own. The last two slots are the windows and are left out.
\<close>

section \<open>Frames\<close>

definition frame :: "u32 \<Rightarrow> u32" where
  "frame a = a AND PAGE_MASK"

definition mapped_dir :: "vm \<Rightarrow> u32 \<Rightarrow> bool" where
  "mapped_dir s va \<longleftrightarrow> hw_pde s va AND PAGE_PRESENT \<noteq> 0"

definition table_frame :: "vm \<Rightarrow> u32 \<Rightarrow> u32" where
  "table_frame s va = frame (hw_pde s va)"

definition tables_ok :: "vm \<Rightarrow> bool" where
  "tables_ok s \<longleftrightarrow> rec_slot s \<and>
     (\<forall>x. vmm_dir_idx x < 1022 \<longrightarrow> mapped_dir s x \<longrightarrow> table_frame s x \<noteq> frame (cr3 s)) \<and>
     (\<forall>x y. vmm_dir_idx x < 1022 \<longrightarrow> vmm_dir_idx y < 1022 \<longrightarrow> mapped_dir s x \<longrightarrow> mapped_dir s y \<longrightarrow>
        table_frame s x = table_frame s y \<longrightarrow> vmm_dir_idx x = vmm_dir_idx y)"

lemma frame_pde_pa [simp]: "frame (pde_pa d x) = frame d"
  unfolding frame_def pde_pa_def four_times
  by (rule bit_word_eqI) (auto simp: bit_simps bitw dest: word_bit_less)

lemma frame_pte_pa [simp]: "frame (pte_pa e x) = frame e"
  unfolding frame_def pte_pa_def
  by (rule bit_word_eqI) (auto simp: bit_simps bitw dest: word_bit_less)

lemma offset_pte_pa: "pte_pa e x AND PAGE_FLAG_MASK = 4 * (drop_bit 12 x AND 0x3FF)"
  unfolding pte_pa_def
  by (rule bit_word_eqI) (auto simp: bit_simps bitw dest: word_bit_less)

lemma pde_pa_cong: "vmm_dir_idx x = vmm_dir_idx y \<Longrightarrow> pde_pa d x = pde_pa d y"
  by (simp add: pde_pa_def vmm_dir_idx_def)

lemma pde_pa_eq: "pde_pa d x = pde_pa d y \<longleftrightarrow> vmm_dir_idx x = vmm_dir_idx y"
proof
  assume "pde_pa d x = pde_pa d y"
  then have e: "bit (pde_pa d x) n = bit (pde_pa d y) n" for n by simp
  show "vmm_dir_idx x = vmm_dir_idx y"
    unfolding vmm_dir_idx_def
  proof (rule bit_word_eqI)
    fix n assume "n < LENGTH(32)"
    show "bit (drop_bit 22 x) n = bit (drop_bit 22 y) n"
      using e [of "n + 2"] unfolding pde_pa_def four_times
      by (auto simp: bit_simps bitw dest: word_bit_less)
  qed
qed (rule pde_pa_cong)

lemma hw_pde_cong: "vmm_dir_idx x = vmm_dir_idx y \<Longrightarrow> hw_pde s x = hw_pde s y"
  by (simp add: hw_pde_def pde_pa_cong [of x y])

lemma table_idx_dir_idx: "vmm_table_idx x = vmm_table_idx y \<Longrightarrow> vmm_dir_idx x = vmm_dir_idx y"
proof -
  have d: "vmm_dir_idx z = drop_bit 10 (vmm_table_idx z)" for z
    by (simp add: vmm_dir_idx_def vmm_table_idx_def)
  show "vmm_table_idx x = vmm_table_idx y \<Longrightarrow> vmm_dir_idx x = vmm_dir_idx y" by (simp add: d)
qed

lemma pte_pa_cong: "vmm_table_idx x = vmm_table_idx y \<Longrightarrow> pte_pa e x = pte_pa e y"
  by (simp add: pte_pa_def vmm_table_idx_def)

lemma bit_pte_pa:
  "n < 10 \<Longrightarrow> bit (pte_pa e x) (n + 2) \<longleftrightarrow> bit (drop_bit 12 x) n"
  unfolding pte_pa_def four_times by (auto simp: bit_simps bitw)

lemma pte_pa_inj:
  assumes "pte_pa e x = pte_pa e y" and "vmm_dir_idx x = vmm_dir_idx y"
  shows "vmm_table_idx x = vmm_table_idx y"
  unfolding vmm_table_idx_def
proof (rule bit_word_eqI)
  fix n assume n: "n < LENGTH(32)"
  show "bit (drop_bit 12 x) n = bit (drop_bit 12 y) n"
  proof (cases "n < 10")
    case True
    with assms(1) show ?thesis using bit_pte_pa [of n e x] bit_pte_pa [of n e y] by simp
  next
    case False
    have "bit (drop_bit 22 x) (n - 10) = bit (drop_bit 22 y) (n - 10)"
      using assms(2) by (simp add: vmm_dir_idx_def)
    with False show ?thesis by (simp add: bit_simps)
  qed
qed

lemma page_base_idx [simp]:
  "hw_pde s (x AND PAGE_MASK) = hw_pde s x" "pte_pa e (x AND PAGE_MASK) = pte_pa e x"
  by (auto intro: hw_pde_cong pte_pa_cong)

section \<open>Reading a page table entry\<close>

lemma page_directory_get_base:
  "rec_slot s \<Longrightarrow> page_directory_get (vmm_dir_idx va) s = Inr (hw_pde s va)"
  by (rule page_directory_get_rec)

lemma vmm_page_get_hw:
  "rec_slot s \<Longrightarrow> vmm_page_get va s = Inr (case hw_pte s va of None \<Rightarrow> 0 | Some e \<Rightarrow> e)"
  by (simp add: vmm_page_get_def Let_def page_directory_get_rec page_tables_get_rec hw_pte_def)

lemma vmm_table_get_hw:
  "rec_slot s \<Longrightarrow> vmm_table_get va s = Inr (if mapped_dir s va then hw_pde s va else 0)"
  by (simp add: vmm_table_get_def Let_def page_directory_get_rec mapped_dir_def)

section \<open>Writes and the translations they leave alone\<close>

lemma tables_ok_rec: "tables_ok s \<Longrightarrow> rec_slot s"
  by (simp add: tables_ok_def)

text \<open>A write outside the directory's frame keeps every directory entry.\<close>

lemma hw_pde_write:
  assumes "cr3 s' = cr3 s" and "\<And>a. frame a = frame (cr3 s) \<Longrightarrow> phys s' a = phys s a"
  shows "hw_pde s' x = hw_pde s x"
  using assms by (simp add: hw_pde_def)

lemma tables_ok_write:
  assumes "tables_ok s" and "cr3 s' = cr3 s"
    and "\<And>a. frame a = frame (cr3 s) \<Longrightarrow> phys s' a = phys s a"
  shows "tables_ok s'"
  using assms hw_pde_write [OF assms(2,3)]
  by (simp add: tables_ok_def rec_slot_def mapped_dir_def table_frame_def)

lemma hw_pte_write:
  assumes "cr3 s' = cr3 s" and "\<And>a. frame a = frame (cr3 s) \<Longrightarrow> phys s' a = phys s a"
    and "mapped_dir s x \<Longrightarrow> phys s' (pte_pa (hw_pde s x) x) = phys s (pte_pa (hw_pde s x) x)"
  shows "hw_pte s' x = hw_pte s x"
  using assms(3) hw_pde_write [OF assms(1,2)] by (simp add: hw_pte_def mapped_dir_def Let_def)

section \<open>Setting an entry of an existing table\<close>

lemma page_set_present:
  assumes "rec_slot s" and "mapped_dir s va"
  shows "vmm_page_set_with f va v s = Inr (s\<lparr>phys := (phys s)(pte_pa (hw_pde s va) va := v)\<rparr>)"
  using assms
  by (simp add: vmm_page_set_with_def vmm_page_touch_with_def Let_def page_directory_get_rec
      page_tables_set_rec mapped_dir_def)

definition set_pte :: "vm \<Rightarrow> u32 \<Rightarrow> u32 \<Rightarrow> vm" where
  "set_pte s va v = s\<lparr>phys := (phys s)(pte_pa (hw_pde s va) va := v)\<rparr>"

lemma set_pte_fields [simp]:
  "cr3 (set_pte s va v) = cr3 s" "pmm_sem (set_pte s va v) = pmm_sem s"
  "pmm_running (set_pte s va v) = pmm_running s" "pmm_pos (set_pte s va v) = pmm_pos s"
  "pmm_page_stack_ptr (set_pte s va v) = pmm_page_stack_ptr s"
  "pmm_page_stack_max (set_pte s va v) = pmm_page_stack_max s"
  by (simp_all add: set_pte_def)

lemma set_pte_effect:
  assumes ok: "tables_ok s" and va: "vmm_dir_idx va < 1022" "mapped_dir s va"
  shows "tables_ok (set_pte s va v)"
    and "hw_pde (set_pte s va v) x = hw_pde s x"
    and "hw_pte (set_pte s va v) va = (if v AND PAGE_PRESENT = 0 then None else Some v)"
    and "vmm_dir_idx x < 1022 \<Longrightarrow> vmm_table_idx x \<noteq> vmm_table_idx va \<Longrightarrow>
           hw_pte (set_pte s va v) x = hw_pte s x"
proof -
  have off: "frame (cr3 s) \<noteq> frame (pte_pa (hw_pde s va) va)"
    using ok va by (auto simp: tables_ok_def table_frame_def)
  have dir: "phys (set_pte s va v) a = phys s a" if "frame a = frame (cr3 s)" for a
    using that off by (auto simp: set_pte_def)
  show "tables_ok (set_pte s va v)" by (rule tables_ok_write [OF ok _ dir]) simp
  show pde: "hw_pde (set_pte s va v) x = hw_pde s x" for x by (rule hw_pde_write [OF _ dir]) simp
  show "hw_pte (set_pte s va v) va = (if v AND PAGE_PRESENT = 0 then None else Some v)"
    using va(2) pde [of va] by (simp add: hw_pte_def mapped_dir_def set_pte_def Let_def)
  show "hw_pte (set_pte s va v) x = hw_pte s x"
    if x: "vmm_dir_idx x < 1022" "vmm_table_idx x \<noteq> vmm_table_idx va"
  proof (rule hw_pte_write [OF _ dir])
    assume "mapped_dir s x"
    have "pte_pa (hw_pde s x) x \<noteq> pte_pa (hw_pde s va) va"
    proof
      assume eq: "pte_pa (hw_pde s x) x = pte_pa (hw_pde s va) va"
      then have "frame (hw_pde s x) = frame (hw_pde s va)" by (metis frame_pte_pa)
      then have d: "vmm_dir_idx x = vmm_dir_idx va"
        using ok va x \<open>mapped_dir s x\<close> by (auto simp: tables_ok_def table_frame_def)
      then have "hw_pde s x = hw_pde s va" by (rule hw_pde_cong)
      with eq d x(2) show False using pte_pa_inj [of "hw_pde s va" x va] by simp
    qed
    then show "phys (set_pte s va v) (pte_pa (hw_pde s x) x) = phys s (pte_pa (hw_pde s x) x)"
      by (simp add: set_pte_def)
  qed simp
qed

end
