(* ===== verification/Pmm.thy ===== *)
theory Pmm imports Tables "HOL-Library.Multiset" begin

text \<open>
  Correctness of the physical page allocator of \<^verbatim>\<open>kernel/mem/pmm.c\<close> against a bag of free
  pages. The free pages are kept on a stack at virtual address \<open>PMM_PAGE_STACK\<close>, which is
  itself built from free pages: \<open>pmm_pages\<close> of them are mapped below \<open>pmm_page_stack_max\<close>,
  and \<open>pmm_entries\<close> entries below \<open>pmm_page_stack_ptr\<close> hold addresses. \<open>avail\<close> lists both
  kinds. Under the invariant \<open>pmm_ok\<close>, allocation takes one page out of this bag and freeing
  puts one in.
\<close>

section \<open>Addresses of the page stack\<close>

definition eaddr :: "nat \<Rightarrow> u32" where
  "eaddr k = PMM_PAGE_STACK + 4 * of_nat k"

definition spage :: "nat \<Rightarrow> u32" where
  "spage i = eaddr (1024 * i)"

lemma unat_eaddr: "k \<le> 1048576 \<Longrightarrow> unat (eaddr k) = 0xFE000000 + 4 * k"
proof -
  assume k: "k \<le> 1048576"
  have "unat (of_nat k :: u32) = k"
    using k by (simp add: unsigned_of_nat take_bit_nat_eq_self)
  then have "unat (4 * of_nat k :: u32) = 4 * k"
    using k by (subst unat_mult_lem [THEN iffD1]) auto
  then show ?thesis
    using k unfolding eaddr_def PMM_PAGE_STACK_def
    by (subst unat_add_lem [THEN iffD1]) auto
qed

lemma eaddr_inj: "k \<le> 1048576 \<Longrightarrow> l \<le> 1048576 \<Longrightarrow> eaddr k = eaddr l \<longleftrightarrow> k = l"
  by (metis unat_eaddr add_left_cancel mult_cancel1 zero_neq_numeral)

lemma eaddr_less: "k \<le> 1048576 \<Longrightarrow> l \<le> 1048576 \<Longrightarrow> eaddr k < eaddr l \<longleftrightarrow> k < l"
  by (simp add: word_less_nat_alt unat_eaddr)

lemma eaddr_Suc: "eaddr k + 4 = eaddr (Suc k)"
  by (simp add: eaddr_def)

lemma eaddr_pred: "0 < k \<Longrightarrow> eaddr k - 4 = eaddr (k - 1)"
  by (cases k) (simp_all add: eaddr_def)

lemma stack_page_size: "4 * PMM_STACK_ENTRIES_PER_PAGE = 0x1000"
  by (simp add: PMM_STACK_ENTRIES_PER_PAGE_def)

lemma spage_Suc: "spage i + 0x1000 = spage (Suc i)"
  by (simp add: spage_def eaddr_def algebra_simps)

lemma spage_pred: "0 < i \<Longrightarrow> spage i - 0x1000 = spage (i - 1)"
  using spage_Suc [of "i - 1"] by (simp add: algebra_simps)

lemma unat_spage: "i \<le> 1024 \<Longrightarrow> unat (spage i) = 0xFE000000 + 4096 * i"
  by (simp add: spage_def unat_eaddr)

lemma spage_base: "PMM_PAGE_STACK = spage 0"
  by (simp add: spage_def eaddr_def)

lemma table_idx_eaddr: "k < 1048576 \<Longrightarrow> vmm_table_idx (eaddr k) = vmm_table_idx (spage (k div 1024))"
proof -
  assume k: "k < 1048576"
  have "(0xFE000000 + 4 * k) div 4096 = (0xFE000000 + 4096 * (k div 1024)) div 4096" by simp
  then show ?thesis
    using k by (simp add: vmm_table_idx_def word_unat_eq_iff drop_bit_eq_div unat_div_distrib
        unat_eaddr unat_spage)
qed

lemma dir_idx_eaddr: "k < 1048576 \<Longrightarrow> vmm_dir_idx (eaddr k) = 0x3F8"
proof -
  assume k: "k < 1048576"
  then have "(0xFE000000 + 4 * k) div 4194304 = 1016" by simp
  then show ?thesis
    using k by (simp add: vmm_dir_idx_def word_unat_eq_iff drop_bit_eq_div unat_div_distrib unat_eaddr)
qed

lemma dir_idx_spage: "i < 1024 \<Longrightarrow> vmm_dir_idx (spage i) = 0x3F8"
  by (simp add: spage_def dir_idx_eaddr)

lemma table_idx_spage_inj:
  "i < 1024 \<Longrightarrow> j < 1024 \<Longrightarrow> vmm_table_idx (spage i) = vmm_table_idx (spage j) \<longleftrightarrow> i = j"
  by (auto simp: vmm_table_idx_def word_unat_eq_iff drop_bit_eq_div unat_div_distrib unat_spage)

lemma offset_eaddr:
  "k < 1048576 \<Longrightarrow> eaddr k AND PAGE_FLAG_MASK = 4 * of_nat (k mod 1024)"
proof -
  assume k: "k < 1048576"
  have "unat (eaddr k AND mask 12) = (0xFE000000 + 4 * k) mod 4096"
    using k by (simp add: take_bit_eq_mask [symmetric] take_bit_eq_mod unat_mod_distrib unat_eaddr)
  also have "\<dots> = (4 * k + 1040384 * 4096) mod 4096" by (simp only: add.commute) simp
  also have "\<dots> = 4 * (k mod 1024)"
    using mult_mod_right [of 4 k 1024] by (simp only: mod_mult_self1) simp
  also have "\<dots> = unat (4 * of_nat (k mod 1024) :: u32)"
  proof -
    have m: "k mod 1024 < 1024" by simp
    then have "unat (of_nat (k mod 1024) :: u32) = k mod 1024"
      by (simp add: unsigned_of_nat take_bit_nat_eq_self)
    then show ?thesis using m by (subst unat_mult_lem [THEN iffD1]) auto
  qed
  finally show ?thesis by (simp add: PAGE_FLAG_MASK_mask word_unat_eq_iff)
qed

section \<open>The bag of free pages\<close>

definition sframe :: "vm \<Rightarrow> nat \<Rightarrow> u32" where
  "sframe s i = (case hw_pte s (spage i) of None \<Rightarrow> 0 | Some e \<Rightarrow> frame e)"

definition entry_pa :: "vm \<Rightarrow> nat \<Rightarrow> u32" where
  "entry_pa s k = sframe s (k div 1024) OR 4 * of_nat (k mod 1024)"

definition entry :: "vm \<Rightarrow> nat \<Rightarrow> u32" where
  "entry s k = phys s (entry_pa s k)"

definition pmm_pages :: "vm \<Rightarrow> nat" where
  "pmm_pages s = unat (pmm_page_stack_max s - PMM_PAGE_STACK) div 4096"

definition pmm_entries :: "vm \<Rightarrow> nat" where
  "pmm_entries s = unat (pmm_page_stack_ptr s - PMM_PAGE_STACK) div 4"

definition avail :: "vm \<Rightarrow> u32 list" where
  "avail s = map (entry s) [0..<pmm_entries s] @ map (sframe s) [0..<pmm_pages s]"

text \<open>A frame that holds neither the directory nor a page table.\<close>

definition no_table :: "vm \<Rightarrow> u32 \<Rightarrow> bool" where
  "no_table s f \<longleftrightarrow> f \<noteq> frame (cr3 s) \<and>
     (\<forall>x. vmm_dir_idx x < 1022 \<longrightarrow> mapped_dir s x \<longrightarrow> table_frame s x \<noteq> f)"

definition stack_ok :: "vm \<Rightarrow> nat \<Rightarrow> nat \<Rightarrow> bool" where
  "stack_ok s np ne \<longleftrightarrow> tables_ok s \<and> mapped_dir s PMM_PAGE_STACK \<and>
     pmm_page_stack_max s = spage np \<and> pmm_page_stack_ptr s = eaddr ne \<and>
     ne \<le> 1024 * np \<and> np \<le> 1024 \<and>
     (\<forall>i<np. hw_pte s (spage i) \<noteq> None \<and> no_table s (sframe s i)) \<and> inj_on (sframe s) {..<np}"

definition pmm_ok :: "vm \<Rightarrow> bool" where
  "pmm_ok s \<longleftrightarrow> pmm_running s \<and> pmm_sem s = 0 \<and> stack_ok s (pmm_pages s) (pmm_entries s)"

lemma eaddr_diff: "k \<le> 1048576 \<Longrightarrow> unat (eaddr k - PMM_PAGE_STACK) = 4 * k"
proof -
  assume k: "k \<le> 1048576"
  have "eaddr k - PMM_PAGE_STACK = 4 * of_nat k" by (simp add: eaddr_def)
  moreover have "unat (of_nat k :: u32) = k"
    using k by (simp add: unsigned_of_nat take_bit_nat_eq_self)
  ultimately show ?thesis using k by simp (subst unat_mult_lem [THEN iffD1], auto)
qed

lemma stack_ok_counts:
  assumes "stack_ok s np ne"
  shows "pmm_pages s = np" "pmm_entries s = ne"
  using assms eaddr_diff [of "1024 * np"] eaddr_diff [of ne]
  by (auto simp: stack_ok_def pmm_pages_def pmm_entries_def spage_def)

lemma pmm_okI: "pmm_running s \<Longrightarrow> pmm_sem s = 0 \<Longrightarrow> stack_ok s np ne \<Longrightarrow> pmm_ok s"
  using stack_ok_counts [of s np ne] by (simp add: pmm_ok_def)

lemma mapped_dir_cong: "vmm_dir_idx x = vmm_dir_idx y \<Longrightarrow> mapped_dir s x = mapped_dir s y"
  by (simp add: mapped_dir_def hw_pde_cong [of x y])

lemma dir_idx_stack: "vmm_dir_idx PMM_PAGE_STACK = 0x3F8"
  by (simp add: spage_base dir_idx_spage)

lemma mapped_spage: "mapped_dir s PMM_PAGE_STACK \<Longrightarrow> i < 1024 \<Longrightarrow> mapped_dir s (spage i)"
  using mapped_dir_cong [of "spage i" PMM_PAGE_STACK s] by (simp add: dir_idx_spage dir_idx_stack)

lemma hw_pte_cong: "vmm_table_idx x = vmm_table_idx y \<Longrightarrow> hw_pte s x = hw_pte s y"
  using hw_pde_cong [OF table_idx_dir_idx, of x y s] pte_pa_cong [of x y]
  by (simp add: hw_pte_def)

lemma translate_eaddr:
  assumes "hw_pte s (spage (k div 1024)) \<noteq> None" and "k < 1048576"
  shows "mmu_translate s (eaddr k) = Some (entry_pa s k)"
  using assms hw_pte_cong [OF table_idx_eaddr [OF assms(2)], of s] offset_eaddr [OF assms(2)]
  by (auto simp: mmu_translate_def entry_pa_def sframe_def frame_def)

lemma frame_entry_pa: "frame (entry_pa s k) = sframe s (k div 1024)"
proof -
  have m: "k mod 1024 < 1024" by simp
  have "(4 :: u32) * of_nat (k mod 1024) AND PAGE_MASK = 0"
  proof -
    have "4 * of_nat (k mod 1024) AND PAGE_FLAG_MASK = (4 * of_nat (k mod 1024) :: u32)"
    proof -
      have "unat (of_nat (k mod 1024) :: u32) = k mod 1024"
        using m by (simp add: unsigned_of_nat take_bit_nat_eq_self)
      then have "unat (4 * of_nat (k mod 1024) :: u32) = 4 * (k mod 1024)"
        using m by (subst unat_mult_lem [THEN iffD1]) auto
      then show ?thesis
        using m by (simp add: PAGE_FLAG_MASK_mask take_bit_eq_mask [symmetric] word_unat_eq_iff
            unsigned_take_bit_eq take_bit_nat_eq_self)
    qed
    then show ?thesis
      by (metis PAGE_FLAG_MASK_mask PAGE_MASK_mask and.assoc and.right_neutral and_zero_eq bit.conj_cancel_right)
  qed
  moreover have "sframe s (k div 1024) AND PAGE_MASK = sframe s (k div 1024)"
    by (auto simp: sframe_def frame_def split: option.splits)
  ultimately show ?thesis
    by (simp add: entry_pa_def frame_def bit.conj_disj_distrib2)
qed

section \<open>States with the same tables\<close>

text \<open>
  The operations change the allocator's variables and write either into a frame of the
  stack or one entry of the stack's page table.
\<close>

lemma same_mem:
  assumes "phys t = phys s" "cr3 t = cr3 s"
  shows "hw_pde t = hw_pde s" "hw_pte t = hw_pte s" "tables_ok t = tables_ok s"
    "mapped_dir t = mapped_dir s" "sframe t = sframe s" "no_table t = no_table s"
    "entry t = entry s" "mmu_translate t = mmu_translate s"
proof -
  show pde: "hw_pde t = hw_pde s" using assms by (simp add: hw_pde_def fun_eq_iff)
  show pte: "hw_pte t = hw_pte s" using assms pde by (simp add: hw_pte_def fun_eq_iff)
  show m: "mapped_dir t = mapped_dir s" by (simp add: mapped_dir_def fun_eq_iff pde)
  show "tables_ok t = tables_ok s"
    using assms by (simp add: tables_ok_def rec_slot_def m table_frame_def pde)
  show sf: "sframe t = sframe s" by (simp add: sframe_def fun_eq_iff pte)
  show "no_table t = no_table s" using assms by (simp add: no_table_def fun_eq_iff m table_frame_def pde)
  show "entry t = entry s" using assms by (simp add: entry_def entry_pa_def fun_eq_iff sf)
  show "mmu_translate t = mmu_translate s" by (simp add: mmu_translate_def fun_eq_iff pte)
qed

lemmas vars_same_mem [simp] =
  same_mem [of "s\<lparr>pmm_sem := x\<rparr>" s for s x, simplified]
  same_mem [of "s\<lparr>pmm_running := x\<rparr>" s for s x, simplified]
  same_mem [of "s\<lparr>pmm_pos := x\<rparr>" s for s x, simplified]
  same_mem [of "s\<lparr>pmm_page_stack_max := x\<rparr>" s for s x, simplified]
  same_mem [of "s\<lparr>pmm_page_stack_ptr := x\<rparr>" s for s x, simplified]

lemma rec_slot_vars [simp]:
  "rec_slot (s\<lparr>pmm_sem := x\<rparr>) = rec_slot s"
  "rec_slot (s\<lparr>pmm_page_stack_max := m\<rparr>) = rec_slot s"
  "rec_slot (s\<lparr>pmm_page_stack_ptr := m\<rparr>) = rec_slot s"
  by (simp_all add: rec_slot_def)

lemma stack_ok_facts:
  assumes "stack_ok s np ne"
  shows "tables_ok s" "rec_slot s" "mapped_dir s PMM_PAGE_STACK" "ne \<le> 1024 * np" "np \<le> 1024"
    "pmm_page_stack_max s = spage np" "pmm_page_stack_ptr s = eaddr ne"
    "inj_on (sframe s) {..<np}"
  using assms by (auto simp: stack_ok_def tables_ok_def)

lemma stack_ok_page:
  "stack_ok s np ne \<Longrightarrow> i < np \<Longrightarrow> hw_pte s (spage i) \<noteq> None"
  "stack_ok s np ne \<Longrightarrow> i < np \<Longrightarrow> no_table s (sframe s i)"
  by (auto simp: stack_ok_def)

lemma stack_ok_entry_page: "stack_ok s np ne \<Longrightarrow> k < ne \<Longrightarrow> k div 1024 < np"
  using stack_ok_facts(4) [of s np ne] by (simp add: less_mult_imp_div_less mult.commute)

section \<open>Taking a page\<close>

lemma set_pte_sframe:
  assumes ok: "tables_ok s" "mapped_dir s PMM_PAGE_STACK" and i: "i < 1024" "j < 1024" "i \<noteq> j"
  shows "hw_pte (set_pte s (spage j) v) (spage i) = hw_pte s (spage i)"
    "sframe (set_pte s (spage j) v) i = sframe s i"
proof -
  have "vmm_table_idx (spage i) \<noteq> vmm_table_idx (spage j)"
    using i table_idx_spage_inj by blast
  then show "hw_pte (set_pte s (spage j) v) (spage i) = hw_pte s (spage i)"
    using ok i by (intro set_pte_effect(4)) (auto simp: dir_idx_spage mapped_spage)
  then show "sframe (set_pte s (spage j) v) i = sframe s i" by (simp add: sframe_def)
qed

lemma set_pte_no_table:
  assumes "tables_ok s" "mapped_dir s PMM_PAGE_STACK" "j < 1024"
  shows "no_table (set_pte s (spage j) v) = no_table s"
    "mapped_dir (set_pte s (spage j) v) = mapped_dir s" "tables_ok (set_pte s (spage j) v)"
proof -
  have j: "vmm_dir_idx (spage j) < 1022" "mapped_dir s (spage j)"
    using assms by (auto simp: dir_idx_spage mapped_spage)
  have pde: "hw_pde (set_pte s (spage j) v) x = hw_pde s x" for x
    by (rule set_pte_effect(2) [OF assms(1) j])
  show "mapped_dir (set_pte s (spage j) v) = mapped_dir s"
    by (simp add: mapped_dir_def fun_eq_iff pde)
  then show "no_table (set_pte s (spage j) v) = no_table s"
    by (simp add: no_table_def fun_eq_iff table_frame_def pde)
  show "tables_ok (set_pte s (spage j) v)" by (rule set_pte_effect(1) [OF assms(1) j])
qed

text \<open>Entries of the stack live in stack frames, which no page table entry write reaches.\<close>

lemma set_pte_entry:
  assumes st: "stack_ok s np ne" and k: "k < ne" "k div 1024 \<noteq> j" and j: "j < 1024"
  shows "entry (set_pte s (spage j) v) k = entry s k"
proof -
  note f = stack_ok_facts [OF st]
  have k': "k div 1024 < np" by (rule stack_ok_entry_page [OF st k(1)])
  have sf: "sframe (set_pte s (spage j) v) (k div 1024) = sframe s (k div 1024)"
    using f k k' j by (intro set_pte_sframe) auto
  have "table_frame s (spage j) \<noteq> sframe s (k div 1024)"
    using stack_ok_page(2) [OF st k'] mapped_spage [OF f(3) j] dir_idx_spage [OF j]
    by (auto simp: no_table_def)
  then have "entry_pa s k \<noteq> pte_pa (hw_pde s (spage j)) (spage j)"
    using frame_entry_pa [of s k] by (auto simp: table_frame_def)
  then show ?thesis by (simp add: entry_def entry_pa_def sf) (simp add: set_pte_def entry_pa_def)
qed

lemma alloc_from_stack_page:
  assumes st: "stack_ok s (Suc m) ne" and run: "pmm_running s" "pmm_sem s = 0"
    and low: "0 < ne" "ne < 1024 * m"
  shows "\<exists>s'. pmm_alloc_page s = Inr (sframe s m, s') \<and> pmm_running s' \<and> pmm_sem s' = 0 \<and>
    stack_ok s' m ne \<and> (\<forall>k<ne. entry s' k = entry s k) \<and>
    (\<forall>i<m. sframe s' i = sframe s i) \<and> pmm_pos s' = pmm_pos s"
proof -
  note f = stack_ok_facts [OF st]
  let ?s1 = "s\<lparr>pmm_sem := 1, pmm_page_stack_max := spage m\<rparr>"
  let ?s2 = "set_pte ?s1 (spage m) 0"
  have m: "m < 1024" using f(5) by simp
  have ptr: "pmm_page_stack_ptr s \<noteq> PMM_PAGE_STACK"
    using f low by (simp add: spage_base spage_def eaddr_inj)
  have max: "pmm_page_stack_max s - 0x1000 = spage m"
    using f spage_pred [of "Suc m"] by simp
  have guard: "pmm_page_stack_ptr s < spage m"
    using f low m by (simp add: spage_def eaddr_less)
  have get: "vmm_page_get (spage m) ?s1 = Inr (case hw_pte s (spage m) of None \<Rightarrow> 0 | Some e \<Rightarrow> e)"
    using f by (subst vmm_page_get_hw) auto
  have ret: "(case hw_pte s (spage m) of None \<Rightarrow> 0 | Some e \<Rightarrow> e) AND PAGE_MASK = sframe s m"
    by (auto simp: sframe_def frame_def split: option.splits)
  have set: "vmm_page_set (spage m) 0 ?s1 = Inr ?s2"
    unfolding vmm_page_set_def set_pte_def
    using f mapped_spage [OF f(3) m] by (intro page_set_present) auto
  have "pmm_alloc_page s = Inr (sframe s m, ?s2\<lparr>pmm_sem := 0\<rparr>)"
    using run ptr guard max get ret set
    by (simp add: pmm_alloc_page_eq pmm_alloc_body_def lock_pmm_def Let_def stack_page_size)
  moreover have st1: "stack_ok ?s1 m ne"
    using st low m unfolding stack_ok_def by (auto intro: inj_on_subset)
  have "entry ?s2 k = entry s k" if k: "k < ne" for k
    using set_pte_entry [OF st1 k _ m] k low by (auto simp: less_mult_imp_div_less mult.commute)
  moreover have sf: "sframe ?s2 i = sframe s i" "hw_pte ?s2 (spage i) = hw_pte s (spage i)" if "i < m" for i
    using set_pte_sframe [of ?s1 i m 0] f that m by auto
  moreover have "stack_ok (?s2\<lparr>pmm_sem := 0\<rparr>) m ne"
  proof -
    have "inj_on (sframe ?s2) {..<m}"
      using f(8) sf by (auto simp: inj_on_def)
    then show ?thesis
      using st low m sf set_pte_no_table [of ?s1 m 0] f(1,3) unfolding stack_ok_def by auto
  qed
  ultimately show ?thesis
    using run by (intro exI [of _ "?s2\<lparr>pmm_sem := 0\<rparr>"]) auto
qed

lemma alloc_from_entries:
  assumes st: "stack_ok s np (Suc n)" and run: "pmm_running s" "pmm_sem s = 0"
    and high: "1024 * (np - 1) \<le> Suc n"
  shows "\<exists>s'. pmm_alloc_page s = Inr (entry s n, s') \<and> pmm_running s' \<and> pmm_sem s' = 0 \<and>
    stack_ok s' np n \<and> entry s' = entry s \<and> sframe s' = sframe s \<and> pmm_pos s' = pmm_pos s"
proof -
  note f = stack_ok_facts [OF st]
  have np: "0 < np" using f(4) by (cases np) auto
  have n: "Suc n \<le> 1048576" using f(4,5) by simp
  have "pmm_page_stack_ptr s \<noteq> PMM_PAGE_STACK"
    using f n by (simp add: spage_base spage_def eaddr_inj)
  moreover have "\<not> pmm_page_stack_ptr s < pmm_page_stack_max s - 0x1000"
    using f n np high by (simp add: spage_pred) (simp add: spage_def eaddr_less)
  moreover have "vload (eaddr n) (s\<lparr>pmm_sem := 1, pmm_page_stack_ptr := eaddr n\<rparr>) = Inr (entry s n)"
    using stack_ok_page(1) [OF st stack_ok_entry_page [OF st, of n]] n
    by (simp add: vload_def translate_eaddr entry_def)
  ultimately have "pmm_alloc_page s =
      Inr (entry s n, s\<lparr>pmm_page_stack_ptr := eaddr n, pmm_sem := 0\<rparr>)"
    using run f eaddr_pred [of "Suc n"]
    by (simp add: pmm_alloc_page_eq pmm_alloc_body_def lock_pmm_def Let_def stack_page_size)
  moreover have "stack_ok (s\<lparr>pmm_page_stack_ptr := eaddr n, pmm_sem := 0\<rparr>) np n"
    using st unfolding stack_ok_def by auto
  ultimately show ?thesis
    using run by (intro exI [of _ "s\<lparr>pmm_page_stack_ptr := eaddr n, pmm_sem := 0\<rparr>"]) auto
qed

section \<open>Returning a page\<close>

lemma room_next: "np < 1024 \<Longrightarrow> spage np + 0x1000 = spage (Suc np)"
  by (rule spage_Suc)

lemma free_to_stack_page:
  assumes st: "stack_ok s np (1024 * np)" and run: "pmm_sem s = 0"
    and p: "p AND PAGE_MASK \<ge> pmm_pos s + PAGE_SIZE" and room: "np < 1024"
    and fresh: "no_table s (frame p)" "frame p \<notin> sframe s ` {..<np}"
  shows "\<exists>s'. pmm_free_page p s = Inr s' \<and> pmm_running s' \<and> pmm_sem s' = 0 \<and>
    stack_ok s' (Suc np) (1024 * np) \<and> (\<forall>k<1024 * np. entry s' k = entry s k) \<and>
    (\<forall>i<np. sframe s' i = sframe s i) \<and> sframe s' np = frame p \<and> pmm_pos s' = pmm_pos s"
proof -
  note f = stack_ok_facts [OF st]
  let ?s1 = "s\<lparr>pmm_sem := 1\<rparr>"
  let ?v = "vmm_page_val (p AND PAGE_MASK) (PAGE_PRESENT OR PAGE_WRITE)"
  let ?s2 = "set_pte ?s1 (spage np) ?v"
  let ?s3 = "?s2\<lparr>pmm_page_stack_max := spage (Suc np), pmm_running := True, pmm_sem := 0\<rparr>"
  have pres: "?v AND PAGE_PRESENT \<noteq> 0"
    unfolding page_val_present by (simp add: PAGE_PRESENT_def PAGE_WRITE_def)
  have set: "vmm_page_set (spage np) ?v ?s1 = Inr ?s2"
    unfolding vmm_page_set_def set_pte_def
    using f mapped_spage [OF f(3) room] by (intro page_set_present) auto
  have "pmm_free_page p s = Inr ?s3"
    using run p f set spage_Suc [of np]
    by (simp add: pmm_free_page_def lock_pmm_def Let_def stack_page_size spage_def not_less)
  moreover have st1: "stack_ok ?s1 np (1024 * np)"
    using st unfolding stack_ok_def by auto
  have ent: "entry ?s2 k = entry s k" if k: "k < 1024 * np" for k
    using set_pte_entry [OF st1 k _ room] k by (auto simp: less_mult_imp_div_less mult.commute)
  moreover have sf: "sframe ?s2 i = sframe s i" "hw_pte ?s2 (spage i) = hw_pte s (spage i)" if "i < np" for i
    using set_pte_sframe [of ?s1 i np ?v] f that room by auto
  moreover have new: "hw_pte ?s2 (spage np) = Some ?v"
    using set_pte_effect(3) [of ?s1 "spage np" ?v] f mapped_spage [OF f(3) room] dir_idx_spage [OF room] pres
    by simp
  moreover have sfn: "sframe ?s2 np = frame p" using new by (simp add: sframe_def frame_def)
  moreover have "stack_ok ?s3 (Suc np) (1024 * np)"
  proof -
    have "inj_on (sframe ?s2) {..<Suc np}"
      using f(8) sf sfn fresh(2) by (auto simp: inj_on_def lessThan_Suc) (metis imageI lessThan_iff)+
    then show ?thesis
      using st room sf sfn new fresh(1) set_pte_no_table [of ?s1 np ?v] f(1,3)
      unfolding stack_ok_def by (auto simp: less_Suc_eq)
  qed
  ultimately show ?thesis
    by (intro exI [of _ ?s3]) auto
qed

text \<open>A write into a frame that holds no table leaves all translations as they are.\<close>

lemma no_table_frame_write:
  assumes ok: "tables_ok s" and nt: "no_table s f" and c: "cr3 t = cr3 s"
    and out: "\<And>b. frame b \<noteq> f \<Longrightarrow> phys t b = phys s b"
  shows "tables_ok t" "hw_pde t x = hw_pde s x"
    "vmm_dir_idx x < 1022 \<Longrightarrow> hw_pte t x = hw_pte s x" "no_table t = no_table s"
proof -
  have dir: "\<And>b. frame b = frame (cr3 s) \<Longrightarrow> phys t b = phys s b"
    using nt out by (auto simp: no_table_def)
  show pde: "hw_pde t x = hw_pde s x" for x by (rule hw_pde_write [OF c dir])
  show "tables_ok t" by (rule tables_ok_write [OF ok c dir])
  show "no_table t = no_table s"
    by (simp add: no_table_def mapped_dir_def table_frame_def pde c fun_eq_iff)
  assume x: "vmm_dir_idx x < 1022"
  show "hw_pte t x = hw_pte s x"
  proof (rule hw_pte_write [OF c dir])
    assume "mapped_dir s x"
    then have "frame (pte_pa (hw_pde s x) x) \<noteq> f"
      using nt x by (auto simp: no_table_def table_frame_def)
    then show "phys t (pte_pa (hw_pde s x) x) = phys s (pte_pa (hw_pde s x) x)"
      by (rule out)
  qed
qed

lemma no_table_write:
  fixes s :: vm and a v :: u32
  assumes "tables_ok s" and "no_table s (frame a)"
  defines "t \<equiv> s\<lparr>phys := (phys s)(a := v)\<rparr>"
  shows "tables_ok t" "hw_pde t x = hw_pde s x"
    "vmm_dir_idx x < 1022 \<Longrightarrow> hw_pte t x = hw_pte s x" "no_table t = no_table s"
proof -
  have out: "phys t b = phys s b" if "frame b \<noteq> frame a" for b
    using that by (auto simp: t_def)
  have c': "cr3 t = cr3 s" by (simp add: t_def)
  note w = no_table_frame_write [OF assms(1,2) c' out]
  show "tables_ok t" "hw_pde t x = hw_pde s x" "no_table t = no_table s"
    "vmm_dir_idx x < 1022 \<Longrightarrow> hw_pte t x = hw_pte s x" using w by blast+
qed

lemma entry_pa_inj:
  assumes "stack_ok s np ne" and "k < 1024 * np" "l < 1024 * np" and "entry_pa s k = entry_pa s l"
  shows "k = l"
proof -
  have "sframe s (k div 1024) = sframe s (l div 1024)"
    using assms(4) frame_entry_pa by metis
  then have d: "k div 1024 = l div 1024"
    using stack_ok_facts(8) [OF assms(1)] assms(2,3)
    by (auto simp: inj_on_def less_mult_imp_div_less mult.commute)
  have b: "k < 1048576" "l < 1048576" using assms(2,3) stack_ok_facts(5) [OF assms(1)] by auto
  have "hw_pte s (spage (k div 1024)) \<noteq> None"
    using stack_ok_page(1) [OF assms(1), of "k div 1024"] assms(2)
    by (simp add: less_mult_imp_div_less mult.commute)
  then have "entry_pa s k AND PAGE_FLAG_MASK = eaddr k AND PAGE_FLAG_MASK"
    and "entry_pa s l AND PAGE_FLAG_MASK = eaddr l AND PAGE_FLAG_MASK"
    using translate_offset [OF translate_eaddr, of s k] translate_offset [OF translate_eaddr, of s l] b d
    by auto
  then have "eaddr k AND PAGE_FLAG_MASK = eaddr l AND PAGE_FLAG_MASK" using assms(4) by simp
  then have "(4 :: u32) * of_nat (k mod 1024) = 4 * of_nat (l mod 1024)"
    using b by (simp add: offset_eaddr)
  then have "eaddr (k mod 1024) = eaddr (l mod 1024)" by (simp add: eaddr_def)
  moreover have "k mod 1024 \<le> 1048576" "l mod 1024 \<le> 1048576"
    using mod_less_divisor [of 1024 k] mod_less_divisor [of 1024 l] by linarith+
  ultimately have "k mod 1024 = l mod 1024" by (simp add: eaddr_inj)
  with d show ?thesis by (metis div_mult_mod_eq)
qed

text \<open>The state after an entry is written, before the pointer moves.\<close>

lemma push_entry:
  fixes s :: vm and v :: u32
  assumes st: "stack_ok s np ne" and room: "ne < 1024 * np"
  defines "t \<equiv> s\<lparr>phys := (phys s)(entry_pa s ne := v)\<rparr>"
  shows "k < 1024 * np \<Longrightarrow> entry t k = (if k = ne then v else entry s k)"
    and "i < np \<Longrightarrow> sframe t i = sframe s i"
    and "stack_ok t np ne"
proof -
  note f = stack_ok_facts [OF st]
  have pg: "ne div 1024 < np" using room by (simp add: less_mult_imp_div_less mult.commute)
  note w = no_table_write [where s = s and a = "entry_pa s ne" and v = v, folded t_def,
      unfolded frame_entry_pa, OF f(1) stack_ok_page(2) [OF st pg]]
  have pte: "hw_pte t (spage i) = hw_pte s (spage i)" if "i < np" for i
    using w(3) [of "spage i"] dir_idx_spage [of i] that f(5) by simp
  then have sf: "sframe t i = sframe s i" if "i < np" for i
    using that by (simp add: sframe_def)
  then show "i < np \<Longrightarrow> sframe t i = sframe s i" .
  show "entry t k = (if k = ne then v else entry s k)" if k: "k < 1024 * np"
  proof -
    have "entry_pa t k = entry_pa s k"
      using sf [of "k div 1024"] k by (simp add: entry_pa_def less_mult_imp_div_less mult.commute)
    then show ?thesis
      using entry_pa_inj [OF st k room] by (auto simp: entry_def t_def)
  qed
  have "mapped_dir t = mapped_dir s" by (simp add: mapped_dir_def fun_eq_iff w(2))
  moreover have "inj_on (sframe t) {..<np}" using f(8) sf by (auto simp: inj_on_def)
  moreover have "pmm_page_stack_max t = pmm_page_stack_max s"
    "pmm_page_stack_ptr t = pmm_page_stack_ptr s" by (simp_all add: t_def)
  ultimately show "stack_ok t np ne"
    using st pte sf w(1,4) unfolding stack_ok_def by auto
qed

lemma stack_ok_vars:
  "stack_ok s np ne \<Longrightarrow> ne' \<le> 1024 * np \<Longrightarrow>
     stack_ok (s\<lparr>pmm_sem := x, pmm_running := r, pmm_page_stack_ptr := eaddr ne'\<rparr>) np ne'"
  by (auto simp: stack_ok_def)

lemma free_to_entries:
  assumes st: "stack_ok s np ne" and run: "pmm_sem s = 0"
    and p: "p AND PAGE_MASK \<ge> pmm_pos s + PAGE_SIZE" and room: "ne < 1024 * np"
  shows "\<exists>s'. pmm_free_page p s = Inr s' \<and> pmm_running s' \<and> pmm_sem s' = 0 \<and>
    stack_ok s' np (Suc ne) \<and> (\<forall>k<ne. entry s' k = entry s k) \<and> entry s' ne = frame p \<and>
    (\<forall>i<np. sframe s' i = sframe s i) \<and> pmm_pos s' = pmm_pos s"
proof -
  note f = stack_ok_facts [OF st]
  let ?t = "s\<lparr>phys := (phys s)(entry_pa s ne := p AND PAGE_MASK)\<rparr>"
  let ?u = "?t\<lparr>pmm_sem := 0, pmm_running := True, pmm_page_stack_ptr := eaddr (Suc ne)\<rparr>"
  have ne: "ne < 1048576" using room f(5) by simp
  have pg: "ne div 1024 < np" using room by (simp add: less_mult_imp_div_less mult.commute)
  have lt: "\<not> pmm_page_stack_max s \<le> pmm_page_stack_ptr s"
    using f room by (simp add: spage_def eaddr_less not_le)
  have "vstore (eaddr ne) (p AND PAGE_MASK) (s\<lparr>pmm_sem := 1\<rparr>) = Inr (?t\<lparr>pmm_sem := 1\<rparr>)"
    using stack_ok_page(1) [OF st pg] ne by (simp add: vstore_def translate_eaddr)
  then have "pmm_free_page p s = Inr ?u"
    using run p f lt eaddr_Suc [of ne]
    by (simp add: pmm_free_page_def lock_pmm_def Let_def not_less)
  moreover note push = push_entry [OF st room, where v = "p AND PAGE_MASK"]
  have "stack_ok ?u np (Suc ne)" using push(3) room by (intro stack_ok_vars) auto
  moreover have "entry ?u k = entry ?t k" "sframe ?u k = sframe ?t k" for k
    by (simp_all add: same_mem [of ?u ?t])
  ultimately show ?thesis
    using push(1,2) room by (intro exI [of _ ?u]) (auto simp: frame_def)
qed

end
