(* ===== verification/PmmSpec.thy ===== *)
theory PmmSpec imports Pmm begin

text \<open>
  The contract of the physical page allocator as a locale over a bag of pages, its
  interpretation on \<open>pmm_alloc_page\<close> and \<open>pmm_free_page\<close>, and what follows for the callers:
  pages handed out together are different, and a page is never handed out while it is in use.
\<close>

section \<open>The contract of the allocator\<close>

text \<open>
  A bag of pages with operations that take one out and put one in. \<open>alloc_many\<close> is a client that
  takes several.
\<close>

fun alloc_many :: "('s \<Rightarrow> ('p \<times> 's) res) \<Rightarrow> nat \<Rightarrow> 's \<Rightarrow> ('p list \<times> 's) res" where
  "alloc_many alloc 0 s = Inr ([], s)"
| "alloc_many alloc (Suc n) s =
     andthen (alloc s) (\<lambda>(p, s). andthen (alloc_many alloc n s) (\<lambda>(ps, s). Inr (p # ps, s)))"

locale page_allocator =
  fixes ok :: "'s \<Rightarrow> bool"
    and bag :: "'s \<Rightarrow> 'p multiset"
    and ready :: "'s \<Rightarrow> bool"
    and accepts :: "'s \<Rightarrow> 'p \<Rightarrow> bool"
    and base :: "'p \<Rightarrow> 'p"
    and alloc :: "'s \<Rightarrow> ('p \<times> 's) res"
    and free :: "'p \<Rightarrow> 's \<Rightarrow> 's res"
  assumes alloc_takes: "ok s \<Longrightarrow> ready s \<Longrightarrow>
      \<exists>p s'. alloc s = Inr (p, s') \<and> ok s' \<and> bag s = add_mset p (bag s')"
    and alloc_panics: "ok s \<Longrightarrow> \<not> ready s \<Longrightarrow> alloc s = Inl Panic"
    and free_gives: "ok s \<Longrightarrow> accepts s p \<Longrightarrow>
      \<exists>s'. free p s = Inr s' \<and> ok s' \<and> bag s' = add_mset (base p) (bag s)"
begin

lemma alloc_result:
  assumes "ok s" and "alloc s = Inr (p, s')"
  shows "ok s'" "bag s = add_mset p (bag s')"
  using assms alloc_takes [of s] alloc_panics [of s] by (cases "ready s"; auto)+

lemma free_result:
  assumes "ok s" and "accepts s p" and "free p s = Inr s'"
  shows "ok s'" "bag s' = add_mset (base p) (bag s)"
  using assms free_gives [of s p] by auto

lemma alloc_many_bag:
  "ok s \<Longrightarrow> alloc_many alloc n s = Inr (ps, s') \<Longrightarrow>
     ok s' \<and> bag s = mset ps + bag s' \<and> length ps = n"
proof (induction n arbitrary: s ps)
  case (Suc n)
  then obtain p s1 qs where a: "alloc s = Inr (p, s1)"
    and m: "alloc_many alloc n s1 = Inr (qs, s')" and ps: "ps = p # qs"
    by (auto simp: andthen_eq_Inr)
  show ?case using alloc_result [OF Suc.prems(1) a] Suc.IH [OF _ m] ps by simp
qed simp

lemma alloc_many_distinct:
  assumes "ok s" and "\<And>p. count (bag s) p \<le> 1" and "alloc_many alloc n s = Inr (ps, s')"
  shows "distinct ps \<and> set_mset (bag s') \<inter> set ps = {}"
proof -
  have b: "bag s = mset ps + bag s'" using alloc_many_bag assms by blast
  have c: "count (mset ps) p + count (bag s') p \<le> 1" for p
    using assms(2) [of p] by (simp add: b)
  have pos: "0 < count (mset ps) p \<longleftrightarrow> p \<in> set ps" for p by simp
  have "count (mset ps) p = (if p \<in> set ps then 1 else 0)" for p
  proof -
    have "count (mset ps) p = 0 \<or> count (mset ps) p = 1" using c [of p] by linarith
    then show ?thesis using pos [of p] by auto
  qed
  then have "distinct ps" by (simp add: distinct_count_atmost_1)
  moreover have "p \<notin> set ps" if "p \<in># bag s'" for p
    using c [of p] pos [of p] count_greater_zero_iff [of "bag s'" p] that by linarith
  ultimately show ?thesis by auto
qed

end

section \<open>The allocator of the code\<close>

definition pmm_accepts :: "vm \<Rightarrow> u32 \<Rightarrow> bool" where
  "pmm_accepts s p \<longleftrightarrow> pmm_pos s + PAGE_SIZE \<le> frame p \<and>
     (pmm_entries s < 1024 * pmm_pages s \<or>
      pmm_pages s < 1024 \<and> no_table s (frame p) \<and> frame p \<notin> sframe s ` {..<pmm_pages s})"

lemma pmm_okD: "pmm_ok s \<Longrightarrow> stack_ok s (pmm_pages s) (pmm_entries s)"
  by (simp add: pmm_ok_def)

lemma stack_ok_ptr: "stack_ok s np ne \<Longrightarrow> pmm_page_stack_ptr s = PMM_PAGE_STACK \<longleftrightarrow> ne = 0"
  using stack_ok_facts(4,5,7) [of s np ne] by (simp add: spage_base spage_def eaddr_inj)

lemma image_upt_cong:
  "\<forall>k<n::nat. f k = g k \<Longrightarrow> image_mset f (mset_set {0..<n}) = image_mset g (mset_set {0..<n})"
  by (rule image_mset_cong) simp

lemma avail_counts:
  "stack_ok s np ne \<Longrightarrow> avail s = map (entry s) [0..<ne] @ map (sframe s) [0..<np]"
  by (simp add: avail_def stack_ok_counts)

lemma pmm_alloc_takes:
  assumes ok: "pmm_ok s" and ne: "pmm_page_stack_ptr s \<noteq> PMM_PAGE_STACK"
  shows "\<exists>p s'. pmm_alloc_page s = Inr (p, s') \<and> pmm_ok s' \<and> pmm_pos s' = pmm_pos s \<and>
    mset (avail s) = add_mset p (mset (avail s'))"
proof -
  note st = pmm_okD [OF ok]
  obtain n where n: "pmm_entries s = Suc n"
    using ne stack_ok_ptr [OF st] by (cases "pmm_entries s") auto
  have run: "pmm_running s" "pmm_sem s = 0" using ok by (auto simp: pmm_ok_def)
  show ?thesis
  proof (cases "1024 * (pmm_pages s - 1) \<le> Suc n")
    case True
    from alloc_from_entries [OF st [unfolded n] run True] obtain s' where
      "pmm_alloc_page s = Inr (entry s n, s')" "pmm_running s'" "pmm_sem s' = 0"
      "stack_ok s' (pmm_pages s) n" "entry s' = entry s" "sframe s' = sframe s" "pmm_pos s' = pmm_pos s"
      by auto
    then show ?thesis
      using avail_counts [OF st] n avail_counts [of s' "pmm_pages s" n] pmm_okI [of s' "pmm_pages s" n]
      by (intro exI [of _ "entry s n"] exI [of _ s']) simp
  next
    case False
    then obtain m where m: "pmm_pages s = Suc m" by (cases "pmm_pages s") auto
    with False n have lt: "0 < pmm_entries s" "pmm_entries s < 1024 * m" by auto
    from alloc_from_stack_page [OF st [unfolded m] run lt] obtain s' where
      "pmm_alloc_page s = Inr (sframe s m, s')" "pmm_running s'" "pmm_sem s' = 0"
      "stack_ok s' m (pmm_entries s)" "\<forall>k<pmm_entries s. entry s' k = entry s k"
      "\<forall>i<m. sframe s' i = sframe s i" "pmm_pos s' = pmm_pos s"
      by auto
    then show ?thesis
      using avail_counts [OF st] m avail_counts [of s' m "pmm_entries s"] pmm_okI [of s' m "pmm_entries s"]
      by (intro exI [of _ "sframe s m"] exI [of _ s'])
        (simp add: image_upt_cong [of _ "entry s'" "entry s"] image_upt_cong [of _ "sframe s'" "sframe s"])
  qed
qed

lemma pmm_alloc_panics:
  "pmm_ok s \<Longrightarrow> pmm_page_stack_ptr s = PMM_PAGE_STACK \<Longrightarrow> pmm_alloc_page s = Inl Panic"
  by (simp add: pmm_alloc_page_eq pmm_alloc_body_def pmm_ok_def)

lemma pmm_free_gives:
  assumes ok: "pmm_ok s" and acc: "pmm_accepts s p"
  shows "\<exists>s'. pmm_free_page p s = Inr s' \<and> pmm_ok s' \<and> pmm_pos s' = pmm_pos s \<and>
    mset (avail s') = add_mset (frame p) (mset (avail s))"
proof -
  note st = pmm_okD [OF ok]
  have sem: "pmm_sem s = 0" using ok by (auto simp: pmm_ok_def)
  have p: "pmm_pos s + PAGE_SIZE \<le> p AND PAGE_MASK"
    using acc by (simp add: pmm_accepts_def frame_def)
  show ?thesis
  proof (cases "pmm_entries s < 1024 * pmm_pages s")
    case True
    from free_to_entries [OF st sem p True] obtain s' where
      "pmm_free_page p s = Inr s'" "pmm_running s'" "pmm_sem s' = 0"
      "stack_ok s' (pmm_pages s) (Suc (pmm_entries s))" "\<forall>k<pmm_entries s. entry s' k = entry s k"
      "entry s' (pmm_entries s) = frame p" "\<forall>i<pmm_pages s. sframe s' i = sframe s i"
      "pmm_pos s' = pmm_pos s" by auto
    then show ?thesis
      using avail_counts [OF st] avail_counts [of s' "pmm_pages s" "Suc (pmm_entries s)"]
        pmm_okI [of s' "pmm_pages s" "Suc (pmm_entries s)"]
      by (intro exI [of _ s'])
        (simp add: image_upt_cong [of _ "entry s'" "entry s"] image_upt_cong [of _ "sframe s'" "sframe s"])
  next
    case False
    then have full: "pmm_entries s = 1024 * pmm_pages s" using stack_ok_facts(4) [OF st] by simp
    then have room: "pmm_pages s < 1024" "no_table s (frame p)" "frame p \<notin> sframe s ` {..<pmm_pages s}"
      using acc by (auto simp: pmm_accepts_def)
    from free_to_stack_page [OF st [unfolded full] sem p room] obtain s' where
      "pmm_free_page p s = Inr s'" "pmm_running s'" "pmm_sem s' = 0"
      "stack_ok s' (Suc (pmm_pages s)) (1024 * pmm_pages s)"
      "\<forall>k<1024 * pmm_pages s. entry s' k = entry s k" "\<forall>i<pmm_pages s. sframe s' i = sframe s i"
      "sframe s' (pmm_pages s) = frame p" "pmm_pos s' = pmm_pos s" by auto
    then show ?thesis
      using avail_counts [OF st] full avail_counts [of s' "Suc (pmm_pages s)" "1024 * pmm_pages s"]
        pmm_okI [of s' "Suc (pmm_pages s)" "1024 * pmm_pages s"]
      by (intro exI [of _ s'])
        (simp add: image_upt_cong [of _ "entry s'" "entry s"] image_upt_cong [of _ "sframe s'" "sframe s"])
  qed
qed

interpretation pmm: page_allocator pmm_ok "\<lambda>s. mset (avail s)"
  "\<lambda>s. pmm_page_stack_ptr s \<noteq> PMM_PAGE_STACK" pmm_accepts frame pmm_alloc_page pmm_free_page
  using pmm_alloc_takes pmm_alloc_panics pmm_free_gives by unfold_locales blast+

section \<open>Who holds which page\<close>

text \<open>
  A run of the allocator together with the list of pages its callers hold. A caller may give
  back a page it holds, once no page directory entry uses it as a table.
\<close>

inductive pmm_use :: "vm \<times> u32 list \<Rightarrow> vm \<times> u32 list \<Rightarrow> bool" where
  take: "pmm_alloc_page s = Inr (p, s') \<Longrightarrow> pmm_use (s, own) (s', p # own)"
| give: "p \<in> set own \<Longrightarrow> no_table s p \<Longrightarrow> pmm_pages s < 1024 \<Longrightarrow> pmm_free_page p s = Inr s' \<Longrightarrow>
     pmm_use (s, own) (s', remove1 p own)"

inductive_cases pmm_useE: "pmm_use (s, own) c"

definition pages_ok :: "vm \<times> u32 list \<Rightarrow> bool" where
  "pages_ok c \<longleftrightarrow> (case c of (s, own) \<Rightarrow> pmm_ok s \<and> distinct (own @ avail s) \<and>
     (\<forall>p\<in>set (own @ avail s). frame p = p \<and> pmm_pos s + PAGE_SIZE \<le> p))"

definition all_pages :: "vm \<times> u32 list \<Rightarrow> u32 multiset" where
  "all_pages c = mset (snd c) + mset (avail (fst c))"

lemma pmm_alloc_result:
  "pmm_ok s \<Longrightarrow> pmm_alloc_page s = Inr (p, s') \<Longrightarrow>
     pmm_ok s' \<and> pmm_pos s' = pmm_pos s \<and> mset (avail s) = add_mset p (mset (avail s'))"
  using pmm_alloc_takes [of s] pmm_alloc_panics [of s]
  by (cases "pmm_page_stack_ptr s = PMM_PAGE_STACK") auto

lemma pages_ok_mset:
  assumes "pages_ok (s, own)" and "pmm_ok t" and "pmm_pos t = pmm_pos s"
    and m: "mset (own' @ avail t) = mset (own @ avail s)"
  shows "pages_ok (t, own')"
  using assms mset_eq_imp_distinct_iff [OF m] mset_eq_setD [OF m] by (simp add: pages_ok_def)

lemma pages_ok_accepts:
  assumes "pages_ok (s, own)" and "p \<in> set own" and "no_table s p" and "pmm_pages s < 1024"
  shows "pmm_accepts s p" "frame p = p"
proof -
  have "sframe s ` {..<pmm_pages s} \<subseteq> set (avail s)" by (auto simp: avail_def)
  then have "p \<notin> sframe s ` {..<pmm_pages s}" using assms(1,2) by (auto simp: pages_ok_def)
  moreover show "frame p = p" using assms(1,2) by (auto simp: pages_ok_def)
  ultimately show "pmm_accepts s p" using assms by (auto simp: pmm_accepts_def pages_ok_def)
qed

lemma pmm_use_step:
  assumes "pmm_use (s, own) (t, own')" and ok: "pages_ok (s, own)"
  shows "pages_ok (t, own') \<and> all_pages (t, own') = all_pages (s, own)"
  using assms(1)
proof (cases rule: pmm_use.cases)
  case (take p)
  have m: "pmm_ok t \<and> pmm_pos t = pmm_pos s \<and> mset (avail s) = add_mset p (mset (avail t))"
    using take ok by (intro pmm_alloc_result) (auto simp: pages_ok_def)
  then have "mset (own' @ avail t) = mset (own @ avail s)" using take by simp
  then show ?thesis using m pages_ok_mset [OF ok] by (simp add: all_pages_def)
next
  case (give p)
  note acc = pages_ok_accepts [OF ok give(2,3,4)]
  obtain t' where m: "pmm_free_page p s = Inr t'" "pmm_ok t'" "pmm_pos t' = pmm_pos s"
    "mset (avail t') = add_mset (frame p) (mset (avail s))"
    using pmm_free_gives [OF _ acc(1)] ok by (auto simp: pages_ok_def)
  then have t: "t' = t" using give(5) by simp
  have own: "add_mset p (mset (remove1 p own)) = mset own" using give(2) by simp
  have "mset (own' @ avail t) = mset (own @ avail s)"
    using m t acc(2) give(1) own by simp
  then show ?thesis using m t pages_ok_mset [OF ok] by (simp add: all_pages_def)
qed

lemma pmm_use_run:
  "pmm_use\<^sup>*\<^sup>* c d \<Longrightarrow> pages_ok c \<Longrightarrow> pages_ok d \<and> all_pages d = all_pages c"
proof (induction rule: rtranclp_induct)
  case (step d e)
  then show ?case using pmm_use_step [of "fst d" "snd d" "fst e" "snd e"] by simp
qed simp

end
