(* ===== verification/DemoMachine.thy ===== *)
theory DemoMachine imports Pmm begin

text \<open>
  A small concrete machine on which the properties of the memory managers are applied: the
  directory in frame \<open>0x1000\<close> with the recursive slot and three page tables. The table in frame
  \<open>0x2000\<close> maps one page of the page stack, frame \<open>0x3000\<close>, with two entries; the one in frame
  \<open>0x4000\<close>, still empty, is that of the temporary mappings; the one in frame \<open>0x8000\<close> maps a read-only page of a process,
  at \<open>0x1000\<close>, to frame \<open>0x9000\<close>.
\<close>

section \<open>A concrete machine\<close>

definition demo_phys :: "u32 \<Rightarrow> u32" where
  "demo_phys a =
     (if a = 0x1FFC then 0x1003 else if a = 0x1FE0 then 0x2003
      else if a = 0x1FF4 then 0x4003 else if a = 0x2000 then 0x3003
      else if a = 0x3000 then 0x5000 else if a = 0x3004 then 0x6000
      else if a = 0x1000 then 0x8007 else if a = 0x8004 then 0x9005 else if a = 0x9234 then 0xAB else 0)"

definition demo_vm :: vm where
  "demo_vm = \<lparr>phys = demo_phys, cr3 = 0x1000, pmm_running = True, pmm_pos = 0x2000,
     pmm_page_stack_max = 0xFE001000, pmm_page_stack_ptr = 0xFE000008, pmm_sem = 0,
     vmm_running = False, kernel_pd = 0x1000, kernel_pd_sem = 0, exdir_sem = 0, temp_sem = 0\<rparr>"

lemma demo_pde: "hw_pde demo_vm x =
    (if vmm_dir_idx x = 0x3FF then 0x1003 else if vmm_dir_idx x = 0x3F8 then 0x2003
     else if vmm_dir_idx x = 0x3FD then 0x4003 else if vmm_dir_idx x = 0 then 0x8007 else 0)"
proof -
  have 1: "pde_pa 0x1000 x = 0x1FFC \<longleftrightarrow> vmm_dir_idx x = 0x3FF"
    using pde_pa_eq [of "0x1000" x VMM_PAGE_DIR]
    by (simp add: VMM_PAGE_DIR_def pde_pa_def vmm_dir_idx_def PAGE_MASK_def)
  have 2: "pde_pa 0x1000 x = 0x1FE0 \<longleftrightarrow> vmm_dir_idx x = 0x3F8"
    using pde_pa_eq [of "0x1000" x PMM_PAGE_STACK]
    by (simp add: PMM_PAGE_STACK_def pde_pa_def vmm_dir_idx_def PAGE_MASK_def)
  have 3: "pde_pa 0x1000 x = 0x1FF4 \<longleftrightarrow> vmm_dir_idx x = 0x3FD"
    using pde_pa_eq [of "0x1000" x VMM_TEMP1]
    by (simp add: VMM_TEMP1_def pde_pa_def vmm_dir_idx_def PAGE_MASK_def)
  have 4: "pde_pa 0x1000 x = 0x1000 \<longleftrightarrow> vmm_dir_idx x = 0"
    using pde_pa_eq [of "0x1000" x 0] by (simp add: pde_pa_def vmm_dir_idx_def PAGE_MASK_def)
  have f: "frame (pde_pa 0x1000 x) = 0x1000"
    by (simp only: frame_pde_pa) (simp add: frame_def PAGE_MASK_def)
  have "pde_pa 0x1000 x \<noteq> a" if "a = 0x2000 \<or> a = 0x3000 \<or> a = 0x3004 \<or> a = 0x8004 \<or> a = 0x9234" for a
    using that f by (auto simp: frame_def PAGE_MASK_def)
  then show ?thesis by (simp add: hw_pde_def demo_vm_def demo_phys_def 1 2 3 4)
qed

lemma demo_mapped: "mapped_dir demo_vm x \<longleftrightarrow>
    vmm_dir_idx x = 0x3FF \<or> vmm_dir_idx x = 0x3F8 \<or> vmm_dir_idx x = 0x3FD \<or> vmm_dir_idx x = 0"
  by (simp add: mapped_dir_def demo_pde PAGE_PRESENT_def)

lemma demo_table:
  "vmm_dir_idx x = 0x3F8 \<Longrightarrow> table_frame demo_vm x = 0x2000"
  "vmm_dir_idx x = 0x3FD \<Longrightarrow> table_frame demo_vm x = 0x4000"
  "vmm_dir_idx x = 0 \<Longrightarrow> table_frame demo_vm x = 0x8000"
  by (simp_all add: table_frame_def demo_pde frame_def PAGE_MASK_def)

lemma demo_tables_ok: "tables_ok demo_vm"
proof -
  have "rec_slot demo_vm"
    by (simp add: rec_slot_def demo_pde VMM_PAGE_DIR_def vmm_dir_idx_def PAGE_MASK_def
        PAGE_PRESENT_def) (simp add: demo_vm_def)
  moreover have "vmm_dir_idx x = 0x3F8 \<or> vmm_dir_idx x = 0x3FD \<or> vmm_dir_idx x = 0" if "vmm_dir_idx x < 1022" "mapped_dir demo_vm x" for x
    using that by (auto simp: demo_mapped)
  moreover have "frame (cr3 demo_vm) = 0x1000" by (simp add: demo_vm_def frame_def PAGE_MASK_def)
  moreover have "(0x2000 :: u32) \<noteq> 0x1000" "(0x4000 :: u32) \<noteq> 0x1000" "(0x2000 :: u32) \<noteq> 0x4000" "(0x8000 :: u32) \<noteq> 0x1000"
    "(0x8000 :: u32) \<noteq> 0x2000" "(0x8000 :: u32) \<noteq> 0x4000"
    by simp_all
  ultimately show ?thesis unfolding tables_ok_def by (metis demo_table)
qed

lemma demo_pte: "hw_pte demo_vm PMM_PAGE_STACK = Some 0x3003"
  by (simp add: hw_pte_def demo_pde PMM_PAGE_STACK_def vmm_dir_idx_def pte_pa_def PAGE_MASK_def
      PAGE_PRESENT_def Let_def) (simp add: demo_vm_def demo_phys_def)

lemma demo_sframe: "sframe demo_vm 0 = 0x3000"
  by (simp add: sframe_def spage_base [symmetric] demo_pte frame_def PAGE_MASK_def)

lemma demo_no_table: "f \<noteq> 0x1000 \<Longrightarrow> f \<noteq> 0x2000 \<Longrightarrow> f \<noteq> 0x4000 \<Longrightarrow> f \<noteq> 0x8000 \<Longrightarrow> no_table demo_vm f"
proof -
  assume f: "f \<noteq> 0x1000" "f \<noteq> 0x2000" "f \<noteq> 0x4000" "f \<noteq> 0x8000"
  have "frame (cr3 demo_vm) = 0x1000" by (simp add: demo_vm_def frame_def PAGE_MASK_def)
  then show ?thesis using f by (auto simp: no_table_def demo_mapped demo_table)
qed

lemma demo_stack_ok: "stack_ok demo_vm 1 2"
proof -
  have "pmm_page_stack_max demo_vm = spage 1" "pmm_page_stack_ptr demo_vm = eaddr 2"
    by (simp_all add: demo_vm_def spage_def eaddr_def PMM_PAGE_STACK_def)
  then show ?thesis
    by (simp add: stack_ok_def demo_tables_ok demo_mapped dir_idx_stack spage_base [symmetric]
        demo_pte demo_sframe demo_no_table inj_on_def)
qed

lemma demo_counts: "pmm_pages demo_vm = 1" "pmm_entries demo_vm = 2"
  using stack_ok_counts [OF demo_stack_ok] by auto

lemma demo_pmm_ok: "pmm_ok demo_vm"
  using demo_stack_ok by (rule pmm_okI [rotated 2]) (simp_all add: demo_vm_def)

lemma demo_avail: "avail demo_vm = [0x5000, 0x6000, 0x3000]"
  by (simp add: avail_def demo_counts demo_sframe upt_rec entry_def entry_pa_def)
    (simp add: demo_vm_def demo_phys_def)

lemma demo_frames: "frame 0x5000 = 0x5000" "frame 0x6000 = 0x6000" "frame 0x3000 = 0x3000"
  "frame 0x7000 = 0x7000"
  by (simp_all add: frame_def PAGE_MASK_def)

lemma demo_alloc: "\<exists>s'. pmm_alloc_page demo_vm = Inr (0x6000, s') \<and> stack_ok s' 1 1 \<and> pmm_ok s'"
proof -
  have run: "pmm_running demo_vm" "pmm_sem demo_vm = 0" by (simp_all add: demo_vm_def)
  have st: "stack_ok demo_vm 1 (Suc 1)" using demo_stack_ok by (simp add: numeral_2_eq_2)
  have "entry demo_vm 1 = 0x6000"
    using demo_avail by (simp add: avail_def demo_counts upt_rec)
  moreover have "1024 * (1 - 1) \<le> Suc 1" by simp
  ultimately show ?thesis
    using alloc_from_entries [OF st run] pmm_okI [of _ 1 1] by auto
qed

end
