(* ===== verification/PmmProps.thy ===== *)
theory PmmProps imports PmmSpec DemoMachine begin

text \<open>
  The properties of the physical page allocator.
\<close>

lemma demo_pages_ok: "pages_ok (demo_vm, [])"
  by (simp add: pages_ok_def demo_pmm_ok demo_avail demo_frames)
    (simp add: demo_vm_def PAGE_SIZE_def)

section \<open>Properties\<close>

text \<open>
  C2. No page is handed out while somebody holds it. Along every run of allocations and
  releases that starts in a good state, the pages held are pairwise different, none of them is
  still free, and pages are neither lost nor invented.
\<close>

theorem pmm_no_double_allocation:
  assumes "pmm_use\<^sup>*\<^sup>* (s, []) (t, own)" and "pages_ok (s, [])"
  shows "pmm_ok t \<and> distinct own \<and> set own \<inter> set (avail t) = {} \<and>
    mset own + mset (avail t) = mset (avail s)"
  using pmm_use_run [OF assms] by (auto simp: pages_ok_def all_pages_def)

theorem pmm_no_double_allocation_witness:
  "\<exists>t. pmm_use\<^sup>*\<^sup>* (demo_vm, []) (t, [0x6000]) \<and> pages_ok (demo_vm, []) \<and>
     mset [0x6000] + mset (avail t) = mset (avail demo_vm)"
proof -
  obtain t where t: "pmm_alloc_page demo_vm = Inr (0x6000, t)" using demo_alloc by blast
  then have "pmm_use (demo_vm, []) (t, [0x6000])" by (rule pmm_use.take)
  then have "pmm_use\<^sup>*\<^sup>* (demo_vm, []) (t, [0x6000])" by (rule r_into_rtranclp)
  with pmm_no_double_allocation [OF this demo_pages_ok] demo_pages_ok show ?thesis by blast
qed

text \<open>
  C16. \<open>pmm_alloc_page\<close> in a good state either panics, exactly when the page stack holds no entry,
  or takes one page out of the bag of free pages and leaves a good state.
\<close>

theorem pmm_alloc_page_outcome:
  assumes "pmm_ok s"
  shows "case pmm_alloc_page s of
      Inl e \<Rightarrow> e = Panic \<and> pmm_entries s = 0
    | Inr (p, t) \<Rightarrow> 0 < pmm_entries s \<and> pmm_ok t \<and> mset (avail s) = add_mset p (mset (avail t))"
proof (cases "pmm_page_stack_ptr s = PMM_PAGE_STACK")
  case True
  then show ?thesis
    using pmm.alloc_panics [OF assms] stack_ok_ptr [OF pmm_okD [OF assms]] by simp
next
  case False
  then show ?thesis
    using pmm.alloc_takes [OF assms] stack_ok_ptr [OF pmm_okD [OF assms]] by fastforce
qed

theorem pmm_alloc_page_outcome_witness:
  "\<exists>t. pmm_alloc_page demo_vm = Inr (0x6000, t) \<and>
     mset (avail demo_vm) = add_mset 0x6000 (mset (avail t))"
  using demo_alloc pmm_alloc_page_outcome [OF demo_pmm_ok] by auto

text \<open>
  C17. \<open>pmm_free_page\<close> puts the page's base address into the bag, whether it goes on the stack or
  becomes a page of the stack; pages below the end of the loaded kernel are ignored.
\<close>

theorem pmm_free_page_outcome:
  assumes "pmm_ok s" and "frame p < pmm_pos s + PAGE_SIZE \<or> pmm_accepts s p"
  shows "\<exists>t. pmm_free_page p s = Inr t \<and> pmm_ok t \<and>
    mset (avail t) = (if frame p < pmm_pos s + PAGE_SIZE then mset (avail s)
                      else add_mset (frame p) (mset (avail s)))"
proof (cases "frame p < pmm_pos s + PAGE_SIZE")
  case True
  then show ?thesis using assms(1) by (simp add: pmm_free_page_def frame_def Let_def)
next
  case False
  then show ?thesis using assms pmm.free_gives by fastforce
qed

theorem pmm_free_page_outcome_witness:
  "\<exists>t. pmm_free_page 0x7ABC demo_vm = Inr t \<and> pmm_ok t \<and>
     mset (avail t) = {#0x7000, 0x5000, 0x6000, 0x3000#}"
proof -
  have f: "frame 0x7ABC = 0x7000" by (simp add: frame_def PAGE_MASK_def)
  have "\<not> frame 0x7ABC < pmm_pos demo_vm + PAGE_SIZE" and "pmm_accepts demo_vm 0x7ABC"
    by (simp_all add: pmm_accepts_def demo_counts f) (simp_all add: demo_vm_def PAGE_SIZE_def)
  then show ?thesis using pmm_free_page_outcome [OF demo_pmm_ok, of "0x7ABC"] f by (simp add: demo_avail)
qed

text \<open>
  Any number of pages allocated one after the other are pairwise different and no longer free.
\<close>

theorem pmm_alloc_many_distinct:
  assumes "pmm_ok s" and "distinct (avail s)" and "alloc_many pmm_alloc_page n s = Inr (ps, t)"
  shows "length ps = n \<and> distinct ps \<and> set ps \<subseteq> set (avail s) \<and> set ps \<inter> set (avail t) = {}"
proof -
  have "count (mset (avail s)) p \<le> 1" for p
    using assms(2) by (simp add: distinct_count_atmost_1)
  from pmm.alloc_many_distinct [OF assms(1) this assms(3)] pmm.alloc_many_bag [OF assms(1,3)]
  show ?thesis by (auto dest: arg_cong [where f = set_mset])
qed

theorem pmm_alloc_many_distinct_witness:
  "\<exists>t. alloc_many pmm_alloc_page 1 demo_vm = Inr ([0x6000], t) \<and> (0x6000 :: u32) \<notin> set (avail t)"
proof -
  obtain t where "pmm_alloc_page demo_vm = Inr (0x6000, t)" using demo_alloc by blast
  then have t: "alloc_many pmm_alloc_page 1 demo_vm = Inr ([0x6000], t)" by (simp add: eval_nat_numeral)
  with pmm_alloc_many_distinct [OF demo_pmm_ok _ t] show ?thesis by (auto simp: demo_avail)
qed

end
