(* ===== verification/VmmOps.thy ===== *)
theory VmmOps imports Paging begin

text \<open>
  The remaining operations of the two memory managers: pages of a second address space, clearing
  and copying of physical pages through the temporary mappings, new and cloned page directories,
  and the initialisation of both managers. Loops that may not end are \<open>partial_function\<close>s whose
  \<open>None\<close> is "does not return". The multiboot structures are read from memory, field by field.
\<close>

section \<open>Pages of the second address space\<close>

definition vmm_expage_touch :: "u32 \<Rightarrow> u32 \<Rightarrow> vm \<Rightarrow> vm res" where
  "vmm_expage_touch page flags s =
     (let page = page AND PAGE_MASK; flags = flags AND PAGE_FLAG_MASK in
      andthen (page_directory_get (vmm_dir_idx VMM_EXPAGE_DIR) s) (\<lambda>e.
      if e = 0 then Inr s
      else
       andthen (expage_directory_get (vmm_dir_idx page) s) (\<lambda>pde.
       if pde AND PAGE_PRESENT = 0
       then andthen (pmm_alloc_page s) (\<lambda>(table, s).
            andthen (expage_directory_set (vmm_dir_idx page) (table OR flags) s) (\<lambda>s.
            vclear_page ((VMM_EXPAGE_TABLES + 4 * vmm_table_idx page) AND PAGE_MASK) s))
       else Inr s)))"

definition vmm_expage_set :: "u32 \<Rightarrow> u32 \<Rightarrow> vm \<Rightarrow> vm res" where
  "vmm_expage_set page value s =
     (let page = page AND PAGE_MASK in
      andthen (vmm_expage_touch page (value AND PAGE_FLAG_MASK) s) (\<lambda>s.
      expage_tables_set (vmm_table_idx page) value s))"

section \<open>Physical pages through the temporary mappings\<close>

definition vmm_clear_page :: "u32 \<Rightarrow> vm \<Rightarrow> vm res" where
  "vmm_clear_page page s =
     andthen (lock_temp s) (\<lambda>s.
     andthen (vmm_page_get VMM_TEMP1 s) (\<lambda>old.
     andthen (vmm_page_set VMM_TEMP1 (vmm_page_val page (PAGE_PRESENT OR PAGE_WRITE)) s) (\<lambda>s.
     andthen (vclear_page VMM_TEMP1 s) (\<lambda>s.
     andthen (vmm_page_set VMM_TEMP1 old s) (\<lambda>s.
     Inr (s\<lparr>temp_sem := 0\<rparr>))))))"

definition vmm_copy_page :: "u32 \<Rightarrow> u32 \<Rightarrow> vm \<Rightarrow> vm res" where
  "vmm_copy_page src dst s =
     andthen (lock_temp s) (\<lambda>s.
     andthen (vmm_page_get VMM_TEMP1 s) (\<lambda>old_temp1.
     andthen (vmm_page_get VMM_TEMP2 s) (\<lambda>old_temp2.
     andthen (vmm_page_set VMM_TEMP1 (vmm_page_val src (PAGE_PRESENT OR PAGE_WRITE)) s) (\<lambda>s.
     andthen (vmm_page_set VMM_TEMP2 (vmm_page_val dst (PAGE_PRESENT OR PAGE_WRITE)) s) (\<lambda>s.
     andthen (vcopy_page VMM_TEMP2 VMM_TEMP1 s) (\<lambda>s.
     andthen (vmm_page_set VMM_TEMP1 old_temp1 s) (\<lambda>s.
     andthen (vmm_page_set VMM_TEMP2 old_temp2 s) (\<lambda>s.
     Inr (s\<lparr>temp_sem := 0\<rparr>)))))))))"

section \<open>Page directories\<close>

definition vmm_pd_set :: "u32 \<Rightarrow> vm \<Rightarrow> vm" where
  "vmm_pd_set pd s = s\<lparr>cr3 := pd\<rparr>"

definition vmm_new_pd :: "vm \<Rightarrow> (u32 \<times> vm) res" where
  "vmm_new_pd s =
     andthen (pmm_alloc_page s) (\<lambda>(pd, s).
     andthen (lock_temp s) (\<lambda>s.
     andthen (vmm_page_get VMM_TEMP1 s) (\<lambda>old.
     andthen (vmm_page_set VMM_TEMP1 (vmm_page_val pd (PAGE_PRESENT OR PAGE_WRITE)) s) (\<lambda>s.
     andthen (vclear_page VMM_TEMP1 s) (\<lambda>s.
     andthen (vstore (VMM_TEMP1 + 4 * (VMM_PAGES_PER_TABLE - 1))
        (vmm_page_val pd (PAGE_PRESENT OR PAGE_WRITE)) s) (\<lambda>s.
     andthen (vmm_page_set VMM_TEMP1 old s) (\<lambda>s.
     Inr (pd, s\<lparr>temp_sem := 0\<rparr>))))))))"

text \<open>Bounded \<open>for\<close> loops run their body over the list of values of the loop variable.\<close>

fun for_in :: "('a \<Rightarrow> 's \<Rightarrow> 's res) \<Rightarrow> 'a list \<Rightarrow> 's \<Rightarrow> 's res" where
  "for_in body [] s = Inr s"
| "for_in body (x # xs) s = andthen (body x s) (for_in body xs)"

definition clone_user_table :: "u32 \<Rightarrow> vm \<Rightarrow> vm res" where
  "clone_user_table table s =
     andthen (page_directory_get table s) (\<lambda>pde.
     if pde \<noteq> 0
     then
      andthen (pmm_alloc_page s) (\<lambda>(new, s).
      andthen (page_directory_get table s) (\<lambda>pde.
      andthen (expage_directory_set table (vmm_page_val new (pde AND PAGE_FLAG_MASK)) s) (\<lambda>s.
      andthen (page_directory_get table s) (\<lambda>src.
      andthen (expage_directory_get table s) (\<lambda>dst.
      vmm_copy_page (src AND PAGE_MASK) (dst AND PAGE_MASK) s)))))
     else Inr s)"

definition share_kernel_table :: "u32 \<Rightarrow> vm \<Rightarrow> vm res" where
  "share_kernel_table table s =
     andthen (page_directory_get table s) (\<lambda>pde. expage_directory_set table pde s)"

definition user_tables :: "u32 list" where
  "user_tables = map of_nat [0..<unat (vmm_dir_idx KERNEL_OFFSET)]"

definition kernel_tables :: "u32 list" where
  "kernel_tables = map of_nat [unat (vmm_dir_idx KERNEL_OFFSET)..<unat (VMM_PAGES_PER_TABLE - 2)]"

definition vmm_clone_pd :: "vm \<Rightarrow> (u32 \<times> vm) res" where
  "vmm_clone_pd s =
     andthen (vmm_new_pd s) (\<lambda>(pd, s).
     andthen (lock_exdir s) (\<lambda>s.
     andthen (vmm_exdir_set pd s) (\<lambda>(old_exdir, s).
     andthen (for_in clone_user_table user_tables s) (\<lambda>s.
     andthen (for_in share_kernel_table kernel_tables s) (\<lambda>s.
     andthen (vmm_exdir_set old_exdir s) (\<lambda>(_, s).
     Inr (pd, s\<lparr>exdir_sem := 0\<rparr>)))))))"

partial_function (option) map_kernel :: "u32 \<Rightarrow> u32 \<Rightarrow> u32 \<Rightarrow> vm \<Rightarrow> vm res option" where
  "map_kernel i kspace kernel_end s =
     (if i < kernel_end
      then (case vmm_page_set kspace (vmm_page_val i (PAGE_PRESENT OR PAGE_WRITE)) s of
              Inl e \<Rightarrow> Some (Inl e)
            | Inr s \<Rightarrow> map_kernel (i + PAGE_SIZE) (kspace + PAGE_SIZE) kernel_end s)
      else Some (Inr s))"

definition vmm_init :: "u32 \<Rightarrow> vm \<Rightarrow> vm res" where
  "vmm_init kernel_end s =
     (let s = s\<lparr>kernel_pd := cr3 s\<rparr> in
      andthen (vmm_clone_pd s) (\<lambda>(pd, s).
      let s = vmm_pd_set pd s in
      andthen (case map_kernel 0 KERNEL_OFFSET kernel_end s of None \<Rightarrow> Inl Hang | Some r \<Rightarrow> r) (\<lambda>s.
      Inr (s\<lparr>vmm_running := True\<rparr>))))"

section \<open>Filling the page stack\<close>

partial_function (option) free_region :: "u32 \<Rightarrow> u32 \<Rightarrow> vm \<Rightarrow> vm res option" where
  "free_region me j s =
     (case andthen (vload (me + 4) s) (\<lambda>base. andthen (vload (me + 12) s) (\<lambda>len. Inr (base + len))) of
        Inl e \<Rightarrow> Some (Inl e)
      | Inr limit \<Rightarrow>
          if j \<le> limit
          then (case pmm_free_page j s of
                  Inl e \<Rightarrow> Some (Inl e)
                | Inr s \<Rightarrow> free_region me (j + PAGE_SIZE) s)
          else Some (Inr s))"

definition MBOOT_MEM_FLAG_FREE :: u32 where "MBOOT_MEM_FLAG_FREE = 1"

definition free_entry :: "u32 \<Rightarrow> vm \<Rightarrow> vm res" where
  "free_entry me s =
     andthen (vload (me + 20) s) (\<lambda>type.
     if type = MBOOT_MEM_FLAG_FREE
     then andthen (vload (me + 4) s) (\<lambda>base.
          case free_region me base s of None \<Rightarrow> Inl Hang | Some r \<Rightarrow> r)
     else Inr s)"

partial_function (option) free_map :: "u32 \<Rightarrow> u32 \<Rightarrow> vm \<Rightarrow> vm res option" where
  "free_map me mmap_end s =
     (if me < mmap_end
      then (case andthen (free_entry me s) (\<lambda>s. andthen (vload me s) (\<lambda>sz. Inr (sz, s))) of
              Inl e \<Rightarrow> Some (Inl e)
            | Inr (sz, s) \<Rightarrow> free_map (me + sz + 4) mmap_end s)
      else Some (Inr s))"

text \<open>
  The end of the map is \<open>assert_higher(addr) + length\<close>. The macro's conditional is not in
  parentheses, so that the length is added to its last branch only.
\<close>

definition pmm_init :: "u32 \<Rightarrow> vm \<Rightarrow> vm res" where
  "pmm_init mboot s =
     andthen (vload (mboot + 24) s) (\<lambda>mods_addr.
     let mods = assert_higher mods_addr in
     andthen (vload (mboot + 8) s) (\<lambda>mem_upper.
     let s = s\<lparr>pmm_pos := (mem_upper + PAGE_SIZE) AND PAGE_MASK\<rparr> in
     andthen (vload (mboot + 20) s) (\<lambda>mods_count.
     andthen (vload (mods + 16 * (mods_count - 1) + 4) s) (\<lambda>mod_end.
     let s = (if pmm_pos s < mod_end then s\<lparr>pmm_pos := (mod_end + PAGE_SIZE) AND PAGE_MASK\<rparr> else s);
         s = s\<lparr>pmm_running := False\<rparr> in
     andthen (vload (mboot + 48) s) (\<lambda>mmap_addr.
     andthen (vload (mboot + 44) s) (\<lambda>mmap_length.
     let mmap_end = (if mmap_addr > KERNEL_OFFSET then mmap_addr
                     else mmap_addr + KERNEL_OFFSET + mmap_length) in
     case free_map (assert_higher mmap_addr) mmap_end s of None \<Rightarrow> Inl Hang | Some r \<Rightarrow> r))))))"

declare map_kernel.simps [code] free_region.simps [code] free_map.simps [code]

end
