(* ===== verification/VmmProps.thy ===== *)
theory VmmProps imports DemoMachine VmmOps begin

text \<open>
  What the virtual memory manager does to the translations of the MMU: setting entries of existing
  and of missing page tables, clearing physical pages through the temporary mapping,
  and the treatment of kernel tables taken from the master directory.
\<close>

section \<open>Entries of an existing table\<close>

lemma vmm_page_set_present:
  "rec_slot s \<Longrightarrow> mapped_dir s va \<Longrightarrow> vmm_page_set va v s = Inr (set_pte s va v)"
  unfolding vmm_page_set_def set_pte_def by (rule page_set_present)

text \<open>
  C10. \<open>vmm_page_set\<close> on a page whose table exists makes the MMU translate the page to the frame in
  the value when the value is marked present (and unmaps it otherwise), keeps the translation of
  every other page outside the two windows, and keeps the shape of the address space;
  \<open>vmm_page_get\<close> then returns what was set.
\<close>

theorem vmm_page_set_maps:
  assumes "tables_ok s" and "vmm_dir_idx va < 1022" and "mapped_dir s va"
  shows "\<exists>t. vmm_page_set va v s = Inr t \<and> tables_ok t \<and>
    mmu_translate t va = (if v AND PAGE_PRESENT = 0 then None
                          else Some (frame v OR (va AND PAGE_FLAG_MASK))) \<and>
    vmm_page_get va t = Inr (if v AND PAGE_PRESENT = 0 then 0 else v) \<and>
    (\<forall>x. vmm_dir_idx x < 1022 \<longrightarrow> vmm_table_idx x \<noteq> vmm_table_idx va \<longrightarrow>
         mmu_translate t x = mmu_translate s x)"
proof -
  note e = set_pte_effect [OF assms, where v = v]
  have "vmm_page_set va v s = Inr (set_pte s va v)"
    using assms by (intro vmm_page_set_present) (auto dest: tables_ok_rec)
  then show ?thesis
    using e(1,3,4) vmm_page_get_hw [OF tables_ok_rec [OF e(1)], of va]
    by (auto simp: mmu_translate_def frame_def)
qed

theorem vmm_page_set_maps_witness:
  "\<exists>t. vmm_page_set PMM_PAGE_STACK 0x7003 demo_vm = Inr t \<and>
     mmu_translate t PMM_PAGE_STACK = Some 0x7000 \<and> vmm_page_get PMM_PAGE_STACK t = Inr 0x7003"
proof -
  have "mapped_dir demo_vm PMM_PAGE_STACK" "vmm_dir_idx PMM_PAGE_STACK < 1022"
    by (simp_all add: demo_mapped dir_idx_stack)
  from vmm_page_set_maps [OF demo_tables_ok this(2,1), of "0x7003"] show ?thesis
    by (auto simp: PAGE_PRESENT_def frame_def PAGE_MASK_def PMM_PAGE_STACK_def PAGE_FLAG_MASK_def)
qed

section \<open>The temporary mapping\<close>

lemma temp_dir_idx: "vmm_dir_idx VMM_TEMP1 < 1022" "vmm_dir_idx VMM_TEMP2 < 1022"
  by (simp_all add: vmm_dir_idx_def VMM_TEMP1_def VMM_TEMP2_def)

lemma temp_flags: "VMM_TEMP1 AND PAGE_FLAG_MASK = 0" "VMM_TEMP2 AND PAGE_FLAG_MASK = 0"
  by (simp_all add: PAGE_FLAG_MASK_def VMM_TEMP1_def VMM_TEMP2_def)

lemma same_mem_temp [simp]:
  "hw_pde (s\<lparr>temp_sem := x\<rparr>) = hw_pde s" "hw_pte (s\<lparr>temp_sem := x\<rparr>) = hw_pte s"
  "tables_ok (s\<lparr>temp_sem := x\<rparr>) = tables_ok s" "mapped_dir (s\<lparr>temp_sem := x\<rparr>) = mapped_dir s"
  "no_table (s\<lparr>temp_sem := x\<rparr>) = no_table s"
  "mmu_translate (s\<lparr>temp_sem := x\<rparr>) = mmu_translate s"
  by (simp_all add: same_mem [of "s\<lparr>temp_sem := x\<rparr>" s])

lemma set_pte_no_table_gen:
  assumes "tables_ok s" "vmm_dir_idx va < 1022" "mapped_dir s va"
  shows "no_table (set_pte s va v) = no_table s" "mapped_dir (set_pte s va v) = mapped_dir s"
proof -
  note pde = set_pte_effect(2) [OF assms]
  show m: "mapped_dir (set_pte s va v) = mapped_dir s"
    by (simp add: mapped_dir_def fun_eq_iff pde)
  show "no_table (set_pte s va v) = no_table s"
    by (simp add: no_table_def fun_eq_iff table_frame_def pde m)
qed

lemma present_write: "(PAGE_PRESENT OR PAGE_WRITE) AND PAGE_PRESENT \<noteq> 0"
  by (simp add: PAGE_PRESENT_def PAGE_WRITE_def)

lemma temp_val_present: "vmm_page_val p (PAGE_PRESENT OR PAGE_WRITE) AND PAGE_PRESENT \<noteq> 0"
  unfolding page_val_present by (rule present_write)

text \<open>Clearing the page mapped at a virtual page address whose translation is known.\<close>

definition clear_frame :: "u32 \<Rightarrow> vm \<Rightarrow> vm" where
  "clear_frame f s = s\<lparr>phys := (\<lambda>a. if frame a = f then 0 else phys s a)\<rparr>"

lemma vclear_page_frame:
  "mmu_translate s va = Some pa \<Longrightarrow> vclear_page va s = Inr (clear_frame (frame pa) s)"
  by (simp add: vclear_page_def clear_frame_def frame_def)

lemma clear_frame_effect:
  assumes "tables_ok s" "no_table s f"
  shows "tables_ok (clear_frame f s)" "hw_pde (clear_frame f s) x = hw_pde s x"
    "vmm_dir_idx x < 1022 \<Longrightarrow> hw_pte (clear_frame f s) x = hw_pte s x"
    "no_table (clear_frame f s) = no_table s" "mapped_dir (clear_frame f s) = mapped_dir s"
proof -
  note w = no_table_frame_write [OF assms, of "clear_frame f s", unfolded clear_frame_def, simplified,
      folded clear_frame_def]
  show "tables_ok (clear_frame f s)" "hw_pde (clear_frame f s) x = hw_pde s x"
    "vmm_dir_idx x < 1022 \<Longrightarrow> hw_pte (clear_frame f s) x = hw_pte s x"
    "no_table (clear_frame f s) = no_table s" by (fact w)+
  show "mapped_dir (clear_frame f s) = mapped_dir s" by (simp add: mapped_dir_def fun_eq_iff w)
qed

text \<open>
  \<open>vmm_clear_page\<close> zeroes exactly the given physical page: afterwards every word of its frame is
  0, every other word except the temporary mapping's own table entry is as before, and all
  translations, the temporary one included, are as before.
\<close>

theorem vmm_clear_page_effect:
  assumes ok: "tables_ok s" and temp: "mapped_dir s VMM_TEMP1" "temp_sem s = 0"
    and nt: "no_table s (frame p)"
  shows "\<exists>t. vmm_clear_page p s = Inr t \<and> temp_sem t = 0 \<and> tables_ok t \<and>
    (\<forall>x. vmm_dir_idx x < 1022 \<longrightarrow> mmu_translate t x = mmu_translate s x) \<and>
    (\<forall>a. a \<noteq> pte_pa (hw_pde s VMM_TEMP1) VMM_TEMP1 \<longrightarrow>
         phys t a = (if frame a = frame p then 0 else phys s a))"
proof -
  let ?old = "case hw_pte s VMM_TEMP1 of None \<Rightarrow> 0 | Some e \<Rightarrow> e"
  let ?v = "vmm_page_val p (PAGE_PRESENT OR PAGE_WRITE)"
  let ?s0 = "s\<lparr>temp_sem := 1\<rparr>"
  let ?s1 = "set_pte ?s0 VMM_TEMP1 ?v"
  let ?s2 = "clear_frame (frame p) ?s1"
  let ?s3 = "set_pte ?s2 VMM_TEMP1 ?old"
  have ok0: "tables_ok ?s0" "mapped_dir ?s0 VMM_TEMP1" using ok temp by auto
  note e1 = set_pte_effect [OF ok0(1) temp_dir_idx(1) ok0(2), where v = ?v]
    set_pte_no_table_gen [OF ok0(1) temp_dir_idx(1) ok0(2), where v = ?v]
  have tr: "mmu_translate ?s1 VMM_TEMP1 = Some (frame p)"
    using e1(3) temp_val_present temp_flags by (simp add: mmu_translate_def frame_def)
  have nt1: "no_table ?s1 (frame p)" using e1(5) nt by simp
  note e2 = clear_frame_effect [OF e1(1) nt1]
  have ok2: "mapped_dir ?s2 VMM_TEMP1" using e2(5) e1(6) ok0 by simp
  note e3 = set_pte_effect [OF e2(1) temp_dir_idx(1) ok2, where v = ?old]
  have run: "vmm_clear_page p s = Inr (?s3\<lparr>temp_sem := 0\<rparr>)"
    using vmm_page_set_present [OF tables_ok_rec [OF ok0(1)] ok0(2), of ?v]
      vmm_page_set_present [OF tables_ok_rec [OF e2(1)] ok2, of ?old]
      vmm_page_get_hw [OF tables_ok_rec [OF ok0(1)], of VMM_TEMP1] vclear_page_frame [OF tr] temp
    by (simp add: vmm_clear_page_def lock_temp_def frame_def)
  have other: "hw_pte ?s3 x = hw_pte s x" if x: "vmm_dir_idx x < 1022" for x
  proof (cases "vmm_table_idx x = vmm_table_idx VMM_TEMP1")
    case True
    have "hw_pte ?s3 VMM_TEMP1 = hw_pte s VMM_TEMP1"
      using e3(3) by (auto simp: hw_pte_def Let_def split: option.splits)
    then show ?thesis using hw_pte_cong [OF True] by simp
  next
    case False
    then show ?thesis using x e3(4) e2(3) e1(4) by simp
  qed
  have mem: "phys ?s3 a = (if frame a = frame p then 0 else phys s a)"
    if "a \<noteq> pte_pa (hw_pde s VMM_TEMP1) VMM_TEMP1" for a
    using that e2(2) e1(2) by (simp add: set_pte_def clear_frame_def)
  show ?thesis
    using run e3(1) other mem by (intro exI [of _ "?s3\<lparr>temp_sem := 0\<rparr>"]) (auto simp: mmu_translate_def)
qed

theorem vmm_clear_page_effect_witness:
  "\<exists>t. vmm_clear_page 0x3000 demo_vm = Inr t \<and> phys demo_vm 0x3004 = 0x6000 \<and> phys t 0x3004 = 0 \<and>
     mmu_translate t PMM_PAGE_STACK = mmu_translate demo_vm PMM_PAGE_STACK"
proof -
  have m: "mapped_dir demo_vm VMM_TEMP1" "temp_sem demo_vm = 0"
    by (simp add: demo_mapped VMM_TEMP1_def vmm_dir_idx_def) (simp add: demo_vm_def)
  have n: "no_table demo_vm (frame 0x3000)" by (simp add: demo_frames demo_no_table)
  have "frame 0x3004 = frame 0x3000" by (simp add: frame_def PAGE_MASK_def)
  moreover have "pte_pa (hw_pde demo_vm VMM_TEMP1) VMM_TEMP1 \<noteq> 0x3004"
    by (simp add: demo_pde VMM_TEMP1_def vmm_dir_idx_def pte_pa_def PAGE_MASK_def)
  moreover have "phys demo_vm 0x3004 = 0x6000" by (simp add: demo_vm_def demo_phys_def)
  moreover have "vmm_dir_idx PMM_PAGE_STACK < 1022" by (simp add: dir_idx_stack)
  ultimately show ?thesis using vmm_clear_page_effect [OF demo_tables_ok m n] by metis
qed

end
