(* ===== verification/ListFamily.thy ===== *)
theory ListFamily imports Lists begin

text \<open>
  Families of lists in one link heap: list heads \<open>H\<close>, items \<open>S\<close>, and for every head the
  items \<open>Q c\<close> on its list. Every item is on at most one list and an item on none is linked to
  itself, as \<open>init_list\<close> and \<open>remove_from_list\<close> leave it. The queues of threads, the threads
  of processes, the process list, the signal queues and the memory areas are such families.
\<close>

definition queued :: "'n set \<Rightarrow> ('n \<Rightarrow> 'n list) \<Rightarrow> 'n \<Rightarrow> bool" where
  "queued H Q x \<longleftrightarrow> (\<exists>c\<in>H. x \<in> set (Q c))"

definition rings :: "'n set \<Rightarrow> 'n set \<Rightarrow> 'n links \<Rightarrow> ('n \<Rightarrow> 'n list) \<Rightarrow> bool" where
  "rings H S h Q \<longleftrightarrow> H \<inter> S = {} \<and>
     (\<forall>c\<in>H. ring h c (Q c) \<and> set (Q c) \<subseteq> S) \<and>
     (\<forall>c\<in>H. \<forall>d\<in>H. c \<noteq> d \<longrightarrow> set (Q c) \<inter> set (Q d) = {}) \<and>
     (\<forall>x\<in>S. \<not> queued H Q x \<longrightarrow> ring h x [])"

lemma ringsD:
  assumes "rings H S h Q"
  shows "c \<in> H \<Longrightarrow> ring h c (Q c)" "c \<in> H \<Longrightarrow> set (Q c) \<subseteq> S" "H \<inter> S = {}"
    "c \<in> H \<Longrightarrow> d \<in> H \<Longrightarrow> c \<noteq> d \<Longrightarrow> set (Q c) \<inter> set (Q d) = {}"
    "x \<in> S \<Longrightarrow> \<not> queued H Q x \<Longrightarrow> ring h x []"
  using assms by (auto simp: rings_def)

lemma rings_disjoint:
  assumes "rings H S h Q" and "c \<in> H" and "d \<in> H" and "c \<noteq> d"
  shows "set (c # Q c) \<inter> set (d # Q d) = {}"
  using ringsD(2) [OF assms(1)] ringsD(3) [OF assms(1)] ringsD(4) [OF assms(1)] assms(2-4) by fastforce

lemma rings_disjoint_free:
  assumes "rings H S h Q" and "c \<in> H" and "x \<in> S" and "\<not> queued H Q x"
  shows "set (c # Q c) \<inter> set [x] = {}" "x \<notin> set (c # Q c)"
  using ringsD(3) [OF assms(1)] assms(2-4) by (auto simp: queued_def)

lemma rings_distinct: "rings H S h Q \<Longrightarrow> c \<in> H \<Longrightarrow> distinct (Q c)"
  using ring_distinct ringsD(1) by fastforce

lemma rings_one_queue:
  "rings H S h Q \<Longrightarrow> c \<in> H \<Longrightarrow> x \<in> set (Q c) \<Longrightarrow> d \<in> H \<Longrightarrow> x \<in> set (Q d) \<Longrightarrow> d = c"
  using ringsD(4) [of H S h Q c d] by blast

lemma rings_items: "rings H S h Q \<Longrightarrow> c \<in> H \<Longrightarrow> items h c = Inr (Q c)"
  by (simp add: ringsD(1))

lemma rings_empty: "rings H S h Q \<Longrightarrow> c \<in> H \<Longrightarrow> list_empty h c \<longleftrightarrow> Q c = []"
  by (simp add: list_empty_ring ringsD(1))

lemma rings_head: "rings H S h Q \<Longrightarrow> c \<in> H \<Longrightarrow> nxt h c = hd (Q c @ [c])"
  by (simp add: ring_head ringsD(1))

lemma rings_next:
  "rings H S h Q \<Longrightarrow> c \<in> H \<Longrightarrow> Q c = us @ x # vs \<Longrightarrow> nxt h x = hd (vs @ [c])"
  using ring_mid(1) [of h c us x vs] ringsD(1) [of H S h Q c] by simp

section \<open>The macros on a family\<close>

lemma queued_upd:
  assumes "c \<in> H" and "set ys = insert x (set (Q c))"
  shows "queued H (Q(c := ys)) w \<longleftrightarrow> w = x \<or> queued H Q w"
proof
  assume "queued H (Q(c := ys)) w"
  then obtain d where "d \<in> H" "w \<in> set ((Q(c := ys)) d)" by (auto simp: queued_def)
  then show "w = x \<or> queued H Q w" using assms by (cases "d = c") (auto simp: queued_def)
next
  assume w: "w = x \<or> queued H Q w"
  then consider "w \<in> set ys" | d where "d \<in> H" "d \<noteq> c" "w \<in> set (Q d)"
    using assms by (auto simp: queued_def)
  then show "queued H (Q(c := ys)) w"
    using assms(1) by cases (auto simp: queued_def intro: bexI [of _ c])
qed

text \<open>A macro that puts a free item on one list and leaves the other rings alone.\<close>

lemma rings_insertI:
  assumes r: "rings H S h Q" and c: "c \<in> H" and x: "x \<in> S" "\<not> queued H Q x"
    and ys: "set ys = insert x (set (Q c))" and main: "ring h' c ys"
    and other: "\<And>d. d \<in> H \<Longrightarrow> d \<noteq> c \<Longrightarrow> ring h' d (Q d)"
    and free: "\<And>y. y \<in> S \<Longrightarrow> \<not> queued H Q y \<Longrightarrow> y \<noteq> x \<Longrightarrow> ring h' y []"
  shows "rings H S h' (Q(c := ys))"
  unfolding rings_def
proof (intro conjI ballI impI)
  show "H \<inter> S = {}" by (rule ringsD(3) [OF r])
  fix d assume d: "d \<in> H"
  show "ring h' d ((Q(c := ys)) d)" using main other [OF d] by (cases "d = c") auto
  show "set ((Q(c := ys)) d) \<subseteq> S"
    using ringsD(2) [OF r d] ys x(1) by (cases "d = c") auto
  fix e assume e: "e \<in> H" "d \<noteq> e"
  have out: "x \<notin> set (Q d)" "x \<notin> set (Q e)" using x(2) d e by (auto simp: queued_def)
  have "set (Q d) \<inter> set (Q e) = {}" by (rule ringsD(4) [OF r d e])
  then show "set ((Q(c := ys)) d) \<inter> set ((Q(c := ys)) e) = {}"
    using out ys e(2) by (cases "d = c"; cases "e = c") auto
next
  fix y assume y: "y \<in> S" "\<not> queued H (Q(c := ys)) y"
  then show "ring h' y []" using queued_upd [where Q = Q, OF c ys] free by auto
qed

lemma rings_append:
  assumes r: "rings H S h Q" and c: "c \<in> H" and x: "x \<in> S" "\<not> queued H Q x"
  shows "rings H S (append_to_list h c x) (Q(c := Q c @ [x]))"
proof -
  have xc: "x \<notin> set (c # Q c)" by (rule rings_disjoint_free(2) [OF r c x])
  have main: "ring (append_to_list h c x) c (Q c @ [x])"
    by (rule append_to_list_ring [OF ringsD(1) [OF r c] xc])
  have other: "ring (append_to_list h c x) d (Q d)" if "d \<in> H" "d \<noteq> c" for d
    using that rings_disjoint [OF r c] rings_disjoint_free(2) [OF r _ x] ringsD(1) [OF r] c
    by (intro append_other_ring) auto
  have free: "ring (append_to_list h c x) y []" if "y \<in> S" "\<not> queued H Q y" "y \<noteq> x" for y
    using that rings_disjoint_free(1) [OF r c] ringsD(1,5) [OF r] c
    by (intro append_other_ring) auto
  show ?thesis by (rule rings_insertI [OF r c x _ main other free]) auto
qed

lemma insert_first: "list_insert_to_right h c x = list_insert_to_left h (nxt h c) x"
  if "ring h c xs" "x \<notin> set (c # xs)"
proof (cases xs)
  case Nil
  then show ?thesis
    using that by (auto simp: ring_def list_insert_to_right_def list_insert_to_left_def set_next_def
        set_prev_def Let_def fun_eq_iff)
next
  case (Cons y ys)
  then have "nxt h c = y" "prv h y = c" using that(1) by (auto simp: ring_def)
  then show ?thesis
    using that Cons by (auto simp: list_insert_to_right_def list_insert_to_left_def set_next_def
        set_prev_def Let_def fun_eq_iff)
qed

lemma insert_first_ring:
  assumes "ring h c xs" "x \<notin> set (c # xs)"
  shows "ring (list_insert_to_right h c x) c (x # xs)"
proof (cases xs)
  case Nil
  then show ?thesis
    using assms by (auto simp: ring_def list_insert_to_right_def set_next_def set_prev_def Let_def)
next
  case (Cons y ys)
  then have "nxt h c = y" using assms(1) by (auto simp: ring_def)
  then show ?thesis
    using insert_first [OF assms] list_insert_to_left_ring [of h c "[]" y ys x] assms Cons by simp
qed

lemma rings_push:
  assumes r: "rings H S h Q" and c: "c \<in> H" and x: "x \<in> S" "\<not> queued H Q x"
  shows "rings H S (list_insert_to_right h c x) (Q(c := x # Q c))"
proof -
  have xc: "x \<notin> set (c # Q c)" by (rule rings_disjoint_free(2) [OF r c x])
  have main: "ring (list_insert_to_right h c x) c (x # Q c)"
    by (rule insert_first_ring [OF ringsD(1) [OF r c] xc])
  have other: "ring (list_insert_to_right h c x) d (Q d)" if "d \<in> H" "d \<noteq> c" for d
    using that rings_disjoint [OF r c] rings_disjoint_free(2) [OF r _ x] ringsD(1) [OF r] c
    by (intro insert_right_other_ring [where c = c]) auto
  have free: "ring (list_insert_to_right h c x) y []" if "y \<in> S" "\<not> queued H Q y" "y \<noteq> x" for y
    using that rings_disjoint_free(1) [OF r c] ringsD(1,5) [OF r] c
    by (intro insert_right_other_ring [where c = c]) auto
  show ?thesis by (rule rings_insertI [OF r c x _ main other free]) auto
qed

lemma rings_remove:
  assumes r: "rings H S h Q" and x: "x \<in> S"
  shows "rings H S (remove_from_list h x) (\<lambda>c. removeAll x (Q c))"
proof (cases "queued H Q x")
  case False
  then have "remove_from_list h x = h" using ringsD(5) [OF r x] by (intro remove_single)
  moreover have "removeAll x (Q c) = Q c" if "c \<in> H" for c
    using False that by (auto simp: queued_def)
  ultimately show ?thesis using r by (simp add: rings_def queued_def)
next
  case True
  then obtain c where c: "c \<in> H" "x \<in> set (Q c)" by (auto simp: queued_def)
  then obtain us vs where q: "Q c = us @ x # vs" by (auto dest: split_list)
  have dx: "distinct (us @ x # vs)" using rings_distinct [OF r c(1)] q by simp
  have ringc: "ring h c (us @ x # vs)" using ringsD(1) [OF r c(1)] q by simp
  note rem = remove_from_list_ring [OF ringc]
  have qc: "removeAll x (Q c) = us @ vs" using dx q by simp
  have qd: "removeAll x (Q d) = Q d" if "d \<in> H" "d \<noteq> c" for d
    using rings_one_queue [OF r c] that by (auto intro: removeAll_id)
  have other: "ring (remove_from_list h x) d (Q d)" if "d \<in> H" "d \<noteq> c" for d
    using that rings_disjoint [OF r c(1)] ringsD(1) [OF r] c
    by (intro remove_other_ring [where c = c and xs = "Q c"]) auto
  have free: "ring (remove_from_list h x) y []" if "y \<in> S" "\<not> queued H Q y" for y
    using that rings_disjoint_free(1) [OF r c(1)] ringsD(1,5) [OF r] c
    by (intro remove_other_ring [where c = c and xs = "Q c"]) auto
  have all: "ring (remove_from_list h x) d (removeAll x (Q d))" if "d \<in> H" for d
    using that rem(1) qc qd other by (cases "d = c") auto
  have "queued H (\<lambda>c. removeAll x (Q c)) y \<longleftrightarrow> y \<noteq> x \<and> queued H Q y" for y
    by (auto simp: queued_def)
  then have single: "ring (remove_from_list h x) y []" if "y \<in> S" "\<not> queued H (\<lambda>c. removeAll x (Q c)) y" for y
    using that free rem(2) by (cases "y = x") auto
  have sub: "set (removeAll x (Q d)) \<subseteq> set (Q d)" for d by auto
  show ?thesis
    unfolding rings_def using ringsD(2,3,4) [OF r] sub all single by (intro conjI ballI impI) blast+
qed

lemma rings_init_head:
  assumes r: "rings H S h Q" and c: "c \<notin> H" "c \<notin> S"
  shows "rings (insert c H) S (init_list h c) (Q(c := []))"
proof -
  have "ring (init_list h c) d (Q d)" if "d \<in> H" for d
    using that ringsD(1,2) [OF r] c by (intro init_other_ring) auto
  moreover have "ring (init_list h c) y []" if "y \<in> S" "\<not> queued H Q y" for y
    using that ringsD(5) [OF r] c by (intro init_other_ring) auto
  moreover have "queued (insert c H) (Q(c := [])) y \<longleftrightarrow> queued H Q y" for y
    using c by (auto simp: queued_def)
  ultimately show ?thesis
    using r c unfolding rings_def by (auto simp: init_list_ring)
qed

lemma rings_init_item:
  assumes r: "rings H S h Q" and x: "x \<notin> H" "x \<notin> S"
  shows "rings H (insert x S) (init_list h x) Q"
proof -
  have "ring (init_list h x) d (Q d)" if "d \<in> H" for d
    using that ringsD(1,2) [OF r] x by (intro init_other_ring) auto
  moreover have "ring (init_list h x) y []" if "y \<in> S" "\<not> queued H Q y" for y
    using that ringsD(5) [OF r] x by (intro init_other_ring) auto
  ultimately show ?thesis
    using r x unfolding rings_def by (auto simp: init_list_ring)
qed

lemma rings_same: "(\<And>c. c \<in> H \<Longrightarrow> Q' c = Q c) \<Longrightarrow> rings H S h Q' = rings H S h Q"
  by (auto simp: rings_def queued_def)

lemma rings_init_again:
  assumes r: "rings H S h Q" and x: "x \<in> S" "\<not> queued H Q x"
  shows "init_list h x = h"
  using ringsD(5) [OF r x]
  by (cases h) (auto simp: ring_def init_list_def set_next_def set_prev_def Let_def fun_eq_iff)

lemma rings_insert_before:
  assumes r: "rings H S h Q" and c: "c \<in> H" and x: "x \<in> S" "\<not> queued H Q x"
    and q: "Q c = us @ vs" and y: "y = hd (vs @ [c])"
  shows "rings H S (list_insert_to_left h y x) (Q(c := us @ x # vs))"
proof (cases vs)
  case Nil
  have xc: "x \<notin> set (c # Q c)" by (rule rings_disjoint_free(2) [OF r c x])
  have "prv h c \<in> set (c # Q c)" using ring_closed(2) [OF ringsD(1) [OF r c], of c] by simp
  then have "list_insert_to_left h c x = append_to_list h c x"
    using xc by (intro list_insert_to_left_head) auto
  then show ?thesis using rings_append [OF r c x] q y Nil by simp
next
  case (Cons z zs)
  then have y: "y = z" and q: "Q c = us @ z # zs" using y q by auto
  have xc: "x \<notin> set (c # Q c)" by (rule rings_disjoint_free(2) [OF r c x])
  have main: "ring (list_insert_to_left h z x) c (us @ x # z # zs)"
    using ringsD(1) [OF r c] xc q by (intro list_insert_to_left_ring) auto
  have other: "ring (list_insert_to_left h z x) d (Q d)" if "d \<in> H" "d \<noteq> c" for d
    using that rings_disjoint [OF r c] rings_disjoint_free(2) [OF r _ x] ringsD(1) [OF r] ringsD(1) [OF r c] c q
    by (intro insert_left_other_ring [where c = c and xs = "Q c"]) auto
  have free: "ring (list_insert_to_left h z x) w []" if "w \<in> S" "\<not> queued H Q w" "w \<noteq> x" for w
    using that rings_disjoint_free(1) [OF r c] ringsD(1,5) [OF r] ringsD(1) [OF r c] c q
    by (intro insert_left_other_ring [where c = c and xs = "Q c"]) auto
  have "rings H S (list_insert_to_left h z x) (Q(c := us @ x # z # zs))"
    using q by (intro rings_insertI [OF r c x _ main other free]) auto
  then show ?thesis using Cons y by simp
qed

lemma rings_drop_item:
  assumes "rings H S h Q" and "\<not> queued H Q x"
  shows "rings H (S - {x}) h Q"
proof -
  have "set (Q c) \<subseteq> S - {x}" if "c \<in> H" for c
    using ringsD(2) [OF assms(1) that] assms(2) that by (auto simp: queued_def)
  moreover have "H \<inter> (S - {x}) = {}" using ringsD(3) [OF assms(1)] by blast
  ultimately show ?thesis
    unfolding rings_def using ringsD(1,4,5) [OF assms(1)] by (intro conjI ballI impI) auto
qed

section \<open>Loops over a list\<close>

text \<open>
  A \<open>for_each_in_list\<close> loop whose body changes the state reads the next link after the body;
  the loops that remove items save it before. \<open>lk\<close> gives the link heap in the state.
\<close>

partial_function (option) loop_after ::
    "('s \<Rightarrow> 'n links) \<Rightarrow> ('n \<Rightarrow> 's \<Rightarrow> 's res) \<Rightarrow> 'n \<Rightarrow> 'n \<Rightarrow> 's \<Rightarrow> 's res option" where
  "loop_after lk body head item s =
     (if item = head then Some (Inr s)
      else case body item s of
             Inl e \<Rightarrow> Some (Inl e)
           | Inr s \<Rightarrow> loop_after lk body head (nxt (lk s) item) s)"

partial_function (option) loop_saved ::
    "('s \<Rightarrow> 'n links) \<Rightarrow> ('n \<Rightarrow> 's \<Rightarrow> 's res) \<Rightarrow> 'n \<Rightarrow> 'n \<Rightarrow> 's \<Rightarrow> 's res option" where
  "loop_saved lk body head item s =
     (if item = head then Some (Inr s)
      else let i = nxt (lk s) item in
           case body item s of
             Inl e \<Rightarrow> Some (Inl e)
           | Inr s \<Rightarrow> loop_saved lk body head i s)"

definition for_each_do :: "('s \<Rightarrow> 'n links) \<Rightarrow> 'n \<Rightarrow> ('n \<Rightarrow> 's \<Rightarrow> 's res) \<Rightarrow> 's \<Rightarrow> 's res" where
  "for_each_do lk head body s =
     (case loop_after lk body head (nxt (lk s) head) s of None \<Rightarrow> Inl Hang | Some r \<Rightarrow> r)"

definition for_each_safe :: "('s \<Rightarrow> 'n links) \<Rightarrow> 'n \<Rightarrow> ('n \<Rightarrow> 's \<Rightarrow> 's res) \<Rightarrow> 's \<Rightarrow> 's res" where
  "for_each_safe lk head body s =
     (case loop_saved lk body head (nxt (lk s) head) s of None \<Rightarrow> Inl Hang | Some r \<Rightarrow> r)"

declare loop_after.simps [code] loop_saved.simps [code]

lemma loop_saved_steps:
  assumes step: "\<And>x xs s. I (x # xs) s \<Longrightarrow>
      \<exists>t. body x s = Inr t \<and> I xs t \<and> nxt (lk s) x = hd (xs @ [head]) \<and> x \<noteq> head"
  shows "I xs s \<Longrightarrow> \<exists>t. loop_saved lk body head (hd (xs @ [head])) s = Some (Inr t) \<and> I [] t"
proof (induction xs arbitrary: s)
  case Nil
  then show ?case by (simp add: loop_saved.simps)
next
  case (Cons x xs)
  obtain t where "body x s = Inr t" "I xs t" "nxt (lk s) x = hd (xs @ [head])" "x \<noteq> head"
    using step [OF Cons.prems] by auto
  then show ?case using Cons.IH [of t] by (simp add: loop_saved.simps [of _ _ _ x] Let_def)
qed

lemma loop_after_steps:
  assumes step: "\<And>x xs s. I (x # xs) s \<Longrightarrow>
      \<exists>t. body x s = Inr t \<and> I xs t \<and> nxt (lk t) x = hd (xs @ [head]) \<and> x \<noteq> head"
  shows "I xs s \<Longrightarrow> \<exists>t. loop_after lk body head (hd (xs @ [head])) s = Some (Inr t) \<and> I [] t"
proof (induction xs arbitrary: s)
  case Nil
  then show ?case by (simp add: loop_after.simps)
next
  case (Cons x xs)
  obtain t where "body x s = Inr t" "I xs t" "nxt (lk t) x = hd (xs @ [head])" "x \<noteq> head"
    using step [OF Cons.prems] by auto
  then show ?case using Cons.IH [of t] by (simp add: loop_after.simps [of _ _ _ x])
qed

end
