(* ===== verification/Scheduler.thy ===== *)
theory Scheduler imports ListFamily begin

text \<open>
  The scheduler, \<^verbatim>\<open>kernel/proc/scheduler.c\<close>. The \<open>tasks\<close> field of every thread is a node, and so
  are the heads a thread can be queued on: the run queue, the \<open>waiting\<close> lists of threads and
  processes and the \<open>waiting\<close> list of a pipe. Threads, processes and pipes are named by numbers.
  The abstract view of the scheduler is a function from queue heads to lists of threads
  (\<open>sched_abs\<close>); every operation is a function on this view. The locale \<open>thread_queues\<close>
  states what the rest of the kernel relies on.
\<close>

section \<open>State and operations\<close>

datatype qnode = RunQueue | Tasks nat | ThWaiting nat | ProcWaiting nat | PipeWaiting nat

definition THREAD_STATE_READY :: u32 where "THREAD_STATE_READY = 1"
definition THREAD_STATE_WAITING :: u32 where "THREAD_STATE_WAITING = 2"
definition THREAD_STATE_FINISHED :: u32 where "THREAD_STATE_FINISHED = 3"

record sched =
  tasks :: "qnode links"
  th_state :: "nat \<Rightarrow> u32"
  scheduler_sem :: u32

text \<open>\<open>list_entry(node, thread_t, tasks)\<close>: only a \<open>tasks\<close> node lies in a thread.\<close>

fun thread_entry :: "qnode \<Rightarrow> nat res" where
  "thread_entry (Tasks t) = Inr t"
| "thread_entry _ = Inl BadPtr"

definition lock_sched :: "sched \<Rightarrow> sched res" where
  "lock_sched s = (if scheduler_sem s AND 0xFF = 0
     then Inr (s\<lparr>scheduler_sem := (scheduler_sem s AND NOT 0xFF) OR 1\<rparr>) else Inl Deadlock)"

definition unlock_sched :: "sched \<Rightarrow> sched" where
  "unlock_sched s = s\<lparr>scheduler_sem := 0\<rparr>"

definition scheduler_insert :: "nat \<Rightarrow> sched \<Rightarrow> sched res" where
  "scheduler_insert th s =
     andthen (lock_sched s) (\<lambda>s.
     Inr (unlock_sched (s\<lparr>tasks := append_to_list (tasks s) RunQueue (Tasks th)\<rparr>)))"

definition scheduler_cheat :: "nat \<Rightarrow> sched \<Rightarrow> sched res" where
  "scheduler_cheat th s =
     andthen (lock_sched s) (\<lambda>s.
     let h = tasks s;
         h = set_next (Tasks th) (nxt h RunQueue) h;
         h = set_prev (nxt h RunQueue) (Tasks th) h;
         h = set_prev (Tasks th) RunQueue h;
         h = set_next RunQueue (Tasks th) h
     in Inr (unlock_sched (s\<lparr>tasks := h\<rparr>)))"

definition scheduler_remove :: "nat \<Rightarrow> sched \<Rightarrow> sched res" where
  "scheduler_remove th s =
     andthen (lock_sched s) (\<lambda>s.
     Inr (unlock_sched (s\<lparr>tasks := remove_from_list (tasks s) (Tasks th)\<rparr>)))"

definition scheduler_next :: "sched \<Rightarrow> nat option res" where
  "scheduler_next s =
     (if nxt (tasks s) RunQueue \<noteq> RunQueue
      then andthen (thread_entry (nxt (tasks s) RunQueue)) (\<lambda>th. Inr (Some th))
      else Inr None)"

definition scheduler_init :: "sched \<Rightarrow> sched res" where
  "scheduler_init s =
     andthen (lock_sched s) (\<lambda>s.
     Inr (unlock_sched (s\<lparr>tasks := init_list (tasks s) RunQueue\<rparr>)))"

definition scheduler_sleep :: "nat \<Rightarrow> qnode \<Rightarrow> sched \<Rightarrow> sched res" where
  "scheduler_sleep th lst s =
     andthen (lock_sched s) (\<lambda>s.
     let s = s\<lparr>tasks := remove_from_list (tasks s) (Tasks th)\<rparr>;
         s = s\<lparr>th_state := (th_state s)(th := THREAD_STATE_WAITING)\<rparr>;
         s = s\<lparr>tasks := append_to_list (tasks s) lst (Tasks th)\<rparr>
     in Inr (unlock_sched s))"

definition wake_one :: "qnode \<Rightarrow> sched \<Rightarrow> sched res" where
  "wake_one i s =
     andthen (thread_entry i) (\<lambda>th.
     let s = s\<lparr>tasks := remove_from_list (tasks s) (Tasks th)\<rparr>;
         s = s\<lparr>tasks := append_to_list (tasks s) RunQueue (Tasks th)\<rparr>
     in Inr (s\<lparr>th_state := (th_state s)(th := THREAD_STATE_READY)\<rparr>))"

definition scheduler_wake :: "qnode \<Rightarrow> sched \<Rightarrow> sched res" where
  "scheduler_wake lst s =
     andthen (lock_sched s) (\<lambda>s.
     andthen (for_each_safe tasks lst wake_one s) (\<lambda>s.
     Inr (unlock_sched s)))"

text \<open>\<open>scheduler_list\<close> prints the threads of a list; the model returns them.\<close>

fun entries :: "qnode list \<Rightarrow> nat list res" where
  "entries [] = Inr []"
| "entries (n # ns) = andthen (thread_entry n) (\<lambda>t. andthen (entries ns) (\<lambda>ts. Inr (t # ts)))"

definition scheduler_list :: "qnode option \<Rightarrow> sched \<Rightarrow> nat list res" where
  "scheduler_list lst s =
     (let head = (case lst of None \<Rightarrow> RunQueue | Some c \<Rightarrow> c) in
      andthen (lock_sched s) (\<lambda>s.
      andthen (items (tasks s) head) entries))"

section \<open>The abstract queues\<close>

definition is_head :: "qnode \<Rightarrow> bool" where
  "is_head n \<longleftrightarrow> (\<forall>t. n \<noteq> Tasks t)"

definition sched_abs :: "qnode set \<Rightarrow> nat set \<Rightarrow> sched \<Rightarrow> (qnode \<Rightarrow> nat list) \<Rightarrow> bool" where
  "sched_abs H T s Q \<longleftrightarrow> RunQueue \<in> H \<and> (\<forall>c\<in>H. is_head c) \<and> scheduler_sem s = 0 \<and>
     rings H (Tasks ` T) (tasks s) (\<lambda>c. map Tasks (Q c))"

definition waiting_nowhere :: "qnode set \<Rightarrow> (qnode \<Rightarrow> nat list) \<Rightarrow> nat \<Rightarrow> bool" where
  "waiting_nowhere H Q t \<longleftrightarrow> (\<forall>c\<in>H. t \<notin> set (Q c))"

lemma lock_sched_free [simp]:
  "scheduler_sem s = 0 \<Longrightarrow> lock_sched s = Inr (s\<lparr>scheduler_sem := 1\<rparr>)"
  by (simp add: lock_sched_def)

lemma sched_absD:
  assumes "sched_abs H T s Q"
  shows "RunQueue \<in> H" "c \<in> H \<Longrightarrow> is_head c" "scheduler_sem s = 0"
    "rings H (Tasks ` T) (tasks s) (\<lambda>c. map Tasks (Q c))"
  using assms by (auto simp: sched_abs_def)

lemma sched_absI:
  assumes "sched_abs H T s Q" and "scheduler_sem s' = 0"
    and "rings H (Tasks ` T) (tasks s') Q''" and "\<And>c. c \<in> H \<Longrightarrow> map Tasks (Q' c) = Q'' c"
  shows "sched_abs H T s' Q'"
  using assms rings_same [of H "\<lambda>c. map Tasks (Q' c)" Q''] by (simp add: sched_abs_def)

lemma queued_tasks [simp]:
  "queued H (\<lambda>c. map Tasks (Q c)) (Tasks t) \<longleftrightarrow> \<not> waiting_nowhere H Q t"
  by (auto simp: queued_def waiting_nowhere_def)

lemma inj_Tasks: "inj Tasks"
  by (rule injI) simp

lemma removeAll_Tasks: "removeAll (Tasks t) (map Tasks ts) = map Tasks (removeAll t ts)"
  by (induction ts) auto

lemma sched_threads: "sched_abs H T s Q \<Longrightarrow> c \<in> H \<Longrightarrow> set (Q c) \<subseteq> T"
  using ringsD(2) [OF sched_absD(4), of H T s Q c] by auto

lemma sched_distinct: "sched_abs H T s Q \<Longrightarrow> c \<in> H \<Longrightarrow> distinct (Q c)"
  using rings_distinct [OF sched_absD(4), of H T s Q c] by (simp add: distinct_map)

lemma sched_one_queue:
  "sched_abs H T s Q \<Longrightarrow> c \<in> H \<Longrightarrow> d \<in> H \<Longrightarrow> t \<in> set (Q c) \<Longrightarrow> t \<in> set (Q d) \<Longrightarrow> d = c"
  using rings_one_queue [OF sched_absD(4), of H T s Q c "Tasks t" d] by auto

section \<open>Every operation on the abstract queues\<close>

lemma scheduler_insert_abs:
  assumes a: "sched_abs H T s Q" and t: "t \<in> T" "waiting_nowhere H Q t"
  shows "\<exists>s'. scheduler_insert t s = Inr s' \<and> th_state s' = th_state s \<and>
    sched_abs H T s' (Q(RunQueue := Q RunQueue @ [t]))"
proof -
  note r = rings_append [OF sched_absD(4,1) [OF a], of "Tasks t"]
  show ?thesis
    using t sched_absD(3) [OF a] r
    by (auto simp: scheduler_insert_def unlock_sched_def intro!: sched_absI [OF a])
qed

lemma cheat_links:
  "scheduler_sem s = 0 \<Longrightarrow> ring (tasks s) RunQueue xs \<Longrightarrow> Tasks t \<notin> set xs \<Longrightarrow>
     scheduler_cheat t s =
       Inr (s\<lparr>tasks := list_insert_to_right (tasks s) RunQueue (Tasks t), scheduler_sem := 0\<rparr>)"
proof -
  assume s: "scheduler_sem s = 0" and r: "ring (tasks s) RunQueue xs" and n: "Tasks t \<notin> set xs"
  have "nxt (tasks s) RunQueue \<noteq> Tasks t"
    using ring_head(1) [OF r] hd_mem [of xs RunQueue] n by auto
  then show ?thesis
    using s by (simp add: scheduler_cheat_def unlock_sched_def Let_def list_insert_to_right_def
        set_next_def set_prev_def fun_upd_twist)
qed

lemma scheduler_cheat_abs:
  assumes a: "sched_abs H T s Q" and t: "t \<in> T" "waiting_nowhere H Q t"
  shows "\<exists>s'. scheduler_cheat t s = Inr s' \<and> th_state s' = th_state s \<and>
    sched_abs H T s' (Q(RunQueue := t # Q RunQueue))"
proof -
  note r = rings_push [OF sched_absD(4,1) [OF a], of "Tasks t"]
  have "Tasks t \<notin> set (map Tasks (Q RunQueue))"
    using t(2) sched_absD(1) [OF a] by (auto simp: waiting_nowhere_def)
  note eq = cheat_links [OF sched_absD(3) [OF a] ringsD(1) [OF sched_absD(4,1) [OF a]] this]
  show ?thesis
    using t r eq by (auto intro!: sched_absI [OF a])
qed

lemma scheduler_remove_abs:
  assumes a: "sched_abs H T s Q" and t: "t \<in> T"
  shows "\<exists>s'. scheduler_remove t s = Inr s' \<and> th_state s' = th_state s \<and>
    sched_abs H T s' (\<lambda>c. removeAll t (Q c))"
proof -
  note r = rings_remove [OF sched_absD(4) [OF a], of "Tasks t"]
  show ?thesis
    using t sched_absD(3) [OF a] r
    by (auto simp: scheduler_remove_def unlock_sched_def removeAll_Tasks intro!: sched_absI [OF a])
qed

lemma scheduler_next_abs:
  assumes a: "sched_abs H T s Q"
  shows "scheduler_next s = Inr (case Q RunQueue of [] \<Rightarrow> None | t # _ \<Rightarrow> Some t)"
  using rings_head [OF sched_absD(4,1) [OF a]]
  by (cases "Q RunQueue") (auto simp: scheduler_next_def)

lemma scheduler_sleep_abs:
  assumes a: "sched_abs H T s Q" and t: "t \<in> T" and c: "c \<in> H"
  shows "\<exists>s'. scheduler_sleep t c s = Inr s' \<and>
    th_state s' = (th_state s)(t := THREAD_STATE_WAITING) \<and>
    sched_abs H T s' (\<lambda>d. if d = c then removeAll t (Q c) @ [t] else removeAll t (Q d))"
proof -
  have r: "rings H (Tasks ` T) (remove_from_list (tasks s) (Tasks t)) (\<lambda>c. map Tasks (removeAll t (Q c)))"
    using rings_remove [OF sched_absD(4) [OF a], of "Tasks t"] t by (simp add: removeAll_Tasks)
  have "waiting_nowhere H (\<lambda>c. removeAll t (Q c)) t" by (simp add: waiting_nowhere_def)
  then have "rings H (Tasks ` T) (append_to_list (remove_from_list (tasks s) (Tasks t)) c (Tasks t))
      ((\<lambda>c. map Tasks (removeAll t (Q c)))(c := map Tasks (removeAll t (Q c)) @ [Tasks t]))"
    using t by (intro rings_append [OF r c]) auto
  then show ?thesis
    using sched_absD(3) [OF a]
    by (auto simp: scheduler_sleep_def unlock_sched_def Let_def intro!: sched_absI [OF a])
qed

lemma wake_one_abs:
  assumes r: "rings H (Tasks ` T) (tasks s) (\<lambda>c. map Tasks (Q c))" and rq: "RunQueue \<in> H" "c \<in> H" "c \<noteq> RunQueue"
    and q: "Q c = t # ts"
  shows "\<exists>s'. wake_one (Tasks t) s = Inr s' \<and> th_state s' = (th_state s)(t := THREAD_STATE_READY) \<and>
    scheduler_sem s' = scheduler_sem s \<and>
    rings H (Tasks ` T) (tasks s') (\<lambda>d. map Tasks ((Q(c := ts, RunQueue := Q RunQueue @ [t])) d))"
proof -
  have t: "t \<in> T" using ringsD(2) [OF r rq(2)] q by auto
  have r1: "rings H (Tasks ` T) (remove_from_list (tasks s) (Tasks t)) (\<lambda>c. map Tasks (removeAll t (Q c)))"
    using rings_remove [OF r, of "Tasks t"] t by (simp add: removeAll_Tasks)
  have "waiting_nowhere H (\<lambda>c. removeAll t (Q c)) t" by (simp add: waiting_nowhere_def)
  then have r2: "rings H (Tasks ` T)
      (append_to_list (remove_from_list (tasks s) (Tasks t)) RunQueue (Tasks t))
      ((\<lambda>c. map Tasks (removeAll t (Q c)))(RunQueue := map Tasks (removeAll t (Q RunQueue)) @ [Tasks t]))"
    using t by (intro rings_append [OF r1 rq(1)]) auto
  have "removeAll t (Q d) = Q d" if "d \<in> H" "d \<noteq> c" for d
    using rings_one_queue [OF r rq(2), of "Tasks t" d] q that by (intro removeAll_id) auto
  moreover have "removeAll t (Q c) = ts"
    using rings_distinct [OF r rq(2)] q by (auto simp: distinct_map intro!: removeAll_id)
  ultimately have same: "map Tasks ((Q(c := ts, RunQueue := Q RunQueue @ [t])) d) =
      ((\<lambda>c. map Tasks (removeAll t (Q c)))(RunQueue := map Tasks (removeAll t (Q RunQueue)) @ [Tasks t])) d"
    if "d \<in> H" for d using that rq by auto
  have "rings H (Tasks ` T) (append_to_list (remove_from_list (tasks s) (Tasks t)) RunQueue (Tasks t))
     (\<lambda>d. map Tasks ((Q(c := ts, RunQueue := Q RunQueue @ [t])) d))"
    by (rule iffD2 [OF rings_same r2]) (rule same)
  then show ?thesis by (simp add: wake_one_def Let_def)
qed

lemma scheduler_wake_abs:
  assumes a: "sched_abs H T s Q" and c: "c \<in> H" "c \<noteq> RunQueue"
  shows "\<exists>s'. scheduler_wake c s = Inr s' \<and>
    th_state s' = (\<lambda>t. if t \<in> set (Q c) then THREAD_STATE_READY else th_state s t) \<and>
    sched_abs H T s' (Q(c := [], RunQueue := Q RunQueue @ Q c))"
proof -
  let ?s1 = "s\<lparr>scheduler_sem := 1\<rparr>"
  define J where "J ts ds u \<longleftrightarrow> Q c = ds @ ts \<and> scheduler_sem u = 1 \<and>
      th_state u = (\<lambda>t. if t \<in> set ds then THREAD_STATE_READY else th_state s t) \<and>
      rings H (Tasks ` T) (tasks u) (\<lambda>d. map Tasks ((Q(c := ts, RunQueue := Q RunQueue @ ds)) d))"
    for ts ds and u :: sched
  define I where "I xs u \<longleftrightarrow> (\<exists>ts ds. xs = map Tasks ts \<and> J ts ds u)" for xs and u :: sched
  have step: "\<exists>u'. wake_one (Tasks t) u = Inr u' \<and> J ts (ds @ [t]) u' \<and>
      nxt (tasks u) (Tasks t) = hd (map Tasks ts @ [c]) \<and> Tasks t \<noteq> c"
    if j: "J (t # ts) ds u" for t ts ds u
  proof -
    note x = j [unfolded J_def, THEN conjunct1] j [unfolded J_def, THEN conjunct2, THEN conjunct1]
      j [unfolded J_def, THEN conjunct2, THEN conjunct2, THEN conjunct1]
    note r = j [unfolded J_def, THEN conjunct2, THEN conjunct2, THEN conjunct2]
    have q: "(Q(c := t # ts, RunQueue := Q RunQueue @ ds)) c = t # ts" using c by simp
    from wake_one_abs [OF r sched_absD(1) [OF a] c q] obtain u' where u':
      "wake_one (Tasks t) u = Inr u'" "th_state u' = (th_state u)(t := THREAD_STATE_READY)"
      "scheduler_sem u' = scheduler_sem u"
      "rings H (Tasks ` T) (tasks u') (\<lambda>d. map Tasks (((Q(c := t # ts, RunQueue := Q RunQueue @ ds))
         (c := ts, RunQueue := (Q(c := t # ts, RunQueue := Q RunQueue @ ds)) RunQueue @ [t])) d))"
      by blast
    have "(Q(c := t # ts, RunQueue := Q RunQueue @ ds))
         (c := ts, RunQueue := (Q(c := t # ts, RunQueue := Q RunQueue @ ds)) RunQueue @ [t]) =
       Q(c := ts, RunQueue := Q RunQueue @ (ds @ [t]))"
      using c by (auto simp: fun_eq_iff)
    then have "J ts (ds @ [t]) u'" using x u' by (auto simp: J_def fun_eq_iff)
    moreover have "nxt (tasks u) (Tasks t) = hd (map Tasks ts @ [c])"
      using rings_next [OF r c(1), of "[]" "Tasks t" "map Tasks ts"] c by simp
    ultimately show ?thesis using u'(1) sched_absD(2) [OF a c(1)] by (auto simp: is_head_def)
  qed
  have steps: "\<exists>u'. wake_one x u = Inr u' \<and> I xs u' \<and> nxt (tasks u) x = hd (xs @ [c]) \<and> x \<noteq> c"
    if "I (x # xs) u" for x xs u
    using that step unfolding I_def by (fastforce simp: Cons_eq_map_conv)
  have "J (Q c) [] ?s1"
    using sched_absD(3,4) [OF a] c by (simp add: J_def)
  then have "I (map Tasks (Q c)) ?s1" unfolding I_def by blast
  from loop_saved_steps [of I wake_one tasks c, OF steps this] obtain u where
    u: "loop_saved tasks wake_one c (hd (map Tasks (Q c) @ [c])) ?s1 = Some (Inr u)" "I [] u" by auto
  then obtain ds where "J [] ds u" by (auto simp: I_def)
  then have f: "th_state u = (\<lambda>t. if t \<in> set (Q c) then THREAD_STATE_READY else th_state s t)"
    "rings H (Tasks ` T) (tasks u) (\<lambda>d. map Tasks ((Q(c := [], RunQueue := Q RunQueue @ Q c)) d))"
    unfolding J_def by auto
  have "nxt (tasks s) c = hd (map Tasks (Q c) @ [c])"
    using rings_head [OF sched_absD(4) [OF a] c(1)] by simp
  then have "scheduler_wake c s = Inr (unlock_sched u)"
    using u sched_absD(3) [OF a] by (simp add: scheduler_wake_def for_each_safe_def)
  then show ?thesis using f by (auto simp: unlock_sched_def intro!: sched_absI [OF a])
qed

lemma entries_tasks: "entries (map Tasks ts) = Inr ts"
  by (induction ts) auto

lemma scheduler_list_abs:
  "sched_abs H T s Q \<Longrightarrow> (case lst of None \<Rightarrow> RunQueue | Some c \<Rightarrow> c) \<in> H \<Longrightarrow>
     scheduler_list lst s = Inr (Q (case lst of None \<Rightarrow> RunQueue | Some c \<Rightarrow> c))"
  using rings_items [OF sched_absD(4), of H T s Q] sched_absD(3) [of H T s Q]
  by (simp add: scheduler_list_def Let_def entries_tasks)

section \<open>Heads and threads that come into being\<close>

lemma sched_new_thread:
  assumes a: "sched_abs H T s Q" and t: "t \<notin> T"
  shows "sched_abs H (insert t T) (s\<lparr>tasks := init_list (tasks s) (Tasks t)\<rparr>) Q"
proof -
  have "Tasks t \<notin> H" using sched_absD(2) [OF a] by (auto simp: is_head_def)
  then have "rings H (insert (Tasks t) (Tasks ` T)) (init_list (tasks s) (Tasks t)) (\<lambda>c. map Tasks (Q c))"
    using t by (intro rings_init_item [OF sched_absD(4) [OF a]]) auto
  then show ?thesis using a by (simp add: sched_abs_def)
qed

lemma sched_new_head:
  assumes a: "sched_abs H T s Q" and c: "c \<notin> H" "is_head c"
  shows "sched_abs (insert c H) T (s\<lparr>tasks := init_list (tasks s) c\<rparr>) (Q(c := []))"
proof -
  have "rings (insert c H) (Tasks ` T) (init_list (tasks s) c) ((\<lambda>c. map Tasks (Q c))(c := []))"
    using c by (intro rings_init_head [OF sched_absD(4) [OF a]]) (auto simp: is_head_def)
  moreover have "(\<lambda>c. map Tasks (Q c))(c := []) = (\<lambda>d. map Tasks ((Q(c := [])) d))" by auto
  ultimately show ?thesis using a c by (simp add: sched_abs_def)
qed

end
