(* ===== verification/SchedSpec.thy ===== *)
theory SchedSpec imports Scheduler begin

text \<open>
  What the rest of the kernel relies on from the scheduler, as a locale: a view of the state as
  queues of threads, with laws for putting a thread on the run queue, taking it off, putting it
  to sleep and waking a queue. Two clients are proved against the laws: waking returns
  sleepers to the run queue in the order they went to sleep, and a processor that always takes
  the first thread and puts the running one at the end serves every thread in turn.
\<close>

section \<open>Clients\<close>

fun sleep_all :: "(nat \<Rightarrow> 'q \<Rightarrow> 's \<Rightarrow> 's res) \<Rightarrow> nat list \<Rightarrow> 'q \<Rightarrow> 's \<Rightarrow> 's res" where
  "sleep_all slp [] c s = Inr s"
| "sleep_all slp (t # ts) c s = andthen (slp t c s) (sleep_all slp ts c)"

text \<open>
  One turn of the processor, as \<open>switch_kernel_thread\<close> does it for a running thread that is ready:
  the thread goes to the end of the run queue and the first thread of the queue is taken off.
\<close>

definition turn ::
    "(nat \<Rightarrow> 's \<Rightarrow> 's res) \<Rightarrow> (nat \<Rightarrow> 's \<Rightarrow> 's res) \<Rightarrow> ('s \<Rightarrow> nat option res) \<Rightarrow> nat \<Rightarrow> 's \<Rightarrow> (nat \<times> 's) res" where
  "turn ins rmv fst_of cur s =
     andthen (ins cur s) (\<lambda>s.
     andthen (fst_of s) (\<lambda>n.
     andthen (deref n) (\<lambda>n.
     andthen (rmv n s) (\<lambda>s. Inr (n, s)))))"

fun turns ::
    "(nat \<Rightarrow> 's \<Rightarrow> 's res) \<Rightarrow> (nat \<Rightarrow> 's \<Rightarrow> 's res) \<Rightarrow> ('s \<Rightarrow> nat option res) \<Rightarrow> nat \<Rightarrow> nat \<Rightarrow> 's \<Rightarrow> (nat \<times> 's) res" where
  "turns ins rmv fst_of 0 cur s = Inr (cur, s)"
| "turns ins rmv fst_of (Suc k) cur s =
     andthen (turn ins rmv fst_of cur s) (\<lambda>(n, s). turns ins rmv fst_of k n s)"

section \<open>The contract\<close>

locale thread_queues =
  fixes view :: "'s \<Rightarrow> ('q \<Rightarrow> nat list) \<Rightarrow> bool"
    and heads :: "'q set" and threads :: "nat set" and runq :: "'q"
    and ins :: "nat \<Rightarrow> 's \<Rightarrow> 's res" and rmv :: "nat \<Rightarrow> 's \<Rightarrow> 's res"
    and fst_of :: "'s \<Rightarrow> nat option res"
    and slp :: "nat \<Rightarrow> 'q \<Rightarrow> 's \<Rightarrow> 's res" and wake :: "'q \<Rightarrow> 's \<Rightarrow> 's res"
  assumes runq_head: "runq \<in> heads"
    and view_ok: "view s Q \<Longrightarrow> c \<in> heads \<Longrightarrow> set (Q c) \<subseteq> threads \<and> distinct (Q c)"
    and view_one: "view s Q \<Longrightarrow> c \<in> heads \<Longrightarrow> d \<in> heads \<Longrightarrow> t \<in> set (Q c) \<Longrightarrow> t \<in> set (Q d) \<Longrightarrow> d = c"
    and view_cong: "view s Q \<Longrightarrow> (\<And>c. c \<in> heads \<Longrightarrow> Q' c = Q c) \<Longrightarrow> view s Q'"
    and ins_law: "view s Q \<Longrightarrow> t \<in> threads \<Longrightarrow> \<forall>c\<in>heads. t \<notin> set (Q c) \<Longrightarrow>
      \<exists>s'. ins t s = Inr s' \<and> view s' (Q(runq := Q runq @ [t]))"
    and rmv_law: "view s Q \<Longrightarrow> t \<in> threads \<Longrightarrow>
      \<exists>s'. rmv t s = Inr s' \<and> view s' (\<lambda>c. removeAll t (Q c))"
    and fst_law: "view s Q \<Longrightarrow> fst_of s = Inr (case Q runq of [] \<Rightarrow> None | t # _ \<Rightarrow> Some t)"
    and slp_law: "view s Q \<Longrightarrow> t \<in> threads \<Longrightarrow> c \<in> heads \<Longrightarrow>
      \<exists>s'. slp t c s = Inr s' \<and>
        view s' (\<lambda>d. if d = c then removeAll t (Q c) @ [t] else removeAll t (Q d))"
    and wake_law: "view s Q \<Longrightarrow> c \<in> heads \<Longrightarrow> c \<noteq> runq \<Longrightarrow>
      \<exists>s'. wake c s = Inr s' \<and> view s' (Q(c := [], runq := Q runq @ Q c))"
begin

lemma sleep_all_view:
  assumes "view s Q" and "c \<in> heads" and "set ts \<subseteq> threads" and "distinct ts"
    and "\<forall>d\<in>heads. set (Q d) \<inter> set ts = {}"
  shows "\<exists>s'. sleep_all slp ts c s = Inr s' \<and> view s' (Q(c := Q c @ ts))"
  using assms
proof (induction ts arbitrary: s Q)
  case (Cons t ts)
  obtain s1 where s1: "slp t c s = Inr s1"
    and v1: "view s1 (\<lambda>d. if d = c then removeAll t (Q c) @ [t] else removeAll t (Q d))"
    using slp_law [OF Cons.prems(1) _ Cons.prems(2)] Cons.prems(3) by auto
  have "removeAll t (Q d) = Q d" if "d \<in> heads" for d
    using Cons.prems(5) that by auto
  then have v2: "view s1 (Q(c := Q c @ [t]))"
    using Cons.prems(2) by (intro view_cong [OF v1]) auto
  have dj: "\<forall>d\<in>heads. set ((Q(c := Q c @ [t])) d) \<inter> set ts = {}"
    using Cons.prems(4,5) by auto
  have ts: "set ts \<subseteq> threads" "distinct ts" using Cons.prems(3,4) by auto
  have "(Q(c := Q c @ [t]))(c := (Q(c := Q c @ [t])) c @ ts) = Q(c := Q c @ t # ts)" by simp
  then show ?case using Cons.IH [OF v2 Cons.prems(2) ts dj] s1 by (metis andthen_Inr sleep_all.simps(2))
qed simp

lemma wake_keeps_order:
  assumes "view s Q" and "c \<in> heads" "c \<noteq> runq" and "set ts \<subseteq> threads" and "distinct ts"
    and "\<forall>d\<in>heads. set (Q d) \<inter> set ts = {}"
  shows "\<exists>s'. andthen (sleep_all slp ts c s) (wake c) = Inr s' \<and>
    view s' (Q(c := [], runq := Q runq @ Q c @ ts))"
proof -
  obtain s1 where s1: "sleep_all slp ts c s = Inr s1" "view s1 (Q(c := Q c @ ts))"
    using sleep_all_view [OF assms(1,2,4-6)] by blast
  obtain s' where s': "wake c s1 = Inr s'"
    "view s' ((Q(c := Q c @ ts))(c := [], runq := (Q(c := Q c @ ts)) runq @ (Q(c := Q c @ ts)) c))"
    using wake_law [OF s1(2) assms(2,3)] by blast
  have "view s' (Q(c := [], runq := Q runq @ Q c @ ts))"
    using assms(3) by (intro view_cong [OF s'(2)]) auto
  then show ?thesis using s1 s' by auto
qed

lemma turn_view:
  assumes v: "view s Q" and cur: "cur \<in> threads" "\<forall>c\<in>heads. cur \<notin> set (Q c)" and q: "Q runq = n # r"
  shows "\<exists>s'. turn ins rmv fst_of cur s = Inr (n, s') \<and> view s' (Q(runq := r @ [cur])) \<and>
    n \<in> threads \<and> (\<forall>c\<in>heads. n \<notin> set ((Q(runq := r @ [cur])) c))"
proof -
  obtain s1 where s1: "ins cur s = Inr s1" "view s1 (Q(runq := Q runq @ [cur]))"
    using ins_law [OF v cur] by blast
  have f: "fst_of s1 = Inr (Some n)" using fst_law [OF s1(2)] q by simp
  have n: "n \<in> threads" "distinct (n # r)" using view_ok [OF v runq_head] q by auto
  have out: "n \<notin> set (Q c)" if "c \<in> heads" "c \<noteq> runq" for c
    using view_one [OF v runq_head, of c n] that q by auto
  have nc: "n \<noteq> cur" using cur(2) runq_head q by auto
  obtain s2 where s2: "rmv n s1 = Inr s2" "view s2 (\<lambda>c. removeAll n ((Q(runq := Q runq @ [cur])) c))"
    using rmv_law [OF s1(2) n(1)] by blast
  have "view s2 (Q(runq := r @ [cur]))"
    using out n nc q by (intro view_cong [OF s2(2)]) auto
  then show ?thesis using s1 s2 f n nc out by (auto simp: turn_def)
qed

lemma turns_view:
  assumes "view s Q" and "cur \<in> threads" "\<forall>c\<in>heads. cur \<notin> set (Q c)"
    and "cur # Q runq = us @ n # vs"
  shows "\<exists>s'. turns ins rmv fst_of (length us) cur s = Inr (n, s') \<and> view s' (Q(runq := vs @ us))"
  using assms
proof (induction us arbitrary: s Q cur vs)
  case Nil
  then show ?case by (auto intro: view_cong)
next
  case (Cons u us)
  then have u: "u = cur" by simp
  obtain m r where q: "Q runq = m # r" and mr: "m # r = us @ n # vs"
    using Cons.prems(4) by (cases "Q runq") auto
  obtain s1 where s1: "turn ins rmv fst_of cur s = Inr (m, s1)" "view s1 (Q(runq := r @ [cur]))"
    "m \<in> threads" "\<forall>c\<in>heads. m \<notin> set ((Q(runq := r @ [cur])) c)"
    using turn_view [OF Cons.prems(1-3) q] by blast
  have "m # (Q(runq := r @ [cur])) runq = us @ n # (vs @ [cur])" using mr by simp
  moreover have "(Q(runq := r @ [cur]))(runq := (vs @ [cur]) @ us) = Q(runq := vs @ u # us)"
    using u by simp
  ultimately obtain s' where "turns ins rmv fst_of (length us) m s1 = Inr (n, s')"
    "view s' (Q(runq := vs @ u # us))"
    using Cons.IH [OF s1(2-4), of "vs @ [cur]"] by metis
  then show ?case using s1(1) u by (simp del: fun_upd_apply)
qed

end

interpretation sq: thread_queues "sched_abs (insert RunQueue H) T" "insert RunQueue H" T RunQueue
  scheduler_insert scheduler_remove scheduler_next scheduler_sleep scheduler_wake
  for H T
proof (unfold_locales, goal_cases)
  case 1
  show ?case by simp
next
  case (2 s Q c)
  then show ?case by (simp add: sched_threads sched_distinct)
next
  case (3 s Q c d t)
  then show ?case by (meson sched_one_queue)
next
  case (4 s Q Q')
  then show ?case using sched_absI [OF 4(1) sched_absD(3,4) [OF 4(1)], of Q'] by simp
next
  case (5 s Q t)
  then show ?case using scheduler_insert_abs by (fastforce simp: waiting_nowhere_def)
next
  case (6 s Q t)
  then show ?case using scheduler_remove_abs by blast
next
  case (7 s Q)
  then show ?case by (rule scheduler_next_abs)
next
  case (8 s Q t c)
  then show ?case using scheduler_sleep_abs by blast
next
  case (9 s Q c)
  then show ?case using scheduler_wake_abs by blast
qed

section \<open>A concrete scheduler\<close>

definition demo_sched :: sched where
  "demo_sched = \<lparr>tasks = \<lparr>prv = (\<lambda>n. n), nxt = (\<lambda>n. n)\<rparr>, th_state = (\<lambda>_. THREAD_STATE_READY),
     scheduler_sem = 0\<rparr>"

lemma demo_sched_abs: "sched_abs {RunQueue, ThWaiting 9} {1, 2, 3} demo_sched (\<lambda>_. [])"
  by (auto simp: sched_abs_def rings_def ring_def demo_sched_def is_head_def)

section \<open>Properties\<close>

text \<open>
  C11. Waking is fair: threads put to sleep one after the other on a wait list all return to the
  run queue when the list is woken, in the order they went to sleep, behind the threads that were
  already there, and the wait list is empty afterwards.
\<close>

theorem sleep_wake_fifo:
  assumes "sched_abs H T s Q" and "c \<in> H" "c \<noteq> RunQueue" and "set ts \<subseteq> T" and "distinct ts"
    and "\<forall>d\<in>H. set (Q d) \<inter> set ts = {}"
  shows "\<exists>s'. andthen (sleep_all scheduler_sleep ts c s) (scheduler_wake c) = Inr s' \<and>
    sched_abs H T s' (Q(c := [], RunQueue := Q RunQueue @ Q c @ ts))"
proof -
  have H: "insert RunQueue H = H" using sched_absD(1) [OF assms(1)] by (rule insert_absorb)
  show ?thesis using sq.wake_keeps_order [where H = H, unfolded H, OF assms] .
qed

theorem sleep_wake_fifo_witness:
  "\<exists>s'. andthen (sleep_all scheduler_sleep [3, 2] (ThWaiting 9) demo_sched)
       (scheduler_wake (ThWaiting 9)) = Inr s' \<and> scheduler_next s' = Inr (Some 3)"
proof -
  obtain s' where s': "andthen (sleep_all scheduler_sleep [3, 2] (ThWaiting 9) demo_sched)
       (scheduler_wake (ThWaiting 9)) = Inr s'"
    "sched_abs {RunQueue, ThWaiting 9} {1, 2, 3} s' ((\<lambda>_. [])(ThWaiting 9 := [], RunQueue := [] @ [] @ [3, 2]))"
    using sleep_wake_fifo [OF demo_sched_abs, of "ThWaiting 9" "[3, 2]"] by auto
  show ?thesis using s'(1) scheduler_next_abs [OF s'(2)] by (intro exI [of _ s']) simp
qed

text \<open>
  C14. Round robin: as long as the running thread stays ready, the thread at position \<open>k\<close> behind
  it on the run queue is the one that runs after \<open>k\<close> turns, and no thread gets lost.
\<close>

theorem round_robin:
  assumes "sched_abs H T s Q" and "cur \<in> T" and "waiting_nowhere H Q cur" and "k \<le> length (Q RunQueue)"
  shows "\<exists>s'. turns scheduler_insert scheduler_remove scheduler_next k cur s =
      Inr ((cur # Q RunQueue) ! k, s') \<and>
    sched_abs H T s' (Q(RunQueue := drop (Suc k) (cur # Q RunQueue) @ take k (cur # Q RunQueue)))"
proof -
  have H: "insert RunQueue H = H" using sched_absD(1) [OF assms(1)] by (rule insert_absorb)
  let ?L = "cur # Q RunQueue"
  have "?L = take k ?L @ ?L ! k # drop (Suc k) ?L" using assms(4) by (intro id_take_nth_drop) simp
  from sq.turns_view [where H = H, unfolded H, OF assms(1,2) assms(3) [unfolded waiting_nowhere_def] this]
  show ?thesis using assms(4) by (simp add: min_def)
qed

theorem round_robin_witness:
  "\<exists>s s'. scheduler_insert 1 demo_sched = Inr s \<and>
     turns scheduler_insert scheduler_remove scheduler_next 1 2 s = Inr (1, s')"
proof -
  obtain s where s: "scheduler_insert 1 demo_sched = Inr s"
    "sched_abs {RunQueue, ThWaiting 9} {1, 2, 3} s ((\<lambda>_. [])(RunQueue := [] @ [1]))"
    using scheduler_insert_abs [OF demo_sched_abs, of 1] by (auto simp: waiting_nowhere_def)
  have "waiting_nowhere {RunQueue, ThWaiting 9} ((\<lambda>_. [])(RunQueue := [] @ [1])) 2"
    by (simp add: waiting_nowhere_def)
  from round_robin [OF s(2) _ this, of 1] s(1) show ?thesis by fastforce
qed

end
