(* ===== verification/Procmm.thy ===== *)
theory Procmm imports VmmOps ListFamily begin

text \<open>
  The memory areas of processes, \<^verbatim>\<open>kernel/mem/procmm.c\<close>. An area is on two lists: the sorted list
  of its process (\<open>mem\<close>, nodes \<open>MemHead\<close> of a process and \<open>Mem\<close> of an area) and the ring of the
  areas that share its pages (\<open>copies\<close>, which has no head of its own). Processes and areas are
  named by numbers. The page tables are those of the machine (\<open>mvm\<close>).
\<close>

section \<open>State\<close>

record mem_area =
  a_start :: u32
  a_end :: u32
  a_flags :: u32
  a_type :: u32
  owner :: nat

record process_mem =
  code_start :: u32
  code_end :: u32
  code_entry :: u32
  arg_start :: u32
  arg_end :: u32
  env_start :: u32
  env_end :: u32
  data_end :: u32
  stack_limit :: u32

text \<open>The fields of a process the memory management uses.\<close>

record proc_mm =
  mm :: process_mem
  pd :: u32
  pd_sem :: u32

datatype mnode = MemHead nat | Mem nat

record mms =
  mvm :: vm
  areas :: "nat \<Rightarrow> mem_area option"
  pmm :: "nat \<Rightarrow> proc_mm option"
  mem :: "mnode links"
  copies :: "nat links"
  procmm_sem :: u32
  next_area :: nat

definition MM_FLAG_READ :: u32 where "MM_FLAG_READ = 1"
definition MM_FLAG_WRITE :: u32 where "MM_FLAG_WRITE = 2"
definition MM_FLAG_SHARED :: u32 where "MM_FLAG_SHARED = 4"
definition MM_FLAG_NOSHARE :: u32 where "MM_FLAG_NOSHARE = 8"
definition MM_FLAG_COW :: u32 where "MM_FLAG_COW = 16"
definition MM_FLAG_GROWSDOWN :: u32 where "MM_FLAG_GROWSDOWN = 32"
definition MM_FLAG_AUTOGROW :: u32 where "MM_FLAG_AUTOGROW = 64"
definition MM_FLAG_ADDONUSE :: u32 where "MM_FLAG_ADDONUSE = 128"
definition MM_TYPE_DATA :: u32 where "MM_TYPE_DATA = 1"
definition MM_TYPE_ARG :: u32 where "MM_TYPE_ARG = 4"
definition MM_TYPE_ENV :: u32 where "MM_TYPE_ENV = 5"
definition MM_TYPE_STACK :: u32 where "MM_TYPE_STACK = 6"
definition PF_PRESENT :: u32 where "PF_PRESENT = 1"
definition PF_WRITE :: u32 where "PF_WRITE = 2"

definition zero_mm :: process_mem where
  "zero_mm = \<lparr>code_start = 0, code_end = 0, code_entry = 0, arg_start = 0, arg_end = 0,
     env_start = 0, env_end = 0, data_end = 0, stack_limit = 0\<rparr>"

definition area_of :: "nat \<Rightarrow> mms \<Rightarrow> mem_area res" where
  "area_of a s = deref (areas s a)"

definition put_area :: "nat \<Rightarrow> mem_area \<Rightarrow> mms \<Rightarrow> mms" where
  "put_area a v s = s\<lparr>areas := (areas s)(a \<mapsto> v)\<rparr>"

definition upd_area :: "nat \<Rightarrow> (mem_area \<Rightarrow> mem_area) \<Rightarrow> mms \<Rightarrow> mms res" where
  "upd_area a f s = andthen (area_of a s) (\<lambda>v. Inr (put_area a (f v) s))"

definition pmm_of :: "nat \<Rightarrow> mms \<Rightarrow> proc_mm res" where
  "pmm_of p s = deref (pmm s p)"

definition upd_pmm :: "nat \<Rightarrow> (proc_mm \<Rightarrow> proc_mm) \<Rightarrow> mms \<Rightarrow> mms res" where
  "upd_pmm p f s = andthen (pmm_of p s) (\<lambda>v. Inr (s\<lparr>pmm := (pmm s)(p \<mapsto> f v)\<rparr>))"

text \<open>A memory manager operation on the machine inside the state.\<close>

definition on_vm :: "(vm \<Rightarrow> vm res) \<Rightarrow> mms \<Rightarrow> mms res" where
  "on_vm f s = andthen (f (mvm s)) (\<lambda>v. Inr (s\<lparr>mvm := v\<rparr>))"

definition lock_procmm :: "mms \<Rightarrow> mms res" where
  "lock_procmm s = andthen (spin_lock (procmm_sem s)) (\<lambda>l. Inr (s\<lparr>procmm_sem := l\<rparr>))"

definition lock_pd :: "nat \<Rightarrow> mms \<Rightarrow> mms res" where
  "lock_pd p s =
     andthen (pmm_of p s) (\<lambda>v.
     andthen (spin_lock (pd_sem v)) (\<lambda>l. Inr (s\<lparr>pmm := (pmm s)(p \<mapsto> v\<lparr>pd_sem := l\<rparr>)\<rparr>)))"

definition unlock_pd :: "nat \<Rightarrow> mms \<Rightarrow> mms res" where
  "unlock_pd p s = upd_pmm p (\<lambda>v. v\<lparr>pd_sem := 0\<rparr>) s"

text \<open>\<open>list_entry(l, mem_area_t, mem)\<close>.\<close>

fun area_entry :: "mnode \<Rightarrow> nat res" where
  "area_entry (Mem a) = Inr a"
| "area_entry (MemHead _) = Inl BadPtr"

section \<open>Lookup\<close>

text \<open>The areas of a list, in order, with what the code reads of each.\<close>

fun area_list :: "mnode list \<Rightarrow> mms \<Rightarrow> (nat \<times> mem_area) list res" where
  "area_list [] s = Inr []"
| "area_list (l # ls) s =
     andthen (area_entry l) (\<lambda>a.
     andthen (area_of a s) (\<lambda>v.
     andthen (area_list ls s) (\<lambda>r. Inr ((a, v) # r))))"

definition proc_areas :: "nat \<Rightarrow> mms \<Rightarrow> (nat \<times> mem_area) list res" where
  "proc_areas p s = andthen (items (mem s) (MemHead p)) (\<lambda>ls. area_list ls s)"

definition find_including :: "nat \<Rightarrow> u32 \<Rightarrow> mms \<Rightarrow> nat option res" where
  "find_including p addr s =
     andthen (proc_areas p s) (\<lambda>as.
     Inr (map_option fst (find (\<lambda>(_, v). a_start v \<le> addr \<and> a_end v > addr) as)))"

text \<open>The loop runs from the last area down to the first; it ends before looking at the first.\<close>

partial_function (option) above_from :: "nat \<Rightarrow> mnode \<Rightarrow> u32 \<Rightarrow> mms \<Rightarrow> nat option res option" where
  "above_from p l addr s =
     (if l = nxt (mem s) (MemHead p) then Some (Inr None)
      else case andthen (area_entry (prv (mem s) l)) (\<lambda>a. area_of a s) of
             Inl e \<Rightarrow> Some (Inl e)
           | Inr v \<Rightarrow>
              if a_end v < addr
              then Some (andthen (area_entry l) (\<lambda>a. Inr (Some a)))
              else above_from p (prv (mem s) l) addr s)"

declare above_from.simps [code]

definition find_above :: "nat \<Rightarrow> u32 \<Rightarrow> mms \<Rightarrow> nat option res" where
  "find_above p addr s =
     andthen (find_including p addr s) (\<lambda>f.
     case f of
       Some a \<Rightarrow> Inr (Some a)
     | None \<Rightarrow> (case above_from p (prv (mem s) (MemHead p)) addr s of
                  None \<Rightarrow> Inl Hang | Some r \<Rightarrow> r))"

section \<open>Making and removing areas\<close>

definition init_procmm :: "nat \<Rightarrow> mms \<Rightarrow> mms res" where
  "init_procmm p s =
     andthen (upd_pmm p (\<lambda>v. v\<lparr>mm := zero_mm\<rparr>) s) (\<lambda>s.
     Inr (s\<lparr>mem := init_list (mem s) (MemHead p)\<rparr>))"

definition alloc_area :: "u32 \<Rightarrow> u32 \<Rightarrow> u32 \<Rightarrow> u32 \<Rightarrow> nat \<Rightarrow> mms \<Rightarrow> nat \<times> mms" where
  "alloc_area st en fl ty ow s =
     (let ma = next_area s;
          s = s\<lparr>next_area := Suc ma\<rparr>;
          s = put_area ma \<lparr>a_start = st, a_end = en, a_flags = fl, a_type = ty, owner = ow\<rparr> s;
          s = s\<lparr>mem := init_list (mem s) (Mem ma)\<rparr>;
          s = s\<lparr>copies := init_list (copies s) ma\<rparr>
      in (ma, s))"

definition free_area :: "nat \<Rightarrow> mms \<Rightarrow> mms res" where
  "free_area ma s =
     andthen (area_of ma s) (\<lambda>_.
     let s = s\<lparr>mem := remove_from_list (mem s) (Mem ma)\<rparr>;
         s = s\<lparr>copies := remove_from_list (copies s) ma\<rparr>
     in Inr (s\<lparr>areas := (areas s)(ma := None)\<rparr>))"

definition glue_left :: "nat \<Rightarrow> mms \<Rightarrow> (nat \<times> mms) res" where
  "glue_left ma s =
     andthen (area_of ma s) (\<lambda>v.
     andthen (proc_areas (owner v) s) (\<lambda>as.
     case find (\<lambda>(a, w). a \<noteq> ma \<and> a_end w = a_start v \<and> a_flags w = a_flags v \<and> a_type w = a_type v) as of
       None \<Rightarrow> Inr (ma, s)
     | Some (a, _) \<Rightarrow>
         andthen (upd_area a (\<lambda>w. w\<lparr>a_end := a_end v\<rparr>) s) (\<lambda>s.
         andthen (free_area ma s) (\<lambda>s. Inr (a, s)))))"

definition glue_right :: "nat \<Rightarrow> mms \<Rightarrow> mms res" where
  "glue_right ma s =
     andthen (area_of ma s) (\<lambda>v.
     andthen (proc_areas (owner v) s) (\<lambda>as.
     case find (\<lambda>(a, w). a \<noteq> ma \<and> a_start w = a_end v \<and> a_flags w = a_flags v \<and> a_type w = a_type v) as of
       None \<Rightarrow> Inr s
     | Some (a, w) \<Rightarrow>
         andthen (upd_area ma (\<lambda>v. v\<lparr>a_end := a_end w\<rparr>) s) (\<lambda>s. free_area a s)))"

definition glue_area :: "nat \<Rightarrow> mms \<Rightarrow> (nat \<times> mms) res" where
  "glue_area ma s =
     andthen (area_of ma s) (\<lambda>v.
     if \<not> list_empty (copies s) ma then Inr (ma, s)
     else if a_flags v AND MM_FLAG_COW \<noteq> 0 then Inr (ma, s)
     else
      andthen (lock_procmm s) (\<lambda>s.
      andthen (glue_left ma s) (\<lambda>(ma, s).
      andthen (glue_right ma s) (\<lambda>s.
      Inr (ma, s\<lparr>procmm_sem := 0\<rparr>)))))"

text \<open>
  The collision check of \<open>new_area\<close>: every page address from \<open>start\<close> up to and including \<open>end\<close> is
  looked up, and one that lies in an area makes the kernel loop for ever.
\<close>

partial_function (option) check_collision :: "nat \<Rightarrow> u32 \<Rightarrow> u32 \<Rightarrow> mms \<Rightarrow> unit res option" where
  "check_collision p i en s =
     (if i \<le> en
      then case find_including p i s of
             Inl e \<Rightarrow> Some (Inl e)
           | Inr (Some _) \<Rightarrow> Some (Inl Hang)
           | Inr None \<Rightarrow> check_collision p (i + PAGE_SIZE) en s
      else Some (Inr ()))"

partial_function (option) back_pages :: "u32 \<Rightarrow> u32 \<Rightarrow> u32 \<Rightarrow> vm \<Rightarrow> vm res option" where
  "back_pages i en fl v =
     (if i < en
      then case andthen (pmm_alloc_page v) (\<lambda>(page, v). vmm_expage_set i (vmm_page_val page fl) v) of
             Inl e \<Rightarrow> Some (Inl e)
           | Inr v \<Rightarrow> back_pages (i + PAGE_SIZE) en fl v
      else Some (Inr v))"

definition returns :: "'a res option \<Rightarrow> 'a res" where
  "returns r = (case r of None \<Rightarrow> Inl Hang | Some x \<Rightarrow> x)"

text \<open>Work on the address space of process \<open>p\<close> through the second directory, with its lock held.\<close>

definition with_pd :: "nat \<Rightarrow> (vm \<Rightarrow> vm res) \<Rightarrow> mms \<Rightarrow> mms res" where
  "with_pd p body s =
     andthen (lock_pd p s) (\<lambda>s.
     andthen (pmm_of p s) (\<lambda>v.
     andthen (vmm_exdir_set (pd v) (mvm s)) (\<lambda>(old, m).
     andthen (body m) (\<lambda>m.
     andthen (vmm_exdir_set old m) (\<lambda>(_, m).
     unlock_pd p (s\<lparr>mvm := m\<rparr>))))))"

text \<open>The first area that starts above \<open>end\<close>, or the head: the new area goes in front of it.\<close>

fun insert_point :: "nat \<Rightarrow> u32 \<Rightarrow> (nat \<times> mem_area) list \<Rightarrow> mnode" where
  "insert_point p en [] = MemHead p"
| "insert_point p en ((a, v) # r) = (if a_start v > en then Mem a else insert_point p en r)"

definition page_up :: "u32 \<Rightarrow> u32" where
  "page_up en = (if en AND PAGE_FLAG_MASK \<noteq> 0 then en + PAGE_SIZE else en) AND PAGE_MASK"

definition area_page_flags :: "u32 \<Rightarrow> u32" where
  "area_page_flags fl =
     (if fl AND MM_FLAG_WRITE \<noteq> 0 \<and> fl AND MM_FLAG_COW = 0
      then PAGE_PRESENT OR PAGE_USER OR PAGE_WRITE else PAGE_PRESENT OR PAGE_USER)"

definition new_area :: "nat \<Rightarrow> u32 \<Rightarrow> u32 \<Rightarrow> u32 \<Rightarrow> u32 \<Rightarrow> mms \<Rightarrow> (nat \<times> mms) res" where
  "new_area p st en fl ty s =
     (let st = st AND PAGE_MASK; en = page_up en in
      andthen (returns (check_collision p st en s)) (\<lambda>_.
      let (area, s) = alloc_area st en fl ty p s in
      andthen
        (if fl AND MM_FLAG_ADDONUSE = 0 \<and> fl AND MM_FLAG_COW = 0
         then with_pd p (\<lambda>m. returns (back_pages st en (area_page_flags fl) m)) s
         else Inr s) (\<lambda>s.
      andthen (lock_procmm s) (\<lambda>s.
      andthen (proc_areas p s) (\<lambda>as.
      let s = s\<lparr>mem := list_insert_to_left (mem s) (insert_point p en as) (Mem area)\<rparr>;
          s = s\<lparr>procmm_sem := 0\<rparr>
      in glue_area area s)))))"

section \<open>Splitting\<close>

definition split_copy :: "u32 \<Rightarrow> u32 \<Rightarrow> nat option \<Rightarrow> nat option \<Rightarrow> nat \<Rightarrow> mms \<Rightarrow> mms res" where
  "split_copy st en left right mid s =
     andthen (area_of mid s) (\<lambda>v.
     let s = (case left of
                None \<Rightarrow> s
              | Some lft \<Rightarrow>
                 (let (l, s) = alloc_area (a_start v) st (a_flags v) (a_type v) (owner v) s;
                      s = s\<lparr>mem := list_insert_to_left (mem s) (Mem mid) (Mem l)\<rparr>
                  in s\<lparr>copies := append_to_list (copies s) lft l\<rparr>));
         s = (case right of
                None \<Rightarrow> s
              | Some rgt \<Rightarrow>
                 (let (r, s) = alloc_area en (a_end v) (a_flags v) (a_type v) (owner v) s;
                      s = s\<lparr>mem := list_insert_to_right (mem s) (Mem mid) (Mem r)\<rparr>
                  in s\<lparr>copies := append_to_list (copies s) rgt r\<rparr>))
     in upd_area mid (\<lambda>v. v\<lparr>a_start := st, a_end := en\<rparr>) s)"

definition split_area :: "nat \<Rightarrow> u32 \<Rightarrow> u32 \<Rightarrow> mms \<Rightarrow> mms res" where
  "split_area ma st en s =
     (let st = st AND PAGE_MASK; en = en AND PAGE_MASK in
      andthen (area_of ma s) (\<lambda>v.
      if a_start v = st \<and> a_end v = en then Inr s
      else
       andthen (lock_procmm s) (\<lambda>s.
       let (left, s) =
             (if st > a_start v
              then (let (l, s) = alloc_area (a_start v) st (a_flags v) (a_type v) (owner v) s
                    in (Some l, s\<lparr>mem := list_insert_to_left (mem s) (Mem ma) (Mem l)\<rparr>))
              else (None, s));
           (right, s) =
             (if en < a_end v
              then (let (r, s) = alloc_area en (a_end v) (a_flags v) (a_type v) (owner v) s
                    in (Some r, s\<lparr>mem := list_insert_to_right (mem s) (Mem ma) (Mem r)\<rparr>))
              else (None, s))
       in
       andthen (upd_area ma (\<lambda>v. v\<lparr>a_start := st, a_end := en\<rparr>) s) (\<lambda>s.
       andthen (for_each_do copies ma (split_copy st en left right) s) (\<lambda>s.
       Inr (s\<lparr>procmm_sem := 0\<rparr>))))))"

section \<open>Sharing\<close>

partial_function (option) write_protect :: "u32 \<Rightarrow> u32 \<Rightarrow> vm \<Rightarrow> vm res option" where
  "write_protect i en m =
     (if i < en
      then case andthen (vmm_expage_get i m) (\<lambda>pt. vmm_expage_set i (pt AND NOT PAGE_WRITE) m) of
             Inl e \<Rightarrow> Some (Inl e)
           | Inr m \<Rightarrow> write_protect (i + PAGE_SIZE) en m
      else Some (Inr m))"

definition share_area :: "nat \<Rightarrow> nat \<Rightarrow> mms \<Rightarrow> mms res" where
  "share_area copy ma s =
     andthen (lock_procmm s) (\<lambda>s.
     andthen (upd_area ma (\<lambda>v. v\<lparr>a_flags := a_flags v OR MM_FLAG_SHARED\<rparr>) s) (\<lambda>s.
     andthen (area_of ma s) (\<lambda>v.
     andthen
       (if a_flags v AND MM_FLAG_WRITE \<noteq> 0 \<or> a_flags v AND MM_FLAG_COW \<noteq> 0
        then andthen (upd_area ma (\<lambda>v. v\<lparr>a_flags := (a_flags v AND NOT MM_FLAG_WRITE) OR MM_FLAG_COW\<rparr>) s) (\<lambda>s.
             with_pd (owner v) (\<lambda>m. returns (write_protect (a_start v) (a_end v) m)) s)
        else Inr s) (\<lambda>s.
     let s = s\<lparr>procmm_sem := 0\<rparr> in
     andthen (area_of ma s) (\<lambda>v.
     andthen (new_area copy (a_start v) (a_end v) (a_flags v) (a_type v) s) (\<lambda>(new, s).
     Inr (s\<lparr>copies := append_to_list (copies s) ma new\<rparr>)))))))"

definition share_if_allowed :: "nat \<Rightarrow> mnode \<Rightarrow> mms \<Rightarrow> mms res" where
  "share_if_allowed child i s =
     andthen (area_entry i) (\<lambda>ma.
     andthen (area_of ma s) (\<lambda>v.
     if a_flags v AND MM_FLAG_NOSHARE \<noteq> MM_FLAG_NOSHARE then share_area child ma s else Inr s))"

definition procmm_fork :: "nat \<Rightarrow> nat \<Rightarrow> mms \<Rightarrow> mms res" where
  "procmm_fork parent child s =
     andthen (pmm_of parent s) (\<lambda>pv.
     andthen (upd_pmm child (\<lambda>v. v\<lparr>mm := mm pv\<rparr>) s) (\<lambda>s.
     let s = s\<lparr>mem := init_list (mem s) (MemHead child)\<rparr> in
     for_each_do mem (MemHead parent) (share_if_allowed child) s))"

section \<open>Page faults\<close>

definition copy_on_write :: "u32 \<Rightarrow> nat \<Rightarrow> mms \<Rightarrow> mms res" where
  "copy_on_write address inside s =
     andthen (split_area inside (address AND PAGE_MASK) ((address AND PAGE_MASK) + PAGE_SIZE) s) (\<lambda>s.
     andthen (vmm_page_get address (mvm s)) (\<lambda>pval.
     if list_empty (copies s) inside
     then
      andthen (upd_area inside (\<lambda>v. v\<lparr>a_flags := (a_flags v AND NOT MM_FLAG_COW) OR MM_FLAG_WRITE\<rparr>) s) (\<lambda>s.
      on_vm (vmm_page_set (address AND PAGE_MASK) (pval OR PAGE_WRITE)) s)
     else
      andthen (on_vm (vmm_page_set VMM_TEMP1 pval) s) (\<lambda>s.
      andthen (on_vm (\<lambda>m. andthen (pmm_alloc_page m) (\<lambda>(page, m).
          vmm_page_set (address AND PAGE_MASK)
            (vmm_page_val page ((pval AND PAGE_FLAG_MASK) OR PAGE_WRITE)) m)) s) (\<lambda>s.
      andthen (on_vm (vcopy_page (address AND PAGE_MASK) VMM_TEMP1) s) (\<lambda>s.
      andthen (on_vm (vmm_page_set VMM_TEMP1 0) s) (\<lambda>s.
      andthen (upd_area inside (\<lambda>v. v\<lparr>a_flags := (a_flags v AND NOT MM_FLAG_COW) OR MM_FLAG_WRITE\<rparr>) s) (\<lambda>s.
      Inr (s\<lparr>copies := remove_from_list (copies s) inside\<rparr>))))))))"

definition add_on_use :: "u32 \<Rightarrow> u32 \<Rightarrow> mms \<Rightarrow> mms res" where
  "add_on_use address fl s =
     (let vmm_flags = (if fl AND MM_FLAG_WRITE \<noteq> 0 then PAGE_PRESENT OR PAGE_USER OR PAGE_WRITE
                       else PAGE_PRESENT OR PAGE_USER) in
      on_vm (\<lambda>m. andthen (pmm_alloc_page m) (\<lambda>(page, m).
        vmm_page_set (address AND PAGE_MASK) (vmm_page_val page vmm_flags) m)) s)"

definition grow_stack :: "nat \<Rightarrow> u32 \<Rightarrow> mms \<Rightarrow> (u32 \<times> mms) res" where
  "grow_stack p address s =
     andthen (find_above p address s) (\<lambda>f.
     case f of
       None \<Rightarrow> Inr (1, s)
     | Some abv \<Rightarrow>
        andthen (area_of abv s) (\<lambda>v.
        if a_start v - address \<ge> PAGE_SIZE then Inr (1, s)
        else if a_flags v AND MM_FLAG_GROWSDOWN = 0 then Inr (1, s)
        else
         andthen (pmm_of p s) (\<lambda>pv.
         if address \<le> stack_limit (mm pv) then Inr (1, s)
         else andthen (new_area p (address AND PAGE_MASK) (a_start v) (a_flags v) (a_type v) s)
                (\<lambda>(_, s). Inr (0, s)))))"

text \<open>\<open>p\<close> is the current process; the result 0 means the fault is resolved.\<close>

definition procmm_handle_page_fault :: "nat \<Rightarrow> u32 \<Rightarrow> u32 \<Rightarrow> mms \<Rightarrow> (u32 \<times> mms) res" where
  "procmm_handle_page_fault p address fl s =
     andthen (find_including p address s) (\<lambda>f.
     case f of
       Some inside \<Rightarrow>
        andthen (area_of inside s) (\<lambda>v.
        if a_flags v AND MM_FLAG_COW \<noteq> 0 \<and> fl AND PF_PRESENT \<noteq> 0 \<and> fl AND PF_WRITE \<noteq> 0
        then andthen (copy_on_write address inside s) (\<lambda>s. Inr (0, s))
        else if a_flags v AND MM_FLAG_ADDONUSE \<noteq> 0 \<and> fl AND PF_PRESENT = 0
        then andthen (add_on_use address (a_flags v) s) (\<lambda>s. Inr (0, s))
        else Inr (1, s))
     | None \<Rightarrow> grow_stack p address s)"

definition procmm_check_address :: "nat \<Rightarrow> u32 \<Rightarrow> mms \<Rightarrow> u32 res" where
  "procmm_check_address p address s =
     andthen (find_including p address s) (\<lambda>f.
     case f of
       Some area \<Rightarrow>
        andthen (area_of area s) (\<lambda>v.
        if a_flags v AND MM_FLAG_WRITE \<noteq> 0 \<or> a_flags v AND MM_FLAG_COW \<noteq> 0 then Inr 3 else Inr 1)
     | None \<Rightarrow>
        andthen (find_above p address s) (\<lambda>f.
        case f of
          None \<Rightarrow> Inr 0
        | Some area \<Rightarrow>
           andthen (area_of area s) (\<lambda>v.
           if a_flags v AND MM_FLAG_GROWSDOWN \<noteq> 0 then Inr 2 else Inr 0)))"

section \<open>The end of a process's memory\<close>

definition exit_one :: "mnode \<Rightarrow> mms \<Rightarrow> mms res" where
  "exit_one i s = andthen (area_entry i) (\<lambda>ma. free_area ma s)"

definition procmm_exit :: "nat \<Rightarrow> mms \<Rightarrow> mms res" where
  "procmm_exit p s = for_each_safe mem (MemHead p) exit_one s"

partial_function (option) unmap_pages :: "u32 \<Rightarrow> u32 \<Rightarrow> vm \<Rightarrow> vm res option" where
  "unmap_pages j en m =
     (if j < en
      then case vmm_expage_set j 0 m of
             Inl e \<Rightarrow> Some (Inl e)
           | Inr m \<Rightarrow> unmap_pages (j + PAGE_SIZE) en m
      else Some (Inr m))"

definition remove_one :: "nat \<Rightarrow> mnode \<Rightarrow> mms \<Rightarrow> mms res" where
  "remove_one p i s =
     andthen (area_entry i) (\<lambda>ma.
     andthen (area_of ma s) (\<lambda>v.
     andthen (with_pd p (\<lambda>m. returns (unmap_pages (a_start v) (a_end v) m)) s) (\<lambda>s.
     free_area ma s)))"

definition procmm_removeall :: "nat \<Rightarrow> mms \<Rightarrow> mms res" where
  "procmm_removeall p s = for_each_safe mem (MemHead p) (remove_one p) s"

declare check_collision.simps [code] back_pages.simps [code] write_protect.simps [code]
  unmap_pages.simps [code]

end
