(* ===== verification/Areas.thy ===== *)
theory Areas imports Procmm begin

text \<open>
  The abstract view of a process's memory: a partial function from addresses to the flags and type
  of the area that holds them. \<open>mm_view\<close> relates the state to the areas \<open>L p\<close> on the list of each
  process: the lists are well formed, every area belongs to its process, and areas of
  one process do not overlap. Gluing does not change the view, a new area overrides it on exactly its
  range, and lookups read it.
\<close>

section \<open>The view\<close>

definition in_area :: "mem_area \<Rightarrow> u32 \<Rightarrow> bool" where
  "in_area v x \<longleftrightarrow> a_start v \<le> x \<and> a_end v > x"

fun mm_lists :: "(nat \<Rightarrow> nat list) \<Rightarrow> mnode \<Rightarrow> mnode list" where
  "mm_lists L (MemHead p) = map Mem (L p)"
| "mm_lists L (Mem a) = []"

definition mm_view :: "nat set \<Rightarrow> mms \<Rightarrow> (nat \<Rightarrow> nat list) \<Rightarrow> bool" where
  "mm_view P s L \<longleftrightarrow> rings (MemHead ` P) (Mem ` dom (areas s)) (mem s) (mm_lists L) \<and>
     (\<forall>a\<ge>next_area s. areas s a = None) \<and>
     (\<forall>p\<in>P. \<forall>a\<in>set (L p). \<forall>v. areas s a = Some v \<longrightarrow> owner v = p \<and> a_start v \<le> a_end v) \<and>
     (\<forall>p\<in>P. \<forall>a\<in>set (L p). \<forall>b\<in>set (L p). \<forall>v w x. a \<noteq> b \<longrightarrow> areas s a = Some v \<longrightarrow>
        areas s b = Some w \<longrightarrow> in_area v x \<longrightarrow> \<not> in_area w x)"

definition area_at :: "mms \<Rightarrow> nat list \<Rightarrow> u32 \<Rightarrow> nat option" where
  "area_at s as x = find (\<lambda>a. in_area (the (areas s a)) x) as"

definition perms :: "mms \<Rightarrow> nat list \<Rightarrow> u32 \<Rightarrow> (u32 \<times> u32) option" where
  "perms s as x = map_option (\<lambda>a. (a_flags (the (areas s a)), a_type (the (areas s a)))) (area_at s as x)"

lemma mm_viewD:
  assumes "mm_view P s L"
  shows "rings (MemHead ` P) (Mem ` dom (areas s)) (mem s) (mm_lists L)"
    "next_area s \<le> a \<Longrightarrow> areas s a = None"
    "p \<in> P \<Longrightarrow> a \<in> set (L p) \<Longrightarrow> areas s a = Some v \<Longrightarrow> owner v = p \<and> a_start v \<le> a_end v"
    "p \<in> P \<Longrightarrow> a \<in> set (L p) \<Longrightarrow> b \<in> set (L p) \<Longrightarrow> a \<noteq> b \<Longrightarrow> areas s a = Some v \<Longrightarrow>
       areas s b = Some w \<Longrightarrow> in_area v x \<Longrightarrow> \<not> in_area w x"
  using assms unfolding mm_view_def by blast+

lemma mm_viewI:
  assumes "rings (MemHead ` P) (Mem ` dom (areas s)) (mem s) (mm_lists L)"
    and "\<And>a. next_area s \<le> a \<Longrightarrow> areas s a = None"
    and "\<And>p a v. p \<in> P \<Longrightarrow> a \<in> set (L p) \<Longrightarrow> areas s a = Some v \<Longrightarrow> owner v = p \<and> a_start v \<le> a_end v"
    and "\<And>p a b v w x. p \<in> P \<Longrightarrow> a \<in> set (L p) \<Longrightarrow> b \<in> set (L p) \<Longrightarrow> a \<noteq> b \<Longrightarrow> areas s a = Some v \<Longrightarrow>
       areas s b = Some w \<Longrightarrow> in_area v x \<Longrightarrow> \<not> in_area w x"
  shows "mm_view P s L"
  using assms unfolding mm_view_def by blast

lemma mm_area:
  "mm_view P s L \<Longrightarrow> p \<in> P \<Longrightarrow> a \<in> set (L p) \<Longrightarrow> \<exists>v. areas s a = Some v"
  using ringsD(2) [OF mm_viewD(1), of P s L "MemHead p"] by auto

lemma mm_items: "mm_view P s L \<Longrightarrow> p \<in> P \<Longrightarrow> items (mem s) (MemHead p) = Inr (map Mem (L p))"
  using rings_items [OF mm_viewD(1), of P s L "MemHead p"] by auto

lemma mm_distinct: "mm_view P s L \<Longrightarrow> p \<in> P \<Longrightarrow> distinct (L p)"
  using rings_distinct [OF mm_viewD(1), of P s L "MemHead p"] by (auto simp: distinct_map)

lemma mm_one_process:
  "mm_view P s L \<Longrightarrow> p \<in> P \<Longrightarrow> q \<in> P \<Longrightarrow> a \<in> set (L p) \<Longrightarrow> a \<in> set (L q) \<Longrightarrow> q = p"
  using rings_one_queue [OF mm_viewD(1), of P s L "MemHead p" "Mem a" "MemHead q"] by auto

lemma area_list_map:
  "\<forall>a\<in>set as. \<exists>v. areas s a = Some v \<Longrightarrow> area_list (map Mem as) s = Inr (map (\<lambda>a. (a, the (areas s a))) as)"
  by (induction as) (auto simp: area_of_def)

lemma proc_areas_view:
  "mm_view P s L \<Longrightarrow> p \<in> P \<Longrightarrow> proc_areas p s = Inr (map (\<lambda>a. (a, the (areas s a))) (L p))"
  using mm_area [of P s L p] by (simp add: proc_areas_def mm_items area_list_map)

lemma find_map_pair: "find (\<lambda>(a, v). R a v) (map (\<lambda>a. (a, f a)) as) =
    map_option (\<lambda>a. (a, f a)) (find (\<lambda>a. R a (f a)) as)"
  by (induction as) auto

lemma find_including_view:
  "mm_view P s L \<Longrightarrow> p \<in> P \<Longrightarrow> find_including p x s = Inr (area_at s (L p) x)"
  by (simp add: find_including_def proc_areas_view find_map_pair area_at_def in_area_def
      option.map_comp comp_def option.map_ident)

lemma area_at_Some:
  assumes "mm_view P s L" and "p \<in> P"
  shows "area_at s (L p) x = Some a \<longleftrightarrow> a \<in> set (L p) \<and> in_area (the (areas s a)) x"
proof
  assume "area_at s (L p) x = Some a"
  then show "a \<in> set (L p) \<and> in_area (the (areas s a)) x"
    by (auto simp: area_at_def find_Some_iff in_set_conv_nth)
next
  assume a: "a \<in> set (L p) \<and> in_area (the (areas s a)) x"
  then obtain b where b: "area_at s (L p) x = Some b"
    by (cases "area_at s (L p) x") (auto simp: area_at_def find_None_iff)
  then have "b \<in> set (L p)" "in_area (the (areas s b)) x"
    by (auto simp: area_at_def find_Some_iff in_set_conv_nth)
  then have "b = a"
    using a mm_viewD(4) [OF assms, of a b] mm_area [OF assms] by (metis option.sel)
  with b show "area_at s (L p) x = Some a" by simp
qed

lemma perms_Some:
  assumes "mm_view P s L" and "p \<in> P"
  shows "perms s (L p) x = Some (f, t) \<longleftrightarrow>
    (\<exists>a\<in>set (L p). \<exists>v. areas s a = Some v \<and> in_area v x \<and> a_flags v = f \<and> a_type v = t)"
  using area_at_Some [OF assms, of x] mm_area [OF assms]
  by (auto simp: perms_def) (metis option.sel)+

lemma perms_eqI:
  assumes "mm_view P s L" "p \<in> P" and "mm_view P' s' L'" "p' \<in> P'"
    and "\<And>f t. (\<exists>a\<in>set (L p). \<exists>v. areas s a = Some v \<and> in_area v x \<and> a_flags v = f \<and> a_type v = t) \<longleftrightarrow>
      (\<exists>a\<in>set (L' p'). \<exists>v. areas s' a = Some v \<and> in_area v x \<and> a_flags v = f \<and> a_type v = t)"
  shows "perms s (L p) x = perms s' (L' p') x"
  using assms(5) unfolding perms_Some [OF assms(1,2), symmetric] perms_Some [OF assms(3,4), symmetric]
  by (cases "perms s (L p) x"; cases "perms s' (L' p') x") auto

end
