(* ===== verification/AreaOps.thy ===== *)
theory AreaOps imports Areas begin

text \<open>
  The operations on memory areas preserve the view \<open>mm_view\<close>, and what they do to the permissions of
  the addresses of every process.
\<close>

section \<open>Removing and reshaping areas\<close>

lemma mm_lists_remove: "removeAll (Mem a) (mm_lists L c) = mm_lists (\<lambda>q. removeAll a (L q)) c"
proof (cases c)
  case (MemHead p)
  have "removeAll (Mem a) (map Mem as) = map Mem (removeAll a as)" for as by (induction as) auto
  then show ?thesis by (simp add: MemHead)
qed simp

lemma free_area_view:
  assumes m: "mm_view P s L" and a: "areas s ma = Some v"
  shows "\<exists>s'. free_area ma s = Inr s' \<and> mm_view P s' (\<lambda>q. removeAll ma (L q)) \<and>
    areas s' = (areas s)(ma := None) \<and> mvm s' = mvm s \<and> pmm s' = pmm s \<and>
    procmm_sem s' = procmm_sem s \<and> next_area s' = next_area s"
proof -
  have "rings (MemHead ` P) (Mem ` dom (areas s)) (remove_from_list (mem s) (Mem ma))
      (\<lambda>c. removeAll (Mem ma) (mm_lists L c))"
    using a by (intro rings_remove [OF mm_viewD(1) [OF m]]) auto
  then have "rings (MemHead ` P) (Mem ` dom (areas s) - {Mem ma}) (remove_from_list (mem s) (Mem ma))
      (mm_lists (\<lambda>q. removeAll ma (L q)))"
    unfolding mm_lists_remove by (rule rings_drop_item) (auto simp: queued_def)
  moreover have "Mem ` dom (areas s) - {Mem ma} = Mem ` dom ((areas s)(ma := None))" by auto
  ultimately have r: "rings (MemHead ` P) (Mem ` dom ((areas s)(ma := None)))
      (remove_from_list (mem s) (Mem ma)) (mm_lists (\<lambda>q. removeAll ma (L q)))" by simp
  let ?s = "s\<lparr>mem := remove_from_list (mem s) (Mem ma), copies := remove_from_list (copies s) ma,
      areas := (areas s)(ma := None)\<rparr>"
  have "mm_view P ?s (\<lambda>q. removeAll ma (L q))"
  proof (rule mm_viewI)
    show "rings (MemHead ` P) (Mem ` dom (areas ?s)) (mem ?s) (mm_lists (\<lambda>q. removeAll ma (L q)))"
      using r by simp
  next
    fix b assume "next_area ?s \<le> b"
    then show "areas ?s b = None" using mm_viewD(2) [OF m, of b] by simp
  next
    fix p b w assume "p \<in> P" "b \<in> set (removeAll ma (L p))" "areas ?s b = Some w"
    then show "owner w = p \<and> a_start w \<le> a_end w" using mm_viewD(3) [OF m, of p b w] by auto
  next
    fix p b c w u x
    assume "p \<in> P" "b \<in> set (removeAll ma (L p))" "c \<in> set (removeAll ma (L p))" "b \<noteq> c"
      "areas ?s b = Some w" "areas ?s c = Some u" "in_area w x"
    then show "\<not> in_area u x" using mm_viewD(4) [OF m, of p b c w u x] by auto
  qed
  then show ?thesis using a by (auto simp: free_area_def area_of_def)
qed

lemma put_area_view:
  assumes m: "mm_view P s L" and p: "p \<in> P" "a \<in> set (L p)" and w: "owner w = p" "a_start w \<le> a_end w"
    and dj: "\<And>b v x. b \<in> set (L p) \<Longrightarrow> b \<noteq> a \<Longrightarrow> areas s b = Some v \<Longrightarrow> in_area w x \<Longrightarrow> \<not> in_area v x"
  shows "mm_view P (put_area a w s) L"
proof (rule mm_viewI)
  obtain v where a: "areas s a = Some v" using mm_area [OF m p] by blast
  then have "dom (areas (put_area a w s)) = dom (areas s)" by (auto simp: put_area_def)
  then show "rings (MemHead ` P) (Mem ` dom (areas (put_area a w s))) (mem (put_area a w s)) (mm_lists L)"
    using mm_viewD(1) [OF m] by (simp add: put_area_def)
next
  fix b assume "next_area (put_area a w s) \<le> b"
  then show "areas (put_area a w s) b = None"
    using mm_viewD(2) [OF m, of b] mm_area [OF m p] by (auto simp: put_area_def)
next
  fix q b v assume b: "q \<in> P" "b \<in> set (L q)" "areas (put_area a w s) b = Some v"
  show "owner v = q \<and> a_start v \<le> a_end v"
  proof (cases "b = a")
    case True
    then show ?thesis using b w mm_one_process [OF m p(1) b(1) p(2)] by (auto simp: put_area_def)
  next
    case False
    then show ?thesis using b mm_viewD(3) [OF m b(1,2)] by (simp add: put_area_def)
  qed
next
  fix q b c u v x
  assume b: "q \<in> P" "b \<in> set (L q)" "c \<in> set (L q)" "b \<noteq> c" "areas (put_area a w s) b = Some u"
    "areas (put_area a w s) c = Some v" "in_area u x"
  show "\<not> in_area v x"
  proof (cases "b = a \<or> c = a")
    case True
    then have q: "q = p" using mm_one_process [OF m p(1) b(1) p(2)] b by auto
    show ?thesis using True b dj [of c v x] dj [of b u x] q by (auto simp: put_area_def)
  next
    case False
    then show ?thesis using b mm_viewD(4) [OF m b(1-4)] by (simp add: put_area_def)
  qed
qed

text \<open>Area \<open>a\<close> takes over the range of area \<open>b\<close>, which has the same flags and type.\<close>

lemma absorb_view:
  assumes m: "mm_view P s L" and p: "p \<in> P" "a \<in> set (L p)" "b \<in> set (L p)" "a \<noteq> b"
    and a: "areas s a = Some w" and b: "areas s b = Some v"
    and same: "a_flags w = a_flags v" "a_type w = a_type v"
    and w': "owner w' = p" "a_start w' \<le> a_end w'" "a_flags w' = a_flags w" "a_type w' = a_type w"
      "\<And>x. in_area w' x \<longleftrightarrow> in_area w x \<or> in_area v x"
  shows "\<exists>s'. free_area b (put_area a w' s) = Inr s' \<and> mm_view P s' (\<lambda>q. removeAll b (L q)) \<and>
    mvm s' = mvm s \<and> pmm s' = pmm s \<and> procmm_sem s' = procmm_sem s \<and> areas s' a = Some w' \<and>
    (\<forall>q\<in>P. \<forall>x. perms s' (removeAll b (L q)) x = perms s (L q) x)"
proof -
  let ?t = "put_area b (v\<lparr>a_start := a_end v\<rparr>) s"
  have emptied: "mm_view P ?t L"
  proof (rule put_area_view [OF m p(1,3)])
    show "owner (v\<lparr>a_start := a_end v\<rparr>) = p" using mm_viewD(3) [OF m p(1,3) b] by simp
  qed (auto simp: in_area_def)
  have "mm_view P (put_area a w' ?t) L"
  proof (rule put_area_view [OF emptied p(1,2) w'(1,2)])
    fix c u x
    assume c: "c \<in> set (L p)" "c \<noteq> a" "areas ?t c = Some u" "in_area w' x"
    show "\<not> in_area u x"
    proof (cases "c = b")
      case True
      then show ?thesis using c by (auto simp: put_area_def in_area_def)
    next
      case False
      then have u: "areas s c = Some u" using c by (simp add: put_area_def)
      show ?thesis
        using c(4) w'(5) mm_viewD(4) [OF m p(1,2) c(1) _ a u, of x] c(2)
          mm_viewD(4) [OF m p(1,3) c(1) _ b u, of x] False by auto
    qed
  qed
  then obtain s' where s': "free_area b (put_area a w' ?t) = Inr s'" "mm_view P s' (\<lambda>q. removeAll b (L q))"
    "areas s' = (areas (put_area a w' ?t))(b := None)" "mvm s' = mvm s" "pmm s' = pmm s"
    "procmm_sem s' = procmm_sem s"
    using free_area_view [of P "put_area a w' ?t" L b "v\<lparr>a_start := a_end v\<rparr>"] p(4)
    by (auto simp: put_area_def)
  have "free_area b (put_area a w' ?t) = free_area b (put_area a w' s)"
    using b p(4) by (simp add: free_area_def area_of_def put_area_def fun_upd_twist [of a b])
  then have run: "free_area b (put_area a w' s) = Inr s'" using s'(1) by simp
  have ar: "areas s' = (areas s)(a \<mapsto> w', b := None)"
    using s'(3) p(4) by (simp add: put_area_def fun_upd_twist [of a b])
  have "perms s' (removeAll b (L q)) x = perms s (L q) x" if q: "q \<in> P" for q x
  proof (rule perms_eqI [OF s'(2) q m q])
    fix f t
    show "(\<exists>c\<in>set (removeAll b (L q)). \<exists>u. areas s' c = Some u \<and> in_area u x \<and> a_flags u = f \<and> a_type u = t) \<longleftrightarrow>
      (\<exists>c\<in>set (L q). \<exists>u. areas s c = Some u \<and> in_area u x \<and> a_flags u = f \<and> a_type u = t)"
      (is "?l \<longleftrightarrow> ?r")
    proof
      assume ?l
      then obtain c u where c: "c \<in> set (L q)" "c \<noteq> b" "areas s' c = Some u" "in_area u x"
        "a_flags u = f" "a_type u = t" by auto
      show ?r
      proof (cases "c = a")
        case True
        then have "q = p" using mm_one_process [OF m p(1) q p(2)] c(1) by simp
        then show ?thesis using c ar True w' a b same p by auto
      next
        case False
        then show ?thesis using c ar by auto
      qed
    next
      assume ?r
      then obtain c u where c: "c \<in> set (L q)" "areas s c = Some u" "in_area u x"
        "a_flags u = f" "a_type u = t" by auto
      show ?l
      proof (cases "c = a \<or> c = b")
        case True
        then have "q = p" using mm_one_process [OF m p(1) q] p c(1) by metis
        then have "a \<in> set (removeAll b (L q))" using p by simp
        moreover have "areas s' a = Some w'" using ar p(4) by simp
        moreover have "in_area w' x \<and> a_flags w' = f \<and> a_type w' = t"
          using True c a b w' same by auto
        ultimately show ?thesis by blast
      next
        case False
        then show ?thesis using c ar by auto
      qed
    qed
  qed
  moreover have "areas s' a = Some w'" using ar p(4) by simp
  ultimately show ?thesis using run s'(2,4-6) by blast
qed

section \<open>Gluing\<close>

lemma glue_left_view:
  assumes m: "mm_view P s L" and p: "p \<in> P" "ma \<in> set (L p)"
  shows "\<exists>a s' L'. glue_left ma s = Inr (a, s') \<and> mm_view P s' L' \<and> a \<in> set (L' p) \<and>
    mvm s' = mvm s \<and> pmm s' = pmm s \<and> procmm_sem s' = procmm_sem s \<and>
    (\<forall>q\<in>P. \<forall>x. perms s' (L' q) x = perms s (L q) x)"
proof -
  obtain v where v: "areas s ma = Some v" using mm_area [OF m p] by blast
  note ov = mm_viewD(3) [OF m p v]
  let ?R = "\<lambda>a w. a \<noteq> ma \<and> a_end w = a_start v \<and> a_flags w = a_flags v \<and> a_type w = a_type v"
  let ?F = "find (\<lambda>a. ?R a (the (areas s a))) (L p)"
  have g: "glue_left ma s = (case ?F of None \<Rightarrow> Inr (ma, s)
     | Some a \<Rightarrow> andthen (upd_area a (\<lambda>w. w\<lparr>a_end := a_end v\<rparr>) s) (\<lambda>s.
         andthen (free_area ma s) (\<lambda>s. Inr (a, s))))"
    using v ov find_map_pair [of ?R "\<lambda>a. the (areas s a)" "L p"]
    by (simp add: glue_left_def area_of_def proc_areas_view [OF m p(1)] split: option.splits)
  show ?thesis
  proof (cases ?F)
    case None
    then show ?thesis using g m p by (intro exI [of _ ma] exI [of _ s] exI [of _ L]) simp
  next
    case (Some a)
    then have a: "a \<in> set (L p)" "?R a (the (areas s a))" by (auto simp: find_Some_iff in_set_conv_nth)
    obtain w where w: "areas s a = Some w" using mm_area [OF m p(1) a(1)] by blast
    note ow = mm_viewD(3) [OF m p(1) a(1) w]
    let ?w = "w\<lparr>a_end := a_end v\<rparr>"
    have "\<exists>s'. free_area ma (put_area a ?w s) = Inr s' \<and> mm_view P s' (\<lambda>q. removeAll ma (L q)) \<and>
      mvm s' = mvm s \<and> pmm s' = pmm s \<and> procmm_sem s' = procmm_sem s \<and> areas s' a = Some ?w \<and>
      (\<forall>q\<in>P. \<forall>x. perms s' (removeAll ma (L q)) x = perms s (L q) x)"
      using a w ov ow
      by (intro absorb_view [OF m p(1) a(1) p(2) _ w v]) (auto simp: in_area_def)
    then show ?thesis
      using g Some w a by (auto simp: upd_area_def area_of_def intro!: exI [of _ "\<lambda>q. removeAll ma (L q)"])
  qed
qed

lemma glue_right_view:
  assumes m: "mm_view P s L" and p: "p \<in> P" "ma \<in> set (L p)"
  shows "\<exists>s' L'. glue_right ma s = Inr s' \<and> mm_view P s' L' \<and> ma \<in> set (L' p) \<and>
    mvm s' = mvm s \<and> pmm s' = pmm s \<and> procmm_sem s' = procmm_sem s \<and>
    (\<forall>q\<in>P. \<forall>x. perms s' (L' q) x = perms s (L q) x)"
proof -
  obtain v where v: "areas s ma = Some v" using mm_area [OF m p] by blast
  note ov = mm_viewD(3) [OF m p v]
  let ?R = "\<lambda>a w. a \<noteq> ma \<and> a_start w = a_end v \<and> a_flags w = a_flags v \<and> a_type w = a_type v"
  let ?F = "find (\<lambda>a. ?R a (the (areas s a))) (L p)"
  have g: "glue_right ma s = (case ?F of None \<Rightarrow> Inr s
     | Some a \<Rightarrow> andthen (upd_area ma (\<lambda>v. v\<lparr>a_end := a_end (the (areas s a))\<rparr>) s) (free_area a))"
    using v ov find_map_pair [of ?R "\<lambda>a. the (areas s a)" "L p"]
    by (simp add: glue_right_def area_of_def proc_areas_view [OF m p(1)] split: option.splits)
  show ?thesis
  proof (cases ?F)
    case None
    then show ?thesis using g m p by (intro exI [of _ s] exI [of _ L]) simp
  next
    case (Some a)
    then have a: "a \<in> set (L p)" "?R a (the (areas s a))" by (auto simp: find_Some_iff in_set_conv_nth)
    obtain w where w: "areas s a = Some w" using mm_area [OF m p(1) a(1)] by blast
    note ow = mm_viewD(3) [OF m p(1) a(1) w]
    let ?v = "v\<lparr>a_end := a_end w\<rparr>"
    have "\<exists>s'. free_area a (put_area ma ?v s) = Inr s' \<and> mm_view P s' (\<lambda>q. removeAll a (L q)) \<and>
      mvm s' = mvm s \<and> pmm s' = pmm s \<and> procmm_sem s' = procmm_sem s \<and> areas s' ma = Some ?v \<and>
      (\<forall>q\<in>P. \<forall>x. perms s' (removeAll a (L q)) x = perms s (L q) x)"
      using a w ov ow
      by (intro absorb_view [OF m p(1,2) a(1) _ v w]) (auto simp: in_area_def)
    then show ?thesis
      using g Some w a v p by (auto simp: upd_area_def area_of_def intro!: exI [of _ "\<lambda>q. removeAll a (L q)"])
  qed
qed

lemma mm_view_sem [simp]:
  "mm_view P (s\<lparr>procmm_sem := x\<rparr>) L = mm_view P s L" "mm_view P (s\<lparr>mvm := y\<rparr>) L = mm_view P s L"
  "perms (s\<lparr>procmm_sem := x\<rparr>) as = perms s as" "perms (s\<lparr>mvm := y\<rparr>) as = perms s as"
  "mm_view P (s\<lparr>pmm := z\<rparr>) L = mm_view P s L" "perms (s\<lparr>pmm := z\<rparr>) as = perms s as"
  by (simp_all add: mm_view_def perms_def area_at_def fun_eq_iff)

lemma glue_area_view:
  assumes m: "mm_view P s L" and p: "p \<in> P" "ma \<in> set (L p)" and sem: "procmm_sem s = 0"
  shows "\<exists>a s' L'. glue_area ma s = Inr (a, s') \<and> mm_view P s' L' \<and> a \<in> set (L' p) \<and>
    mvm s' = mvm s \<and> pmm s' = pmm s \<and> procmm_sem s' = 0 \<and>
    (\<forall>q\<in>P. \<forall>x. perms s' (L' q) x = perms s (L q) x)"
proof -
  obtain v where v: "areas s ma = Some v" using mm_area [OF m p] by blast
  show ?thesis
  proof (cases "list_empty (copies s) ma \<and> a_flags v AND MM_FLAG_COW = 0")
    case False
    then have "glue_area ma s = Inr (ma, s)" using v by (auto simp: glue_area_def area_of_def)
    then show ?thesis using m p sem by (intro exI [of _ ma] exI [of _ s] exI [of _ L]) simp
  next
    case True
    let ?s = "s\<lparr>procmm_sem := 1\<rparr>"
    have m1: "mm_view P ?s L" using m by simp
    obtain a s1 L1 where 1: "glue_left ma ?s = Inr (a, s1)" "mm_view P s1 L1" "a \<in> set (L1 p)"
      "mvm s1 = mvm s" "pmm s1 = pmm s" "\<forall>q\<in>P. \<forall>x. perms s1 (L1 q) x = perms s (L q) x"
      using glue_left_view [OF m1 p] by auto
    obtain s2 L2 where 2: "glue_right a s1 = Inr s2" "mm_view P s2 L2" "a \<in> set (L2 p)"
      "mvm s2 = mvm s" "pmm s2 = pmm s" "\<forall>q\<in>P. \<forall>x. perms s2 (L2 q) x = perms s (L q) x"
      using glue_right_view [OF 1(2) p(1) 1(3)] 1(4-6) by auto
    have "glue_area ma s = Inr (a, s2\<lparr>procmm_sem := 0\<rparr>)"
      using True v 1(1) 2(1) sem by (auto simp: glue_area_def area_of_def lock_procmm_def)
    then show ?thesis
      using 2 by (intro exI [of _ a] exI [of _ "s2\<lparr>procmm_sem := 0\<rparr>"] exI [of _ L2]) simp
  qed
qed

end
