(* ===== verification/NewArea.thy ===== *)
theory NewArea imports AreaOps begin

text \<open>
  \<open>new_area\<close> and what rests on it: the collision check, the sorted insertion, and the growth of the
  stack on a page fault.
\<close>

section \<open>The collision check\<close>

lemma page_step:
  fixes i en :: u32
  assumes "unat i + 4096 * k \<le> unat en"
  shows "unat (i + 4096 * of_nat k) = unat i + 4096 * k"
proof -
  have "unat en < 2 ^ 32" using unsigned_less [of en] by simp
  then have b: "unat i + 4096 * k < 2 ^ 32" using assms by linarith
  then have "unat (of_nat k :: u32) = k" by (simp add: unsigned_of_nat take_bit_nat_eq_self)
  then have "unat (4096 * of_nat k :: u32) = 4096 * k" using b by (subst unat_mult_lem [THEN iffD1]) auto
  then show ?thesis using b by (subst unat_add_lem [THEN iffD1]) auto
qed

lemma next_page:
  "unat en + 4096 < 4294967296 \<Longrightarrow> i \<le> en \<Longrightarrow> unat (i + PAGE_SIZE :: u32) = unat i + 4096"
  by (subst unat_add_lem [THEN iffD1]) (auto simp: PAGE_SIZE_def word_le_nat_alt)

lemma check_collision_free:
  assumes m: "mm_view P s L" "p \<in> P" and en: "unat en + 4096 < 4294967296"
  shows "(\<And>x. i \<le> x \<Longrightarrow> x \<le> en \<Longrightarrow> area_at s (L p) x = None) \<Longrightarrow> check_collision p i en s = Some (Inr ())"
proof (induction "unat en + 4096 - unat i" arbitrary: i rule: less_induct)
  case less
  show ?case
  proof (cases "i \<le> en")
    case False
    then show ?thesis by (subst check_collision.simps) simp
  next
    case True
    note n = next_page [OF en True]
    have "check_collision p (i + PAGE_SIZE) en s = Some (Inr ())"
    proof (rule less.hyps)
      show "unat en + 4096 - unat (i + PAGE_SIZE) < unat en + 4096 - unat i"
        using n True by (simp add: word_le_nat_alt)
      fix x assume "i + PAGE_SIZE \<le> x" "x \<le> en"
      then show "area_at s (L p) x = None" using n by (intro less.prems) (simp_all add: word_le_nat_alt)
    qed
    moreover have "area_at s (L p) i = None" using True by (intro less.prems) auto
    ultimately show ?thesis using True by (subst check_collision.simps) (simp add: find_including_view [OF m])
  qed
qed

lemma check_collision_hit:
  assumes m: "mm_view P s L" "p \<in> P" and en: "unat en + 4096 < 4294967296"
  shows "unat i + 4096 * k \<le> unat en \<Longrightarrow> area_at s (L p) (i + 4096 * of_nat k) \<noteq> None \<Longrightarrow>
    check_collision p i en s = Some (Inl Hang)"
proof (induction k arbitrary: i)
  case 0
  then show ?case by (subst check_collision.simps) (auto simp: find_including_view [OF m] word_le_nat_alt)
next
  case (Suc k)
  have i: "i \<le> en" using Suc.prems(1) by (simp add: word_le_nat_alt)
  show ?case
  proof (cases "area_at s (L p) i")
    case (Some a)
    then show ?thesis using i by (subst check_collision.simps) (simp add: find_including_view [OF m])
  next
    case None
    have e: "i + 4096 * of_nat (Suc k) = (i + PAGE_SIZE) + 4096 * of_nat k"
      by (simp add: PAGE_SIZE_def algebra_simps)
    have "check_collision p (i + PAGE_SIZE) en s = Some (Inl Hang)"
      using Suc.prems(1) next_page [OF en i] Suc.prems(2) [unfolded e] by (intro Suc.IH) simp_all
    then show ?thesis using None i by (subst check_collision.simps) (simp add: find_including_view [OF m])
  qed
qed

section \<open>Putting an area on the list\<close>

lemma perms_same:
  assumes "\<And>a. a \<in> set as \<Longrightarrow> areas t a = areas s a"
  shows "perms t as = perms s as"
proof
  fix x
  have "area_at t as x = area_at s as x"
    unfolding area_at_def by (rule find_cong) (simp_all add: assms)
  moreover have "areas t a = areas s a" if "area_at s as x = Some a" for a
    using that by (intro assms) (auto simp: area_at_def find_Some_iff in_set_conv_nth)
  ultimately show "perms t as x = perms s as x"
    by (cases "area_at s as x") (simp_all add: perms_def)
qed

lemma alloc_area_view:
  assumes m: "mm_view P s L" and al: "alloc_area st en fl ty p s = (ma, t)"
  shows "mm_view P t L \<and> areas t ma = Some \<lparr>a_start = st, a_end = en, a_flags = fl, a_type = ty, owner = p\<rparr> \<and>
    \<not> queued (MemHead ` P) (mm_lists L) (Mem ma) \<and> mvm t = mvm s \<and> pmm t = pmm s \<and>
    procmm_sem t = procmm_sem s \<and> (\<forall>q\<in>P. perms t (L q) = perms s (L q)) \<and>
    (\<forall>q\<in>P. \<forall>a\<in>set (L q). areas t a = areas s a)"
proof -
  let ?v = "\<lparr>a_start = st, a_end = en, a_flags = fl, a_type = ty, owner = p\<rparr>"
  let ?n = "next_area s"
  have ma: "ma = ?n" and t: "areas t = (areas s)(?n \<mapsto> ?v)" "mem t = init_list (mem s) (Mem ?n)"
    "next_area t = Suc ?n" "mvm t = mvm s" "pmm t = pmm s" "procmm_sem t = procmm_sem s"
    using al by (auto simp: alloc_area_def Let_def put_area_def)
  have fresh: "areas s ?n = None" using mm_viewD(2) [OF m] by simp
  have nq: "?n \<notin> set (L q)" if "q \<in> P" for q using mm_area [OF m that, of ?n] fresh by auto
  have "rings (MemHead ` P) (insert (Mem ?n) (Mem ` dom (areas s))) (init_list (mem s) (Mem ?n)) (mm_lists L)"
    using fresh by (intro rings_init_item [OF mm_viewD(1) [OF m]]) auto
  then have r: "rings (MemHead ` P) (Mem ` dom (areas t)) (mem t) (mm_lists L)" by (simp add: t)
  have same: "areas t a = areas s a" if "q \<in> P" "a \<in> set (L q)" for q a
    using nq [OF that(1)] that(2) by (auto simp: t)
  have "mm_view P t L"
  proof (rule mm_viewI [OF r])
    fix a assume "next_area t \<le> a"
    then show "areas t a = None" using mm_viewD(2) [OF m, of a] by (simp add: t)
  next
    fix q a v assume "q \<in> P" "a \<in> set (L q)" "areas t a = Some v"
    then show "owner v = q \<and> a_start v \<le> a_end v" using mm_viewD(3) [OF m, of q a v] same by auto
  next
    fix q a b v w x assume "q \<in> P" "a \<in> set (L q)" "b \<in> set (L q)" "a \<noteq> b" "areas t a = Some v"
      "areas t b = Some w" "in_area v x"
    then show "\<not> in_area w x" using mm_viewD(4) [OF m, of q a b v w x] same by auto
  qed
  moreover have "perms t (L q) = perms s (L q)" if "q \<in> P" for q
    using same [OF that] by (rule perms_same)
  ultimately show ?thesis using ma t same nq by (auto simp: queued_def)
qed

lemma insert_point_split:
  "\<exists>us vs. as = us @ vs \<and> insert_point p en (map (\<lambda>a. (a, f a)) as) = hd (map Mem vs @ [MemHead p])"
proof (induction as)
  case (Cons a as)
  then obtain us vs where "as = us @ vs"
    "insert_point p en (map (\<lambda>a. (a, f a)) as) = hd (map Mem vs @ [MemHead p])" by blast
  then show ?case
    by (cases "a_start (f a) > en") (auto intro: exI [of _ "[]"] exI [of _ "a # us"])
qed simp

lemma insert_area_view:
  assumes m: "mm_view P s L" and p: "p \<in> P" and n: "areas s n = Some v"
    "\<not> queued (MemHead ` P) (mm_lists L) (Mem n)" and v: "owner v = p" "a_start v \<le> a_end v"
    and free: "\<And>x. in_area v x \<Longrightarrow> area_at s (L p) x = None"
    and l: "L p = us @ vs" and y: "y = hd (map Mem vs @ [MemHead p])"
  defines "t \<equiv> s\<lparr>mem := list_insert_to_left (mem s) y (Mem n)\<rparr>"
    and "L' \<equiv> L(p := us @ n # vs)"
  shows "mm_view P t L' \<and> (\<forall>q\<in>P. \<forall>x. perms t (L' q) x =
    (if q = p \<and> in_area v x then Some (a_flags v, a_type v) else perms s (L q) x))"
proof -
  have c: "MemHead p \<in> MemHead ` P" "Mem n \<in> Mem ` dom (areas s)" using p n by auto
  have "rings (MemHead ` P) (Mem ` dom (areas s)) (mem t)
      ((mm_lists L)(MemHead p := map Mem us @ Mem n # map Mem vs))"
    unfolding t_def using rings_insert_before [OF mm_viewD(1) [OF m] c n(2), of "map Mem us" "map Mem vs" y] l y
    by simp
  moreover have "(mm_lists L)(MemHead p := map Mem us @ Mem n # map Mem vs) = mm_lists L'"
  proof
    fix c show "((mm_lists L)(MemHead p := map Mem us @ Mem n # map Mem vs)) c = mm_lists L' c"
      by (cases c) (auto simp: L'_def)
  qed
  ultimately have r: "rings (MemHead ` P) (Mem ` dom (areas t)) (mem t) (mm_lists L')" by (simp add: t_def)
  have ar: "areas t = areas s" "next_area t = next_area s" by (simp_all add: t_def)
  have nin: "n \<notin> set (L q)" if "q \<in> P" for q using n(2) that by (auto simp: queued_def)
  have mem: "a \<in> set (L' q) \<longleftrightarrow> (q = p \<and> a = n) \<or> a \<in> set (L q)" for a q by (auto simp: L'_def l)
  have dj: "\<not> in_area w x" if "a \<in> set (L p)" "areas s a = Some w" "in_area v x" for a w x
    using free [OF that(3)] that(1,2) by (auto simp: area_at_def find_None_iff)
  have view: "mm_view P t L'"
  proof (rule mm_viewI [OF r])
    fix a assume "next_area t \<le> a"
    then show "areas t a = None" using mm_viewD(2) [OF m] by (simp add: ar)
  next
    fix q a w assume "q \<in> P" "a \<in> set (L' q)" "areas t a = Some w"
    then show "owner w = q \<and> a_start w \<le> a_end w"
      using mm_viewD(3) [OF m, of q a w] v n(1) nin by (auto simp: ar mem)
  next
    fix q a b w u x assume q: "q \<in> P" "a \<in> set (L' q)" "b \<in> set (L' q)" "a \<noteq> b" "areas t a = Some w"
      "areas t b = Some u" "in_area w x"
    then consider "q = p" "a = n" "b \<in> set (L p)" | "q = p" "b = n" "a \<in> set (L p)"
      | "a \<in> set (L q)" "b \<in> set (L q)" by (auto simp: mem)
    then show "\<not> in_area u x"
    proof cases
      case 1
      then show ?thesis using q dj n(1) by (auto simp: ar)
    next
      case 2
      then show ?thesis using q dj n(1) by (auto simp: ar)
    next
      case 3
      then show ?thesis using q mm_viewD(4) [OF m q(1) 3 q(4)] by (auto simp: ar)
    qed
  qed
  have "perms t (L' q) x = (if q = p \<and> in_area v x then Some (a_flags v, a_type v) else perms s (L q) x)"
    if q: "q \<in> P" for q x
  proof (cases "q = p \<and> in_area v x")
    case True
    then have "perms t (L' q) x = Some (a_flags v, a_type v)"
      unfolding perms_Some [OF view q] using n(1) by (auto simp: mem ar)
    then show ?thesis using True by simp
  next
    case False
    have "perms t (L' q) x = perms s (L q) x"
    proof (rule perms_eqI [OF view q m q])
      fix f t'
      have "a = n \<and> areas s a = Some w \<and> in_area w x \<longrightarrow> q \<noteq> p" for a w using False n(1) by auto
      then show "(\<exists>a\<in>set (L' q). \<exists>w. areas t a = Some w \<and> in_area w x \<and> a_flags w = f \<and> a_type w = t') \<longleftrightarrow>
        (\<exists>a\<in>set (L q). \<exists>w. areas s a = Some w \<and> in_area w x \<and> a_flags w = f \<and> a_type w = t')"
        unfolding ar Bex_def mem by blast
    qed
    then show ?thesis using False by auto
  qed
  then show ?thesis using view by blast
qed

lemma with_pd_fields:
  assumes "with_pd p f s = Inr t" shows "\<exists>m q. t = s\<lparr>mvm := m, pmm := q\<rparr>"
proof -
  from assms obtain m q where "t = s\<lparr>mvm := m, pmm := q\<rparr>"
    by (auto simp: with_pd_def lock_pd_def unlock_pd_def upd_pmm_def andthen_eq_Inr)
  then show ?thesis by blast
qed


section \<open>A new area\<close>

text \<open>
  What \<open>new_area\<close> needs of the range, after rounding: aligned ends, no wrap-around, nothing of the
  process from \<open>st\<close> up to and including \<open>en\<close>, and pages for it if it is backed at once.
\<close>

definition area_fits :: "nat \<Rightarrow> u32 \<Rightarrow> u32 \<Rightarrow> u32 \<Rightarrow> u32 \<Rightarrow> mms \<Rightarrow> nat list \<Rightarrow> bool" where
  "area_fits p st en fl ty s as \<longleftrightarrow> st AND PAGE_MASK = st \<and> page_up en = en \<and> st \<le> en \<and>
     unat en + 4096 < 4294967296 \<and> procmm_sem s = 0 \<and>
     (\<forall>x. st \<le> x \<and> x \<le> en \<longrightarrow> area_at s as x = None) \<and>
     (fl AND MM_FLAG_ADDONUSE = 0 \<and> fl AND MM_FLAG_COW = 0 \<longrightarrow>
       (\<exists>t. with_pd p (\<lambda>m. returns (back_pages st en (area_page_flags fl) m))
          (snd (alloc_area st en fl ty p s)) = Inr t))"

lemma new_area_view:
  assumes m: "mm_view P s L" and p: "p \<in> P" and fit: "area_fits p st en fl ty s (L p)"
  shows "\<exists>a s' L'. new_area p st en fl ty s = Inr (a, s') \<and> mm_view P s' L' \<and> a \<in> set (L' p) \<and> procmm_sem s' = 0 \<and>
    (\<forall>q\<in>P. \<forall>x. perms s' (L' q) x = (if q = p \<and> st \<le> x \<and> x < en then Some (fl, ty) else perms s (L q) x))"
proof -
  let ?v = "\<lparr>a_start = st, a_end = en, a_flags = fl, a_type = ty, owner = p\<rparr>"
  have aligned: "st AND PAGE_MASK = st" "page_up en = en" and le: "st \<le> en"
    and room: "unat en + 4096 < 4294967296" and sem: "procmm_sem s = 0"
    and free: "\<And>x. st \<le> x \<Longrightarrow> x \<le> en \<Longrightarrow> area_at s (L p) x = None"
    using fit by (auto simp: area_fits_def)
  obtain n s1 where al: "alloc_area st en fl ty p s = (n, s1)" by fastforce
  note v1 = alloc_area_view [OF m al]
  then have n1: "areas s1 n = Some ?v" and m1: "mm_view P s1 L"
    and nq: "\<not> queued (MemHead ` P) (mm_lists L) (Mem n)" by auto
  obtain m2 q2 where bk: "(if fl AND MM_FLAG_ADDONUSE = 0 \<and> fl AND MM_FLAG_COW = 0
      then with_pd p (\<lambda>m. returns (back_pages st en (area_page_flags fl) m)) s1 else Inr s1)
      = Inr (s1\<lparr>mvm := m2, pmm := q2\<rparr>)"
  proof (cases "fl AND MM_FLAG_ADDONUSE = 0 \<and> fl AND MM_FLAG_COW = 0")
    case True
    then obtain t where t: "with_pd p (\<lambda>m. returns (back_pages st en (area_page_flags fl) m)) s1 = Inr t"
      using fit al by (auto simp: area_fits_def)
    from with_pd_fields [OF t] show thesis using that t True by auto
  next
    case False
    then show thesis using that [of "pmm s1" "mvm s1"] by auto
  qed
  let ?s2 = "s1\<lparr>mvm := m2, pmm := q2, procmm_sem := 1\<rparr>"
  obtain us vs where l: "L p = us @ vs"
    and y: "insert_point p en (map (\<lambda>a. (a, the (areas ?s2 a))) (L p)) = hd (map Mem vs @ [MemHead p])"
    using insert_point_split [of "L p" p en "\<lambda>a. the (areas ?s2 a)"] by (elim exE conjE)
  let ?y = "insert_point p en (map (\<lambda>a. (a, the (areas ?s2 a))) (L p))"
  let ?s3 = "?s2\<lparr>mem := list_insert_to_left (mem ?s2) ?y (Mem n)\<rparr>"
  let ?L3 = "L(p := us @ n # vs)"
  have m2: "mm_view P ?s2 L" using m1 by simp
  have fr: "in_area ?v x \<Longrightarrow> area_at ?s2 (L p) x = None" for x
  proof -
    assume "in_area ?v x"
    then have "area_at s (L p) x = None" by (intro free) (auto simp: in_area_def)
    moreover have "area_at ?s2 (L p) x = area_at s (L p) x"
      unfolding area_at_def by (rule find_cong) (use v1 p in auto)
    ultimately show ?thesis by simp
  qed
  have ins: "mm_view P ?s3 ?L3 \<and> (\<forall>q\<in>P. \<forall>x. perms ?s3 (?L3 q) x =
    (if q = p \<and> in_area ?v x then Some (fl, ty) else perms ?s2 (L q) x))"
    using insert_area_view [OF m2 p _ nq _ _ fr l y] n1 le nq by simp
  let ?s4 = "?s3\<lparr>procmm_sem := 0\<rparr>"
  have m4: "mm_view P ?s4 ?L3" unfolding mm_view_sem using ins ..
  obtain a s5 L5 where g: "glue_area n ?s4 = Inr (a, s5)" "mm_view P s5 L5" "a \<in> set (L5 p)"
      "procmm_sem s5 = 0" "\<forall>q\<in>P. \<forall>x. perms s5 (L5 q) x = perms ?s4 (?L3 q) x"
    using glue_area_view [OF m4 p, of n] by auto
  have lock: "lock_procmm (s1\<lparr>mvm := m2, pmm := q2\<rparr>) = Inr ?s2"
    using v1 sem by (simp add: lock_procmm_def spin_lock_def)
  have coll: "returns (check_collision p st en s) = Inr ()"
    by (simp add: check_collision_free [OF m p room free] returns_def)
  have "new_area p st en fl ty s = glue_area n ?s4"
    unfolding new_area_def Let_def aligned coll al
    by (simp only: andthen_Inr prod.case bk lock proc_areas_view [OF m2 p])
  then have new: "new_area p st en fl ty s = Inr (a, s5)" using g(1) by simp
  have "perms s5 (L5 q) x = (if q = p \<and> st \<le> x \<and> x < en then Some (fl, ty) else perms s (L q) x)"
    if "q \<in> P" for q x
    using that g(5) ins v1 unfolding mm_view_sem in_area_def by simp
  then show ?thesis
    by (intro exI [of _ a] exI [of _ s5] exI [of _ L5]) (simp add: new g)
qed

end
