(* ===== verification/AreaProps.thy ===== *)
theory AreaProps imports NewArea DemoMachine begin

text \<open>
  The properties of the memory areas of a process: what an address lookup answers, what a new area changes,
  and how the stack grows on a page fault.
\<close>

section \<open>The search for the area above an address\<close>

lemma find_above_next:
  assumes m: "mm_view P s L" and p: "p \<in> P" and l: "L p = us @ [b, a]"
    and none: "area_at s (L p) x = None" and b: "a_end (the (areas s b)) < x"
  shows "find_above p x s = Inr (Some a)"
proof -
  have r: "ring (mem s) (MemHead p) (map Mem us @ [Mem b, Mem a])"
    using ringsD(1) [OF mm_viewD(1) [OF m], of "MemHead p"] p l by simp
  have prv: "prv (mem s) (MemHead p) = Mem a" "prv (mem s) (Mem a) = Mem b"
    using ring_head [OF r] ring_mid(2) [of "mem s" "MemHead p" "map Mem us @ [Mem b]" "Mem a" "[]"] r by simp_all
  have "nxt (mem s) (MemHead p) = hd (map Mem us @ [Mem b])"
    using ring_head [OF r] by (cases us) auto
  moreover have "Mem a \<notin> set (map Mem us @ [Mem b])" using ring_distinct [OF r] by auto
  ultimately have ne: "Mem a \<noteq> nxt (mem s) (MemHead p)"
    by (metis hd_in_set append_is_Nil_conv not_Cons_self2)
  have "areas s b = Some (the (areas s b))" using mm_area [OF m p, of b] l by auto
  then have "area_of b s = Inr (the (areas s b))" by (metis area_of_def deref_Some)
  then have "above_from p (prv (mem s) (MemHead p)) x s = Some (Inr (Some a))"
    using ne b by (subst above_from.simps) (simp add: prv)
  then show ?thesis by (simp add: find_above_def find_including_view [OF m p] none)
qed

lemma page_aligned: "x AND PAGE_MASK = x \<Longrightarrow> page_up x = x"
proof -
  assume a: "x AND PAGE_MASK = x"
  have "x AND PAGE_FLAG_MASK = (x AND PAGE_MASK) AND PAGE_FLAG_MASK" using a by simp
  also have "\<dots> = 0" by (simp add: and.assoc PAGE_MASK_def PAGE_FLAG_MASK_def)
  finally show ?thesis using a by (simp add: page_up_def)
qed

lemma page_mask_idem: "(x AND PAGE_MASK) AND PAGE_MASK = x AND PAGE_MASK"
  by (simp add: and.assoc)

text \<open>The situation of a fault in the page right below the last area of a process, its stack.\<close>

definition below_stack :: "nat \<Rightarrow> u32 \<Rightarrow> nat list \<Rightarrow> nat \<Rightarrow> nat \<Rightarrow> mms \<Rightarrow> bool" where
  "below_stack p x us b a s \<longleftrightarrow>
     area_at s (us @ [b, a]) x = None \<and> a_end (the (areas s b)) < x \<and>
     a_start (the (areas s a)) - x < PAGE_SIZE \<and>
     x AND PAGE_MASK = a_start (the (areas s a)) - PAGE_SIZE \<and>
     PAGE_SIZE \<le> a_start (the (areas s a)) \<and> unat (a_start (the (areas s a))) + 4096 < 4294967296 \<and>
     a_start (the (areas s a)) AND PAGE_MASK = a_start (the (areas s a)) \<and>
     a_flags (the (areas s a)) AND MM_FLAG_GROWSDOWN \<noteq> 0 \<and>
     (\<exists>pv. pmm s p = Some pv \<and> stack_limit (mm pv) < x)"

lemma grow_below:
  assumes m: "mm_view P s L" and p: "p \<in> P" and l: "L p = us @ [b, a]" and f: "below_stack p x us b a s"
  shows "procmm_handle_page_fault p x fl s =
    andthen (new_area p (a_start (the (areas s a)) - PAGE_SIZE) (a_start (the (areas s a)))
      (a_flags (the (areas s a))) (a_type (the (areas s a))) s) (\<lambda>(_, s). Inr (0, s))"
proof -
  note f = f [unfolded below_stack_def, folded l]
  have "areas s a = Some (the (areas s a))" using mm_area [OF m p, of a] l by auto
  then have a: "area_of a s = Inr (the (areas s a))" by (metis area_of_def deref_Some)
  have "find_above p x s = Inr (Some a)" using f by (intro find_above_next [OF m p l]) auto
  moreover obtain pv where "pmm_of p s = Inr pv" "stack_limit (mm pv) < x"
    using f by (auto simp: pmm_of_def)
  ultimately show ?thesis
    using f a by (simp add: procmm_handle_page_fault_def find_including_view [OF m p] grow_stack_def not_le [symmetric])
qed

section \<open>Properties\<close>

text \<open>
  C6. A new area overrides the permissions of its process on exactly its range, and of no other address and no
  other process, whatever areas it is glued to; the lists of areas stay well formed and the lock is released.
\<close>

theorem new_area_overrides:
  assumes "mm_view P s L" and "p \<in> P" and "area_fits p st en fl ty s (L p)"
  shows "\<exists>a s' L'. new_area p st en fl ty s = Inr (a, s') \<and> mm_view P s' L' \<and> procmm_sem s' = 0 \<and>
    (\<forall>q\<in>P. \<forall>x. perms s' (L' q) x = (if q = p \<and> st \<le> x \<and> x < en then Some (fl, ty) else perms s (L q) x))"
  using new_area_view [OF assms] by blast

definition demo_links :: "mnode links" where
  "demo_links = \<lparr>prv = id(MemHead 0 := Mem 1, Mem 1 := Mem 0, Mem 0 := MemHead 0),
     nxt = id(MemHead 0 := Mem 0, Mem 0 := Mem 1, Mem 1 := MemHead 0)\<rparr>"

text \<open>A process with a data page at 0x1000 and a stack from \<open>st\<close> up to 0xBFFFF000.\<close>

definition demo_mms :: "u32 \<Rightarrow> mms" where
  "demo_mms st = \<lparr>mvm = demo_vm,
     areas = [0 \<mapsto> \<lparr>a_start = 0x1000, a_end = 0x2000, a_flags = 3, a_type = MM_TYPE_DATA, owner = 0\<rparr>,
              1 \<mapsto> \<lparr>a_start = st, a_end = 0xBFFFF000, a_flags = 0xA2, a_type = MM_TYPE_STACK, owner = 0\<rparr>],
     pmm = [0 \<mapsto> \<lparr>mm = zero_mm, pd = 0x1000, pd_sem = 0\<rparr>],
     mem = demo_links, copies = \<lparr>prv = id, nxt = id\<rparr>, procmm_sem = 0, next_area = 2\<rparr>"

lemma demo_mms_view:
  assumes "0x2000 \<le> st" "st \<le> 0xBFFFF000"
  shows "mm_view {0} (demo_mms st) (\<lambda>_. [0, 1])"
proof (rule mm_viewI)
  show "rings (MemHead ` {0}) (Mem ` dom (areas (demo_mms st))) (mem (demo_mms st)) (mm_lists (\<lambda>_. [0, 1]))"
    by (auto simp: rings_def ring_def demo_mms_def demo_links_def queued_def)
next
  fix p a b v w x
  assume "p \<in> {0 :: nat}" "a \<in> set [0, 1 :: nat]" "b \<in> set [0, 1 :: nat]" "a \<noteq> b" "areas (demo_mms st) a = Some v"
    "areas (demo_mms st) b = Some w" "in_area v x"
  then show "\<not> in_area w x" using assms
    by (auto simp: demo_mms_def in_area_def dest: order_trans)
qed (use assms in \<open>auto simp: demo_mms_def split: if_splits\<close>)

lemma demo_area_at: "area_at (demo_mms st) [0, 1] x =
    (if 0x1000 \<le> x \<and> x < 0x2000 then Some 0 else if st \<le> x \<and> x < 0xBFFFF000 then Some 1 else None)"
  by (auto simp: area_at_def demo_mms_def in_area_def)

theorem new_area_overrides_witness:
  "\<exists>a s' L'. new_area 0 0x5000 0x7000 0x82 MM_TYPE_DATA (demo_mms 0xBFFFF000) = Inr (a, s') \<and>
     perms s' (L' (0 :: nat)) 0x5678 = Some (0x82, MM_TYPE_DATA) \<and> perms s' (L' 0) 0x1234 = Some (3, MM_TYPE_DATA)"
proof -
  have fit: "area_fits 0 0x5000 0x7000 0x82 MM_TYPE_DATA (demo_mms 0xBFFFF000) [0, 1]"
    unfolding area_fits_def demo_area_at
    by (auto simp: demo_mms_def PAGE_MASK_def page_up_def PAGE_FLAG_MASK_def MM_FLAG_ADDONUSE_def
        word_le_nat_alt word_less_nat_alt)
  have "perms (demo_mms 0xBFFFF000) [0, 1] 0x1234 = Some (3, MM_TYPE_DATA)"
    unfolding perms_def demo_area_at by (simp add: demo_mms_def)
  moreover obtain a s' L' where "new_area 0 0x5000 0x7000 0x82 MM_TYPE_DATA (demo_mms 0xBFFFF000) = Inr (a, s')"
    "\<forall>q\<in>{0 :: nat}. \<forall>x. perms s' (L' q) x = (if q = 0 \<and> 0x5000 \<le> x \<and> x < 0x7000
       then Some (0x82, MM_TYPE_DATA) else perms (demo_mms 0xBFFFF000) [0, 1] x)"
    using new_area_overrides [OF demo_mms_view _ fit] by auto
  ultimately show ?thesis by (intro exI [of _ a] exI [of _ s'] exI [of _ L']) simp
qed

text \<open>
  C29. The answer of \<open>procmm_check_address\<close> for an address inside an area is given by the permissions there:
  3 if it is writable, at once or by copy on write, else 1.
\<close>

theorem check_address_perms:
  assumes "mm_view P s L" and "p \<in> P" and "perms s (L p) x = Some (fl, ty)"
  shows "procmm_check_address p x s =
    Inr (if fl AND MM_FLAG_WRITE \<noteq> 0 \<or> fl AND MM_FLAG_COW \<noteq> 0 then 3 else 1)"
proof -
  obtain a where a: "area_at s (L p) x = Some a" "a_flags (the (areas s a)) = fl"
    using assms(3) by (auto simp: perms_def)
  then have "area_of a s = Inr (the (areas s a))"
    using area_at_Some [OF assms(1,2)] mm_area [OF assms(1,2), of a] by (metis area_of_def deref_Some option.sel)
  then show ?thesis using a by (simp add: procmm_check_address_def find_including_view [OF assms(1,2)])
qed

theorem check_address_perms_witness: "procmm_check_address 0 0x1234 (demo_mms 0xBFFFF000) = Inr 3"
proof -
  have "perms (demo_mms 0xBFFFF000) [0, 1] 0x1234 = Some (3, MM_TYPE_DATA)"
    unfolding perms_def demo_area_at by (simp add: demo_mms_def)
  from check_address_perms [OF demo_mms_view _ this] show ?thesis by (simp add: MM_FLAG_WRITE_def)
qed

text \<open>
  C30. The first fault below the empty stack area of a fresh process is resolved: the page below the top
  of the stack becomes stack, and no other permission changes.
\<close>

theorem stack_first_growth:
  assumes "mm_view P s L" and "p \<in> P" and "L p = us @ [b, a]" and "below_stack p x us b a s"
    and "areas s a = Some v" and "a_start v = a_end v" and "a_flags v AND MM_FLAG_ADDONUSE \<noteq> 0"
    and "\<forall>y. a_start v - PAGE_SIZE \<le> y \<and> y \<le> a_start v \<longrightarrow> area_at s (L p) y = None" and "procmm_sem s = 0"
  shows "\<exists>s' L'. procmm_handle_page_fault p x fl s = Inr (0, s') \<and> mm_view P s' L' \<and>
    (\<forall>q\<in>P. \<forall>y. perms s' (L' q) y =
       (if q = p \<and> a_start v - PAGE_SIZE \<le> y \<and> y < a_start v then Some (a_flags v, a_type v)
        else perms s (L q) y))"
proof -
  note f = assms(4) [unfolded below_stack_def assms(5) option.sel]
  have "area_fits p (a_start v - PAGE_SIZE) (a_start v) (a_flags v) (a_type v) s (L p)"
    using f assms(7-9) page_mask_idem [of x]
    by (simp add: area_fits_def page_aligned word_sub_le)
  from new_area_view [OF assms(1,2) this] show ?thesis
    using grow_below [OF assms(1-4), of fl] assms(5) by fastforce
qed

theorem stack_first_growth_witness:
  "\<exists>s' L'. procmm_handle_page_fault 0 0xBFFFEFFC 6 (demo_mms 0xBFFFF000) = Inr (0, s') \<and>
     perms s' (L' (0 :: nat)) 0xBFFFE000 = Some (0xA2, MM_TYPE_STACK)"
proof -
  let ?v = "\<lparr>a_start = 0xBFFFF000 :: u32, a_end = 0xBFFFF000, a_flags = 0xA2, a_type = MM_TYPE_STACK, owner = 0 :: nat\<rparr>"
  have "below_stack 0 0xBFFFEFFC [] 0 1 (demo_mms 0xBFFFF000)" unfolding below_stack_def append_Nil demo_area_at
    by (simp add: demo_mms_def PAGE_SIZE_def PAGE_MASK_def MM_FLAG_GROWSDOWN_def zero_mm_def)
  moreover have "\<forall>y. a_start ?v - PAGE_SIZE \<le> y \<and> y \<le> a_start ?v \<longrightarrow> area_at (demo_mms 0xBFFFF000) [0, 1] y = None"
    unfolding demo_area_at by (auto simp: PAGE_SIZE_def word_le_nat_alt word_less_nat_alt)
  ultimately obtain s' L' where "procmm_handle_page_fault 0 0xBFFFEFFC 6 (demo_mms 0xBFFFF000) = Inr (0, s')"
    "\<forall>q\<in>{0 :: nat}. \<forall>y. perms s' (L' q) y = (if q = 0 \<and> a_start ?v - PAGE_SIZE \<le> y \<and> y < a_start ?v
       then Some (a_flags ?v, a_type ?v) else perms (demo_mms 0xBFFFF000) [0, 1] y)"
    using stack_first_growth [OF demo_mms_view, of "0xBFFFF000" 0 "[]" 0 1 "0xBFFFEFFC" ?v 6]
    by (auto simp: demo_mms_def MM_FLAG_ADDONUSE_def)
  then show ?thesis by (intro exI [of _ s'] exI [of _ L']) (simp add: PAGE_SIZE_def)
qed

text \<open>
  C35. A fault below a stack that is not empty makes the kernel loop for ever: the collision check of
  \<open>new_area\<close> includes the end of the range, and there it finds the stack itself.
\<close>

theorem stack_growth_hangs:
  assumes "mm_view P s L" and "p \<in> P" and "L p = us @ [b, a]" and "below_stack p x us b a s"
    and "areas s a = Some v" and "a_start v < a_end v"
  shows "procmm_handle_page_fault p x fl s = Inl Hang"
proof -
  note f = assms(4) [unfolded below_stack_def assms(5) option.sel]
  let ?st = "a_start v - PAGE_SIZE"
  have u: "unat ?st + 4096 = unat (a_start v)" using f by (simp add: unat_sub PAGE_SIZE_def word_le_nat_alt)
  have "area_at s (L p) (a_start v) = Some a"
    using area_at_Some [OF assms(1,2)] assms(3,5,6) by (simp add: in_area_def)
  then have "check_collision p ?st (a_start v) s = Some (Inl Hang)"
    using f u by (intro check_collision_hit [OF assms(1,2), where k = 1]) (auto simp: PAGE_SIZE_def)
  moreover have "?st AND PAGE_MASK = ?st" using f page_mask_idem [of x] by simp
  moreover have "page_up (a_start v) = a_start v" using f by (simp add: page_aligned)
  ultimately have "new_area p ?st (a_start v) (a_flags v) (a_type v) s = Inl Hang"
    by (simp add: new_area_def returns_def)
  then show ?thesis using grow_below [OF assms(1-4), of fl] assms(5) by simp
qed

theorem stack_growth_hangs_witness:
  "procmm_handle_page_fault 0 0xBFFFDFFC 6 (demo_mms 0xBFFFE000) = Inl Hang"
proof -
  have "below_stack 0 0xBFFFDFFC [] 0 1 (demo_mms 0xBFFFE000)" unfolding below_stack_def append_Nil demo_area_at
    by (simp add: demo_mms_def PAGE_SIZE_def PAGE_MASK_def MM_FLAG_GROWSDOWN_def zero_mm_def)
  then show ?thesis
    by (intro stack_growth_hangs [OF demo_mms_view, of "0xBFFFE000" 0 "[]" 0 1]) (auto simp: demo_mms_def)
qed

end
