(* ===== verification/Pipes.thy ===== *)
theory Pipes imports Scheduler begin

text \<open>
  Pipes, \<^verbatim>\<open>kernel/fs/pipes.c\<close>: a ring buffer with free-running 32-bit positions. A reader or
  writer works in rounds, each under the pipe's lock; a round that cannot finish the
  call puts the thread to sleep on the pipe's wait list and calls the scheduler, and the call goes
  on with another round when the thread is woken. A round is a function here; its result says
  whether the call returns (\<open>Inl\<close>) or the thread sleeps (\<open>Inr\<close>). The buffer loops run over
  the bytes that are left to move.
\<close>

section \<open>State\<close>

definition PIPE_READ :: u32 where "PIPE_READ = 1"
definition PIPE_WRITE :: u32 where "PIPE_WRITE = 2"

record vfs_pipe =
  buffer :: "u8 list"
  psize :: u32
  read_pos :: u32
  write_pos :: u32
  readers :: u32
  writers :: u32
  semaphore :: u32

text \<open>\<open>malloc\<close> leaves the buffer's contents arbitrary: \<open>junk\<close> is what it holds.\<close>

definition new_pipe :: "u32 \<Rightarrow> u8 list \<Rightarrow> vfs_pipe" where
  "new_pipe sz junk =
     \<lparr>buffer = junk, psize = sz, read_pos = 0, write_pos = 0, readers = 0, writers = 0,
      semaphore = 0\<rparr>"

definition pipe_open :: "u32 \<Rightarrow> vfs_pipe \<Rightarrow> vfs_pipe" where
  "pipe_open ino_flags p =
     (let p = (if ino_flags = PIPE_READ then p\<lparr>readers := readers p + 1\<rparr> else p)
      in if ino_flags = PIPE_WRITE then p\<lparr>writers := writers p + 1\<rparr> else p)"

definition pipe_close :: "u32 \<Rightarrow> vfs_pipe \<Rightarrow> vfs_pipe" where
  "pipe_close ino_flags p =
     (let p = (if ino_flags = PIPE_READ then p\<lparr>readers := readers p - 1\<rparr> else p)
      in if ino_flags = PIPE_WRITE then p\<lparr>writers := writers p - 1\<rparr> else p)"

section \<open>The buffer\<close>

definition buf_get :: "u32 \<Rightarrow> vfs_pipe \<Rightarrow> u8 res" where
  "buf_get pos p =
     (if psize p = 0 then Inl DivError
      else let i = unat (pos mod psize p) in
           if i < length (buffer p) then Inr (buffer p ! i) else Inl Overrun)"

definition buf_put :: "u32 \<Rightarrow> u8 \<Rightarrow> vfs_pipe \<Rightarrow> vfs_pipe res" where
  "buf_put pos b p =
     (if psize p = 0 then Inl DivError
      else let i = unat (pos mod psize p) in
           if i < length (buffer p) then Inr (p\<lparr>buffer := (buffer p)[i := b]\<rparr>) else Inl Overrun)"

text \<open>The first argument is \<open>size - read\<close>, what the caller's buffer still has room for.\<close>

fun read_loop :: "nat \<Rightarrow> vfs_pipe \<Rightarrow> (u8 list \<times> vfs_pipe) res" where
  "read_loop 0 p = Inr ([], p)"
| "read_loop (Suc n) p =
     (if write_pos p - read_pos p > 0
      then andthen (buf_get (read_pos p) p) (\<lambda>b.
           andthen (read_loop n (p\<lparr>read_pos := read_pos p + 1\<rparr>)) (\<lambda>(bs, p). Inr (b # bs, p)))
      else Inr ([], p))"

text \<open>
  The two write loops take the bytes that are left and return those they did not write. Without
  readers nothing stops the writer.
\<close>

fun write_all :: "u8 list \<Rightarrow> vfs_pipe \<Rightarrow> (u8 list \<times> vfs_pipe) res" where
  "write_all [] p = Inr ([], p)"
| "write_all (b # bs) p =
     andthen (buf_put (write_pos p) b p) (\<lambda>p. write_all bs (p\<lparr>write_pos := write_pos p + 1\<rparr>))"

fun write_room :: "u8 list \<Rightarrow> vfs_pipe \<Rightarrow> (u8 list \<times> vfs_pipe) res" where
  "write_room [] p = Inr ([], p)"
| "write_room (b # bs) p =
     (if write_pos p - read_pos p < psize p
      then andthen (buf_put (write_pos p) b p) (\<lambda>p. write_room bs (p\<lparr>write_pos := write_pos p + 1\<rparr>))
      else Inr (b # bs, p))"

section \<open>Rounds of a call\<close>

definition lock_pipe :: "vfs_pipe \<Rightarrow> vfs_pipe res" where
  "lock_pipe p = (if semaphore p AND 0xFF = 0
     then Inr (p\<lparr>semaphore := (semaphore p AND NOT 0xFF) OR 1\<rparr>) else Inl Deadlock)"

definition EOF_byte :: u8 where "EOF_byte = 0xFF"

text \<open>
  \<open>pipe_read\<close> by thread \<open>cur\<close> on pipe \<open>n\<close>. The bytes returned are the ones in the caller's buffer.
\<close>

definition pipe_read ::
    "nat \<Rightarrow> nat \<Rightarrow> u32 \<Rightarrow> vfs_pipe \<Rightarrow> sched \<Rightarrow> ((u8 list + unit) \<times> vfs_pipe \<times> sched) res" where
  "pipe_read cur n sz p s =
     andthen (lock_pipe p) (\<lambda>p.
     if writers p = 0 then Inr (Inl [EOF_byte], p\<lparr>semaphore := 0\<rparr>, s)
     else
      andthen (read_loop (unat sz) p) (\<lambda>(bs, p).
      let p = p\<lparr>semaphore := 0\<rparr> in
      andthen (scheduler_wake (PipeWaiting n) s) (\<lambda>s.
      if bs = []
      then andthen (scheduler_sleep cur (PipeWaiting n) s) (\<lambda>s. Inr (Inr (), p, s))
      else Inr (Inl bs, p, s))))"

text \<open>
  \<open>pipe_write\<close>: the result is what is still to be written when the thread sleeps. With nothing to
  write the loop is not entered.
\<close>

definition pipe_write ::
    "nat \<Rightarrow> nat \<Rightarrow> u8 list \<Rightarrow> vfs_pipe \<Rightarrow> sched \<Rightarrow> ((unit + u8 list) \<times> vfs_pipe \<times> sched) res" where
  "pipe_write cur n data p s =
     (if data = [] then Inr (Inl (), p, s)
      else
       andthen (lock_pipe p) (\<lambda>p.
       andthen (if readers p = 0 then write_all data p else write_room data p) (\<lambda>(rest, p).
       let p = p\<lparr>semaphore := 0\<rparr> in
       andthen (scheduler_wake (PipeWaiting n) s) (\<lambda>s.
       if rest \<noteq> []
       then andthen (scheduler_sleep cur (PipeWaiting n) s) (\<lambda>s. Inr (Inr rest, p, s))
       else Inr (Inl (), p, s)))))"

definition pipe_isatty :: "u32" where "pipe_isatty = 1"

section \<open>Contents\<close>

definition fill :: "vfs_pipe \<Rightarrow> nat" where
  "fill p = unat (write_pos p - read_pos p)"

definition slot :: "vfs_pipe \<Rightarrow> u32 \<Rightarrow> nat" where
  "slot p pos = unat (pos mod psize p)"

definition contents :: "vfs_pipe \<Rightarrow> u8 list" where
  "contents p = map (\<lambda>i. buffer p ! slot p (read_pos p + of_nat i)) [0..<fill p]"

text \<open>
  The positions run through all 32-bit values, so the slots follow each other across the
  wrap-around only if the size divides \<open>2 ^ 32\<close>. All pipes of the kernel have such a size.
\<close>

definition pipe_ok :: "vfs_pipe \<Rightarrow> bool" where
  "pipe_ok p \<longleftrightarrow> psize p \<noteq> 0 \<and> length (buffer p) = unat (psize p) \<and>
     unat (psize p) dvd 4294967296 \<and> fill p \<le> unat (psize p)"

lemma slot_less: "psize p \<noteq> 0 \<Longrightarrow> slot p pos < unat (psize p)"
  unfolding slot_def by (simp add: unat_mod) (metis mod_less_divisor unat_gt_0)

lemma slot_add:
  assumes "pipe_ok p"
  shows "slot p (a + of_nat i) = (unat a + i) mod unat (psize p)"
proof -
  have "unat (a + of_nat i) = (unat a + i) mod 4294967296"
    by (simp add: unat_word_ariths unsigned_of_nat take_bit_eq_mod mod_simps)
  then show ?thesis
    using assms by (simp add: slot_def unat_mod pipe_ok_def mod_mod_cancel)
qed

lemma mod_add_inj:
  fixes i j n :: nat
  assumes "(a + i) mod n = (a + j) mod n" and "i < n" "j < n"
  shows "i = j"
proof -
  have *: "x = y" if "x \<le> y" "y < n" "(a + x) mod n = (a + y) mod n" for x y
  proof -
    have "n dvd (a + y) - (a + x)" using that by (metis add_le_mono1 add.commute mod_eq_dvd_iff_nat)
    then show ?thesis using that dvd_imp_le [of n "y - x"] by (cases "x = y") auto
  qed
  show ?thesis using * [of i j] * [of j i] assms by (cases "i \<le> j") auto
qed

lemma slot_inj:
  assumes ok: "pipe_ok p" and "i < unat (psize p)" "j < unat (psize p)"
  shows "slot p (a + of_nat i) = slot p (a + of_nat j) \<longleftrightarrow> i = j"
  using mod_add_inj [of "unat a" i "unat (psize p)" j] assms by (auto simp: slot_add [OF ok])

section \<open>Moving bytes\<close>

lemma fill_bound: "pipe_ok p \<Longrightarrow> fill p \<le> unat (psize p)"
  by (simp add: pipe_ok_def)

lemma fill_zero: "fill p = 0 \<longleftrightarrow> write_pos p = read_pos p"
  by (simp add: fill_def unat_eq_0)

lemma contents_length [simp]: "length (contents p) = fill p"
  by (simp add: contents_def)

lemma buf_get_ok: "pipe_ok p \<Longrightarrow> buf_get pos p = Inr (buffer p ! slot p pos)"
  using slot_less [of p pos] by (simp add: buf_get_def pipe_ok_def slot_def Let_def)

lemma buf_put_ok: "pipe_ok p \<Longrightarrow> buf_put pos b p = Inr (p\<lparr>buffer := (buffer p)[slot p pos := b]\<rparr>)"
  using slot_less [of p pos] by (simp add: buf_put_def pipe_ok_def slot_def Let_def)

lemma slot_cong: "psize q = psize p \<Longrightarrow> slot q pos = slot p pos"
  by (simp add: slot_def)

lemma advance_read:
  fixes p :: vfs_pipe
  assumes ok: "pipe_ok p" and ne: "fill p = Suc m"
  defines "q \<equiv> p\<lparr>read_pos := read_pos p + 1\<rparr>"
  shows "fill q = m" "pipe_ok q" "contents p = buffer p ! slot p (read_pos p) # contents q"
proof -
  have f: "unat (write_pos p - read_pos p) = Suc m" using ne by (simp add: fill_def)
  then have "write_pos p - read_pos p \<noteq> 0" by auto
  then have "unat (write_pos p - read_pos p - 1) = m" using f by (simp add: unat_minus_one)
  then show fq: "fill q = m" by (simp add: fill_def q_def diff_diff_add)
  then show "pipe_ok q" using ok ne by (simp add: pipe_ok_def q_def)
  have "contents p = map (\<lambda>i. buffer p ! slot p (read_pos p + of_nat i)) (0 # map Suc [0..<m])"
    unfolding contents_def ne by (simp only: upt_conv_Cons [OF zero_less_Suc] map_Suc_upt [symmetric])
  also have "\<dots> = buffer p ! slot p (read_pos p) # contents q"
    unfolding contents_def fq by (simp add: q_def slot_cong [of q p] slot_def algebra_simps)
  finally show "contents p = buffer p ! slot p (read_pos p) # contents q" .
qed

lemma advance_write:
  fixes p :: vfs_pipe and b :: u8
  assumes ok: "pipe_ok p" and room: "fill p < unat (psize p)"
  defines "q \<equiv> p\<lparr>buffer := (buffer p)[slot p (write_pos p) := b], write_pos := write_pos p + 1\<rparr>"
  shows "fill q = Suc (fill p)" "pipe_ok q" "contents q = contents p @ [b]"
proof -
  have "unat (psize p) < 4294967296" by (rule less_le_trans [OF unsigned_less]) simp
  then have "unat ((write_pos p - read_pos p) + 1) = Suc (fill p)"
    using room by (subst unat_add_lem [THEN iffD1]) (auto simp: fill_def)
  then show fq: "fill q = Suc (fill p)" by (simp add: fill_def q_def algebra_simps)
  show "pipe_ok q" using ok room by (simp add: pipe_ok_def fq) (simp add: q_def)
  have w: "write_pos p = read_pos p + of_nat (fill p)" by (simp add: fill_def)
  have s: "slot q = slot p" by (simp add: fun_eq_iff slot_def q_def)
  have len: "slot p (write_pos p) < length (buffer p)" using ok slot_less [of p] by (simp add: pipe_ok_def)
  have "slot p (write_pos p) \<noteq> slot p (read_pos p + of_nat i)" if "i < fill p" for i
    using slot_inj [OF ok, of "fill p" i "read_pos p"] that room w by simp
  then have "buffer q ! slot p (read_pos p + of_nat i) = buffer p ! slot p (read_pos p + of_nat i)"
    if "i < fill p" for i using that by (simp add: q_def)
  moreover have "buffer q ! slot p (read_pos p + of_nat (fill p)) = b"
    using len w by (simp add: q_def)
  moreover have "read_pos q = read_pos p" by (simp add: q_def)
  ultimately show "contents q = contents p @ [b]" by (simp add: contents_def fq s)
qed

lemma room_iff: "write_pos p - read_pos p < psize p \<longleftrightarrow> fill p < unat (psize p)"
  by (simp add: fill_def word_less_nat_alt)

lemma data_iff: "0 < write_pos p - read_pos p \<longleftrightarrow> 0 < fill p"
  by (simp add: fill_def word_less_nat_alt)

lemma read_loop_contents:
  "pipe_ok p \<Longrightarrow> \<exists>q. read_loop n p = Inr (take n (contents p), q) \<and> pipe_ok q \<and>
     contents q = drop n (contents p) \<and> psize q = psize p \<and> readers q = readers p \<and>
     writers q = writers p \<and> semaphore q = semaphore p"
proof (induction n arbitrary: p)
  case (Suc n)
  show ?case
  proof (cases "fill p")
    case 0
    then show ?thesis using Suc.prems by (auto simp: fill_zero contents_def)
  next
    case (Suc m)
    then have "0 < write_pos p - read_pos p" by (simp add: data_iff)
    with Suc.IH [OF advance_read(2) [OF Suc.prems Suc]] advance_read(3) [OF Suc.prems Suc]
    show ?thesis using buf_get_ok [OF Suc.prems] by auto
  qed
qed auto

lemma write_room_contents:
  "pipe_ok p \<Longrightarrow> \<exists>q. write_room bs p = Inr (drop (unat (psize p) - fill p) bs, q) \<and> pipe_ok q \<and>
     contents q = contents p @ take (unat (psize p) - fill p) bs \<and> psize q = psize p \<and>
     readers q = readers p \<and> writers q = writers p \<and> semaphore q = semaphore p"
proof (induction bs arbitrary: p)
  case (Cons b bs)
  show ?case
  proof (cases "fill p < unat (psize p)")
    case False
    then show ?thesis using Cons.prems by (auto simp: room_iff)
  next
    case True
    let ?q = "p\<lparr>buffer := (buffer p)[slot p (write_pos p) := b], write_pos := write_pos p + 1\<rparr>"
    note a = advance_write [OF Cons.prems True, of b]
    have "unat (psize p) - fill p = Suc (unat (psize p) - Suc (fill p))" using True by simp
    then show ?thesis
      using Cons.IH [OF a(2)] a(1,3) True buf_put_ok [OF Cons.prems] by (auto simp: room_iff)
  qed
qed auto

end
