(* ===== verification/PipeSpec.thy ===== *)
theory PipeSpec imports Pipes SchedSpec begin

text \<open>
  The pipe as a bounded first-in first-out buffer: the contract as a locale, its interpretation
  on the loops of \<open>pipe_read\<close> and \<open>pipe_write\<close>, and the properties of a pipe used by any
  number of readers and writers in any order.
\<close>

section \<open>The contract\<close>

locale bounded_fifo =
  fixes ok :: "'s \<Rightarrow> bool" and held :: "'s \<Rightarrow> 'b list" and cap :: "'s \<Rightarrow> nat"
    and put :: "'b list \<Rightarrow> 's \<Rightarrow> ('b list \<times> 's) res"
    and get :: "nat \<Rightarrow> 's \<Rightarrow> ('b list \<times> 's) res"
  assumes cap_pos: "ok s \<Longrightarrow> 0 < cap s"
    and held_cap: "ok s \<Longrightarrow> length (held s) \<le> cap s"
    and put_law: "ok s \<Longrightarrow> \<exists>s'. put bs s = Inr (drop (cap s - length (held s)) bs, s') \<and> ok s' \<and>
      cap s' = cap s \<and> held s' = held s @ take (cap s - length (held s)) bs"
    and get_law: "ok s \<Longrightarrow> \<exists>s'. get n s = Inr (take n (held s), s') \<and> ok s' \<and>
      cap s' = cap s \<and> held s' = drop n (held s)"
begin

lemma put_keeps_stream:
  assumes "ok s" and "put bs s = Inr (rest, s')"
  shows "ok s' \<and> (\<exists>done. bs = done @ rest \<and> held s' = held s @ done)"
  using put_law [OF assms(1), of bs] assms(2) by (auto intro: exI [of _ "take _ bs"])

lemma get_keeps_stream:
  assumes "ok s" and "get n s = Inr (bs, s')"
  shows "ok s' \<and> held s = bs @ held s' \<and> length bs \<le> n"
  using get_law [OF assms(1), of n] assms(2) by auto

lemma put_holds:
  assumes "ok s" and "put bs s = Inr (rest, s')" and "held s @ bs \<noteq> []"
  shows "held s' \<noteq> []"
  using put_law [OF assms(1), of bs] cap_pos [OF assms(1)] assms(2,3) by auto

lemma get_gives:
  assumes "ok s" and "get n s = Inr (bs, s')" and "held s \<noteq> []" and "0 < n"
  shows "bs \<noteq> []"
  using get_law [OF assms(1), of n] assms(2-4) by auto

end

section \<open>The pipe's buffer\<close>

interpretation pb: bounded_fifo pipe_ok contents "\<lambda>p. unat (psize p)" write_room read_loop
proof (unfold_locales, goal_cases)
  case (1 p)
  then show ?case by (simp add: pipe_ok_def unat_gt_0)
next
  case (2 p)
  then show ?case by (simp add: fill_bound)
next
  case (3 p bs)
  then show ?case using write_room_contents [of p bs] by auto
next
  case (4 p n)
  then show ?case using read_loop_contents [of p n] by auto
qed

lemma pipe_ok_sem [simp]: "pipe_ok (p\<lparr>semaphore := x\<rparr>) = pipe_ok p"
  "contents (p\<lparr>semaphore := x\<rparr>) = contents p" "fill (p\<lparr>semaphore := x\<rparr>) = fill p"
  by (simp_all add: pipe_ok_def contents_def fill_def slot_def)

lemma pipe_read_stream:
  assumes ok: "pipe_ok p" "writers p \<noteq> 0" and r: "pipe_read cur n sz p s = Inr (res, q, s')"
  shows "pipe_ok q \<and> writers q = writers p \<and> readers q = readers p \<and>
    contents p = (case res of Inl bs \<Rightarrow> bs | Inr _ \<Rightarrow> []) @ contents q"
proof -
  obtain l where l: "lock_pipe p = Inr l" using r by (auto simp: pipe_read_def andthen_eq_Inr)
  then have l': "pipe_ok l" "contents l = contents p" "writers l = writers p" "readers l = readers p"
    using ok by (auto simp: lock_pipe_def split: if_splits)
  obtain p1 where p1: "read_loop (unat sz) l = Inr (take (unat sz) (contents l), p1)" "pipe_ok p1"
    "contents p1 = drop (unat sz) (contents l)" "readers p1 = readers l" "writers p1 = writers l"
    using read_loop_contents [OF l'(1), of "unat sz"] by blast
  have "q = p1\<lparr>semaphore := 0\<rparr>" and
    "(case res of Inl bs \<Rightarrow> bs | Inr _ \<Rightarrow> []) = take (unat sz) (contents l)"
    using r l l' ok p1(1) by (auto simp: pipe_read_def Let_def andthen_eq_Inr split: if_splits)
  then show ?thesis using p1 l' by simp
qed

lemma pipe_write_stream:
  assumes ok: "pipe_ok p" "readers p \<noteq> 0" and r: "pipe_write cur n data p s = Inr (res, q, s')"
  shows "pipe_ok q \<and> writers q = writers p \<and> readers q = readers p \<and>
    (\<exists>done. data = done @ (case res of Inl _ \<Rightarrow> [] | Inr rest \<Rightarrow> rest) \<and> contents q = contents p @ done)"
proof (cases "data = []")
  case True
  then show ?thesis using r ok by (auto simp: pipe_write_def)
next
  case False
  obtain l where l: "lock_pipe p = Inr l" using r False by (auto simp: pipe_write_def andthen_eq_Inr)
  then have l': "pipe_ok l" "contents l = contents p" "writers l = writers p" "readers l = readers p"
    using ok by (auto simp: lock_pipe_def split: if_splits)
  let ?k = "unat (psize l) - fill l"
  obtain p1 where p1: "write_room data l = Inr (drop ?k data, p1)" "pipe_ok p1"
    "contents p1 = contents l @ take ?k data" "readers p1 = readers l" "writers p1 = writers l"
    using write_room_contents [OF l'(1), of data] by blast
  have q: "q = p1\<lparr>semaphore := 0\<rparr>" and
    "(case res of Inl _ \<Rightarrow> [] | Inr rest \<Rightarrow> rest) = drop ?k data"
    using r l l' ok p1(1) False by (auto simp: pipe_write_def Let_def andthen_eq_Inr split: if_splits)
  then have "data = take ?k data @ (case res of Inl _ \<Rightarrow> [] | Inr rest \<Rightarrow> rest)" by simp
  then show ?thesis using p1 l' q by auto
qed

section \<open>Any number of readers and writers\<close>

text \<open>
  A run of rounds on pipe \<open>n\<close> by any threads, while both ends are open, with the bytes written and
  read so far.
\<close>

inductive pipe_round ::
    "nat \<Rightarrow> vfs_pipe \<times> sched \<times> u8 list \<times> u8 list \<Rightarrow> vfs_pipe \<times> sched \<times> u8 list \<times> u8 list \<Rightarrow> bool"
  for n where
  read_returns: "pipe_read t n sz p s = Inr (Inl bs, q, s') \<Longrightarrow>
     pipe_round n (p, s, sent, got) (q, s', sent, got @ bs)"
| read_sleeps: "pipe_read t n sz p s = Inr (Inr (), q, s') \<Longrightarrow>
     pipe_round n (p, s, sent, got) (q, s', sent, got)"
| write_returns: "pipe_write t n data p s = Inr (Inl (), q, s') \<Longrightarrow>
     pipe_round n (p, s, sent, got) (q, s', sent @ data, got)"
| write_sleeps: "pipe_write t n (done @ rest) p s = Inr (Inr rest, q, s') \<Longrightarrow>
     pipe_round n (p, s, sent, got) (q, s', sent @ done, got)"

inductive_cases pipe_roundE: "pipe_round n (p, s, sent, got) c"

definition stream_ok :: "vfs_pipe \<times> sched \<times> u8 list \<times> u8 list \<Rightarrow> bool" where
  "stream_ok c \<longleftrightarrow> (case c of (p, s, sent, got) \<Rightarrow>
     pipe_ok p \<and> readers p \<noteq> 0 \<and> writers p \<noteq> 0 \<and> sent = got @ contents p)"

lemma pipe_round_ok: "pipe_round n c d \<Longrightarrow> stream_ok c \<Longrightarrow> stream_ok d"
proof (induction rule: pipe_round.induct)
  case (read_returns t sz p s bs q s' sent got)
  then show ?case using pipe_read_stream [of p t n sz s "Inl bs" q s'] by (auto simp: stream_ok_def)
next
  case (read_sleeps t sz p s q s' sent got)
  then show ?case using pipe_read_stream [of p t n sz s "Inr ()" q s'] by (auto simp: stream_ok_def)
next
  case (write_returns t data p s q s' sent got)
  then show ?case using pipe_write_stream [of p t n data s "Inl ()" q s'] by (auto simp: stream_ok_def)
next
  case (write_sleeps t ds rest p s q s' sent got)
  then show ?case
    using pipe_write_stream [of p t n "ds @ rest" s "Inr rest" q s'] by (auto simp: stream_ok_def)
qed

lemma pipe_rounds_ok: "(pipe_round n)\<^sup>*\<^sup>* c d \<Longrightarrow> stream_ok c \<Longrightarrow> stream_ok d"
  by (induction rule: rtranclp_induct) (auto dest: pipe_round_ok)

section \<open>Properties\<close>

text \<open>A pipe of four bytes with both ends open.\<close>

definition demo_pipe :: vfs_pipe where
  "demo_pipe = pipe_open PIPE_WRITE (pipe_open PIPE_READ (new_pipe 4 [7, 7, 7, 7]))"

lemma demo_pipe_ok: "stream_ok (demo_pipe, s, [], [])"
proof -
  have "(4 :: nat) dvd 4294967296" by (rule dvdI [of _ _ 1073741824]) simp
  then show ?thesis
    by (simp add: stream_ok_def demo_pipe_def pipe_open_def new_pipe_def PIPE_READ_def PIPE_WRITE_def
        pipe_ok_def fill_def contents_def)
qed

lemma demo_sched_pipe: "sched_abs {RunQueue, PipeWaiting 5} {1, 2, 3} demo_sched (\<lambda>_. [])"
  by (auto simp: sched_abs_def rings_def ring_def demo_sched_def is_head_def)

lemma demo_wake: "\<exists>s'. scheduler_wake (PipeWaiting 5) demo_sched = Inr s'"
  using scheduler_wake_abs [OF demo_sched_pipe, of "PipeWaiting 5"] by auto

lemma demo_write:
  "\<exists>q s'. pipe_write 1 5 [10, 20] demo_pipe demo_sched = Inr (Inl (), q, s') \<and> pipe_ok q \<and>
     contents q = [10, 20]"
proof -
  have "\<exists>q s'. pipe_write 1 5 [10, 20] demo_pipe demo_sched = Inr (Inl (), q, s')"
    using demo_wake
    by (auto simp: pipe_write_def lock_pipe_def demo_pipe_def pipe_open_def new_pipe_def
        PIPE_READ_def PIPE_WRITE_def buf_put_def)
  then obtain q s' where q: "pipe_write 1 5 [10, 20] demo_pipe demo_sched = Inr (Inl (), q, s')" by blast
  have "pipe_ok demo_pipe" "readers demo_pipe \<noteq> 0" "contents demo_pipe = []"
    using demo_pipe_ok [of demo_sched] by (auto simp: stream_ok_def)
  with pipe_write_stream [OF this(1,2) q] q show ?thesis by auto
qed

text \<open>
  C7. A pipe is a first-in first-out channel: whatever rounds of reads and writes any threads
  make while both ends are open, the bytes written so far are exactly the bytes read so far
  followed by at most as many bytes as the buffer holds. Nothing is lost, repeated or reordered,
  also when the positions wrap around at \<open>2 ^ 32\<close>.
\<close>

theorem pipe_fifo:
  assumes "(pipe_round n)\<^sup>*\<^sup>* (p, s, [], []) (q, s', sent, got)"
    and "pipe_ok p" and "contents p = []" and "readers p \<noteq> 0" and "writers p \<noteq> 0"
  shows "sent = got @ contents q \<and> length (contents q) \<le> unat (psize q) \<and> pipe_ok q"
proof -
  have "stream_ok (p, s, [], [])" using assms(2-5) by (simp add: stream_ok_def)
  from pipe_rounds_ok [OF assms(1) this] show ?thesis by (simp add: stream_ok_def fill_bound)
qed

theorem pipe_fifo_witness:
  "\<exists>q s'. (pipe_round 5)\<^sup>*\<^sup>* (demo_pipe, demo_sched, [], []) (q, s', [10, 20], []) \<and>
     [10, 20] = [] @ contents q"
proof -
  obtain q s' where "pipe_write 1 5 [10, 20] demo_pipe demo_sched = Inr (Inl (), q, s')"
    using demo_write by blast
  then have "pipe_round 5 (demo_pipe, demo_sched, [], []) (q, s', [] @ [10, 20], [])"
    by (rule pipe_round.write_returns)
  then have r: "(pipe_round 5)\<^sup>*\<^sup>* (demo_pipe, demo_sched, [], []) (q, s', [10, 20], [])" by auto
  have "pipe_ok demo_pipe" "contents demo_pipe = []" "readers demo_pipe \<noteq> 0" "writers demo_pipe \<noteq> 0"
    using demo_pipe_ok [of demo_sched] by (auto simp: stream_ok_def)
  from pipe_fifo [OF r this] r show ?thesis by blast
qed

text \<open>
  C38. When the last writer has closed its end, \<open>pipe_read\<close> returns one end-of-file byte at once,
  without delivering the bytes that are still in the buffer and whatever size was asked for.
\<close>

theorem pipe_read_after_close:
  assumes "writers p = 0" and "semaphore p = 0"
  shows "\<exists>q. pipe_read cur n sz p s = Inr (Inl [0xFF], q, s) \<and> contents q = contents p"
  using assms by (simp add: pipe_read_def lock_pipe_def EOF_byte_def)

theorem pipe_read_after_close_witness:
  "\<exists>p q. contents p = [10, 20] \<and> pipe_read 1 5 2 p demo_sched = Inr (Inl [0xFF], q, demo_sched) \<and>
     contents q = [10, 20]"
proof -
  obtain q s' where q: "pipe_write 1 5 [10, 20] demo_pipe demo_sched = Inr (Inl (), q, s')"
    "contents q = [10, 20]" using demo_write by blast
  let ?p = "q\<lparr>writers := 0, semaphore := 0\<rparr>"
  have c: "contents ?p = [10, 20]"
  proof -
    have "contents ?p = contents q" by (simp add: contents_def fill_def slot_def)
    then show ?thesis using q(2) by simp
  qed
  have "writers ?p = 0" "semaphore ?p = 0" by simp_all
  from pipe_read_after_close [OF this, of 1 5 2 demo_sched] c show ?thesis by metis
qed

end
