(* ===== verification/FsState.thy ===== *)
theory FsState imports Pipes begin

text \<open>
  The state of the file systems: the nodes of \<^verbatim>\<open>kernel/include/vfs.h\<close>, the tree and
  entries of the tar file system, the pipes, the output of the debug device, and the scheduler
  (pipes put threads to sleep). Objects live in stores indexed by numbers; a pointer is such a
  number or \<open>None\<close>, the null pointer; an access through null or to a freed object is
  \<open>BadPtr\<close>. \<open>malloc\<close> and \<open>calloc\<close> give a number never used before and do not fail.
\<close>

section \<open>Types\<close>

type_synonym i32 = "32 word"

datatype driver = TarfsDriver | PipeDriver | DebugDriver

record vfs_node =
  name :: string
  parent :: "nat option"
  child :: "nat option"
  older :: "nat option"
  younger :: "nat option"
  drv :: "driver option"
  type :: u32
  flen :: u32
  users :: u32
  data :: "nat option"
  flags :: u32

definition FS_FILE :: u32 where "FS_FILE = 1"
definition FS_DIRECTORY :: u32 where "FS_DIRECTORY = 2"
definition FS_CHARDEV :: u32 where "FS_CHARDEV = 3"
definition FS_PIPE :: u32 where "FS_PIPE = 5"
definition FS_MOUNT :: u32 where "FS_MOUNT = 8"
definition FS_TYPE_MASK :: u32 where "FS_TYPE_MASK = 7"

text \<open>\<open>calloc(1, sizeof(vfs_node_t))\<close>.\<close>

definition new_node :: vfs_node where
  "new_node = \<lparr>name = [], parent = None, child = None, older = None, younger = None, drv = None,
     type = 0, flen = 0, users = 0, data = None, flags = 0\<rparr>"

record tarfs_entry =
  ename :: string
  tar :: u32
  inode :: "nat option"
  eusers :: u32

record tree_node =
  item :: tarfs_entry
  tparent :: "nat option"

datatype tnode = Children nat | Siblings nat

record fs =
  nodes :: "nat \<Rightarrow> vfs_node option"
  vfs_root :: "nat option"
  next_ptr :: nat
  errno :: u32
  pipes :: "nat \<Rightarrow> vfs_pipe option"
  tree :: "nat \<Rightarrow> tree_node option"
  tlinks :: "tnode links"
  ram :: "u32 \<Rightarrow> u8"
  serial :: "u8 list"
  fsched :: sched
  cur_th :: nat

definition EACCES :: u32 where "EACCES = 13"
definition EBADF :: u32 where "EBADF = 9"
definition ENOENT :: u32 where "ENOENT = 2"
definition EMFILE :: u32 where "EMFILE = 24"
definition EINVAL :: u32 where "EINVAL = 22"
definition EFAULT :: u32 where "EFAULT = 14"
definition ESPIPE :: u32 where "ESPIPE = 29"
definition EMLINK :: u32 where "EMLINK = 31"

section \<open>Access to nodes\<close>

definition node_of :: "nat \<Rightarrow> fs \<Rightarrow> vfs_node res" where
  "node_of n s = deref (nodes s n)"

definition put_node :: "nat \<Rightarrow> vfs_node \<Rightarrow> fs \<Rightarrow> fs" where
  "put_node n v s = s\<lparr>nodes := (nodes s)(n \<mapsto> v)\<rparr>"

definition upd_node :: "nat \<Rightarrow> (vfs_node \<Rightarrow> vfs_node) \<Rightarrow> fs \<Rightarrow> fs res" where
  "upd_node n f s = andthen (node_of n s) (\<lambda>v. Inr (put_node n (f v) s))"

definition free_node :: "nat \<Rightarrow> fs \<Rightarrow> fs res" where
  "free_node n s = andthen (node_of n s) (\<lambda>_. Inr (s\<lparr>nodes := (nodes s)(n := None)\<rparr>))"

definition alloc_node :: "vfs_node \<Rightarrow> fs \<Rightarrow> nat \<times> fs" where
  "alloc_node v s = (next_ptr s, put_node (next_ptr s) v (s\<lparr>next_ptr := Suc (next_ptr s)\<rparr>))"

definition set_errno :: "u32 \<Rightarrow> fs \<Rightarrow> fs" where
  "set_errno e s = s\<lparr>errno := e\<rparr>"

definition in_vfs_tree :: "vfs_node \<Rightarrow> bool" where
  "in_vfs_tree v \<longleftrightarrow> parent v \<noteq> None"

definition is_dir :: "vfs_node \<Rightarrow> bool" where
  "is_dir v \<longleftrightarrow> type v AND FS_TYPE_MASK = FS_DIRECTORY"

text \<open>
  The outcome of a call that may block: it returns, or the thread sleeps with these bytes still to
  be written.
\<close>

datatype 'a outcome = Returns 'a | Sleeps "u8 list"

text \<open>A directory entry as \<open>readdir\<close> returns it.\<close>

record dirent =
  dino :: nat
  dname :: string

section \<open>The driver's table\<close>

text \<open>
  \<open>vfs_driver_t\<close>: a null function pointer is \<open>None\<close>. A read takes the size and the offset and gives
  the bytes stored in the caller's buffer and the return value; a write takes the bytes of the
  caller's buffer. \<open>stat\<close> gives the return value and \<open>st_mode\<close>.
\<close>

record vfs_driver =
  d_open :: "(nat \<Rightarrow> u32 \<Rightarrow> fs \<Rightarrow> (i32 \<times> fs) res) option"
  d_close :: "(nat \<Rightarrow> fs \<Rightarrow> (i32 \<times> fs) res) option"
  d_read :: "(nat \<Rightarrow> u32 \<Rightarrow> u32 \<Rightarrow> fs \<Rightarrow> ((u8 list \<times> u32) outcome \<times> fs) res) option"
  d_write :: "(nat \<Rightarrow> u8 list \<Rightarrow> u32 \<Rightarrow> fs \<Rightarrow> (u32 outcome \<times> fs) res) option"
  d_link :: "(nat \<Rightarrow> nat \<Rightarrow> string \<Rightarrow> fs \<Rightarrow> (i32 \<times> fs) res) option"
  d_unlink :: "(nat \<Rightarrow> string \<Rightarrow> fs \<Rightarrow> (i32 \<times> fs) res) option"
  d_stat :: "(nat \<Rightarrow> fs \<Rightarrow> (i32 \<times> u32 \<times> fs) res) option"
  d_isatty :: "(nat \<Rightarrow> fs \<Rightarrow> (i32 \<times> fs) res) option"
  d_mkdir :: "(nat \<Rightarrow> string \<Rightarrow> fs \<Rightarrow> (i32 \<times> fs) res) option"
  d_readdir :: "(nat \<Rightarrow> u32 \<Rightarrow> fs \<Rightarrow> (dirent option \<times> fs) res) option"
  d_finddir :: "(nat \<Rightarrow> string \<Rightarrow> fs \<Rightarrow> (nat option \<times> fs) res) option"
  d_flush :: "(nat \<Rightarrow> fs \<Rightarrow> fs res) option"

section \<open>Strings\<close>

text \<open>
  \<open>strtok\<close> over a whole string: the maximal runs of characters other than the delimiter.
\<close>

fun tokens_from :: "char \<Rightarrow> string \<Rightarrow> string \<Rightarrow> string list" where
  "tokens_from d acc [] = (if acc = [] then [] else [rev acc])"
| "tokens_from d acc (c # cs) =
     (if c = d then (if acc = [] then tokens_from d [] cs else rev acc # tokens_from d [] cs)
      else tokens_from d (c # acc) cs)"

definition strtok_all :: "char \<Rightarrow> string \<Rightarrow> string list" where
  "strtok_all d s = tokens_from d [] s"

text \<open>
  \<open>strsep(&p, "/")\<close>: the token up to the next delimiter, which may be empty, and the new value of
  \<open>p\<close>, null after the last token. The C library of the system returns null for an empty string.
\<close>

definition strsep :: "char \<Rightarrow> string option \<Rightarrow> (string \<times> string option) option" where
  "strsep d p = (case p of
     None \<Rightarrow> None
   | Some s \<Rightarrow>
       if s = [] then None
       else Some (takeWhile (\<lambda>c. c \<noteq> d) s,
              (case dropWhile (\<lambda>c. c \<noteq> d) s of [] \<Rightarrow> None | _ # r \<Rightarrow> Some r)))"

lemma strsep_decreases:
  "strsep d (Some s) = Some (tok, Some r) \<Longrightarrow> length r < length s"
  using length_dropWhile_le [of "\<lambda>c. c \<noteq> d" s]
  by (auto simp: strsep_def split: if_splits list.splits)

definition path_size :: "string option \<Rightarrow> nat" where
  "path_size p = (case p of None \<Rightarrow> 0 | Some s \<Rightarrow> Suc (length s))"

lemma strsep_size: "strsep d p = Some (tok, rest) \<Longrightarrow> path_size rest < path_size p"
  using strsep_decreases by (auto simp: path_size_def strsep_def split: option.splits)

lemma node_of_Some [simp]: "nodes s n = Some v \<Longrightarrow> node_of n s = Inr v"
  by (simp add: node_of_def)

lemma node_of_None [simp]: "nodes s n = None \<Longrightarrow> node_of n s = Inl BadPtr"
  by (simp add: node_of_def)

lemma node_of_eq [res]: "node_of n s = Inr v \<longleftrightarrow> nodes s n = Some v"
  by (simp add: node_of_def res)

lemma put_node_simps [simp]:
  "nodes (put_node n v s) = (nodes s)(n \<mapsto> v)" "vfs_root (put_node n v s) = vfs_root s"
  "pipes (put_node n v s) = pipes s" "tree (put_node n v s) = tree s"
  "tlinks (put_node n v s) = tlinks s" "ram (put_node n v s) = ram s"
  "next_ptr (put_node n v s) = next_ptr s" "fsched (put_node n v s) = fsched s"
  "errno (put_node n v s) = errno s" "cur_th (put_node n v s) = cur_th s"
  "serial (put_node n v s) = serial s"
  by (simp_all add: put_node_def)

end
