(* ===== verification/Tarfs.thy ===== *)
theory Tarfs imports FsState ListFamily begin

text \<open>
  The tar file system, \<^verbatim>\<open>kernel/fs/tarfs.c\<close> with the trees of \<^verbatim>\<open>kernel/include/trees.h\<close>. The
  archive lies in memory (\<open>ram\<close>). A tree node and the entry it points to are one object of the
  store \<open>tree\<close>; the lists of children are rings over the nodes \<open>Children\<close> and \<open>Siblings\<close>.
\<close>

section \<open>The archive\<close>

definition ascii :: "u8 \<Rightarrow> char" where
  "ascii b = char_of (unat b)"

definition bytes_at :: "(u32 \<Rightarrow> u8) \<Rightarrow> u32 \<Rightarrow> nat \<Rightarrow> u8 list" where
  "bytes_at m a n = map (\<lambda>i. m (a + of_nat i)) [0..<n]"

text \<open>A C string, read as far as one header block at most.\<close>

definition cstr :: "(u32 \<Rightarrow> u8) \<Rightarrow> u32 \<Rightarrow> string" where
  "cstr m a = map ascii (takeWhile (\<lambda>b. b \<noteq> 0) (bytes_at m a 512))"

text \<open>
  \<open>sscanf(field, "%o", &n)\<close>: white space, then octal digits; the value is cut off at the largest
  32-bit number; without a digit nothing is assigned.
\<close>

definition is_octal :: "u8 \<Rightarrow> bool" where
  "is_octal b \<longleftrightarrow> 48 \<le> b \<and> b \<le> 55"

definition octal :: "u8 list \<Rightarrow> u32 option" where
  "octal bs =
     (let ds = takeWhile is_octal (dropWhile (\<lambda>b. b = 32 \<or> (9 \<le> b \<and> b \<le> 13)) bs);
          v = foldl (\<lambda>n d. 8 * n + (unat d - 48)) 0 ds
      in if ds = [] then None else Some (if v < 2 ^ 32 then of_nat v else 0xFFFFFFFF))"

definition tar_name :: "fs \<Rightarrow> u32 \<Rightarrow> string" where
  "tar_name s t = cstr (ram s) t"

definition tar_size :: "fs \<Rightarrow> u32 \<Rightarrow> u32 option" where
  "tar_size s t = octal (bytes_at (ram s) (t + 124) 388)"

definition tar_type :: "fs \<Rightarrow> u32 \<Rightarrow> u8" where
  "tar_type s t = ram s (t + 156)"

definition TAR_TYPE_DIR :: u8 where "TAR_TYPE_DIR = 53"

section \<open>The tree\<close>

definition tree_of :: "nat \<Rightarrow> fs \<Rightarrow> tree_node res" where
  "tree_of n s = deref (tree s n)"

definition put_tree :: "nat \<Rightarrow> tree_node \<Rightarrow> fs \<Rightarrow> fs" where
  "put_tree n t s = s\<lparr>tree := (tree s)(n \<mapsto> t)\<rparr>"

text \<open>\<open>malloc\<close> of a node and its entry, and \<open>init_tree_node\<close>.\<close>

definition new_tree_node :: "string \<Rightarrow> u32 \<Rightarrow> fs \<Rightarrow> nat \<times> fs" where
  "new_tree_node nm t s =
     (let n = next_ptr s;
          s = s\<lparr>next_ptr := Suc n\<rparr>;
          s = s\<lparr>tlinks := init_list (tlinks s) (Children n)\<rparr>;
          s = s\<lparr>tlinks := init_list (tlinks s) (Siblings n)\<rparr>
      in (n, put_tree n \<lparr>item = \<lparr>ename = nm, tar = t, inode = None, eusers = 0\<rparr>, tparent = None\<rparr> s))"

definition tree_make_child :: "nat \<Rightarrow> nat \<Rightarrow> fs \<Rightarrow> fs res" where
  "tree_make_child par chl s =
     andthen (tree_of chl s) (\<lambda>c.
     let s = put_tree chl (c\<lparr>tparent := Some par\<rparr>) s
     in Inr (s\<lparr>tlinks := append_to_list (tlinks s) (Children par) (Siblings chl)\<rparr>))"

text \<open>\<open>list_entry(l, tree_node_t, siblings)\<close>.\<close>

fun tree_entry :: "tnode \<Rightarrow> nat res" where
  "tree_entry (Siblings n) = Inr n"
| "tree_entry (Children _) = Inl BadPtr"

fun first_named :: "string \<Rightarrow> tnode list \<Rightarrow> fs \<Rightarrow> nat option res" where
  "first_named nm [] s = Inr None"
| "first_named nm (l # ls) s =
     andthen (tree_entry l) (\<lambda>tn.
     andthen (tree_of tn s) (\<lambda>t.
     if ename (item t) = nm then Inr (Some tn) else first_named nm ls s))"

definition find_child :: "nat \<Rightarrow> string \<Rightarrow> fs \<Rightarrow> nat option res" where
  "find_child node nm s =
     andthen (items (tlinks s) (Children node)) (\<lambda>ls. first_named nm ls s)"

fun add_path :: "u32 \<Rightarrow> string list \<Rightarrow> nat \<Rightarrow> fs \<Rightarrow> fs res" where
  "add_path t [] node s = Inr s"
| "add_path t (p # ps) node s =
     andthen (find_child node p s) (\<lambda>f.
     case f of
       Some tn \<Rightarrow> add_path t ps tn s
     | None \<Rightarrow>
        (let (new, s) = new_tree_node p t s in
         andthen (tree_make_child node new s) (\<lambda>s. add_path t ps new s)))"

text \<open>
  \<open>strchr(path, '/')\<close> is null for a name without a slash; \<open>strtok\<close> then goes on with its previous
  string, which is used up, and gives no token.
\<close>

definition tartree_add_node :: "nat \<Rightarrow> u32 \<Rightarrow> string \<Rightarrow> fs \<Rightarrow> fs res" where
  "tartree_add_node root t path s =
     add_path t (strtok_all CHR ''/'' (dropWhile (\<lambda>c. c \<noteq> CHR ''/'') path)) root s"

definition next_header :: "u32 \<Rightarrow> u32 \<Rightarrow> u32" where
  "next_header t sz =
     (let t = t + sz + 512 in if t mod 512 \<noteq> 0 then t + 512 - t mod 512 else t)"

partial_function (option) add_headers :: "nat \<Rightarrow> u32 \<Rightarrow> fs \<Rightarrow> fs res option" where
  "add_headers root t s =
     (if ram s t = 0 then Some (Inr s)
      else case tartree_add_node root t (tar_name s t) s of
             Inl e \<Rightarrow> Some (Inl e)
           | Inr s \<Rightarrow>
              (case tar_size s t of
                 None \<Rightarrow> Some (Inl BadPtr)
               | Some sz \<Rightarrow> add_headers root (next_header t sz) s))"

declare add_headers.simps [code]

definition build_tar_tree :: "u32 \<Rightarrow> nat \<Rightarrow> fs \<Rightarrow> (nat \<times> fs) res" where
  "build_tar_tree t node s =
     (case strtok_all CHR ''/'' (tar_name s t) of
        [] \<Rightarrow> Inl BadPtr
      | nm # _ \<Rightarrow>
         (let (root, s) = new_tree_node nm t s in
          andthen (tree_of root s) (\<lambda>tn.
          let s = put_tree root (tn\<lparr>item := (item tn)\<lparr>inode := Some node, eusers := 1\<rparr>\<rparr>) s in
          andthen (case add_headers root t s of None \<Rightarrow> Inl Hang | Some r \<Rightarrow> r) (\<lambda>s.
          Inr (root, s)))))"

section \<open>Nodes of the file system\<close>

definition tar_get_inode :: "nat \<Rightarrow> fs \<Rightarrow> (nat \<times> fs) res" where
  "tar_get_inode tn s =
     andthen (tree_of tn s) (\<lambda>t.
     let entry = item t in
     case inode entry of
       Some b \<Rightarrow> Inr (b, put_tree tn (t\<lparr>item := entry\<lparr>eusers := eusers entry + 1\<rparr>\<rparr>) s)
     | None \<Rightarrow>
        (let v = new_node\<lparr>name := ename entry, drv := Some TarfsDriver, data := Some tn,
                   flen := (case tar_size s (tar entry) of None \<Rightarrow> 0 | Some l \<Rightarrow> l),
                   type := (if tar_type s (tar entry) = TAR_TYPE_DIR then FS_DIRECTORY else FS_FILE)\<rparr>;
             (node, s) = alloc_node v s
         in Inr (node, put_tree tn (t\<lparr>item := entry\<lparr>inode := Some node, eusers := 1\<rparr>\<rparr>) s)))"

text \<open>The tree node behind a node's \<open>data\<close> pointer.\<close>

definition tree_data :: "nat \<Rightarrow> fs \<Rightarrow> nat res" where
  "tree_data node s = andthen (node_of node s) (\<lambda>v. deref (data v))"

definition flush_tar :: "nat \<Rightarrow> fs \<Rightarrow> fs res" where
  "flush_tar node s =
     andthen (tree_data node s) (\<lambda>tn.
     andthen (tree_of tn s) (\<lambda>t.
     let entry = item t; u = eusers entry - 1 in
     if u = 0
     then andthen (case inode entry of None \<Rightarrow> Inr s | Some b \<Rightarrow> free_node b s) (\<lambda>s.
          Inr (put_tree tn (t\<lparr>item := entry\<lparr>inode := None, eusers := u\<rparr>\<rparr>) s))
     else Inr (put_tree tn (t\<lparr>item := entry\<lparr>eusers := u\<rparr>\<rparr>) s)))"

text \<open>
  The end-of-file byte is stored when \<open>size == tsz - offset\<close>, where \<open>offset\<close> is by then an address.
\<close>

definition read_tar :: "nat \<Rightarrow> u32 \<Rightarrow> u32 \<Rightarrow> fs \<Rightarrow> ((u8 list \<times> u32) outcome \<times> fs) res" where
  "read_tar node sz offset s =
     andthen (tree_data node s) (\<lambda>tn.
     andthen (tree_of tn s) (\<lambda>te.
     let t = tar (item te) in
     case tar_size s t of
       None \<Rightarrow> Inl BadPtr
     | Some tsz \<Rightarrow>
        if offset > tsz then Inr (Returns ([], 0), s)
        else
         (let sz = (if sz + offset > tsz then tsz - offset else sz);
              offset = offset + t + 512;
              bs = bytes_at (ram s) offset (unat sz);
              bs = (if sz = tsz - offset then bs @ [EOF_byte] else bs)
          in Inr (Returns (bs, sz), s))))"

definition write_tar :: "nat \<Rightarrow> u8 list \<Rightarrow> u32 \<Rightarrow> fs \<Rightarrow> (u32 outcome \<times> fs) res" where
  "write_tar node buf offset s = Inr (Returns 0, s)"

definition open_tar :: "nat \<Rightarrow> u32 \<Rightarrow> fs \<Rightarrow> (i32 \<times> fs) res" where
  "open_tar node fl s = Inr (0, s)"

definition close_tar :: "nat \<Rightarrow> fs \<Rightarrow> (i32 \<times> fs) res" where
  "close_tar node s = Inr (0, s)"

fun count_down :: "u32 \<Rightarrow> tnode list \<Rightarrow> u32 \<times> tnode option" where
  "count_down i [] = (i, None)"
| "count_down i (l # ls) = (if i - 1 = 0 then (0, Some l) else count_down (i - 1) ls)"

definition tar_readdir :: "nat \<Rightarrow> u32 \<Rightarrow> fs \<Rightarrow> (dirent option \<times> fs) res" where
  "tar_readdir node index s =
     andthen (tree_data node s) (\<lambda>tn.
     if index = 0
     then andthen (tar_get_inode tn s) (\<lambda>(i, s). Inr (Some \<lparr>dino = i, dname = ''.''\<rparr>, s))
     else if index = 1
     then andthen (tree_of tn s) (\<lambda>t.
          andthen (deref (tparent t)) (\<lambda>p.
          andthen (tar_get_inode p s) (\<lambda>(i, s). Inr (Some \<lparr>dino = i, dname = ''..''\<rparr>, s))))
     else
      andthen (items (tlinks s) (Children tn)) (\<lambda>ls.
      case count_down (index - 1) ls of
        (_, None) \<Rightarrow> Inr (None, s)
      | (_, Some l) \<Rightarrow>
          andthen (tree_entry l) (\<lambda>cn.
          andthen (tree_of cn s) (\<lambda>c.
          andthen (tar_get_inode cn s) (\<lambda>(i, s).
          Inr (Some \<lparr>dino = i, dname = ename (item c)\<rparr>, s))))))"

definition tar_finddir :: "nat \<Rightarrow> string \<Rightarrow> fs \<Rightarrow> (nat option \<times> fs) res" where
  "tar_finddir dir nm s =
     andthen (tree_data dir s) (\<lambda>tn.
     if nm = ''.'' then andthen (tar_get_inode tn s) (\<lambda>(i, s). Inr (Some i, s))
     else if nm = ''..''
     then andthen (tree_of tn s) (\<lambda>t.
          andthen (deref (tparent t)) (\<lambda>p.
          andthen (tar_get_inode p s) (\<lambda>(i, s). Inr (Some i, s))))
     else
      andthen (find_child tn nm s) (\<lambda>f.
      case f of
        None \<Rightarrow> Inr (None, s)
      | Some cn \<Rightarrow> andthen (tar_get_inode cn s) (\<lambda>(i, s). Inr (Some i, s))))"

definition tarfs_driver :: vfs_driver where
  "tarfs_driver = \<lparr>d_open = Some open_tar, d_close = Some close_tar, d_read = Some read_tar,
     d_write = Some write_tar, d_link = None, d_unlink = None, d_stat = None, d_isatty = None,
     d_mkdir = None, d_readdir = Some tar_readdir, d_finddir = Some tar_finddir,
     d_flush = Some flush_tar\<rparr>"

definition tarfs_init :: "u32 \<Rightarrow> fs \<Rightarrow> (nat \<times> fs) res" where
  "tarfs_init t s =
     (let (node, s) = alloc_node (new_node\<lparr>name := ''tarfs'', drv := Some TarfsDriver,
                        type := FS_DIRECTORY\<rparr>) s in
      andthen (build_tar_tree t node s) (\<lambda>(root, s).
      andthen (upd_node node (\<lambda>v. v\<lparr>data := Some root\<rparr>) s) (\<lambda>s.
      Inr (node, s))))"

end
