(* ===== verification/Vfs.thy ===== *)
theory Vfs imports Tarfs begin

text \<open>
  The virtual file system, \<^verbatim>\<open>kernel/fs/vfs.c\<close>, with the pipe and debug devices'
  driver tables (\<^verbatim>\<open>kernel/fs/pipes.c\<close>, \<^verbatim>\<open>kernel/fs/debug_dev.c\<close>). Calls through a node's driver are
  dispatched by \<open>driver_of\<close>; a node without a driver is a null pointer. The mount tree is a tree of
  nodes with \<open>child\<close> and \<open>older\<close> pointers, and the loops over siblings follow \<open>older\<close> until null.
\<close>

section \<open>Pipe and debug device\<close>

definition S_IFCHR :: u32 where "S_IFCHR = 0x2000"

definition pipe_of :: "nat \<Rightarrow> fs \<Rightarrow> (nat \<times> vfs_pipe) res" where
  "pipe_of node s =
     andthen (node_of node s) (\<lambda>v.
     andthen (deref (data v)) (\<lambda>n. andthen (deref (pipes s n)) (\<lambda>p. Inr (n, p))))"

definition put_pipe :: "nat \<Rightarrow> vfs_pipe \<Rightarrow> fs \<Rightarrow> fs" where
  "put_pipe n p s = s\<lparr>pipes := (pipes s)(n \<mapsto> p)\<rparr>"

definition open_pipe :: "nat \<Rightarrow> u32 \<Rightarrow> fs \<Rightarrow> (i32 \<times> fs) res" where
  "open_pipe node fl s =
     andthen (node_of node s) (\<lambda>v.
     andthen (pipe_of node s) (\<lambda>(n, p). Inr (0, put_pipe n (pipe_open (flags v) p) s)))"

definition close_pipe :: "nat \<Rightarrow> fs \<Rightarrow> (i32 \<times> fs) res" where
  "close_pipe node s =
     andthen (node_of node s) (\<lambda>v.
     andthen (pipe_of node s) (\<lambda>(n, p). Inr (0, put_pipe n (pipe_close (flags v) p) s)))"

definition read_pipe :: "nat \<Rightarrow> u32 \<Rightarrow> u32 \<Rightarrow> fs \<Rightarrow> ((u8 list \<times> u32) outcome \<times> fs) res" where
  "read_pipe node sz offset s =
     andthen (pipe_of node s) (\<lambda>(n, p).
     andthen (pipe_read (cur_th s) n sz p (fsched s)) (\<lambda>(r, p, sch).
     let s = put_pipe n p (s\<lparr>fsched := sch\<rparr>) in
     Inr (case r of Inl bs \<Rightarrow> Returns (bs, of_nat (length bs)) | Inr _ \<Rightarrow> Sleeps [], s)))"

text \<open>
  A write goes on after a sleep with the bytes that are left; \<open>written\<close> bytes of the call's buffer are in the pipe by then.
  The call returns the number of all the bytes it has written.
\<close>

definition write_pipe_from :: "u32 \<Rightarrow> nat \<Rightarrow> u8 list \<Rightarrow> u32 \<Rightarrow> fs \<Rightarrow> (u32 outcome \<times> fs) res" where
  "write_pipe_from written node rest offset s =
     andthen (pipe_of node s) (\<lambda>(n, p).
     andthen (pipe_write (cur_th s) n rest p (fsched s)) (\<lambda>(r, p, sch).
     let s = put_pipe n p (s\<lparr>fsched := sch\<rparr>) in
     Inr (case r of Inl _ \<Rightarrow> Returns (written + of_nat (length rest)) | Inr rest \<Rightarrow> Sleeps rest, s)))"

definition write_pipe :: "nat \<Rightarrow> u8 list \<Rightarrow> u32 \<Rightarrow> fs \<Rightarrow> (u32 outcome \<times> fs) res" where
  "write_pipe node buf offset s = write_pipe_from 0 node buf offset s"

definition stat_pipe :: "nat \<Rightarrow> fs \<Rightarrow> (i32 \<times> u32 \<times> fs) res" where
  "stat_pipe node s = Inr (0, S_IFCHR, s)"

definition isatty_pipe :: "nat \<Rightarrow> fs \<Rightarrow> (i32 \<times> fs) res" where
  "isatty_pipe node s = Inr (pipe_isatty, s)"

definition pipe_driver :: vfs_driver where
  "pipe_driver = \<lparr>d_open = Some open_pipe, d_close = Some close_pipe, d_read = Some read_pipe,
     d_write = Some write_pipe, d_link = None, d_unlink = None, d_stat = Some stat_pipe,
     d_isatty = Some isatty_pipe, d_mkdir = None, d_readdir = None, d_finddir = None,
     d_flush = None\<rparr>"

text \<open>\<open>new_pipe\<close> of \<^verbatim>\<open>kernel/fs/pipes.c\<close>: the pipe and its two nodes.\<close>

definition make_pipe :: "u32 \<Rightarrow> u8 list \<Rightarrow> fs \<Rightarrow> nat \<times> nat \<times> fs" where
  "make_pipe sz junk s =
     (let n = next_ptr s;
          s = put_pipe n (new_pipe sz junk) (s\<lparr>next_ptr := Suc n\<rparr>);
          s = s\<lparr>fsched := (fsched s)\<lparr>tasks := init_list (tasks (fsched s)) (PipeWaiting n)\<rparr>\<rparr>;
          v = new_node\<lparr>name := ''[pipe]'', drv := Some PipeDriver, type := FS_PIPE, data := Some n\<rparr>;
          (r, s) = alloc_node (v\<lparr>flags := PIPE_READ\<rparr>) s;
          (w, s) = alloc_node (v\<lparr>flags := PIPE_WRITE\<rparr>) s
      in (r, w, s))"

definition debug_open :: "nat \<Rightarrow> u32 \<Rightarrow> fs \<Rightarrow> (i32 \<times> fs) res" where
  "debug_open node mode s = Inr (0, s)"

definition debug_close :: "nat \<Rightarrow> fs \<Rightarrow> (i32 \<times> fs) res" where
  "debug_close node s = Inr (0, s)"

text \<open>The buffer is copied behind a terminating 0 and printed as a string on the serial line.\<close>

definition debug_write :: "nat \<Rightarrow> u8 list \<Rightarrow> u32 \<Rightarrow> fs \<Rightarrow> (u32 outcome \<times> fs) res" where
  "debug_write node buf offset s =
     Inr (Returns (of_nat (length buf)), s\<lparr>serial := serial s @ takeWhile (\<lambda>b. b \<noteq> 0) buf\<rparr>)"

definition debug_stat :: "nat \<Rightarrow> fs \<Rightarrow> (i32 \<times> u32 \<times> fs) res" where
  "debug_stat node s = Inr (0, S_IFCHR, s)"

definition debug_isatty :: "nat \<Rightarrow> fs \<Rightarrow> (i32 \<times> fs) res" where
  "debug_isatty node s = Inr (1, s)"

definition debug_driver :: vfs_driver where
  "debug_driver = \<lparr>d_open = Some debug_open, d_close = Some debug_close, d_read = None,
     d_write = Some debug_write, d_link = None, d_unlink = None, d_stat = Some debug_stat,
     d_isatty = Some debug_isatty, d_mkdir = None, d_readdir = None, d_finddir = None,
     d_flush = None\<rparr>"

definition debug_dev_init :: "fs \<Rightarrow> nat \<times> fs" where
  "debug_dev_init s =
     alloc_node (new_node\<lparr>name := ''debug'', drv := Some DebugDriver, type := FS_CHARDEV\<rparr>) s"

fun driver_of :: "driver \<Rightarrow> vfs_driver" where
  "driver_of TarfsDriver = tarfs_driver"
| "driver_of PipeDriver = pipe_driver"
| "driver_of DebugDriver = debug_driver"

definition driver_at :: "nat \<Rightarrow> fs \<Rightarrow> vfs_driver res" where
  "driver_at n s = andthen (node_of n s) (\<lambda>v. andthen (deref (drv v)) (\<lambda>d. Inr (driver_of d)))"

section \<open>Calls through the driver\<close>

definition vfs_init :: "fs \<Rightarrow> fs" where
  "vfs_init s =
     (let (r, s) = alloc_node new_node s
      in put_node r (new_node\<lparr>parent := Some r, name := ''/''\<rparr>) (s\<lparr>vfs_root := Some r\<rparr>))"

definition vfs_free :: "nat \<Rightarrow> fs \<Rightarrow> fs res" where
  "vfs_free ino s =
     andthen (node_of ino s) (\<lambda>v.
     if in_vfs_tree v then Inr s
     else if users v > 0 then Inr s
     else case drv v of
            None \<Rightarrow> free_node ino s
          | Some d \<Rightarrow> (case d_flush (driver_of d) of
                         Some flush \<Rightarrow> flush ino s
                       | None \<Rightarrow> free_node ino s))"

definition vfs_open :: "nat \<Rightarrow> u32 \<Rightarrow> fs \<Rightarrow> (i32 \<times> fs) res" where
  "vfs_open ino mode s =
     andthen (upd_node ino (\<lambda>v. v\<lparr>users := users v + 1\<rparr>) s) (\<lambda>s.
     andthen (driver_at ino s) (\<lambda>d.
     case d_open d of Some f \<Rightarrow> f ino mode s | None \<Rightarrow> Inr (-1, set_errno EACCES s)))"

definition vfs_close :: "nat \<Rightarrow> fs \<Rightarrow> (i32 \<times> fs) res" where
  "vfs_close ino s =
     andthen (upd_node ino (\<lambda>v. v\<lparr>users := users v - 1\<rparr>) s) (\<lambda>s.
     andthen (driver_at ino s) (\<lambda>d.
     case d_close d of Some f \<Rightarrow> f ino s | None \<Rightarrow> Inr (-1, set_errno EBADF s)))"

definition vfs_read :: "nat \<Rightarrow> u32 \<Rightarrow> u32 \<Rightarrow> fs \<Rightarrow> ((u8 list \<times> u32) outcome \<times> fs) res" where
  "vfs_read ino len offset s =
     andthen (driver_at ino s) (\<lambda>d.
     case d_read d of Some f \<Rightarrow> f ino len offset s | None \<Rightarrow> Inr (Returns ([], 0), s))"

definition vfs_write :: "nat \<Rightarrow> u8 list \<Rightarrow> u32 \<Rightarrow> fs \<Rightarrow> (u32 outcome \<times> fs) res" where
  "vfs_write ino buf offset s =
     andthen (driver_at ino s) (\<lambda>d.
     case d_write d of Some f \<Rightarrow> f ino buf offset s | None \<Rightarrow> Inr (Returns 0, s))"

definition vfs_link :: "nat \<Rightarrow> nat \<Rightarrow> string \<Rightarrow> fs \<Rightarrow> (i32 \<times> fs) res" where
  "vfs_link ino par nm s =
     andthen (driver_at ino s) (\<lambda>d.
     case d_link d of Some f \<Rightarrow> f ino par nm s | None \<Rightarrow> Inr (-1, set_errno EACCES s))"

definition vfs_unlink :: "nat \<Rightarrow> string \<Rightarrow> fs \<Rightarrow> (i32 \<times> fs) res" where
  "vfs_unlink ino nm s =
     andthen (driver_at ino s) (\<lambda>d.
     case d_unlink d of Some f \<Rightarrow> f ino nm s | None \<Rightarrow> Inr (-1, set_errno EACCES s))"

definition vfs_stat :: "nat \<Rightarrow> fs \<Rightarrow> (i32 \<times> u32 option \<times> fs) res" where
  "vfs_stat ino s =
     andthen (driver_at ino s) (\<lambda>d.
     case d_stat d of
       Some f \<Rightarrow> andthen (f ino s) (\<lambda>(r, mode, s). Inr (r, Some mode, s))
     | None \<Rightarrow> Inr (-1, None, set_errno EBADF s))"

definition vfs_isatty :: "nat \<Rightarrow> fs \<Rightarrow> (i32 \<times> fs) res" where
  "vfs_isatty ino s =
     andthen (driver_at ino s) (\<lambda>d.
     case d_isatty d of Some f \<Rightarrow> f ino s | None \<Rightarrow> Inr (0, s))"

definition vfs_mkdir :: "nat \<Rightarrow> string \<Rightarrow> fs \<Rightarrow> (i32 \<times> fs) res" where
  "vfs_mkdir ino nm s =
     andthen (driver_at ino s) (\<lambda>d.
     case d_mkdir d of Some f \<Rightarrow> f ino nm s | None \<Rightarrow> Inr (-1, set_errno EACCES s))"

section \<open>Directories\<close>

text \<open>
  The loops \<open>while(n) { if(match) ...; n = n->older; }\<close>: the first node of the chain with the
  name. \<open>None\<close> is a chain without end.
\<close>

partial_function (option) search_older :: "string \<Rightarrow> nat option \<Rightarrow> fs \<Rightarrow> nat option res option" where
  "search_older nm n s =
     (case n of
        None \<Rightarrow> Some (Inr None)
      | Some m \<Rightarrow>
         (case node_of m s of
            Inl e \<Rightarrow> Some (Inl e)
          | Inr v \<Rightarrow> if name v = nm then Some (Inr (Some m)) else search_older nm (older v) s))"

declare search_older.simps [code]

definition named_child :: "nat \<Rightarrow> string \<Rightarrow> fs \<Rightarrow> nat option res" where
  "named_child n nm s =
     andthen (node_of n s) (\<lambda>v.
     case search_older nm (child v) s of None \<Rightarrow> Inl Hang | Some r \<Rightarrow> r)"

definition vfs_readdir :: "nat \<Rightarrow> u32 \<Rightarrow> fs \<Rightarrow> (dirent option \<times> fs) res" where
  "vfs_readdir ino num s =
     andthen (node_of ino s) (\<lambda>v.
     if \<not> is_dir v then Inr (None, s)
     else if in_vfs_tree v \<and> num = 0 then Inr (Some \<lparr>dino = ino, dname = ''.''\<rparr>, s)
     else if in_vfs_tree v \<and> num = 1
     then andthen (deref (parent v)) (\<lambda>p. Inr (Some \<lparr>dino = p, dname = ''..''\<rparr>, s))
     else
      andthen (driver_at ino s) (\<lambda>d.
      andthen (case d_readdir d of Some f \<Rightarrow> f ino num s | None \<Rightarrow> Inr (None, s)) (\<lambda>(de, s).
      case de of
        None \<Rightarrow> Inr (None, s)
      | Some e \<Rightarrow>
          if in_vfs_tree v
          then andthen (named_child ino (dname e) s) (\<lambda>f.
               case f of
                 None \<Rightarrow> Inr (Some e, s)
               | Some n \<Rightarrow> andthen (vfs_free (dino e) s) (\<lambda>s. Inr (Some (e\<lparr>dino := n\<rparr>), s)))
          else Inr (Some e, s))))"

text \<open>
  In the fallback for drivers that can only list, the first entry that does not match is freed with
  \<open>free(de->name)\<close>, which is not the start of an allocation.
\<close>

definition vfs_finddir :: "nat \<Rightarrow> string \<Rightarrow> fs \<Rightarrow> (nat option \<times> fs) res" where
  "vfs_finddir ino nm s =
     andthen (node_of ino s) (\<lambda>v.
     if \<not> is_dir v then Inr (None, s)
     else if in_vfs_tree v \<and> nm = ''.'' then Inr (Some ino, s)
     else if in_vfs_tree v \<and> nm = ''..'' then Inr (parent v, s)
     else
      andthen (if in_vfs_tree v then named_child ino nm s else Inr None) (\<lambda>f.
      case f of
        Some n \<Rightarrow> Inr (Some n, s)
      | None \<Rightarrow>
          andthen (driver_at ino s) (\<lambda>d.
          case d_finddir d of
            Some g \<Rightarrow> g ino nm s
          | None \<Rightarrow>
             (case d_readdir d of
                None \<Rightarrow> Inr (None, s)
              | Some _ \<Rightarrow>
                  andthen (vfs_readdir ino 0 s) (\<lambda>(de, s).
                  case de of None \<Rightarrow> Inr (None, s) | Some _ \<Rightarrow> Inl BadPtr)))))"

section \<open>Paths\<close>

text \<open>
  \<open>vfs_find_root\<close>: follow the path in the mount tree as far as it goes. When a component is not
  found, the delimiter that \<open>strsep\<close> overwrote is put back. The result is the node and what is
  left of the path.
\<close>

function find_root_from :: "nat \<Rightarrow> string option \<Rightarrow> fs \<Rightarrow> (nat \<times> string option) res" where
  "find_root_from current path s =
     (case strsep CHR ''/'' path of
        None \<Rightarrow> Inr (current, None)
      | Some (nm, rest) \<Rightarrow>
          andthen (named_child current nm s) (\<lambda>f.
          case f of
            Some n \<Rightarrow> find_root_from n rest s
          | None \<Rightarrow> Inr (current, Some (nm @ (case rest of None \<Rightarrow> [] | Some r \<Rightarrow> CHR ''/'' # r)))))"
  by pat_completeness auto
termination
  by (relation "measure (\<lambda>(_, p, _). path_size p)") (auto dest: strsep_size)

definition vfs_find_root :: "string option \<Rightarrow> fs \<Rightarrow> (nat \<times> string option) res" where
  "vfs_find_root path s = andthen (deref (vfs_root s)) (\<lambda>r. find_root_from r path s)"

text \<open>
  The walk of \<open>vfs_namei_mount\<close> over the rest of the path; with \<open>mounting\<close> the nodes found are
  entered in the mount tree. The parent is freed if it is not in the tree and not open.
\<close>

definition enter_tree :: "nat \<Rightarrow> nat \<Rightarrow> fs \<Rightarrow> fs res" where
  "enter_tree current nxt_node s =
     andthen (upd_node nxt_node (\<lambda>v. v\<lparr>parent := Some current\<rparr>) s) (\<lambda>s.
     andthen (node_of current s) (\<lambda>c.
     andthen (upd_node nxt_node (\<lambda>v. v\<lparr>older := child c\<rparr>) s) (\<lambda>s.
     upd_node current (\<lambda>v. v\<lparr>child := Some nxt_node\<rparr>) s)))"

function walk_path :: "bool \<Rightarrow> nat \<Rightarrow> string option \<Rightarrow> fs \<Rightarrow> (nat option \<times> fs) res" where
  "walk_path mounting current path s =
     (case strsep CHR ''/'' path of
        None \<Rightarrow> Inr (Some current, s)
      | Some (nm, rest) \<Rightarrow>
          andthen (vfs_finddir current nm s) (\<lambda>(f, s).
          case f of
            None \<Rightarrow> andthen (vfs_free current s) (\<lambda>s. Inr (None, s))
          | Some n \<Rightarrow>
             andthen (if mounting then enter_tree current n s else Inr s) (\<lambda>s.
             andthen (vfs_free current s) (\<lambda>s. walk_path mounting n rest s))))"
  by pat_completeness auto
termination
  by (relation "measure (\<lambda>(_, _, p, _). path_size p)") (auto dest: strsep_size)

text \<open>Replacing the node \<open>current\<close> by \<open>root\<close> in the mount tree.\<close>

definition replace_node :: "nat \<Rightarrow> nat \<Rightarrow> fs \<Rightarrow> (nat \<times> fs) res" where
  "replace_node current root s =
     andthen (node_of current s) (\<lambda>c.
     andthen (upd_node root (\<lambda>v. v\<lparr>parent := parent c\<rparr>) s) (\<lambda>s.
     andthen (upd_node current (\<lambda>v. v\<lparr>parent := None\<rparr>) s) (\<lambda>s.
     andthen (node_of root s) (\<lambda>r.
     andthen (deref (parent r)) (\<lambda>par.
     andthen (node_of par s) (\<lambda>pv.
     andthen (if child pv = Some current then upd_node par (\<lambda>v. v\<lparr>child := Some root\<rparr>) s else Inr s) (\<lambda>s.
     andthen (node_of current s) (\<lambda>c.
     andthen (upd_node root (\<lambda>v. v\<lparr>older := older c\<rparr>) s) (\<lambda>s.
     andthen (case older c of None \<Rightarrow> Inr s
              | Some o' \<Rightarrow> upd_node o' (\<lambda>v. v\<lparr>younger := Some current\<rparr>) s) (\<lambda>s.
     andthen (node_of current s) (\<lambda>c.
     andthen (upd_node root (\<lambda>v. v\<lparr>younger := younger c\<rparr>) s) (\<lambda>s.
     andthen (case younger c of None \<Rightarrow> Inr s
              | Some y \<Rightarrow> upd_node y (\<lambda>v. v\<lparr>older := Some current\<rparr>) s) (\<lambda>s.
     andthen (upd_node root (\<lambda>v. v\<lparr>name := name c, type := type v OR FS_MOUNT\<rparr>) s) (\<lambda>s.
     let s = (if vfs_root s = Some current then s\<lparr>vfs_root := Some root\<rparr> else s) in
     andthen (vfs_free current s) (\<lambda>s.
     andthen (vfs_free root s) (\<lambda>s.
     Inr (root, s)))))))))))))))))"

definition vfs_namei_mount :: "string \<Rightarrow> nat option \<Rightarrow> fs \<Rightarrow> (nat option \<times> fs) res" where
  "vfs_namei_mount path root s =
     andthen (vfs_find_root (Some (drop 1 path)) s) (\<lambda>(current, pth).
     andthen (walk_path (root \<noteq> None) current pth s) (\<lambda>(f, s).
     case (f, root) of
       (None, _) \<Rightarrow> Inr (None, s)
     | (Some current, None) \<Rightarrow> Inr (Some current, s)
     | (Some current, Some r) \<Rightarrow>
         andthen (replace_node current r s) (\<lambda>(n, s). Inr (Some n, s))))"

definition vfs_namei :: "string \<Rightarrow> fs \<Rightarrow> (nat option \<times> fs) res" where
  "vfs_namei path s = vfs_namei_mount path None s"

definition vfs_mount :: "string \<Rightarrow> nat \<Rightarrow> fs \<Rightarrow> (nat option \<times> fs) res" where
  "vfs_mount path root s = andthen (node_of root s) (\<lambda>_. vfs_namei_mount path (Some root) s)"

definition vfs_umount :: "string \<Rightarrow> fs \<Rightarrow> (nat option \<times> fs) res" where
  "vfs_umount path s =
     andthen (vfs_find_root (Some (drop 1 path)) s) (\<lambda>(ino, pth).
     if pth \<noteq> None then Inr (None, s)
     else
      andthen (node_of ino s) (\<lambda>v.
      if child v \<noteq> None then Inr (None, s)
      else
       andthen (deref (parent v)) (\<lambda>par.
       andthen (node_of par s) (\<lambda>pv.
       andthen (if child pv = Some ino then upd_node par (\<lambda>p. p\<lparr>child := older v\<rparr>) s else Inr s) (\<lambda>s.
       andthen (case younger v of None \<Rightarrow> Inr s | Some y \<Rightarrow> upd_node y (\<lambda>n. n\<lparr>older := older v\<rparr>) s) (\<lambda>s.
       andthen (case older v of None \<Rightarrow> Inr s | Some o' \<Rightarrow> upd_node o' (\<lambda>n. n\<lparr>younger := younger v\<rparr>) s) (\<lambda>s.
       Inr (Some ino, s))))))))"

text \<open>
  \<open>vfs_print_tree\<close>: the lines it prints, each a depth and a name. \<open>None\<close> is a tree without end.
\<close>

partial_function (option) print_tree_rec :: "nat option \<Rightarrow> nat \<Rightarrow> bool \<Rightarrow> fs \<Rightarrow> (nat \<times> string) list res option" where
  "print_tree_rec n level siblings s =
     (case n of
        None \<Rightarrow> Some (Inr [])
      | Some m \<Rightarrow>
         (case node_of m s of
            Inl e \<Rightarrow> Some (Inl e)
          | Inr v \<Rightarrow>
             Option.bind (print_tree_rec (child v) (Suc level) True s) (\<lambda>r.
             case r of
               Inl e \<Rightarrow> Some (Inl e)
             | Inr below \<Rightarrow>
                if siblings
                then Option.bind (print_tree_rec (older v) level True s) (\<lambda>r'.
                     case r' of
                       Inl e \<Rightarrow> Some (Inl e)
                     | Inr rest \<Rightarrow> Some (Inr ((level, name v) # below @ rest)))
                else Some (Inr ((level, name v) # below)))))"

declare print_tree_rec.simps [code]

definition vfs_print_tree :: "fs \<Rightarrow> (nat \<times> string) list res" where
  "vfs_print_tree s =
     (case print_tree_rec (vfs_root s) 0 False s of None \<Rightarrow> Inl Hang | Some r \<Rightarrow> r)"

end
