(* ===== verification/PathNames.thy ===== *)
theory PathNames imports FsState begin

text \<open>
  \<open>canonicalize_path\<close> of \<^verbatim>\<open>kernel/fs/vfs.c\<close>: the path is cut into components, which are pushed onto
  a stack; \<open>".."\<close> pops one, and popping the empty stack is an access through null. The stack is a
  list with its top in front. The text the code builds is the model's result; it is
  built in a buffer of \<open>strlen(path) + 1\<close> bytes, and \<open>canonicalize_overruns\<close> says when it does
  not fit.
\<close>

section \<open>Definitions\<close>

fun push_components :: "string list \<Rightarrow> string list \<Rightarrow> string list res" where
  "push_components [] j = Inr j"
| "push_components (p # ps) j =
     (if p = ''.'' then push_components ps j
      else if p = ''..''
      then (case j of [] \<Rightarrow> Inl BadPtr | _ # below \<Rightarrow> push_components ps below)
      else push_components ps (p # j))"

text \<open>The stack turned around, then popped into the new path.\<close>

fun turn_around :: "string list \<Rightarrow> string list \<Rightarrow> string list" where
  "turn_around [] k = k"
| "turn_around (n # j) k = turn_around j (n # k)"

fun join_components :: "string list \<Rightarrow> string" where
  "join_components [] = []"
| "join_components (n # k) = ''/'' @ n @ join_components k"

definition full_path :: "string \<Rightarrow> string option \<Rightarrow> string" where
  "full_path path prefix =
     (case prefix of
        Some p \<Rightarrow> if path = [] \<or> hd path \<noteq> CHR ''/'' then p @ ''/'' @ path else path
      | None \<Rightarrow> path)"

definition canonicalize_path :: "string \<Rightarrow> string option \<Rightarrow> string res" where
  "canonicalize_path path prefix =
     andthen (push_components (strtok_all CHR ''/'' (full_path path prefix)) []) (\<lambda>j.
     let k = turn_around j [] in
     Inr (if k = [] then ''/'' else join_components k))"

definition canonicalize_overruns :: "string \<Rightarrow> string option \<Rightarrow> bool" where
  "canonicalize_overruns path prefix =
     (case canonicalize_path path prefix of Inl _ \<Rightarrow> False | Inr r \<Rightarrow> length r > length path)"

section \<open>Components of a text\<close>

definition component :: "string \<Rightarrow> bool" where
  "component c \<longleftrightarrow> c \<noteq> [] \<and> CHR ''/'' \<notin> set c"

definition proper :: "string \<Rightarrow> bool" where
  "proper c \<longleftrightarrow> component c \<and> c \<noteq> ''.'' \<and> c \<noteq> ''..''"

lemma tokens_from_components:
  "CHR ''/'' \<notin> set acc \<Longrightarrow> c \<in> set (tokens_from CHR ''/'' acc s) \<Longrightarrow> component c"
  by (induction "CHR ''/''" acc s rule: tokens_from.induct) (auto simp: component_def split: if_splits)

lemma strtok_components: "c \<in> set (strtok_all CHR ''/'' s) \<Longrightarrow> component c"
  using tokens_from_components [of "[]"] by (simp add: strtok_all_def)

lemma tokens_from_append:
  "CHR ''/'' \<notin> set c \<Longrightarrow> tokens_from CHR ''/'' acc (c @ r) = tokens_from CHR ''/'' (rev c @ acc) r"
  by (induction c arbitrary: acc) auto

lemma tokens_join:
  "\<forall>c\<in>set cs. component c \<Longrightarrow>
     tokens_from CHR ''/'' acc (join_components cs) = (if acc = [] then cs else rev acc # cs)"
proof (induction cs arbitrary: acc)
  case (Cons c cs)
  then show ?case by (auto simp: tokens_from_append component_def)
qed simp

lemma strtok_join: "\<forall>c\<in>set cs. component c \<Longrightarrow> strtok_all CHR ''/'' (join_components cs) = cs"
  by (simp add: strtok_all_def tokens_join)

lemma tokens_length: "length (join_components (tokens_from CHR ''/'' acc s)) \<le> Suc (length acc + length s)"
  by (induction "CHR ''/''" acc s rule: tokens_from.induct) auto

lemma strtok_length:
  "s \<noteq> [] \<Longrightarrow> hd s = CHR ''/'' \<Longrightarrow> length (join_components (strtok_all CHR ''/'' s)) \<le> length s"
  using tokens_length [of "[]" "tl s"] by (cases s) (auto simp: strtok_all_def)

lemma strtok_single: "component c \<Longrightarrow> strtok_all CHR ''/'' c = [c]"
  using tokens_from_append [of c "[]" "[]"] by (simp add: strtok_all_def component_def)

lemma join_append: "join_components (a @ b) = join_components a @ join_components b"
  by (induction a) auto

lemma turn_around_rev: "turn_around j k = rev j @ k"
  by (induction j k rule: turn_around.induct) auto

section \<open>The stack\<close>

lemma push_proper:
  "push_components ps j = Inr j' \<Longrightarrow> \<forall>c\<in>set ps. component c \<Longrightarrow> \<forall>c\<in>set j. proper c \<Longrightarrow> \<forall>c\<in>set j'. proper c"
proof (induction ps arbitrary: j)
  case (Cons p ps)
  consider "p = ''.''" | "p = ''..''" | "p \<noteq> ''.''" "p \<noteq> ''..''" by blast
  then show ?case
  proof cases
    case 1
    then show ?thesis using Cons by simp
  next
    case 2
    then show ?thesis using Cons by (cases j) auto
  next
    case 3
    then have "proper p" using Cons.prems(2) by (simp add: proper_def)
    then show ?thesis using 3 Cons.prems Cons.IH [of "p # j"] by simp
  qed
qed simp

lemma push_length:
  "push_components ps j = Inr j' \<Longrightarrow>
     length (join_components (rev j')) \<le> length (join_components ps) + length (join_components (rev j))"
proof (induction ps j rule: push_components.induct)
  case (2 p ps j)
  consider "p = ''.''" | "p = ''..''" | "p \<noteq> ''.''" "p \<noteq> ''..''" by blast
  then show ?case
  proof cases
    case 1
    then show ?thesis using 2 by auto
  next
    case 2
    then obtain n below where j: "j = n # below" using "2.prems" by (cases j) auto
    with 2 "2.prems" "2.IH"(2) [of n below] show ?thesis by (auto simp: join_append)
  next
    case 3
    then show ?thesis using "2.IH"(3) "2.prems" by (auto simp: join_append)
  qed
qed simp

lemma push_proper_list: "\<forall>c\<in>set ps. proper c \<Longrightarrow> push_components ps j = Inr (rev ps @ j)"
  by (induction ps arbitrary: j) (auto simp: proper_def)

text \<open>The rewriting of component lists that a path means.\<close>

inductive cancel :: "string list \<Rightarrow> string list \<Rightarrow> bool" where
  here: "cancel (xs @ ''.'' # ys) (xs @ ys)"
| up: "proper n \<Longrightarrow> cancel (xs @ n # ''..'' # ys) (xs @ ys)"

lemma push_cancel:
  "push_components ps j = Inr j' \<Longrightarrow> \<forall>c\<in>set ps. component c \<Longrightarrow> \<forall>c\<in>set j. proper c \<Longrightarrow>
     cancel\<^sup>*\<^sup>* (rev j @ ps) (rev j')"
proof (induction ps arbitrary: j)
  case (Cons p ps)
  consider "p = ''.''" | "p = ''..''" | "p \<noteq> ''.''" "p \<noteq> ''..''" by blast
  then show ?case
  proof cases
    case 1
    then have "cancel\<^sup>*\<^sup>* (rev j @ ps) (rev j')" using Cons by simp
    moreover have "cancel (rev j @ p # ps) (rev j @ ps)" unfolding 1 by (rule cancel.here)
    ultimately show ?thesis by (meson converse_rtranclp_into_rtranclp)
  next
    case 2
    then obtain n below where j: "j = n # below" using Cons.prems(1) by (cases j) auto
    then have "cancel\<^sup>*\<^sup>* (rev below @ ps) (rev j')" using 2 Cons by simp
    moreover have "cancel (rev below @ n # ''..'' # ps) (rev below @ ps)"
      using Cons.prems(3) j by (intro cancel.up) simp
    ultimately show ?thesis unfolding j 2 by (simp add: converse_rtranclp_into_rtranclp)
  next
    case 3
    then have "proper p" using Cons.prems(2) by (simp add: proper_def)
    then have "cancel\<^sup>*\<^sup>* (rev (p # j) @ ps) (rev j')" using 3 Cons by (intro Cons.IH) auto
    then show ?thesis by simp
  qed
qed simp

definition ups :: "string list \<Rightarrow> nat" where
  "ups cs = length (filter (\<lambda>c. c = ''..'') cs)"

definition names :: "string list \<Rightarrow> nat" where
  "names cs = length (filter (\<lambda>c. c \<noteq> ''.'' \<and> c \<noteq> ''..'') cs)"

lemma push_fails:
  "push_components ps j = Inl BadPtr \<longleftrightarrow>
     (\<exists>n\<le>length ps. length j + names (take n ps) < ups (take n ps))"
proof (induction ps j rule: push_components.induct)
  case (1 j)
  then show ?case by (simp add: ups_def names_def)
next
  case (2 p ps j)
  have ex: "(\<exists>n\<le>length (p # ps). P n) \<longleftrightarrow> P 0 \<or> (\<exists>n\<le>length ps. P (Suc n))" for P
    by (metis (no_types, lifting) Suc_le_mono bot_nat_0.extremum length_Cons not0_implies_Suc)
  have zero: "\<not> length j + names (take 0 (p # ps)) < ups (take 0 (p # ps))"
    by (simp add: ups_def names_def)
  consider "p = ''.''" | "p = ''..''" | "p \<noteq> ''.''" "p \<noteq> ''..''" by blast
  then show ?case
  proof cases
    case 1
    then show ?thesis using "2.IH"(1) unfolding ex by (simp add: ups_def names_def)
  next
    case 2
    show ?thesis
    proof (cases j)
      case Nil
      have "length j + names (take (Suc 0) (p # ps)) < ups (take (Suc 0) (p # ps))"
        using 2 Nil by (simp add: ups_def names_def)
      then show ?thesis using 2 Nil by (auto intro!: exI [of _ "Suc 0"])
    next
      case (Cons n below)
      then show ?thesis using "2.IH"(2) [OF _ _ Cons] 2 unfolding ex by (simp add: ups_def names_def)
    qed
  next
    case 3
    then show ?thesis using "2.IH"(3) unfolding ex by (simp add: ups_def names_def)
  qed
qed

section \<open>Properties\<close>

lemma canonical_shape:
  assumes "canonicalize_path path prefix = Inr r"
  obtains cs where "\<forall>c\<in>set cs. proper c" "r = (if cs = [] then ''/'' else join_components cs)"
    "push_components (strtok_all CHR ''/'' (full_path path prefix)) [] = Inr (rev cs)"
    "strtok_all CHR ''/'' r = cs"
proof -
  obtain j where j: "push_components (strtok_all CHR ''/'' (full_path path prefix)) [] = Inr j"
    and r: "r = (if j = [] then ''/'' else join_components (rev j))"
    using assms by (auto simp: canonicalize_path_def andthen_eq_Inr turn_around_rev Let_def)
  have "\<forall>c\<in>set j. proper c" using push_proper [OF j] strtok_components by auto
  moreover from this have "strtok_all CHR ''/'' r = rev j"
    unfolding r by (auto simp: strtok_join proper_def) (simp add: strtok_all_def)
  ultimately show ?thesis using j r by (intro that [of "rev j"]) auto
qed

lemma join_concat: "join_components cs = concat (map (\<lambda>c. CHR ''/'' # c) cs)"
  by (induction cs) auto

text \<open>
  C22. \<open>canonicalize_path\<close> computes the canonical form of a path: the result is a single slash, or a slash and a name for
  each of a list of names, with nothing behind or between them. The names are neither empty nor \<open>"."\<close> nor \<open>".."\<close> and have no
  slash in them, and they come from the components of the path (with the prefix in front of a relative one) by cancelling
  \<open>"."\<close> and names followed by \<open>".."\<close>.
\<close>

theorem canonicalize_path_normal_form:
  assumes "canonicalize_path path prefix = Inr r"
  shows "\<exists>cs. r = (if cs = [] then ''/'' else concat (map (\<lambda>c. CHR ''/'' # c) cs)) \<and>
    (\<forall>c\<in>set cs. c \<noteq> [] \<and> CHR ''/'' \<notin> set c \<and> c \<noteq> ''.'' \<and> c \<noteq> ''..'') \<and>
    cancel\<^sup>*\<^sup>* (strtok_all CHR ''/'' (full_path path prefix)) cs"
proof -
  obtain cs where cs: "\<forall>c\<in>set cs. proper c" "r = (if cs = [] then ''/'' else join_components cs)"
    "push_components (strtok_all CHR ''/'' (full_path path prefix)) [] = Inr (rev cs)"
    using canonical_shape [OF assms] by metis
  then show ?thesis
    using push_cancel [OF cs(3)] strtok_components
    by (intro exI [of _ cs]) (auto simp: join_concat proper_def component_def)
qed

theorem canonicalize_path_normal_form_witness:
  "canonicalize_path ''b/.//../c'' (Some ''/a'') = Inr ''/a/c'' \<and>
   (\<exists>cs. ''/a/c'' = (if cs = [] then ''/'' else concat (map (\<lambda>c. CHR ''/'' # c) cs)) \<and>
     cancel\<^sup>*\<^sup>* [''a'', ''b'', ''.'', ''..'', ''c''] cs)"
proof -
  have r: "canonicalize_path ''b/.//../c'' (Some ''/a'') = Inr ''/a/c''"
    by (simp add: canonicalize_path_def full_path_def strtok_all_def)
  have t: "strtok_all CHR ''/'' (full_path ''b/.//../c'' (Some ''/a'')) = [''a'', ''b'', ''.'', ''..'', ''c'']"
    by (simp add: strtok_all_def full_path_def)
  show ?thesis using canonicalize_path_normal_form [OF r, unfolded t] r by blast
qed

text \<open>
  \<open>canonicalize_path\<close> is idempotent: a canonical path is its own canonical form, whatever
  the prefix.
\<close>

theorem canonicalize_path_idempotent:
  assumes "canonicalize_path path prefix = Inr r"
  shows "canonicalize_path r q = Inr r"
proof -
  obtain cs where cs: "\<forall>c\<in>set cs. proper c" "r = (if cs = [] then ''/'' else join_components cs)"
    "strtok_all CHR ''/'' r = cs" using canonical_shape [OF assms] by metis
  have "full_path r q = r" using cs(2) by (cases cs) (auto simp: full_path_def split: option.splits)
  then show ?thesis
    using cs push_proper_list [OF cs(1), of "[]"]
    by (simp add: canonicalize_path_def turn_around_rev Let_def)
qed

theorem canonicalize_path_idempotent_witness:
  "canonicalize_path ''/bin//sh'' None = Inr ''/bin/sh'' \<and>
   canonicalize_path ''/bin/sh'' (Some ''/x'') = Inr ''/bin/sh''"
proof -
  have r: "canonicalize_path ''/bin//sh'' None = Inr ''/bin/sh''"
    by (simp add: canonicalize_path_def full_path_def strtok_all_def)
  with canonicalize_path_idempotent [OF r] show ?thesis by simp
qed

text \<open>
  C40. \<open>canonicalize_path\<close> goes wrong exactly on paths that leave the root: it follows a null pointer
  if and only if some initial part of the path has more \<open>".."\<close> than names. The result of an
  absolute path always fits the buffer the code allocates; for a relative path it can be longer.
\<close>

theorem canonicalize_path_failure:
  "(canonicalize_path path prefix = Inl BadPtr \<longleftrightarrow>
     (\<exists>n\<le>length (strtok_all CHR ''/'' (full_path path prefix)).
        names (take n (strtok_all CHR ''/'' (full_path path prefix)))
          < ups (take n (strtok_all CHR ''/'' (full_path path prefix))))) \<and>
   (canonicalize_overruns path prefix \<longrightarrow> path = [] \<or> hd path \<noteq> CHR ''/'')"
proof (intro conjI impI)
  let ?cs = "strtok_all CHR ''/'' (full_path path prefix)"
  have "canonicalize_path path prefix = Inl BadPtr \<longleftrightarrow> push_components ?cs [] = Inl BadPtr"
    by (cases "push_components ?cs []") (auto simp: canonicalize_path_def Let_def)
  then show "canonicalize_path path prefix = Inl BadPtr \<longleftrightarrow>
    (\<exists>n\<le>length ?cs. names (take n ?cs) < ups (take n ?cs))"
    using push_fails [of ?cs "[]"] by simp
next
  assume o: "canonicalize_overruns path prefix"
  show "path = [] \<or> hd path \<noteq> CHR ''/''"
  proof (rule ccontr)
    assume abs: "\<not> (path = [] \<or> hd path \<noteq> CHR ''/'')"
    then have f: "full_path path prefix = path" by (auto simp: full_path_def split: option.splits)
    obtain r where r: "canonicalize_path path prefix = Inr r" "length r > length path"
      using o by (auto simp: canonicalize_overruns_def split: sum.splits)
    obtain cs where cs: "r = (if cs = [] then ''/'' else join_components cs)"
      "push_components (strtok_all CHR ''/'' path) [] = Inr (rev cs)"
      using canonical_shape [OF r(1)] f by metis
    have "length (join_components cs) \<le> length path"
      using push_length [OF cs(2)] strtok_length [of path] abs by auto
    then show False using cs(1) r(2) abs by (cases path) (auto split: if_splits)
  qed
qed

theorem canonicalize_path_failure_witness:
  "canonicalize_path ''/a/../..'' None = Inl BadPtr \<and> \<not> canonicalize_overruns ''/a/../b'' None \<and>
   canonicalize_overruns ''sh'' None"
proof -
  have "\<not> canonicalize_overruns ''/a/../b'' None"
    using canonicalize_path_failure [of "''/a/../b''" None] by auto
  then show ?thesis
    by (simp add: canonicalize_path_def canonicalize_overruns_def full_path_def strtok_all_def)
qed

end
