(* ===== verification/Kernel.thy ===== *)
theory Kernel imports Vfs PathNames Procmm begin

text \<open>
  The state of the whole kernel: the file systems (with the scheduler inside), the memory of the
  processes, and the stores of processes, threads, signals and file descriptors of
  \<^verbatim>\<open>kernel/include/process.h\<close> and \<^verbatim>\<open>kernel/include/thread.h\<close>. An object is named by a number, a
  pointer is a number or \<open>None\<close>. A process and its memory part (\<open>pmm\<close>), a thread and its
  state word and \<open>tasks\<close> node in the scheduler, carry the same number.

  The list heads and nodes of processes and threads live in three link heaps: the list of all
  processes, the threads of each process, and the signals queued for each process.
\<close>

section \<open>Types\<close>

record registers =
  r_ds :: u32
  r_edi :: u32
  r_esi :: u32
  r_ebp :: u32
  r_esp :: u32
  r_ebx :: u32
  r_edx :: u32
  r_ecx :: u32
  r_eax :: u32
  r_int_no :: u32
  r_err_code :: u32
  r_eip :: u32
  r_cs :: u32
  r_eflags :: u32
  r_useresp :: u32
  r_ss :: u32

definition zero_regs :: registers where
  "zero_regs = \<lparr>r_ds = 0, r_edi = 0, r_esi = 0, r_ebp = 0, r_esp = 0, r_ebx = 0, r_edx = 0, r_ecx = 0,
     r_eax = 0, r_int_no = 0, r_err_code = 0, r_eip = 0, r_cs = 0, r_eflags = 0, r_useresp = 0, r_ss = 0\<rparr>"

text \<open>
  A \<open>registers_t *\<close> is the register block of a thread (it starts the thread's structure and the
  processor saves user registers there) or a frame pushed on a kernel stack.
\<close>

datatype reg_ptr = ThreadRegs nat | Frame nat

record thread =
  regs :: registers
  tid :: u32
  kernel_thread :: "reg_ptr option"
  proc :: "nat option"

record file_desc =
  ino :: "nat option"
  offset :: u32
  fd_flags :: u32
  fd_users :: u32

record process =
  pid :: u32
  p_state :: u32
  p_flags :: u32
  p_parent :: "nat option"
  p_child :: "nat option"
  older_sibling :: "nat option"
  younger_sibling :: "nat option"
  cmdline :: "string option"
  exit_code :: u32
  fd :: "nat option list"
  signal_handler :: "u32 list"
  signal_blocked :: "u8 list"

record signal =
  sig :: u32
  sender :: u32

datatype plnode = ProcessList | ProcNode nat
datatype ptnode = Threads nat | ThreadNode nat
datatype sgnode = SignalQueue nat | SignalNode nat

record kernel =
  kfs :: fs
  kmm :: mms
  procs :: "nat \<Rightarrow> process option"
  threads :: "nat \<Rightarrow> thread option"
  signals :: "nat \<Rightarrow> signal option"
  descs :: "nat \<Rightarrow> file_desc option"
  process_list :: "plnode links"
  process_threads :: "ptnode links"
  signal_queue :: "sgnode links"
  frames :: "nat \<Rightarrow> registers option"
  next_pid :: u32
  next_tid :: u32
  next_obj :: nat
  boot_thread :: nat
  kernel_booted :: bool
  esp0 :: "nat option"

definition NUM_FILEDES :: nat where "NUM_FILEDES = 256"
definition NUM_SIGNALS :: nat where "NUM_SIGNALS = 32"
definition PROC_STATE_FINISHED :: u32 where "PROC_STATE_FINISHED = 3"
definition PROC_FLAG_DEBUG :: u32 where "PROC_FLAG_DEBUG = 1"
definition SIG_DFL :: u32 where "SIG_DFL = 0"
definition SIG_IGN :: u32 where "SIG_IGN = 1"

section \<open>Access\<close>

definition proc_of :: "nat \<Rightarrow> kernel \<Rightarrow> process res" where
  "proc_of p k = deref (procs k p)"

definition put_proc :: "nat \<Rightarrow> process \<Rightarrow> kernel \<Rightarrow> kernel" where
  "put_proc p v k = k\<lparr>procs := (procs k)(p \<mapsto> v)\<rparr>"

definition upd_proc :: "nat \<Rightarrow> (process \<Rightarrow> process) \<Rightarrow> kernel \<Rightarrow> kernel res" where
  "upd_proc p f k = andthen (proc_of p k) (\<lambda>v. Inr (put_proc p (f v) k))"

definition thread_of :: "nat \<Rightarrow> kernel \<Rightarrow> thread res" where
  "thread_of t k = deref (threads k t)"

definition upd_thread :: "nat \<Rightarrow> (thread \<Rightarrow> thread) \<Rightarrow> kernel \<Rightarrow> kernel res" where
  "upd_thread t f k = andthen (thread_of t k) (\<lambda>v. Inr (k\<lparr>threads := (threads k)(t \<mapsto> f v)\<rparr>))"

definition desc_of :: "nat \<Rightarrow> kernel \<Rightarrow> file_desc res" where
  "desc_of d k = deref (descs k d)"

definition upd_desc :: "nat \<Rightarrow> (file_desc \<Rightarrow> file_desc) \<Rightarrow> kernel \<Rightarrow> kernel res" where
  "upd_desc d f k = andthen (desc_of d k) (\<lambda>v. Inr (k\<lparr>descs := (descs k)(d \<mapsto> f v)\<rparr>))"

text \<open>\<open>current\<close>, and \<open>current->proc\<close>.\<close>

definition current :: "kernel \<Rightarrow> nat" where
  "current k = cur_th (kfs k)"

definition current_proc :: "kernel \<Rightarrow> nat res" where
  "current_proc k = andthen (thread_of (current k) k) (\<lambda>t. deref (proc t))"

text \<open>An operation of a component, run on its part of the state.\<close>

definition on_fs :: "(fs \<Rightarrow> ('a \<times> fs) res) \<Rightarrow> kernel \<Rightarrow> ('a \<times> kernel) res" where
  "on_fs f k = andthen (f (kfs k)) (\<lambda>(x, s). Inr (x, k\<lparr>kfs := s\<rparr>))"

definition do_fs :: "(fs \<Rightarrow> fs res) \<Rightarrow> kernel \<Rightarrow> kernel res" where
  "do_fs f k = andthen (f (kfs k)) (\<lambda>s. Inr (k\<lparr>kfs := s\<rparr>))"

definition do_sched :: "(sched \<Rightarrow> sched res) \<Rightarrow> kernel \<Rightarrow> kernel res" where
  "do_sched f = do_fs (\<lambda>s. andthen (f (fsched s)) (\<lambda>c. Inr (s\<lparr>fsched := c\<rparr>)))"

definition on_mm :: "(mms \<Rightarrow> ('a \<times> mms) res) \<Rightarrow> kernel \<Rightarrow> ('a \<times> kernel) res" where
  "on_mm f k = andthen (f (kmm k)) (\<lambda>(x, s). Inr (x, k\<lparr>kmm := s\<rparr>))"

definition do_mm :: "(mms \<Rightarrow> mms res) \<Rightarrow> kernel \<Rightarrow> kernel res" where
  "do_mm f k = andthen (f (kmm k)) (\<lambda>s. Inr (k\<lparr>kmm := s\<rparr>))"

definition kerrno :: "u32 \<Rightarrow> kernel \<Rightarrow> kernel" where
  "kerrno e k = k\<lparr>kfs := set_errno e (kfs k)\<rparr>"

text \<open>\<open>th->state\<close>, which the scheduler also writes.\<close>

definition state_of :: "nat \<Rightarrow> kernel \<Rightarrow> u32" where
  "state_of t k = th_state (fsched (kfs k)) t"

definition set_state :: "nat \<Rightarrow> u32 \<Rightarrow> kernel \<Rightarrow> kernel" where
  "set_state t v k = k\<lparr>kfs := (kfs k)\<lparr>fsched := (fsched (kfs k))\<lparr>th_state := (th_state (fsched (kfs k)))(t := v)\<rparr>\<rparr>\<rparr>"

definition set_tasks :: "qnode links \<Rightarrow> kernel \<Rightarrow> kernel" where
  "set_tasks h k = k\<lparr>kfs := (kfs k)\<lparr>fsched := (fsched (kfs k))\<lparr>tasks := h\<rparr>\<rparr>\<rparr>"

definition tasks_of :: "kernel \<Rightarrow> qnode links" where
  "tasks_of k = tasks (fsched (kfs k))"

text \<open>\<open>list_entry\<close> for the three kinds of nodes.\<close>

fun process_entry :: "plnode \<Rightarrow> nat res" where
  "process_entry (ProcNode p) = Inr p"
| "process_entry ProcessList = Inl BadPtr"

fun pthread_entry :: "ptnode \<Rightarrow> nat res" where
  "pthread_entry (ThreadNode t) = Inr t"
| "pthread_entry (Threads _) = Inl BadPtr"

fun signal_entry :: "sgnode \<Rightarrow> nat res" where
  "signal_entry (SignalNode g) = Inr g"
| "signal_entry (SignalQueue _) = Inl BadPtr"

end
