(* ===== verification/Threads.thy ===== *)
theory Threads imports Kernel begin

text \<open>
  Threads, \<^verbatim>\<open>kernel/proc/thread.c\<close>: their life, and the switch to the next thread.
\<close>

definition SEG_KERNEL_CODE :: u32 where "SEG_KERNEL_CODE = 0x08"
definition SEG_KERNEL_DATA :: u32 where "SEG_KERNEL_DATA = 0x10"
definition SEG_USER_CODE :: u32 where "SEG_USER_CODE = 0x18"
definition SEG_USER_DATA :: u32 where "SEG_USER_DATA = 0x20"
definition EFL_INT :: u32 where "EFL_INT = 0x200"

definition alloc_thread :: "kernel \<Rightarrow> nat \<times> kernel" where
  "alloc_thread k =
     (let t = next_obj k;
          k = k\<lparr>next_obj := Suc t\<rparr>;
          k = k\<lparr>threads := (threads k)(t \<mapsto> \<lparr>regs = zero_regs, tid = next_tid k, kernel_thread = None, proc = None\<rparr>)\<rparr>;
          k = set_state t 0 k;
          k = k\<lparr>next_tid := next_tid k + 1\<rparr>;
          k = set_tasks (init_list (tasks_of k) (Tasks t)) k;
          k = k\<lparr>process_threads := init_list (process_threads k) (ThreadNode t)\<rparr>;
          k = set_tasks (init_list (tasks_of k) (ThWaiting t)) k
      in (t, k))"

definition free_thread :: "nat \<Rightarrow> kernel \<Rightarrow> kernel res" where
  "free_thread t k =
     andthen (thread_of t k) (\<lambda>_.
     andthen (do_sched (scheduler_remove t) k) (\<lambda>k.
     let k = set_tasks (remove_from_list (tasks_of k) (Tasks t)) k;
         k = k\<lparr>process_threads := remove_from_list (process_threads k) (ThreadNode t)\<rparr>
     in Inr (k\<lparr>threads := (threads k)(t := None)\<rparr>)))"

definition start_regs :: "u32 \<Rightarrow> bool \<Rightarrow> registers \<Rightarrow> registers" where
  "start_regs func user r =
     (let r = r\<lparr>r_eip := func\<rparr> in
      if user
      then r\<lparr>r_useresp := USER_STACK_TOP, r_ebp := USER_STACK_TOP, r_cs := SEG_USER_CODE OR 3,
             r_ds := SEG_USER_DATA OR 3, r_ss := SEG_USER_DATA OR 3\<rparr>
      else r\<lparr>r_cs := SEG_KERNEL_CODE, r_ds := SEG_KERNEL_DATA, r_ss := SEG_KERNEL_DATA\<rparr>)"

definition new_thread :: "u32 \<Rightarrow> bool \<Rightarrow> kernel \<Rightarrow> (nat \<times> kernel) res" where
  "new_thread func user k =
     (let (t, k) = alloc_thread k in
      andthen (upd_thread t (\<lambda>v. v\<lparr>regs := start_regs func user (regs v)\<rparr>) k) (\<lambda>k.
      let k = set_state t THREAD_STATE_READY k in
      andthen (do_sched (scheduler_insert t) k) (\<lambda>k.
      andthen (upd_thread t (\<lambda>v. v\<lparr>kernel_thread := Some (ThreadRegs t)\<rparr>) k) (\<lambda>k.
      Inr (t, k)))))"

text \<open>
  \<open>clone_thread\<close> copies the structure, then gives the copy its own number and nodes. The head of the queue of
  waiting threads is copied too: its pointers lead into the queue of the original.
\<close>

definition clone_thread :: "nat \<Rightarrow> kernel \<Rightarrow> (nat \<times> kernel) res" where
  "clone_thread t k =
     (let (n, k) = alloc_thread k in
      andthen (thread_of n k) (\<lambda>nv.
      andthen (thread_of t k) (\<lambda>v.
      let k = k\<lparr>threads := (threads k)(n \<mapsto> v\<lparr>tid := tid nv\<rparr>)\<rparr>;
          k = set_state n (state_of t k) k;
          h = tasks_of k;
          k = set_tasks (set_prev (ThWaiting n) (prv h (ThWaiting t)) (set_next (ThWaiting n) (nxt h (ThWaiting t)) h)) k;
          k = set_tasks (init_list (tasks_of k) (Tasks n)) k;
          k = k\<lparr>process_threads := init_list (process_threads k) (ThreadNode n)\<rparr>
      in andthen (upd_thread n (\<lambda>v. v\<lparr>kernel_thread := Some (ThreadRegs n)\<rparr>) k) (\<lambda>k. Inr (n, k)))))"

definition clean_one :: "ptnode \<Rightarrow> kernel \<Rightarrow> kernel res" where
  "clean_one i k =
     andthen (pthread_entry i) (\<lambda>t.
     if state_of t k = THREAD_STATE_FINISHED \<and> t \<noteq> current k then free_thread t k else Inr k)"

definition clean_threads :: "nat \<Rightarrow> kernel \<Rightarrow> kernel res" where
  "clean_threads p k = for_each_safe process_threads (Threads p) clean_one k"

definition switch_process :: "nat \<Rightarrow> kernel \<Rightarrow> kernel res" where
  "switch_process p k =
     andthen (pmm_of p (kmm k)) (\<lambda>v.
     Inr (k\<lparr>kmm := (kmm k)\<lparr>mvm := vmm_pd_set (pd v) (mvm (kmm k))\<rparr>\<rparr>))"

text \<open>
  \<open>switch_kernel_thread\<close>: the registers the processor continues with. The stack the code runs on, and with
  it \<open>current\<close>, is that of the interrupted thread until these registers are restored.
\<close>

definition switch_kernel_thread :: "reg_ptr option \<Rightarrow> kernel \<Rightarrow> (reg_ptr option \<times> kernel) res" where
  "switch_kernel_thread r k =
     andthen
       (if r \<noteq> None \<and> r \<noteq> Some (ThreadRegs (boot_thread k))
        then andthen (upd_thread (current k) (\<lambda>v. v\<lparr>kernel_thread := r\<rparr>) k) (\<lambda>k.
             if state_of (current k) k = THREAD_STATE_READY
             then do_sched (scheduler_insert (current k)) k else Inr k)
        else Inr k) (\<lambda>k.
     andthen (scheduler_next (fsched (kfs k))) (\<lambda>n.
     andthen (case n of None \<Rightarrow> Inr (boot_thread k, k)
              | Some t \<Rightarrow> andthen (do_sched (scheduler_remove t) k) (\<lambda>k. Inr (t, k))) (\<lambda>(t, k).
     andthen (thread_of t k) (\<lambda>v.
     andthen (deref (proc v)) (\<lambda>p.
     andthen (switch_process p k) (\<lambda>k.
     andthen (clean_threads p k) (\<lambda>k.
     let k = k\<lparr>kernel_booted := True\<rparr> in
     andthen (thread_of t k) (\<lambda>v.
     Inr (kernel_thread v, k\<lparr>kfs := (kfs k)\<lparr>cur_th := t\<rparr>\<rparr>)))))))))"

end
