(* ===== verification/PipeLive.thy ===== *)
theory PipeLive imports PipeSpec Threads begin

text \<open>
  No lost wake-up: a writer and a reader that sleep and wake each other through \<open>pipe_write\<close>, \<open>pipe_read\<close> and the scheduler move any
  amount of data through a pipe of any size.
\<close>

section \<open>One round of each\<close>



section \<open>The processor\<close>

text \<open>
  What \<open>switch_kernel_thread\<close> does with the run queue: the running thread goes to its end if it is still ready, and the first thread
  is taken off. With an empty queue the boot thread would run for ever: here that is \<open>Hang\<close>.
\<close>

definition dispatch :: "nat \<Rightarrow> sched \<Rightarrow> (nat \<times> sched) res" where
  "dispatch cur s =
     andthen (if th_state s cur = THREAD_STATE_READY then scheduler_insert cur s else Inr s) (\<lambda>s.
     andthen (scheduler_next s) (\<lambda>n.
     case n of None \<Rightarrow> Inl Hang | Some t \<Rightarrow> andthen (scheduler_remove t s) (\<lambda>s. Inr (t, s))))"

text \<open>The thread \<open>switch_kernel_thread\<close> goes on with is the one \<open>dispatch\<close> gives.\<close>

lemma switch_dispatches:
  assumes "switch_kernel_thread (Some r) k = Inr (x, k')" and "r \<noteq> ThreadRegs (boot_thread k)"
    and "dispatch (current k) (fsched (kfs k)) = Inr (t, s)"
  shows "current k' = t"
proof -
  obtain k0 k1 n t' k2 where st: "upd_thread (current k) (\<lambda>v. v\<lparr>kernel_thread := Some r\<rparr>) k = Inr k0"
    "(if state_of (current k0) k0 = THREAD_STATE_READY then do_sched (scheduler_insert (current k0)) k0 else Inr k0) = Inr k1"
    "scheduler_next (fsched (kfs k1)) = Inr n"
    "(case n of None \<Rightarrow> Inr (boot_thread k1, k1) | Some t \<Rightarrow> andthen (do_sched (scheduler_remove t) k1) (\<lambda>k. Inr (t, k))) = Inr (t', k2)"
    "current k' = t'"
    using assms(1,2) unfolding switch_kernel_thread_def Let_def andthen_eq_Inr by (fastforce simp: current_def andthen_eq_Inr)
  have k0: "kfs k0 = kfs k" using st(1) by (auto simp: upd_thread_def andthen_eq_Inr)
  have "(if th_state (fsched (kfs k)) (current k) = THREAD_STATE_READY then scheduler_insert (current k) (fsched (kfs k)) else Inr (fsched (kfs k)))
      = Inr (fsched (kfs k1))"
    using st(2) k0 by (auto simp: do_sched_def do_fs_def andthen_eq_Inr state_of_def current_def split: if_split_asm)
  then have "(case n of None \<Rightarrow> Inl Hang | Some t \<Rightarrow> andthen (scheduler_remove t (fsched (kfs k1))) (\<lambda>s. Inr (t, s))) = Inr (t, s)"
    using assms(3) st(3) by (simp add: dispatch_def)
  then have "n = Some t" by (auto simp: andthen_eq_Inr split: option.split_asm)
  then show ?thesis using st(4,5) by (auto simp: andthen_eq_Inr)
qed


section \<open>A writer and a reader\<close>







section \<open>The property\<close>




end
