(* ===== verification/SysFs.thy ===== *)
theory SysFs imports Kernel begin

text \<open>
  The file system calls, \<^verbatim>\<open>kernel/syscall/sys_fs.c\<close>, of the current process. A user pointer
  is given by its address, which the code checks, and by what it points to. A call that may block gives an
  \<open>outcome\<close>. The table of a process has \<open>NUM_FILEDES\<close> slots; an index outside of it is \<open>Overrun\<close>,
  an empty slot that is used is a null pointer.
\<close>

section \<open>Descriptors\<close>

definition O_RDONLY :: u32 where "O_RDONLY = 0"
definition O_WRONLY :: u32 where "O_WRONLY = 1"

definition slot_index :: "i32 \<Rightarrow> nat res" where
  "slot_index file = (if 0 \<le> sint file \<and> sint file < int NUM_FILEDES then Inr (unat file) else Inl Overrun)"

definition slot_of :: "nat \<Rightarrow> i32 \<Rightarrow> kernel \<Rightarrow> nat option res" where
  "slot_of p file k =
     andthen (proc_of p k) (\<lambda>v.
     andthen (slot_index file) (\<lambda>i. Inr (fd v ! i)))"

definition set_slot :: "nat \<Rightarrow> nat \<Rightarrow> nat option \<Rightarrow> kernel \<Rightarrow> kernel res" where
  "set_slot p i d = upd_proc p (\<lambda>v. v\<lparr>fd := (fd v)[i := d]\<rparr>)"

text \<open>\<open>p->fd[file]->ino\<close>, and the descriptor.\<close>

definition desc_at :: "nat \<Rightarrow> i32 \<Rightarrow> kernel \<Rightarrow> (nat \<times> file_desc) res" where
  "desc_at p file k =
     andthen (slot_of p file k) (\<lambda>s.
     andthen (deref s) (\<lambda>d.
     andthen (desc_of d k) (\<lambda>v. Inr (d, v))))"

definition fd_get :: "nat \<Rightarrow> kernel \<Rightarrow> kernel res" where
  "fd_get d = upd_desc d (\<lambda>v. v\<lparr>fd_users := fd_users v + 1\<rparr>)"

definition fd_put :: "nat \<Rightarrow> kernel \<Rightarrow> kernel res" where
  "fd_put d k =
     andthen (upd_desc d (\<lambda>v. v\<lparr>fd_users := fd_users v - 1\<rparr>) k) (\<lambda>k.
     andthen (desc_of d k) (\<lambda>v.
     if fd_users v = 0 then Inr (k\<lparr>descs := (descs k)(d := None)\<rparr>) else Inr k))"

definition new_desc :: "kernel \<Rightarrow> nat \<times> kernel" where
  "new_desc k = (next_obj k, k\<lparr>descs := (descs k)(next_obj k \<mapsto> \<lparr>ino = None, offset = 0, fd_flags = 0, fd_users = 0\<rparr>),
     next_obj := Suc (next_obj k)\<rparr>)"

fun first_free :: "'a option list \<Rightarrow> nat option" where
  "first_free [] = None"
| "first_free (None # r) = Some 0"
| "first_free (Some d # r) = map_option Suc (first_free r)"

text \<open>
  The search loop of \<open>open\<close> and \<open>pipe\<close>: the first empty slot gets a new descriptor with one user.
\<close>

definition grab_slot :: "nat \<Rightarrow> kernel \<Rightarrow> ((nat \<times> nat) option \<times> kernel) res" where
  "grab_slot p k =
     andthen (proc_of p k) (\<lambda>v.
     case first_free (fd v) of
       None \<Rightarrow> Inr (None, k)
     | Some i \<Rightarrow>
        (let (d, k) = new_desc k in
         andthen (set_slot p i (Some d) k) (\<lambda>k.
         andthen (fd_get d k) (\<lambda>k. Inr (Some (i, d), k)))))"

definition drop_slot :: "nat \<Rightarrow> nat \<Rightarrow> nat \<Rightarrow> kernel \<Rightarrow> kernel res" where
  "drop_slot p i d k = andthen (fd_put d k) (\<lambda>k. set_slot p i None k)"

text \<open>The check of a user address, which is not done before the kernel has booted.\<close>

definition user_address :: "u32 \<Rightarrow> u32 \<Rightarrow> kernel \<Rightarrow> bool res" where
  "user_address at_least addr k =
     (if kernel_booted k
      then andthen (current_proc k) (\<lambda>p. andthen (procmm_check_address p addr (kmm k)) (\<lambda>r. Inr (r \<ge> at_least)))
      else Inr True)"

section \<open>The calls\<close>

definition sys_close :: "i32 \<Rightarrow> kernel \<Rightarrow> (i32 \<times> kernel) res" where
  "sys_close file k =
     andthen (current_proc k) (\<lambda>p.
     andthen (desc_at p file k) (\<lambda>(d, v).
     case ino v of
       None \<Rightarrow> Inr (-1, kerrno EBADF k)
     | Some n \<Rightarrow>
        andthen (on_fs (vfs_close n) k) (\<lambda>(ret, k).
        andthen (do_fs (vfs_free n) k) (\<lambda>k.
        andthen (drop_slot p (unat file) d k) (\<lambda>k. Inr (ret, k))))))"

definition sys_fstat :: "i32 \<Rightarrow> u32 \<Rightarrow> kernel \<Rightarrow> (i32 \<times> u32 option \<times> kernel) res" where
  "sys_fstat file st k =
     andthen (current_proc k) (\<lambda>p.
     andthen (desc_at p file k) (\<lambda>(d, v).
     case ino v of
       None \<Rightarrow> Inr (-1, None, kerrno EBADF k)
     | Some n \<Rightarrow>
        andthen (user_address 2 st k) (\<lambda>ok.
        if \<not> ok then Inr (-1, None, kerrno EFAULT k)
        else andthen (vfs_stat n (kfs k)) (\<lambda>(ret, md, s). Inr (ret, md, k\<lparr>kfs := s\<rparr>)))))"

definition sys_isatty :: "i32 \<Rightarrow> kernel \<Rightarrow> (i32 \<times> kernel) res" where
  "sys_isatty file k =
     andthen (current_proc k) (\<lambda>p.
     andthen (desc_at p file k) (\<lambda>(d, v).
     case ino v of None \<Rightarrow> Inr (0, k) | Some n \<Rightarrow> on_fs (vfs_isatty n) k))"

definition sys_link :: "kernel \<Rightarrow> i32 \<times> kernel" where
  "sys_link k = (-1, kerrno EMLINK k)"

definition sys_unlink :: "kernel \<Rightarrow> i32 \<times> kernel" where
  "sys_unlink k = (-1, kerrno ENOENT k)"

definition sys_lseek :: "i32 \<Rightarrow> i32 \<Rightarrow> i32 \<Rightarrow> kernel \<Rightarrow> (i32 \<times> kernel) res" where
  "sys_lseek file ptr dir k =
     andthen (current_proc k) (\<lambda>p.
     andthen (desc_at p file k) (\<lambda>(d, v).
     case ino v of
       None \<Rightarrow> Inr (-1, kerrno EBADF k)
     | Some n \<Rightarrow>
        if dir \<noteq> 0 \<and> dir \<noteq> 1 \<and> dir \<noteq> 2 then Inr (-1, kerrno EINVAL k)
        else if offset v + ptr <s 0 then Inr (-1, kerrno EINVAL k)
        else
         andthen (node_of n (kfs k)) (\<lambda>node.
         if type node AND FS_PIPE = FS_PIPE then Inr (-1, kerrno ESPIPE k)
         else
          (let off = (if dir = 0 then ptr else if dir = 1 then offset v + ptr else flen node + ptr) in
           andthen (upd_desc d (\<lambda>v. v\<lparr>offset := off\<rparr>) k) (\<lambda>k. Inr (off, k))))))"

definition sys_open :: "u32 \<Rightarrow> string \<Rightarrow> u32 \<Rightarrow> kernel \<Rightarrow> (i32 \<times> kernel) res" where
  "sys_open addr path mode k =
     andthen (user_address 1 addr k) (\<lambda>ok.
     if \<not> ok then Inr (-1, kerrno EFAULT k)
     else
      andthen (current_proc k) (\<lambda>p.
      andthen (grab_slot p k) (\<lambda>(g, k).
      case g of
        None \<Rightarrow> Inr (-1, kerrno EMFILE k)
      | Some (i, d) \<Rightarrow>
         andthen (canonicalize_path path None) (\<lambda>n.
         andthen (on_fs (vfs_namei n) k) (\<lambda>(node, k).
         case node of
           None \<Rightarrow> andthen (drop_slot p i d (kerrno ENOENT k)) (\<lambda>k. Inr (-1, k))
         | Some node \<Rightarrow>
            andthen (on_fs (vfs_open node mode) k) (\<lambda>(ret, k).
            if ret <s 0
            then andthen (do_fs (vfs_free node) k) (\<lambda>k.
                 andthen (drop_slot p i d k) (\<lambda>k. Inr (-1, k)))
            else andthen (upd_desc d (\<lambda>v. v\<lparr>ino := Some node, offset := 0, fd_flags := mode\<rparr>) k)
                   (\<lambda>k. Inr (of_nat i, k))))))))"

definition advance :: "nat \<Rightarrow> u32 \<Rightarrow> kernel \<Rightarrow> kernel res" where
  "advance d n = upd_desc d (\<lambda>v. v\<lparr>offset := offset v + n\<rparr>)"

text \<open>\<open>read\<close> gives the bytes stored at the caller's address and the return value.\<close>

definition sys_read :: "i32 \<Rightarrow> u32 \<Rightarrow> u32 \<Rightarrow> kernel \<Rightarrow> ((u8 list \<times> i32) outcome \<times> kernel) res" where
  "sys_read file ptr len k =
     andthen (user_address 2 ptr k) (\<lambda>ok.
     if \<not> ok then Inr (Returns ([], -1), kerrno EFAULT k)
     else
      andthen (current_proc k) (\<lambda>p.
      andthen (desc_at p file k) (\<lambda>(d, v).
      case ino v of
        None \<Rightarrow> Inr (Returns ([], -1), kerrno EBADF k)
      | Some n \<Rightarrow>
         andthen (on_fs (vfs_read n len (offset v)) k) (\<lambda>(r, k).
         case r of
           Sleeps w \<Rightarrow> Inr (Sleeps w, k)
         | Returns (bs, ret) \<Rightarrow> andthen (advance d ret k) (\<lambda>k. Inr (Returns (bs, ret), k))))))"

definition sys_write :: "i32 \<Rightarrow> u32 \<Rightarrow> u8 list \<Rightarrow> kernel \<Rightarrow> (i32 outcome \<times> kernel) res" where
  "sys_write file ptr buf k =
     andthen (user_address 1 ptr k) (\<lambda>ok.
     if \<not> ok then Inr (Returns (-1), kerrno EFAULT k)
     else
      andthen (current_proc k) (\<lambda>p.
      andthen (desc_at p file k) (\<lambda>(d, v).
      case ino v of
        None \<Rightarrow> Inr (Returns (-1), kerrno EBADF k)
      | Some n \<Rightarrow>
         andthen (on_fs (vfs_write n buf (offset v)) k) (\<lambda>(r, k).
         case r of
           Sleeps w \<Rightarrow> Inr (Sleeps w, k)
         | Returns ret \<Rightarrow> andthen (advance d ret k) (\<lambda>k. Inr (Returns ret, k))))))"

definition sys_stat :: "u32 \<Rightarrow> string \<Rightarrow> u32 \<Rightarrow> kernel \<Rightarrow> (i32 \<times> u32 option \<times> kernel) res" where
  "sys_stat addr path st k =
     andthen (user_address 1 addr k) (\<lambda>ok.
     if \<not> ok then Inr (-1, None, kerrno EFAULT k)
     else
      andthen (user_address 2 st k) (\<lambda>ok.
      if \<not> ok then Inr (-1, None, kerrno EFAULT k)
      else
       andthen (on_fs (vfs_namei path) k) (\<lambda>(node, k).
       andthen (deref node) (\<lambda>node.
       andthen (vfs_stat node (kfs k)) (\<lambda>(ret, md, s).
       andthen (do_fs (vfs_free node) (k\<lparr>kfs := s\<rparr>)) (\<lambda>k. Inr (ret, md, k)))))))"

text \<open>\<open>readdir\<close> with the descriptor and the number of the entry: the name of the entry, if there is one.\<close>

definition sys_readdir :: "i32 \<Rightarrow> u32 \<Rightarrow> kernel \<Rightarrow> (string option \<times> kernel) res" where
  "sys_readdir file num k =
     andthen (current_proc k) (\<lambda>p.
     andthen (desc_at p file k) (\<lambda>(d, v).
     case ino v of
       None \<Rightarrow> Inr (None, kerrno EBADF k)
     | Some n \<Rightarrow>
        andthen (on_fs (vfs_readdir n num) k) (\<lambda>(de, k).
        case de of
          None \<Rightarrow> Inr (None, k)
        | Some de \<Rightarrow> andthen (do_fs (vfs_free (dino de)) k) (\<lambda>k. Inr (Some (dname de), k)))))"

definition sys_dup :: "i32 \<Rightarrow> kernel \<Rightarrow> (i32 \<times> kernel) res" where
  "sys_dup fildes k =
     andthen (current_proc k) (\<lambda>p.
     andthen (slot_of p fildes k) (\<lambda>s.
     case s of
       None \<Rightarrow> Inr (-1, kerrno EBADF k)
     | Some d \<Rightarrow>
        andthen (proc_of p k) (\<lambda>v.
        case first_free (fd v) of
          None \<Rightarrow> Inr (-1, kerrno EMFILE k)
        | Some i \<Rightarrow>
           andthen (set_slot p i (Some d) k) (\<lambda>k.
           andthen (fd_get d k) (\<lambda>k. Inr (of_nat i, k))))))"

definition sys_dup2 :: "i32 \<Rightarrow> i32 \<Rightarrow> kernel \<Rightarrow> (i32 \<times> kernel) res" where
  "sys_dup2 fildes1 fildes2 k =
     andthen (current_proc k) (\<lambda>p.
     andthen (slot_of p fildes1 k) (\<lambda>s.
     if s = None \<or> fildes2 <s 0 then Inr (-1, kerrno EBADF k)
     else if of_nat NUM_FILEDES \<le>s fildes2 then Inr (-1, kerrno EMFILE k)
     else if fildes1 = fildes2 then Inr (fildes2, k)
     else
      andthen (slot_of p fildes2 k) (\<lambda>s2.
      andthen (if s2 \<noteq> None then andthen (sys_close fildes2 k) (\<lambda>(_, k). Inr k) else Inr k) (\<lambda>k.
      andthen (slot_of p fildes1 k) (\<lambda>s.
      andthen (set_slot p (unat fildes2) s k) (\<lambda>k.
      andthen (deref s) (\<lambda>d.
      andthen (fd_get d k) (\<lambda>k. Inr (fildes2, k))))))))) "

text \<open>
  \<open>pipe\<close>: the result and the two numbers stored at the caller's address. \<open>garbage\<close> is what \<open>malloc\<close> leaves
  in the buffer of the pipe.
\<close>

definition sys_pipe :: "u8 list \<Rightarrow> kernel \<Rightarrow> (i32 \<times> (i32 \<times> i32) \<times> kernel) res" where
  "sys_pipe garbage k =
     andthen (current_proc k) (\<lambda>p.
     andthen (grab_slot p k) (\<lambda>(g1, k).
     andthen (grab_slot p k) (\<lambda>(g2, k).
     let num = (\<lambda>g. case g of None \<Rightarrow> -1 | Some (i, _) \<Rightarrow> of_nat i) in
     case (g1, g2) of
       (Some (i1, d1), Some (i2, d2)) \<Rightarrow>
         (let (rd, wr, s) = make_pipe 512 garbage (kfs k); k = k\<lparr>kfs := s\<rparr> in
          andthen (upd_desc d1 (\<lambda>v. v\<lparr>ino := Some rd, fd_flags := O_RDONLY\<rparr>) k) (\<lambda>k.
          andthen (on_fs (vfs_open rd O_RDONLY) k) (\<lambda>(_, k).
          andthen (upd_desc d2 (\<lambda>v. v\<lparr>ino := Some wr, fd_flags := O_WRONLY\<rparr>) k) (\<lambda>k.
          andthen (on_fs (vfs_open wr O_WRONLY) k) (\<lambda>(_, k).
          Inr (0, (of_nat i1, of_nat i2), k))))))
     | _ \<Rightarrow> Inr (-1, (num g1, num g2), kerrno EMFILE k))))"

end
