(* ===== verification/Processes.thy ===== *)
theory Processes imports Threads SysFs begin

text \<open>
  Processes, \<^verbatim>\<open>kernel/proc/process.c\<close>: creation, the family tree, and the end.
\<close>

definition zero_process :: "u32 \<Rightarrow> process" where
  "zero_process n = \<lparr>pid = n, p_state = 0, p_flags = 0, p_parent = None, p_child = None,
     older_sibling = None, younger_sibling = None, cmdline = None, exit_code = 0,
     fd = replicate NUM_FILEDES None, signal_handler = replicate NUM_SIGNALS SIG_DFL,
     signal_blocked = replicate NUM_SIGNALS 0\<rparr>"

definition alloc_process :: "kernel \<Rightarrow> (nat \<times> kernel) res" where
  "alloc_process k =
     (let p = next_obj k;
          k = k\<lparr>next_obj := Suc p\<rparr>;
          k = put_proc p (zero_process (next_pid k)) k;
          k = k\<lparr>kmm := (kmm k)\<lparr>pmm := (pmm (kmm k))(p \<mapsto> \<lparr>mm = zero_mm, pd = 0, pd_sem = 0\<rparr>)\<rparr>\<rparr>;
          k = k\<lparr>next_pid := next_pid k + 1\<rparr>;
          k = k\<lparr>process_threads := init_list (process_threads k) (Threads p)\<rparr>;
          k = k\<lparr>process_list := init_list (process_list k) (ProcNode p)\<rparr>;
          k = set_tasks (init_list (tasks_of k) (ProcWaiting p)) k;
          k = k\<lparr>signal_queue := init_list (signal_queue k) (SignalQueue p)\<rparr>;
          k = k\<lparr>process_list := append_to_list (process_list k) ProcessList (ProcNode p)\<rparr>
      in andthen (do_mm (init_procmm p) k) (\<lambda>k. Inr (p, k)))"

fun find_pid :: "u32 \<Rightarrow> plnode list \<Rightarrow> kernel \<Rightarrow> nat option res" where
  "find_pid n [] k = Inr None"
| "find_pid n (l # ls) k =
     andthen (process_entry l) (\<lambda>p.
     andthen (proc_of p k) (\<lambda>v. if pid v = n then Inr (Some p) else find_pid n ls k))"

definition get_process :: "u32 \<Rightarrow> kernel \<Rightarrow> nat option res" where
  "get_process n k = andthen (items (process_list k) ProcessList) (\<lambda>ls. find_pid n ls k)"

definition free_other :: "ptnode \<Rightarrow> kernel \<Rightarrow> kernel res" where
  "free_other i k = andthen (pthread_entry i) (\<lambda>t. if t \<noteq> current k then free_thread t k else Inr k)"

definition free_other_threads :: "nat \<Rightarrow> kernel \<Rightarrow> kernel res" where
  "free_other_threads p k = for_each_safe process_threads (Threads p) free_other k"

text \<open>The children of a dead process: all but the last on the list get \<open>init\<close> as their parent.\<close>

partial_function (option) adopt_from :: "nat \<Rightarrow> nat \<Rightarrow> kernel \<Rightarrow> (nat \<times> kernel) res option" where
  "adopt_from i init k =
     (case proc_of i k of
        Inl e \<Rightarrow> Some (Inl e)
      | Inr v \<Rightarrow>
         (case older_sibling v of
            None \<Rightarrow> Some (Inr (i, k))
          | Some j \<Rightarrow> adopt_from j init (put_proc i (v\<lparr>p_parent := Some init\<rparr>) k)))"

declare adopt_from.simps [code]

definition adopt_children :: "nat \<Rightarrow> nat \<Rightarrow> kernel \<Rightarrow> kernel res" where
  "adopt_children ch init k =
     andthen (returns (adopt_from ch init k)) (\<lambda>(i, k).
     andthen (proc_of init k) (\<lambda>iv.
     andthen (upd_proc i (\<lambda>v. v\<lparr>older_sibling := p_child iv\<rparr>) k) (\<lambda>k.
     andthen (deref (p_child iv)) (\<lambda>o'.
     andthen (upd_proc o' (\<lambda>v. v\<lparr>younger_sibling := Some i\<rparr>) k) (\<lambda>k.
     upd_proc init (\<lambda>v. v\<lparr>p_child := Some ch\<rparr>) k)))))"

text \<open>A process leaves the family tree.\<close>

definition leave_family :: "nat \<Rightarrow> kernel \<Rightarrow> kernel res" where
  "leave_family p k =
     andthen (proc_of p k) (\<lambda>v.
     andthen (deref (p_parent v)) (\<lambda>par.
     andthen (proc_of par k) (\<lambda>pv.
     andthen
       (if p_child pv = Some p
        then upd_proc par (\<lambda>w. w\<lparr>p_child :=
               (if younger_sibling v \<noteq> None then younger_sibling v else older_sibling v)\<rparr>) k
        else Inr k) (\<lambda>k.
     andthen (proc_of p k) (\<lambda>v.
     andthen (case older_sibling v of None \<Rightarrow> Inr k
              | Some o' \<Rightarrow> upd_proc o' (\<lambda>w. w\<lparr>younger_sibling := younger_sibling v\<rparr>) k) (\<lambda>k.
     andthen (proc_of p k) (\<lambda>v.
     case younger_sibling v of None \<Rightarrow> Inr k
     | Some y \<Rightarrow> upd_proc y (\<lambda>w. w\<lparr>older_sibling := older_sibling v\<rparr>) k)))))))"

definition free_process :: "nat \<Rightarrow> kernel \<Rightarrow> kernel res" where
  "free_process p k =
     andthen (free_other_threads p k) (\<lambda>k.
     andthen (proc_of p k) (\<lambda>v.
     andthen (case p_child v of None \<Rightarrow> Inr k
              | Some ch \<Rightarrow> andthen (process_entry (nxt (process_list k) ProcessList)) (\<lambda>init.
                            adopt_children ch init k)) (\<lambda>k.
     andthen (leave_family p k) (\<lambda>k.
     let k = k\<lparr>process_list := remove_from_list (process_list k) (ProcNode p)\<rparr> in
     andthen (do_mm (procmm_exit p) k) (\<lambda>k.
     Inr (k\<lparr>procs := (procs k)(p := None)\<rparr>))))))"

definition exit_process :: "nat \<Rightarrow> u32 \<Rightarrow> kernel \<Rightarrow> kernel res" where
  "exit_process p code k =
     andthen (upd_proc p (\<lambda>v. v\<lparr>exit_code := code\<rparr>) k) (\<lambda>k.
     andthen (free_other_threads p k) (\<lambda>k.
     andthen (upd_proc p (\<lambda>v. v\<lparr>p_state := PROC_STATE_FINISHED\<rparr>) k) (\<lambda>k.
     let k = set_state (current k) THREAD_STATE_FINISHED k in
     do_sched (scheduler_wake (ProcWaiting p)) k)))"

text \<open>Work on the machine.\<close>

definition on_machine :: "(vm \<Rightarrow> ('a \<times> vm) res) \<Rightarrow> kernel \<Rightarrow> ('a \<times> kernel) res" where
  "on_machine f = on_mm (\<lambda>s. andthen (f (mvm s)) (\<lambda>(x, m). Inr (x, s\<lparr>mvm := m\<rparr>)))"

definition set_pd :: "nat \<Rightarrow> u32 \<Rightarrow> kernel \<Rightarrow> kernel res" where
  "set_pd p d = do_mm (upd_pmm p (\<lambda>v. v\<lparr>pd := d\<rparr>))"

definition add_thread :: "nat \<Rightarrow> nat \<Rightarrow> kernel \<Rightarrow> kernel res" where
  "add_thread p t k =
     upd_thread t (\<lambda>v. v\<lparr>proc := Some p\<rparr>)
       (k\<lparr>process_threads := append_to_list (process_threads k) (Threads p) (ThreadNode t)\<rparr>)"

definition process_init :: "u32 \<Rightarrow> kernel \<Rightarrow> (nat \<times> kernel) res" where
  "process_init func k =
     (let k = k\<lparr>process_list := init_list (process_list k) ProcessList\<rparr> in
      andthen (alloc_process k) (\<lambda>(p, k).
      andthen (on_machine vmm_clone_pd k) (\<lambda>(d, k).
      andthen (set_pd p d k) (\<lambda>k.
      andthen (new_thread func False k) (\<lambda>(t, k).
      andthen (add_thread p t k) (\<lambda>k.
      andthen (upd_thread t (\<lambda>v. v\<lparr>regs := (regs v)\<lparr>r_eflags := EFL_INT\<rparr>\<rparr>) k) (\<lambda>k.
      let k = k\<lparr>esp0 := Some t, boot_thread := t, kfs := (kfs k)\<lparr>cur_th := t\<rparr>\<rparr> in
      andthen (switch_process p k) (\<lambda>k. Inr (p, k)))))))))"

text \<open>Every descriptor of the child gets one more user and its node is opened again.\<close>

fun share_descs :: "nat option list \<Rightarrow> kernel \<Rightarrow> kernel res" where
  "share_descs [] k = Inr k"
| "share_descs (None # r) k = share_descs r k"
| "share_descs (Some d # r) k =
     andthen (fd_get d k) (\<lambda>k.
     andthen (desc_of d k) (\<lambda>v.
     andthen (deref (ino v)) (\<lambda>n.
     andthen (on_fs (vfs_open n (fd_flags v)) k) (\<lambda>(_, k). share_descs r k))))"

definition fork_process :: "kernel \<Rightarrow> (nat \<times> kernel) res" where
  "fork_process k =
     andthen (current_proc k) (\<lambda>par.
     andthen (alloc_process k) (\<lambda>(ch, k).
     andthen (do_mm (procmm_fork par ch) k) (\<lambda>k.
     andthen (on_machine vmm_clone_pd k) (\<lambda>(d, k).
     andthen (set_pd ch d k) (\<lambda>k.
     andthen (proc_of par k) (\<lambda>pv.
     andthen (upd_proc ch (\<lambda>v. v\<lparr>fd := fd pv\<rparr>) k) (\<lambda>k.
     andthen (share_descs (fd pv) k) (\<lambda>k.
     andthen (upd_proc ch (\<lambda>v. v\<lparr>signal_handler := signal_handler pv\<rparr>) k) (\<lambda>k.
     let k = k\<lparr>signal_queue := init_list (signal_queue k) (SignalQueue ch)\<rparr> in
     andthen (deref (cmdline pv)) (\<lambda>cmd.
     andthen (upd_proc ch (\<lambda>v. v\<lparr>cmdline := Some cmd, p_parent := Some par, older_sibling := p_child pv\<rparr>) k) (\<lambda>k.
     andthen (case p_child pv of None \<Rightarrow> Inr k
              | Some o' \<Rightarrow> upd_proc o' (\<lambda>w. w\<lparr>younger_sibling := Some ch\<rparr>) k) (\<lambda>k.
     andthen (upd_proc par (\<lambda>v. v\<lparr>p_child := Some ch\<rparr>) k) (\<lambda>k.
     andthen (clone_thread (current k) k) (\<lambda>(t, k).
     andthen (add_thread ch t k) (\<lambda>k. Inr (ch, k))))))))))))))))"

end
