(* ===== verification/FdTable.thy ===== *)
theory FdTable imports Processes begin

text \<open>
  The invariant of the descriptor tables: the user count of a descriptor is the number of slots, over all
  processes, that hold it, and a descriptor without users is freed. \<open>same_tables\<close> is the relation of the steps that
  leave tables and counts alone.
\<close>

section \<open>Postconditions of code that may stop\<close>

definition ends :: "('a \<Rightarrow> bool) \<Rightarrow> 'a res \<Rightarrow> bool" where
  "ends P r \<longleftrightarrow> (\<forall>x. r = Inr x \<longrightarrow> P x)"

lemma ends_Inl [simp]: "ends P (Inl e)" by (simp add: ends_def)
lemma ends_Inr [simp]: "ends P (Inr x) \<longleftrightarrow> P x" by (simp add: ends_def)

lemma ends_andthen: "ends Q r \<Longrightarrow> (\<And>x. Q x \<Longrightarrow> ends P (f x)) \<Longrightarrow> ends P (andthen r f)"
  by (auto simp: ends_def andthen_eq_Inr)

lemma ends_self: "ends (\<lambda>x. r = Inr x) r"
  by (simp add: ends_def)

lemma endsD: "ends P r \<Longrightarrow> r = Inr x \<Longrightarrow> P x"
  by (simp add: ends_def)

lemma ends_mono: "ends P r \<Longrightarrow> (\<And>x. P x \<Longrightarrow> Q x) \<Longrightarrow> ends Q r"
  by (simp add: ends_def)

section \<open>Counting\<close>

lemma count_list_upd:
  "i < length xs \<Longrightarrow> count_list (xs[i := x]) y + (if xs ! i = y then 1 else 0) =
    count_list xs y + (if x = y then 1 else 0)"
proof (induction xs arbitrary: i)
  case (Cons a xs)
  show ?case
  proof (cases i)
    case (Suc j)
    then have "j < length xs" using Cons.prems by simp
    from Cons.IH [OF this] Suc show ?thesis by auto
  qed auto
qed simp

definition refs :: "kernel \<Rightarrow> nat \<Rightarrow> nat" where
  "refs k d = (\<Sum>p\<in>dom (procs k). count_list (fd (the (procs k p))) (Some d))"

definition users_of :: "kernel \<Rightarrow> nat \<Rightarrow> nat" where
  "users_of k d = (case descs k d of None \<Rightarrow> 0 | Some v \<Rightarrow> unat (fd_users v))"

text \<open>Everything of the invariant but the counts.\<close>

definition fd_shape :: "kernel \<Rightarrow> bool" where
  "fd_shape k \<longleftrightarrow> finite (dom (procs k)) \<and> card (dom (procs k)) < 2 ^ 23 \<and>
     (\<forall>p v. procs k p = Some v \<longrightarrow> length (fd v) = NUM_FILEDES) \<and>
     (\<forall>n\<ge>next_obj k. descs k n = None \<and> procs k n = None)"

definition fd_ok :: "kernel \<Rightarrow> bool" where
  "fd_ok k \<longleftrightarrow> fd_shape k \<and> (\<forall>d. users_of k d = refs k d) \<and> (\<forall>d v. descs k d = Some v \<longrightarrow> fd_users v \<noteq> 0)"

definition same_tables :: "kernel \<Rightarrow> kernel \<Rightarrow> bool" where
  "same_tables k k' \<longleftrightarrow> (\<forall>p. map_option fd (procs k' p) = map_option fd (procs k p)) \<and>
     (\<forall>d. map_option fd_users (descs k' d) = map_option fd_users (descs k d)) \<and> next_obj k \<le> next_obj k'"

lemma same_tables_refl [simp, intro]: "same_tables k k"
  by (simp add: same_tables_def)

lemma same_tables_trans [trans]: "same_tables k k' \<Longrightarrow> same_tables k' k'' \<Longrightarrow> same_tables k k''"
  by (auto simp: same_tables_def)

lemma same_tables_dom: "same_tables k k' \<Longrightarrow> dom (procs k') = dom (procs k)"
  unfolding same_tables_def dom_def by (metis (mono_tags, opaque_lifting) option.map_disc_iff)

lemma same_tables_proc:
  assumes "same_tables k k'" shows "procs k' p = Some v' \<Longrightarrow> \<exists>v. procs k p = Some v \<and> fd v = fd v'"
proof -
  assume "procs k' p = Some v'"
  moreover have "map_option fd (procs k' p) = map_option fd (procs k p)" using assms by (simp add: same_tables_def)
  ultimately show ?thesis by (cases "procs k p") auto
qed

lemma same_tables_none: "same_tables k k' \<Longrightarrow> descs k n = None \<longleftrightarrow> descs k' n = None"
  unfolding same_tables_def by (metis option.map_disc_iff)

lemma same_refs: "same_tables k k' \<Longrightarrow> refs k' d = refs k d"
proof -
  assume t: "same_tables k k'"
  have "fd (the (procs k' p)) = fd (the (procs k p))" if "p \<in> dom (procs k')" for p
    using that same_tables_proc [OF t] by (metis domD option.sel)
  then show ?thesis unfolding refs_def same_tables_dom [OF t, symmetric] by (intro sum.cong) auto
qed

lemma same_users: "same_tables k k' \<Longrightarrow> users_of k' d = users_of k d"
proof -
  assume "same_tables k k'"
  then have "map_option fd_users (descs k' d) = map_option fd_users (descs k d)" by (simp add: same_tables_def)
  then show ?thesis by (cases "descs k' d"; cases "descs k d") (auto simp: users_of_def)
qed

lemma fd_shape_same: "fd_shape k \<Longrightarrow> same_tables k k' \<Longrightarrow> fd_shape k'"
proof -
  assume s: "fd_shape k" and t: "same_tables k k'"
  have "next_obj k \<le> next_obj k'" using t by (simp add: same_tables_def)
  moreover have "procs k' n = None" if "procs k n = None" for n
    using that same_tables_dom [OF t] by blast
  ultimately show ?thesis
    using s same_tables_dom [OF t] same_tables_none [OF t] unfolding fd_shape_def
    by (metis same_tables_proc [OF t] le_trans)
qed

lemma fd_ok_same: "fd_ok k \<Longrightarrow> same_tables k k' \<Longrightarrow> fd_ok k'"
proof -
  assume f: "fd_ok k" and t: "same_tables k k'"
  have "fd_users v \<noteq> 0" if "descs k' d = Some v" for d v
  proof -
    have "map_option fd_users (descs k d) = Some (fd_users v)" using t that unfolding same_tables_def
      by (metis option.simps(9))
    then show ?thesis using f by (auto simp: fd_ok_def)
  qed
  then show ?thesis
    using f fd_shape_same [OF _ t] same_refs [OF t] same_users [OF t] unfolding fd_ok_def by metis
qed

text \<open>The number of references fits a counter.\<close>

lemma refs_bound: "fd_shape k \<Longrightarrow> refs k d < 2 ^ 31"
proof -
  assume s: "fd_shape k"
  have "refs k d \<le> (\<Sum>p\<in>dom (procs k). NUM_FILEDES)"
    unfolding refs_def
  proof (rule sum_mono)
    fix p assume "p \<in> dom (procs k)"
    then have "length (fd (the (procs k p))) = NUM_FILEDES" using s by (auto simp: fd_shape_def)
    then show "count_list (fd (the (procs k p))) (Some d) \<le> NUM_FILEDES" using count_le_length by metis
  qed
  then have "refs k d \<le> card (dom (procs k)) * 256" by (simp add: NUM_FILEDES_def)
  then show ?thesis using s by (simp add: fd_shape_def)
qed

lemma refs_put:
  assumes f: "finite (dom (procs k))" and p: "procs k p = Some v" and i: "i < length (fd v)"
  shows "refs (put_proc p (v\<lparr>fd := (fd v)[i := x]\<rparr>) k) d + (if fd v ! i = Some d then 1 else 0) =
    refs k d + (if x = Some d then 1 else 0)"
proof -
  let ?k = "put_proc p (v\<lparr>fd := (fd v)[i := x]\<rparr>) k"
  have dom: "dom (procs ?k) = dom (procs k)" using p by (auto simp: put_proc_def)
  have "refs ?k d = count_list ((fd v)[i := x]) (Some d) +
      (\<Sum>q\<in>dom (procs k) - {p}. count_list (fd (the (procs k q))) (Some d))"
    unfolding refs_def dom using f p
    by (subst sum.remove [of _ p]) (auto simp: put_proc_def intro!: sum.cong)
  moreover have "refs k d = count_list (fd v) (Some d) +
      (\<Sum>q\<in>dom (procs k) - {p}. count_list (fd (the (procs k q))) (Some d))"
    unfolding refs_def using f p by (subst sum.remove [of _ p]) auto
  ultimately show ?thesis using count_list_upd [OF i, of x "Some d"] by simp
qed


section \<open>One slot changes\<close>

lemma fd_ok_change:
  assumes f: "fd_ok k" and p: "procs k p = Some v" and i: "i < NUM_FILEDES"
    and k': "procs k' = (procs k)(p \<mapsto> v\<lparr>fd := (fd v)[i := y]\<rparr>)"
    and count: "\<And>e. users_of k' e + (if fd v ! i = Some e then 1 else 0) = users_of k e + (if y = Some e then 1 else 0)"
    and live: "\<And>e w. descs k' e = Some w \<Longrightarrow> fd_users w \<noteq> 0"
    and fresh: "next_obj k \<le> next_obj k'" "\<And>n. next_obj k' \<le> n \<Longrightarrow> descs k' n = None"
  shows "fd_ok k'"
proof -
  have sh: "fd_shape k" using f by (simp add: fd_ok_def)
  then have fin: "finite (dom (procs k))" and len: "length (fd v) = NUM_FILEDES"
    using p by (auto simp: fd_shape_def)
  have d: "dom (procs k') = dom (procs k)" using p by (auto simp: k')
  have pn: "p < next_obj k"
  proof (rule ccontr)
    assume "\<not> p < next_obj k"
    then have "procs k p = None" using sh by (simp add: fd_shape_def)
    then show False using p by simp
  qed
  have shape: "fd_shape k'"
    using sh d fresh pn len unfolding fd_shape_def k' by auto
  have "refs k' e = refs (put_proc p (v\<lparr>fd := (fd v)[i := y]\<rparr>) k) e" for e
    by (simp add: refs_def k' put_proc_def)
  then have "refs k' e + (if fd v ! i = Some e then 1 else 0) = refs k e + (if y = Some e then 1 else 0)" for e
    using refs_put [OF fin p, of i y e] i len by simp
  then have "users_of k' e = refs k' e" for e
    using count [of e] f by (metis add_right_cancel fd_ok_def)
  then show ?thesis using shape live by (simp add: fd_ok_def)
qed

lemma set_slot_eq:
  "procs k p = Some v \<Longrightarrow> set_slot p i x k = Inr (put_proc p (v\<lparr>fd := (fd v)[i := x]\<rparr>) k)"
  by (simp add: set_slot_def upd_proc_def proc_of_def)

lemma fd_get_eq:
  "descs k d = Some w \<Longrightarrow> fd_get d k = Inr (k\<lparr>descs := (descs k)(d \<mapsto> w\<lparr>fd_users := fd_users w + 1\<rparr>)\<rparr>)"
  by (simp add: fd_get_def upd_desc_def desc_of_def)

lemma fd_put_eq:
  "descs k d = Some w \<Longrightarrow> fd_put d k = Inr (k\<lparr>descs := (descs k)(d := if fd_users w = 1 then None
     else Some (w\<lparr>fd_users := fd_users w - 1\<rparr>))\<rparr>)"
  by (auto simp: fd_put_def upd_desc_def desc_of_def)

lemma held_desc:
  assumes f: "fd_ok k" and p: "procs k p = Some v" and i: "i < NUM_FILEDES" "fd v ! i = Some d"
  shows "\<exists>w. descs k d = Some w"
proof (rule ccontr)
  assume "\<nexists>w. descs k d = Some w"
  then have "users_of k d = 0" by (simp add: users_of_def)
  then have "refs k d = 0" using f by (simp add: fd_ok_def)
  moreover have "finite (dom (procs k))" "length (fd v) = NUM_FILEDES" using f p by (auto simp: fd_ok_def fd_shape_def)
  ultimately have "count_list (fd v) (Some d) = 0" using p unfolding refs_def
    by (metis (no_types, lifting) domI option.sel sum_eq_0_iff)
  moreover have "Some d \<in> set (fd v)" using i \<open>length (fd v) = _\<close> by (metis nth_mem)
  ultimately show False by (simp add: count_list_0_iff)
qed

lemma users_word:
  assumes "fd_ok k" and "descs k d = Some w"
  shows "unat (fd_users w + 1) = unat (fd_users w) + 1" "unat (fd_users w - 1) = unat (fd_users w) - 1"
    "fd_users w \<noteq> 0"
proof -
  have "unat (fd_users w) < 2 ^ 31"
    using assms refs_bound [of k d] by (auto simp: fd_ok_def users_of_def split: option.splits)
  then show "unat (fd_users w + 1) = unat (fd_users w) + 1" by (subst unat_add_lem [THEN iffD1]) auto
  show nz: "fd_users w \<noteq> 0" using assms by (auto simp: fd_ok_def)
  then show "unat (fd_users w - 1) = unat (fd_users w) - 1" by (simp add: unat_minus_one)
qed

lemma link_slot:
  assumes f: "fd_ok k" and p: "procs k p = Some v" and i: "i < NUM_FILEDES" "fd v ! i = None"
    and d: "descs k d = Some w"
  shows "\<exists>k'. andthen (set_slot p i (Some d) k) (fd_get d) = Inr k' \<and> fd_ok k' \<and>
    procs k' = (procs k)(p \<mapsto> v\<lparr>fd := (fd v)[i := Some d]\<rparr>) \<and> kfs k' = kfs k \<and> kmm k' = kmm k \<and> threads k' = threads k \<and>
    kernel_booted k' = kernel_booted k \<and>
    descs k' = (descs k)(d \<mapsto> w\<lparr>fd_users := fd_users w + 1\<rparr>)"
proof -
  let ?k = "put_proc p (v\<lparr>fd := (fd v)[i := Some d]\<rparr>) k"
  let ?k' = "?k\<lparr>descs := (descs k)(d \<mapsto> w\<lparr>fd_users := fd_users w + 1\<rparr>)\<rparr>"
  note u = users_word [OF f d]
  have nz: "fd_users w + 1 \<noteq> 0" using u(1) by (metis add_eq_0_iff_both_eq_0 one_neq_zero unat_0)
  have "fd_ok ?k'"
  proof (rule fd_ok_change [OF f p i(1)])
    show "procs ?k' = (procs k)(p \<mapsto> v\<lparr>fd := (fd v)[i := Some d]\<rparr>)" by (simp add: put_proc_def)
    show "users_of ?k' e + (if fd v ! i = Some e then 1 else 0) = users_of k e + (if Some d = Some e then 1 else 0)" for e
      using u(1) i(2) d by (auto simp: users_of_def)
    show "fd_users x \<noteq> 0" if "descs ?k' e = Some x" for e x
      using that nz f by (auto simp: fd_ok_def split: if_splits)
    show "next_obj k \<le> next_obj ?k'" by (simp add: put_proc_def)
    show "descs ?k' n = None" if "next_obj ?k' \<le> n" for n
      using that f d by (auto simp: fd_ok_def fd_shape_def put_proc_def)
  qed
  moreover have "andthen (set_slot p i (Some d) k) (fd_get d) = Inr ?k'"
    using fd_get_eq [of ?k d w] d by (simp add: set_slot_eq [of k p v] p put_proc_def)
  ultimately show ?thesis by (intro exI [of _ ?k']) (simp add: put_proc_def)
qed


section \<open>Taking and dropping slots\<close>

lemma first_free_Some: "first_free xs = Some i \<longleftrightarrow> i < length xs \<and> xs ! i = None \<and> (\<forall>j<i. xs ! j \<noteq> None)"
proof (induction xs arbitrary: i)
  case (Cons x xs)
  show ?case
  proof (cases x)
    case None
    then show ?thesis by (cases i) auto
  next
    case (Some d)
    then show ?thesis using Cons.IH by (cases i) (auto simp: less_Suc_eq_0_disj)
  qed
qed simp

lemma first_free_None: "first_free xs = None \<longleftrightarrow> None \<notin> set xs"
  by (induction xs rule: first_free.induct) auto

lemma grab_slot_ok:
  assumes f: "fd_ok k" and p: "procs k p = Some v" and free: "first_free (fd v) = Some i"
  defines "d \<equiv> next_obj k"
  shows "\<exists>k'. grab_slot p k = Inr (Some (i, d), k') \<and> fd_ok k' \<and> i < NUM_FILEDES \<and>
    procs k' = (procs k)(p \<mapsto> v\<lparr>fd := (fd v)[i := Some d]\<rparr>) \<and> kfs k' = kfs k \<and> kmm k' = kmm k \<and> threads k' = threads k \<and>
    kernel_booted k' = kernel_booted k \<and>
    descs k' = (descs k)(d \<mapsto> \<lparr>ino = None, offset = 0, fd_flags = 0, fd_users = 1\<rparr>)"
proof -
  let ?w = "\<lparr>ino = None, offset = 0, fd_flags = 0, fd_users = 1 :: u32\<rparr>"
  have len: "length (fd v) = NUM_FILEDES" and dn: "descs k d = None"
    using f p by (auto simp: fd_ok_def fd_shape_def d_def)
  have i: "i < NUM_FILEDES" "fd v ! i = None" using free len by (auto simp: first_free_Some)
  let ?k = "(snd (new_desc k))\<lparr>procs := (procs k)(p \<mapsto> v\<lparr>fd := (fd v)[i := Some d]\<rparr>)\<rparr>"
  let ?k' = "?k\<lparr>descs := (descs k)(d \<mapsto> ?w)\<rparr>"
  have "grab_slot p k = Inr (Some (i, d), ?k')"
    using p free
    by (simp add: grab_slot_def proc_of_def new_desc_def set_slot_def upd_proc_def put_proc_def
        fd_get_def upd_desc_def desc_of_def d_def Let_def)
  moreover have "fd_ok ?k'"
  proof (rule fd_ok_change [OF f p i(1)])
    show "procs ?k' = (procs k)(p \<mapsto> v\<lparr>fd := (fd v)[i := Some d]\<rparr>)" by simp
    show "users_of ?k' e + (if fd v ! i = Some e then 1 else 0) = users_of k e + (if Some d = Some e then 1 else 0)" for e
      using i(2) dn by (auto simp: users_of_def)
    show "fd_users x \<noteq> 0" if "descs ?k' e = Some x" for e x
      using that f by (auto simp: fd_ok_def split: if_splits)
    show "next_obj k \<le> next_obj ?k'" by (simp add: new_desc_def)
    show "descs ?k' n = None" if "next_obj ?k' \<le> n" for n
      using that f by (auto simp: fd_ok_def fd_shape_def new_desc_def d_def)
  qed
  ultimately show ?thesis using i(1) by (intro exI [of _ ?k']) (simp add: new_desc_def)
qed

lemma grab_slot_full:
  "procs k p = Some v \<Longrightarrow> first_free (fd v) = None \<Longrightarrow> grab_slot p k = Inr (None, k)"
  by (simp add: grab_slot_def proc_of_def)

lemma drop_slot_ok:
  assumes f: "fd_ok k" and p: "procs k p = Some v" and i: "i < NUM_FILEDES" "fd v ! i = Some d"
    and d: "descs k d = Some w"
  shows "\<exists>k'. drop_slot p i d k = Inr k' \<and> fd_ok k' \<and>
    procs k' = (procs k)(p \<mapsto> v\<lparr>fd := (fd v)[i := None]\<rparr>) \<and> kfs k' = kfs k \<and> kmm k' = kmm k \<and> threads k' = threads k \<and>
    kernel_booted k' = kernel_booted k \<and>
    descs k' = (descs k)(d := if fd_users w = 1 then None else Some (w\<lparr>fd_users := fd_users w - 1\<rparr>))"
proof -
  let ?D = "(descs k)(d := if fd_users w = 1 then None else Some (w\<lparr>fd_users := fd_users w - 1\<rparr>))"
  let ?k' = "put_proc p (v\<lparr>fd := (fd v)[i := None]\<rparr>) (k\<lparr>descs := ?D\<rparr>)"
  note u = users_word [OF f d]
  have one: "fd_users w = 1 \<longleftrightarrow> unat (fd_users w) = 1" by (metis unat_1 word_unat_eq_iff)
  have "fd_ok ?k'"
  proof (rule fd_ok_change [OF f p i(1)])
    show "procs ?k' = (procs k)(p \<mapsto> v\<lparr>fd := (fd v)[i := None]\<rparr>)" by (simp add: put_proc_def)
    have "0 < unat (fd_users w)" using u(3) by (simp add: word_neq_0_conv unat_gt_0)
    then show "users_of ?k' e + (if fd v ! i = Some e then 1 else 0) = users_of k e + (if None = Some e then 1 else 0)" for e
      using u(2) i(2) d one by (auto simp: users_of_def put_proc_def)
    show "fd_users x \<noteq> 0" if "descs ?k' e = Some x" for e x
      using that f by (auto simp: fd_ok_def put_proc_def split: if_splits)
    show "next_obj k \<le> next_obj ?k'" by (simp add: put_proc_def)
    show "descs ?k' n = None" if "next_obj ?k' \<le> n" for n
      using that f d by (auto simp: fd_ok_def fd_shape_def put_proc_def)
  qed
  moreover have "drop_slot p i d k = Inr ?k'"
    using p d by (simp add: drop_slot_def fd_put_eq set_slot_eq [of _ p v])
  ultimately show ?thesis by (intro exI [of _ ?k']) (simp add: put_proc_def)
qed


section \<open>Steps that leave tables and counts alone\<close>

lemma fd_ok_upd [simp]:
  "fd_ok (k\<lparr>kfs := s\<rparr>) = fd_ok k" "fd_ok (k\<lparr>kmm := m\<rparr>) = fd_ok k" "fd_ok (k\<lparr>threads := t\<rparr>) = fd_ok k"
  "fd_ok (k\<lparr>signals := g\<rparr>) = fd_ok k" "fd_ok (k\<lparr>process_list := a\<rparr>) = fd_ok k"
  "fd_ok (k\<lparr>process_threads := b\<rparr>) = fd_ok k" "fd_ok (k\<lparr>signal_queue := c\<rparr>) = fd_ok k"
  by (simp_all add: fd_ok_def fd_shape_def users_of_def refs_def)

lemma kerrno_fields [simp]:
  "fd_ok (kerrno e k) = fd_ok k" "procs (kerrno e k) = procs k" "descs (kerrno e k) = descs k"
  "threads (kerrno e k) = threads k" "kmm (kerrno e k) = kmm k" "kernel_booted (kerrno e k) = kernel_booted k"
  "next_obj (kerrno e k) = next_obj k"
  by (simp_all add: kerrno_def)

lemma on_fsD: "on_fs f k = Inr (x, k') \<Longrightarrow> \<exists>s. k' = k\<lparr>kfs := s\<rparr>"
  by (auto simp: on_fs_def andthen_eq_Inr)

lemma do_fsD: "do_fs f k = Inr k' \<Longrightarrow> \<exists>s. k' = k\<lparr>kfs := s\<rparr>"
  by (auto simp: do_fs_def andthen_eq_Inr)

lemma do_schedD: "do_sched f k = Inr k' \<Longrightarrow> \<exists>s. k' = k\<lparr>kfs := s\<rparr>"
  by (auto simp: do_sched_def dest: do_fsD)

lemma on_mmD: "on_mm f k = Inr (x, k') \<Longrightarrow> \<exists>s. k' = k\<lparr>kmm := s\<rparr>"
  by (auto simp: on_mm_def andthen_eq_Inr)

lemma do_mmD: "do_mm f k = Inr k' \<Longrightarrow> \<exists>s. k' = k\<lparr>kmm := s\<rparr>"
  by (auto simp: do_mm_def andthen_eq_Inr)

lemmas partD = on_fsD do_fsD do_schedD on_mmD do_mmD

lemma upd_desc_keeps:
  assumes "upd_desc d f k = Inr k'" and "fd_ok k" and "\<And>v. fd_users (f v) = fd_users v"
  shows "fd_ok k' \<and> procs k' = procs k"
proof -
  obtain v where v: "descs k d = Some v" "k' = k\<lparr>descs := (descs k)(d \<mapsto> f v)\<rparr>"
    using assms(1) by (auto simp: upd_desc_def desc_of_def andthen_eq_Inr deref_def split: option.splits)
  then have "same_tables k k'" using assms(3) by (auto simp: same_tables_def)
  then show ?thesis using fd_ok_same [OF assms(2)] v by auto
qed

lemma drop_slotD:
  assumes "drop_slot p i d k = Inr k'" "fd_ok k" "procs k p = Some v" "i < NUM_FILEDES" "fd v ! i = Some d"
  shows "fd_ok k' \<and> procs k' = (procs k)(p \<mapsto> v\<lparr>fd := (fd v)[i := None]\<rparr>)"
proof -
  obtain w where "descs k d = Some w" using held_desc [OF assms(2-5)] by blast
  from drop_slot_ok [OF assms(2-5) this] assms(1) show ?thesis by auto
qed

lemma slot_ofD:
  assumes "slot_of p file k = Inr s"
  shows "\<exists>v. procs k p = Some v \<and> unat file < NUM_FILEDES \<and> fd v ! unat file = s"
proof -
  obtain v i where v: "procs k p = Some v" "slot_index file = Inr i" "fd v ! i = s"
    using assms by (auto simp: slot_of_def proc_of_def andthen_eq_Inr deref_def split: option.splits)
  then have "i = unat file" "0 \<le> sint file" "sint file < int NUM_FILEDES"
    by (auto simp: slot_index_def split: if_splits)
  moreover have "uint file = sint file"
    using \<open>0 \<le> sint file\<close> \<open>sint file < _\<close> by (simp add: uint_sint take_bit_int_eq_self NUM_FILEDES_def)
  ultimately show ?thesis using v by (auto simp: unat_eq_nat_uint NUM_FILEDES_def)
qed

lemma desc_atD:
  assumes "desc_at p file k = Inr (d, w)"
  shows "\<exists>v. procs k p = Some v \<and> unat file < NUM_FILEDES \<and> fd v ! unat file = Some d \<and> descs k d = Some w"
proof -
  have "slot_of p file k = Inr (Some d)" "descs k d = Some w"
    using assms by (auto simp: desc_at_def desc_of_def andthen_eq_Inr deref_def split: option.splits)
  then show ?thesis using slot_ofD by fastforce
qed

section \<open>The calls keep the invariant\<close>

lemma sys_close_held:
  assumes r: "sys_close file k = Inr (r, k')" and f: "fd_ok k" and c: "current_proc k = Inr p"
    and a: "desc_at p file k = Inr (d, w)" and v: "procs k p = Some v"
  shows "fd_ok k' \<and> (ino w \<noteq> None \<longrightarrow> procs k' = (procs k)(p \<mapsto> v\<lparr>fd := (fd v)[unat file := None]\<rparr>))"
proof (cases "ino w")
  case None
  then show ?thesis using f r by (auto simp: sys_close_def c a)
next
  case (Some n)
  have h: "unat file < NUM_FILEDES" "fd v ! unat file = Some d"
    using desc_atD [OF a] v by auto
  obtain k1 k2 where k: "on_fs (vfs_close n) k = Inr (r, k1)" "do_fs (vfs_free n) k1 = Inr k2"
    "drop_slot p (unat file) d k2 = Inr k'"
    using r by (auto simp: sys_close_def c a Some andthen_eq_Inr)
  obtain s where s: "k2 = k\<lparr>kfs := s\<rparr>" using partD(1) [OF k(1)] partD(2) [OF k(2)] by auto
  then show ?thesis using drop_slotD [OF k(3) _ _ h] f v by simp
qed

lemma sys_close_ok: "sys_close file k = Inr (r, k') \<Longrightarrow> fd_ok k \<Longrightarrow> fd_ok k'"
proof -
  assume r: "sys_close file k = Inr (r, k')" and f: "fd_ok k"
  then obtain p d w where c: "current_proc k = Inr p" "desc_at p file k = Inr (d, w)"
    by (auto simp: sys_close_def andthen_eq_Inr)
  then obtain v where "procs k p = Some v" using desc_atD by blast
  from sys_close_held [OF r f c this] show "fd_ok k'" by simp
qed

lemma proc_ofD: "proc_of p k = Inr v \<Longrightarrow> procs k p = Some v"
  by (auto simp: proc_of_def deref_def split: option.splits)

lemma grab_slotD:
  assumes "grab_slot p k = Inr (g, k')" and "fd_ok k"
  shows "fd_ok k' \<and> (case g of
      None \<Rightarrow> k' = k \<and> (\<exists>v. procs k p = Some v \<and> None \<notin> set (fd v))
    | Some (i, d) \<Rightarrow> i < NUM_FILEDES \<and> (\<exists>v. procs k p = Some v \<and> first_free (fd v) = Some i \<and>
        procs k' = (procs k)(p \<mapsto> v\<lparr>fd := (fd v)[i := Some d]\<rparr>)) \<and> descs k' d \<noteq> None)"
proof -
  obtain v where v: "procs k p = Some v" using assms(1) by (auto simp: grab_slot_def andthen_eq_Inr dest: proc_ofD)
  show ?thesis
  proof (cases "first_free (fd v)")
    case None
    then show ?thesis using grab_slot_full [OF v None] assms v by (auto simp: first_free_None)
  next
    case (Some i)
    from grab_slot_ok [OF assms(2) v Some] assms(1) v Some show ?thesis by auto
  qed
qed

lemma sys_open_ok:
  assumes r: "sys_open addr path mode k = Inr (r, k')" and f: "fd_ok k" shows "fd_ok k'"
proof -
  consider "k' = kerrno EFAULT k"
    | p g k1 where "current_proc k = Inr p" "grab_slot p k = Inr (g, k1)"
    using r by (auto simp: sys_open_def andthen_eq_Inr split: if_splits)
  then show ?thesis
  proof cases
    case 1
    then show ?thesis using f by simp
  next
    case (2 p g k1)
    note g = grab_slotD [OF 2(2) f]
    show ?thesis
    proof (cases g)
      case None
      then show ?thesis using r 2 g f by (auto simp: sys_open_def andthen_eq_Inr split: if_splits)
    next
      case (Some x)
      obtain i d where x: "x = (i, d)" by fastforce
      obtain v where v: "procs k1 p = Some v" "i < NUM_FILEDES" "fd v ! i = Some d" "fd_ok k1"
        using g Some x f by (auto simp: first_free_Some)
      have dropped: "fd_ok k3" if "drop_slot p i d (k1\<lparr>kfs := s\<rparr>) = Inr k3" for s k3
        using drop_slotD [OF that, of v] v by simp
      have upd: "fd_ok k3" if "upd_desc d (\<lambda>v. v\<lparr>ino := Some n, offset := 0, fd_flags := mode\<rparr>) (k1\<lparr>kfs := s\<rparr>) = Inr k3" for n s k3
        using upd_desc_keeps [OF that] v by simp
      show ?thesis
        using r 2 Some x f
        by (auto simp: sys_open_def andthen_eq_Inr kerrno_def split: if_splits option.splits
            dest!: partD) (rule dropped upd, assumption)+
    qed
  qed
qed


section \<open>No descriptor without a node\<close>

definition all_open :: "kernel \<Rightarrow> bool" where
  "all_open k \<longleftrightarrow> (\<forall>d v. descs k d = Some v \<longrightarrow> ino v \<noteq> None)"

definition table_ok :: "kernel \<Rightarrow> bool" where
  "table_ok k \<longleftrightarrow> fd_ok k \<and> all_open k"

lemma all_open_upd [simp]:
  "all_open (k\<lparr>kfs := s\<rparr>) = all_open k" "all_open (k\<lparr>kmm := m\<rparr>) = all_open k"
  "all_open (kerrno e k) = all_open k" "all_open (put_proc p v k) = all_open k"
  by (simp_all add: all_open_def kerrno_def put_proc_def)

lemma desc_ofD: "desc_of d k = Inr v \<Longrightarrow> descs k d = Some v"
  by (auto simp: desc_of_def deref_def split: option.splits)

lemma upd_desc_open:
  "upd_desc d f k = Inr k' \<Longrightarrow> all_open k \<Longrightarrow> (\<And>v. ino v \<noteq> None \<Longrightarrow> ino (f v) \<noteq> None) \<Longrightarrow> all_open k'"
  by (auto simp: upd_desc_def andthen_eq_Inr all_open_def split: if_splits dest!: desc_ofD)

lemma fd_put_open: "fd_put d k = Inr k' \<Longrightarrow> all_open k \<Longrightarrow> all_open k'"
  unfolding fd_put_def
  by (auto simp: andthen_eq_Inr all_open_def split: if_splits dest!: upd_desc_open [of d _ k] desc_ofD)

lemma set_slot_open: "set_slot p i d k = Inr k' \<Longrightarrow> all_open k' = all_open k"
  by (auto simp: set_slot_def upd_proc_def andthen_eq_Inr)

lemma drop_slot_open: "drop_slot p i d k = Inr k' \<Longrightarrow> all_open k \<Longrightarrow> all_open k'"
  by (auto simp: drop_slot_def andthen_eq_Inr set_slot_open fd_put_open)

lemma sys_close_open: "sys_close file k = Inr (r, k') \<Longrightarrow> all_open k \<Longrightarrow> all_open k'"
  by (auto simp: sys_close_def andthen_eq_Inr split: option.splits dest!: partD)
    (rule drop_slot_open, assumption, simp)

lemma sys_close_table: "sys_close file k = Inr (r, k') \<Longrightarrow> table_ok k \<Longrightarrow> table_ok k'"
  using sys_close_ok sys_close_open by (auto simp: table_ok_def)

lemma grab_slot_desc:
  assumes "grab_slot p k = Inr (Some (i, d), k')" and "fd_ok k"
  shows "descs k' = (descs k)(d \<mapsto> \<lparr>ino = None, offset = 0, fd_flags = 0, fd_users = 1\<rparr>) \<and> descs k d = None"
proof -
  obtain v where v: "procs k p = Some v" "first_free (fd v) = Some i" using grab_slotD [OF assms] by auto
  from grab_slot_ok [OF assms(2) v] assms show ?thesis by (auto simp: fd_ok_def fd_shape_def)
qed

lemma link_slot_done:
  assumes "andthen (set_slot p i (Some d) k) (fd_get d) = Inr k'" and "fd_ok k" and "procs k p = Some v"
    and "i < NUM_FILEDES" "fd v ! i = None" and "descs k d = Some w"
  shows "fd_ok k' \<and> procs k' = (procs k)(p \<mapsto> v\<lparr>fd := (fd v)[i := Some d]\<rparr>)"
  using link_slot [of k p v i d w] assms by auto

lemma sys_dup_ok:
  assumes r: "sys_dup file k = Inr (r, k')" and t: "fd_ok k" shows "fd_ok k'"
proof -
  obtain p s where ps: "current_proc k = Inr p" "slot_of p file k = Inr s"
    using r by (auto simp: sys_dup_def andthen_eq_Inr)
  obtain v where v: "procs k p = Some v" "unat file < NUM_FILEDES" "fd v ! unat file = s"
    using slot_ofD [OF ps(2)] by blast
  then have pv: "proc_of p k = Inr v" by (simp add: proc_of_def)
  show ?thesis
  proof (cases s)
    case None
    then show ?thesis using r ps t by (auto simp: sys_dup_def)
  next
    case (Some d)
    obtain w where w: "descs k d = Some w" using held_desc [of k p v "unat file" d] t v Some by auto
    show ?thesis
    proof (cases "first_free (fd v)")
      case None
      then show ?thesis using r ps Some pv t by (auto simp: sys_dup_def)
    next
      case i: (Some i)
      have "length (fd v) = NUM_FILEDES" using t v by (auto simp: fd_ok_def fd_shape_def)
      moreover obtain k1 where "andthen (set_slot p i (Some d) k) (fd_get d) = Inr k1" "k' = k1"
        using r ps Some pv i by (auto simp: sys_dup_def andthen_eq_Inr)
      ultimately show ?thesis using link_slot_done [of p i d k k1 v w] t v w i by (auto simp: first_free_Some)
    qed
  qed
qed


lemma current_proc_eq: "cur_th (kfs k') = cur_th (kfs k) \<Longrightarrow> threads k' = threads k \<Longrightarrow> current_proc k' = current_proc k"
  by (simp add: current_proc_def current_def thread_of_def)

text \<open>\<open>dup2\<close> closes what the second number stands for; a slot whose descriptor has no node would not be closed.\<close>

definition leaked :: "kernel \<Rightarrow> i32 \<Rightarrow> bool" where
  "leaked k file \<longleftrightarrow> (\<exists>p d w. current_proc k = Inr p \<and> slot_of p file k = Inr (Some d) \<and> descs k d = Some w \<and> ino w = None)"

lemma sys_dup2_ok:
  assumes r: "sys_dup2 f1 f2 k = Inr (r, k')" and t: "fd_ok k" and nl: "\<not> leaked k f2" shows "fd_ok k'"
proof -
  note f = t
  obtain p s where ps: "current_proc k = Inr p" "slot_of p f1 k = Inr s"
    using r by (auto simp: sys_dup2_def andthen_eq_Inr)
  obtain v where v: "procs k p = Some v" "unat f1 < NUM_FILEDES" "fd v ! unat f1 = s"
    using slot_ofD [OF ps(2)] by blast
  show ?thesis
  proof (cases "k' = k \<or> k' = kerrno EBADF k \<or> k' = kerrno EMFILE k")
    case False
    have e1: "\<not> (s = None \<or> f2 <s 0)"
    proof
      assume "s = None \<or> f2 <s 0"
      from r [unfolded sys_dup2_def ps andthen_Inr if_P [OF this]] False show "False" by auto
    qed
    have e2: "\<not> of_nat NUM_FILEDES \<le>s f2"
    proof
      assume "of_nat NUM_FILEDES \<le>s f2"
      from r [unfolded sys_dup2_def ps andthen_Inr if_not_P [OF e1] if_P [OF this]] False show "False" by auto
    qed
    have e3: "f1 \<noteq> f2"
    proof
      assume "f1 = f2"
      from r [unfolded sys_dup2_def ps andthen_Inr if_not_P [OF e1] if_not_P [OF e2] if_P [OF this]] False
      show "False" by auto
    qed
    note early = e1 e2 e3
    obtain d where d: "s = Some d" using e1 by auto
    obtain s2 k1 k2 s3 d3 where st: "slot_of p f2 k = Inr s2"
      "(if s2 \<noteq> None then andthen (sys_close f2 k) (\<lambda>(_, k). Inr k) else Inr k) = Inr k1"
      "slot_of p f1 k1 = Inr s3" "set_slot p (unat f2) s3 k1 = Inr k2" "deref s3 = Inr d3" "fd_get d3 k2 = Inr k'"
      using r unfolding sys_dup2_def ps andthen_Inr if_not_P [OF early(1)] if_not_P [OF early(2)] if_not_P [OF early(3)]
      by (auto simp: andthen_eq_Inr split del: if_split)
    have v2: "unat f2 < NUM_FILEDES" "fd v ! unat f2 = s2"
      using slot_ofD [OF st(1)] v by auto
    have ne: "unat f1 \<noteq> unat f2" using early(3) by (metis word_unat_eq_iff)
    have len: "length (fd v) = NUM_FILEDES" using f v by (auto simp: fd_ok_def fd_shape_def)
    obtain v1 where v1: "procs k1 p = Some v1" "fd v1 ! unat f2 = None" "fd v1 ! unat f1 = Some d" "fd_ok k1"
    proof (cases s2)
      case None
      then show ?thesis using that [of v] st(2) v v2 t d by simp
    next
      case (Some d2)
      then obtain rc where cl: "sys_close f2 k = Inr (rc, k1)" using st(2) by (auto simp: andthen_eq_Inr)
      obtain w2 where w2: "descs k d2 = Some w2" using held_desc [OF f v(1) v2(1)] v2(2) Some by auto
      then have "desc_at p f2 k = Inr (d2, w2)" using st(1) Some by (simp add: desc_at_def desc_of_def)
      from sys_close_held [OF cl f ps(1) this v(1)]
      have "procs k1 = (procs k)(p \<mapsto> v\<lparr>fd := (fd v)[unat f2 := None]\<rparr>)"
        using nl ps(1) st(1) Some w2 by (auto simp: leaked_def)
      then show ?thesis
        using that [of "v\<lparr>fd := (fd v)[unat f2 := None]\<rparr>"] v v2 ne len d sys_close_ok [OF cl f] by simp
    qed
    have s3: "s3 = Some d" using slot_ofD [OF st(3)] v1 by auto
    obtain w where "descs k1 d = Some w" using held_desc [of k1 p v1 "unat f1" d] v1 v(2) by auto
    moreover have "andthen (set_slot p (unat f2) (Some d) k1) (fd_get d) = Inr k'" using st(4-6) s3 by simp
    ultimately show ?thesis using link_slot_done [of p "unat f2" d k1 k' v1 w] v1 v2(1) by simp
  qed (use t in auto)
qed


lemma upd_desc_ok:
  "upd_desc d f k = Inr k' \<Longrightarrow> fd_ok k \<Longrightarrow> (\<And>v. fd_users (f v) = fd_users v \<and> ino (f v) = ino v) \<Longrightarrow> fd_ok k'"
  using upd_desc_keeps [of d f k k'] by auto

lemma advance_ok: "advance d n k = Inr k' \<Longrightarrow> fd_ok k \<Longrightarrow> fd_ok k'"
  unfolding advance_def by (drule upd_desc_ok) auto

lemma sys_read_ok: "sys_read file ptr len k = Inr (r, k') \<Longrightarrow> fd_ok k \<Longrightarrow> fd_ok k'"
proof -
  assume r: "sys_read file ptr len k = Inr (r, k')" and t: "fd_ok k"
  show "fd_ok k'"
  proof (cases "k' = kerrno EFAULT k \<or> k' = kerrno EBADF k")
    case False
    obtain d n o1 k1 and v :: file_desc where c: "on_fs (vfs_read n len (offset v)) k = Inr (o1, k1)"
      "(case o1 of Sleeps w \<Rightarrow> Inr (Sleeps w, k1)
        | Returns (bs, ret) \<Rightarrow> andthen (advance d ret k1) (\<lambda>k. Inr (Returns (bs, ret), k))) = Inr (r, k')"
      using r False by (auto simp: sys_read_def andthen_eq_Inr split: if_splits option.splits)
    have "fd_ok k1" using partD(1) [OF c(1)] t by auto
    then show ?thesis using c(2) by (cases o1) (auto simp: andthen_eq_Inr dest: advance_ok)
  qed (use t in auto)
qed

lemma sys_write_ok: "sys_write file ptr buf k = Inr (r, k') \<Longrightarrow> fd_ok k \<Longrightarrow> fd_ok k'"
proof -
  assume r: "sys_write file ptr buf k = Inr (r, k')" and t: "fd_ok k"
  show "fd_ok k'"
  proof (cases "k' = kerrno EFAULT k \<or> k' = kerrno EBADF k")
    case False
    obtain d n o1 k1 and v :: file_desc where c: "on_fs (vfs_write n buf (offset v)) k = Inr (o1, k1)"
      "(case o1 of Sleeps w \<Rightarrow> Inr (Sleeps w, k1)
        | Returns ret \<Rightarrow> andthen (advance d ret k1) (\<lambda>k. Inr (Returns ret, k))) = Inr (r, k')"
      using r False by (auto simp: sys_write_def andthen_eq_Inr split: if_splits option.splits)
    have "fd_ok k1" using partD(1) [OF c(1)] t by auto
    then show ?thesis using c(2) by (cases o1) (auto simp: andthen_eq_Inr dest: advance_ok)
  qed (use t in auto)
qed

lemma sys_lseek_ok: "sys_lseek file ptr dir k = Inr (r, k') \<Longrightarrow> fd_ok k \<Longrightarrow> fd_ok k'"
proof -
  assume r: "sys_lseek file ptr dir k = Inr (r, k')" and t: "fd_ok k"
  show "fd_ok k'"
  proof (cases "k' = kerrno EBADF k \<or> k' = kerrno EINVAL k \<or> k' = kerrno ESPIPE k")
    case False
    obtain d off where c: "upd_desc d (\<lambda>v. v\<lparr>offset := off\<rparr>) k = Inr k'"
      using r False unfolding sys_lseek_def Let_def
      by (auto simp: andthen_eq_Inr split: if_split_asm option.split_asm)
    show ?thesis by (rule upd_desc_ok [OF c t]) simp
  qed (use t in auto)
qed

lemma sys_pipe_ok:
  assumes r: "sys_pipe g k = Inr (r, fds, k')" and f: "fd_ok k" shows "fd_ok k'"
proof -
  obtain p g1 ka g2 kb where gs: "current_proc k = Inr p" "grab_slot p k = Inr (g1, ka)" "grab_slot p ka = Inr (g2, kb)"
    using r by (auto simp: sys_pipe_def andthen_eq_Inr)
  have fa: "fd_ok ka" using grab_slotD [OF gs(2) f] by simp
  have fb: "fd_ok kb" using grab_slotD [OF gs(3) fa] by simp
  show ?thesis
  proof (cases "g1 = None \<or> g2 = None")
    case True
    then have "k' = kerrno EMFILE kb" using r gs by (auto simp: sys_pipe_def Let_def split: option.split_asm)
    then show ?thesis using fb by simp
  next
    case False
    then obtain i1 d1 i2 d2 where g: "g1 = Some (i1, d1)" "g2 = Some (i2, d2)" by auto
    obtain rd wr s where mk: "make_pipe 512 g (kfs kb) = (rd, wr, s)" by (metis prod_cases3)
    obtain k1 k2 k3 x y where st: "upd_desc d1 (\<lambda>v. v\<lparr>ino := Some rd, fd_flags := O_RDONLY\<rparr>) (kb\<lparr>kfs := s\<rparr>) = Inr k1"
      "on_fs (vfs_open rd O_RDONLY) k1 = Inr (x, k2)"
      "upd_desc d2 (\<lambda>v. v\<lparr>ino := Some wr, fd_flags := O_WRONLY\<rparr>) k2 = Inr k3"
      "on_fs (vfs_open wr O_WRONLY) k3 = Inr (y, k')"
      using r gs g mk by (auto simp: sys_pipe_def andthen_eq_Inr Let_def)
    have "fd_ok k1" using upd_desc_keeps [OF st(1)] fb by simp
    then have "fd_ok k2" using partD(1) [OF st(2)] by auto
    then have "fd_ok k3" using upd_desc_keeps [OF st(3)] by simp
    then show ?thesis using partD(1) [OF st(4)] by auto
  qed
qed

section \<open>Fork\<close>

text \<open>Steps that touch neither descriptors nor tables.\<close>

definition keeps :: "kernel \<Rightarrow> kernel \<Rightarrow> bool" where
  "keeps k k' \<longleftrightarrow> (\<forall>p. map_option fd (procs k' p) = map_option fd (procs k p)) \<and> descs k' = descs k \<and> next_obj k \<le> next_obj k'"

lemma keeps_refl [simp, intro]: "keeps k k"
  by (simp add: keeps_def)

lemma keeps_trans: "keeps k k' \<Longrightarrow> keeps k' k'' \<Longrightarrow> keeps k k''"
  by (simp add: keeps_def)

lemma keeps_ok: "keeps k k' \<Longrightarrow> fd_ok k \<Longrightarrow> fd_ok k'"
  using fd_ok_same [of k k'] by (auto simp: keeps_def same_tables_def)

lemma upd_proc_keeps: "upd_proc p f k = Inr k' \<Longrightarrow> (\<And>v. fd (f v) = fd v) \<Longrightarrow> keeps k k'"
  by (auto simp: upd_proc_def andthen_eq_Inr keeps_def put_proc_def dest!: proc_ofD)

lemma upd_thread_keeps: "upd_thread t f k = Inr k' \<Longrightarrow> keeps k k'"
  by (auto simp: upd_thread_def andthen_eq_Inr keeps_def)

lemma add_thread_keeps: "add_thread p t k = Inr k' \<Longrightarrow> keeps k k'"
  unfolding add_thread_def by (auto simp: upd_thread_def andthen_eq_Inr keeps_def)

lemma clone_thread_keeps: "clone_thread t k = Inr (n, k') \<Longrightarrow> keeps k k'"
  by (auto simp: clone_thread_def alloc_thread_def Let_def andthen_eq_Inr upd_thread_def thread_of_def keeps_def
      set_state_def set_tasks_def tasks_of_def split: prod.splits)

lemma alloc_process_new:
  assumes "alloc_process k = Inr (p, k')"
  shows "p = next_obj k \<and> procs k' = (procs k)(p \<mapsto> zero_process (next_pid k)) \<and> descs k' = descs k \<and>
    next_obj k' = Suc p"
  using assms by (auto simp: alloc_process_def Let_def andthen_eq_Inr do_mm_def put_proc_def set_tasks_def)

lemma alloc_process_ok:
  assumes a: "alloc_process k = Inr (p, k')" and t: "fd_ok k" and c: "Suc (card (dom (procs k))) < 2 ^ 23"
  shows "fd_ok k'"
proof -
  note n = alloc_process_new [OF a]
  have sh: "fd_shape k" using t by (simp add: fd_ok_def)
  then have fin: "finite (dom (procs k))" and new: "procs k p = None" using n by (auto simp: fd_shape_def)
  then have pd: "p \<notin> dom (procs k)" by auto
  have "fd_shape k'" using sh n c pd fin by (auto simp: fd_shape_def zero_process_def)
  moreover have "refs k' d = refs k d" for d
  proof -
    have "refs k' d = count_list (replicate NUM_FILEDES None) (Some d) +
        (\<Sum>q\<in>dom (procs k). count_list (fd (the (procs k' q))) (Some d))"
      unfolding refs_def using n pd fin by (simp add: zero_process_def)
    also have "(\<Sum>q\<in>dom (procs k). count_list (fd (the (procs k' q))) (Some d)) = refs k d"
      unfolding refs_def using n pd by (intro sum.cong) auto
    also have "count_list (replicate NUM_FILEDES None) (Some d) = 0" by (simp add: count_list_0_iff)
    finally show ?thesis by simp
  qed
  ultimately show ?thesis using t n by (auto simp: fd_ok_def users_of_def)
qed

lemma share_descs_users:
  "share_descs ds k = Inr k' \<Longrightarrow> \<forall>d. users_of k d + count_list ds (Some d) < 2 ^ 32 \<Longrightarrow>
    \<forall>d v. descs k d = Some v \<longrightarrow> fd_users v \<noteq> 0 \<Longrightarrow>
    procs k' = procs k \<and> next_obj k' = next_obj k \<and> (\<forall>d. descs k' d = None \<longleftrightarrow> descs k d = None) \<and>
    (\<forall>d. users_of k' d = users_of k d + count_list ds (Some d)) \<and> (\<forall>d v. descs k' d = Some v \<longrightarrow> fd_users v \<noteq> 0)"
proof (induction ds k arbitrary: k' rule: share_descs.induct)
  case (2 r k)
  then show ?case by auto
next
  case (3 d r k)
  obtain k1 v n x k2 where st: "fd_get d k = Inr k1" "desc_of d k1 = Inr v" "ino v = Some n"
    "on_fs (vfs_open n (fd_flags v)) k1 = Inr (x, k2)" "share_descs r k2 = Inr k'"
    using "3.prems"(1) by (auto simp: andthen_eq_Inr deref_def split: option.splits)
  obtain w where w: "descs k d = Some w" "k1 = k\<lparr>descs := (descs k)(d \<mapsto> w\<lparr>fd_users := fd_users w + 1\<rparr>)\<rparr>"
    using st(1) by (auto simp: fd_get_def upd_desc_def andthen_eq_Inr dest!: desc_ofD)
  have lim: "users_of k e + (if e = d then 1 else 0) + count_list r (Some e) < 2 ^ 32" for e
  proof -
    have "users_of k e + count_list (Some d # r) (Some e) < 2 ^ 32" using "3.prems"(2) by (rule spec)
    then show ?thesis by (cases "e = d") simp_all
  qed
  have ud: "users_of k d = unat (fd_users w)" by (simp add: users_of_def w(1))
  have "unat (fd_users w) + 1 < 2 ^ 32" using lim [of d] ud by simp
  then have u: "unat (fd_users w + 1) = unat (fd_users w) + 1"
    by (subst unat_add_lem [THEN iffD1]) auto
  have nz: "fd_users w + 1 \<noteq> 0"
  proof
    assume "fd_users w + 1 = 0"
    then show False using u by simp
  qed
  obtain s where s: "k2 = k1\<lparr>kfs := s\<rparr>" using partD(1) [OF st(4)] by auto
  have d2: "descs k2 = (descs k)(d \<mapsto> w\<lparr>fd_users := fd_users w + 1\<rparr>)" using s w(2) by simp
  have us: "users_of k2 e = users_of k e + (if e = d then 1 else 0)" for e
    by (cases "e = d") (simp_all add: users_of_def d2 u w(1))
  have "\<forall>e. users_of k2 e + count_list r (Some e) < 2 ^ 32" using lim us by simp
  moreover have "\<forall>e v. descs k2 e = Some v \<longrightarrow> fd_users v \<noteq> 0" using "3.prems"(3) nz by (auto simp: d2)
  ultimately have ih: "procs k' = procs k2 \<and> next_obj k' = next_obj k2 \<and>
    (\<forall>d. descs k' d = None \<longleftrightarrow> descs k2 d = None) \<and>
    (\<forall>d. users_of k' d = users_of k2 d + count_list r (Some d)) \<and> (\<forall>d v. descs k' d = Some v \<longrightarrow> fd_users v \<noteq> 0)"
    by (rule "3.IH" [OF st(5)])
  have "users_of k' e = users_of k e + count_list (Some d # r) (Some e)" for e
    using ih us [of e] by (cases "e = d") simp_all
  moreover have "descs k' e = None \<longleftrightarrow> descs k e = None" for e
    using ih w(1) by (simp add: d2)
  moreover have "procs k' = procs k" "next_obj k' = next_obj k" using ih s w(2) by simp_all
  ultimately show ?case using ih by simp
qed simp


lemma share_ok:
  assumes t: "fd_ok k" and p: "procs k p = Some v" "fd v = replicate NUM_FILEDES None"
    and q: "procs k q = Some w" and u: "upd_proc p (\<lambda>v. v\<lparr>fd := fd w\<rparr>) k = Inr k1"
    and sh: "share_descs (fd w) k1 = Inr k'"
  shows "fd_ok k'"
proof -
  note f = t
  have fsh: "fd_shape k" using f by (simp add: fd_ok_def)
  have fin: "finite (dom (procs k))" using fsh by (simp add: fd_shape_def)
  have k1: "k1 = put_proc p (v\<lparr>fd := fd w\<rparr>) k" using u p by (auto simp: upd_proc_def proc_of_def)
  have dom1: "dom (procs k1) = dom (procs k)" using p k1 by (auto simp: put_proc_def)
  have refs1: "refs k1 d = refs k d + count_list (fd w) (Some d)" for d
  proof -
    have "refs k1 d = count_list (fd w) (Some d) + (\<Sum>q\<in>dom (procs k) - {p}. count_list (fd (the (procs k q))) (Some d))"
      unfolding refs_def dom1 using fin p k1
      by (subst sum.remove [of _ p]) (auto simp: put_proc_def intro!: sum.cong)
    moreover have "refs k d = count_list (fd v) (Some d) + (\<Sum>q\<in>dom (procs k) - {p}. count_list (fd (the (procs k q))) (Some d))"
      unfolding refs_def using fin p by (subst sum.remove [of _ p]) auto
    moreover have "count_list (fd v) (Some d) = 0" by (simp add: p count_list_0_iff)
    ultimately show ?thesis by simp
  qed
  have shape1: "fd_shape k1"
  proof -
    have "p < next_obj k" "q < next_obj k" using fsh p q unfolding fd_shape_def by (metis not_less option.simps(3))+
    moreover have "length (fd w) = NUM_FILEDES" using fsh q by (auto simp: fd_shape_def)
    ultimately show ?thesis using fsh dom1 k1 by (auto simp: fd_shape_def put_proc_def)
  qed
  have users1: "users_of k1 d = refs k d" for d
    using f k1 by (simp add: fd_ok_def users_of_def put_proc_def)
  have lim: "\<forall>d. users_of k1 d + count_list (fd w) (Some d) < 2 ^ 32"
  proof
    fix d
    have "users_of k1 d + count_list (fd w) (Some d) = refs k1 d" using users1 refs1 by simp
    also have "\<dots> < 2 ^ 31" by (rule refs_bound [OF shape1])
    finally show "users_of k1 d + count_list (fd w) (Some d) < 2 ^ 32" by simp
  qed
  have nz: "\<forall>d v. descs k1 d = Some v \<longrightarrow> fd_users v \<noteq> 0" using f k1 by (auto simp: fd_ok_def put_proc_def)
  note s = share_descs_users [OF sh lim nz]
  have "refs k' d = refs k1 d" for d using s by (simp add: refs_def)
  moreover have "fd_shape k'" using s shape1 unfolding fd_shape_def by metis
  ultimately show ?thesis using s users1 refs1 by (auto simp: fd_ok_def)
qed

lemma fork_process_ok:
  assumes r: "fork_process k = Inr (ch, k')" and t: "fd_ok k" and c: "Suc (card (dom (procs k))) < 2 ^ 23"
  shows "fd_ok k'"
proof -
  obtain par k1 k2 d k3 k4 pv k5 k6 where st: "current_proc k = Inr par" "alloc_process k = Inr (ch, k1)"
    "do_mm (procmm_fork par ch) k1 = Inr k2" "on_machine vmm_clone_pd k2 = Inr (d, k3)" "set_pd ch d k3 = Inr k4"
    "proc_of par k4 = Inr pv" "upd_proc ch (\<lambda>v. v\<lparr>fd := fd pv\<rparr>) k4 = Inr k5" "share_descs (fd pv) k5 = Inr k6"
    and rest: "andthen (upd_proc ch (\<lambda>v. v\<lparr>signal_handler := signal_handler pv\<rparr>) k6) (\<lambda>k.
     let k = k\<lparr>signal_queue := init_list (signal_queue k) (SignalQueue ch)\<rparr> in
     andthen (deref (cmdline pv)) (\<lambda>cmd.
     andthen (upd_proc ch (\<lambda>v. v\<lparr>cmdline := Some cmd, p_parent := Some par, older_sibling := p_child pv\<rparr>) k) (\<lambda>k.
     andthen (case p_child pv of None \<Rightarrow> Inr k
              | Some o' \<Rightarrow> upd_proc o' (\<lambda>w. w\<lparr>younger_sibling := Some ch\<rparr>) k) (\<lambda>k.
     andthen (upd_proc par (\<lambda>v. v\<lparr>p_child := Some ch\<rparr>) k) (\<lambda>k.
     andthen (clone_thread (current k) k) (\<lambda>(t, k).
     andthen (add_thread ch t k) (\<lambda>k. Inr (ch, k)))))))) = Inr (ch, k')"
    using r unfolding fork_process_def by (auto simp: andthen_eq_Inr)
  have t1: "fd_ok k1" by (rule alloc_process_ok [OF st(2) t c])
  note n = alloc_process_new [OF st(2)]
  obtain m where k4: "k4 = k1\<lparr>kmm := m\<rparr>"
    using st(3-5) by (auto simp: on_machine_def set_pd_def dest!: partD)
  have "fd_ok k6"
  proof (rule share_ok [OF _ _ _ _ st(7,8)])
    show "fd_ok k4" using t1 k4 by simp
    show "procs k4 ch = Some (zero_process (next_pid k))" using n k4 by simp
    show "fd (zero_process (next_pid k)) = replicate NUM_FILEDES None" by (simp add: zero_process_def)
    show "procs k4 par = Some pv" using st(6) by (rule proc_ofD)
  qed
  moreover obtain k7 k8 k9 k10 tt k11 where st2: "upd_proc ch (\<lambda>v. v\<lparr>signal_handler := signal_handler pv\<rparr>) k6 = Inr k7"
    "upd_proc ch (\<lambda>v. v\<lparr>cmdline := cmdline pv, p_parent := Some par, older_sibling := p_child pv\<rparr>)
       (k7\<lparr>signal_queue := init_list (signal_queue k7) (SignalQueue ch)\<rparr>) = Inr k8"
    "(case p_child pv of None \<Rightarrow> Inr k8 | Some o' \<Rightarrow> upd_proc o' (\<lambda>w. w\<lparr>younger_sibling := Some ch\<rparr>) k8) = Inr k9"
    "upd_proc par (\<lambda>v. v\<lparr>p_child := Some ch\<rparr>) k9 = Inr k10" "clone_thread (current k10) k10 = Inr (tt, k11)"
    "add_thread ch tt k11 = Inr k'"
    using rest by (cases "cmdline pv") (auto simp: andthen_eq_Inr Let_def)
  have "keeps k6 k7" using upd_proc_keeps [OF st2(1)] by simp
  moreover have "keeps (k7\<lparr>signal_queue := init_list (signal_queue k7) (SignalQueue ch)\<rparr>) k8"
    using upd_proc_keeps [OF st2(2)] by simp
  then have "keeps k7 k8" by (simp add: keeps_def)
  moreover have "keeps k8 k9"
    using st2(3) by (cases "p_child pv") (auto dest: upd_proc_keeps)
  moreover have "keeps k9 k10" using upd_proc_keeps [OF st2(4)] by simp
  ultimately show ?thesis
    using clone_thread_keeps [OF st2(5)] add_thread_keeps [OF st2(6)] by (meson keeps_ok)
qed

end
