(* ===== verification/UserMem.thy ===== *)
theory UserMem imports Processes begin

text \<open>
  The kernel's own accesses to memory of the current process, byte by byte, and the page faults they raise
  (\<^verbatim>\<open>kernel/fault/page_fault.c\<close>, the part for faults in kernel mode). The processor runs with
  write protection off for the kernel, so that only a page that is not present faults.
\<close>

section \<open>Page faults in kernel mode\<close>

text \<open>A table that is missing in the current directory but present in the master directory is copied over.\<close>

definition copy_kernel_table :: "u32 \<Rightarrow> vm \<Rightarrow> (bool \<times> vm) res" where
  "copy_kernel_table addr m =
     andthen (lock_exdir m) (\<lambda>m.
     andthen (vmm_exdir_set (kernel_pd m) m) (\<lambda>(old, m).
     andthen (vmm_extable_get addr m) (\<lambda>pt.
     andthen (if pt AND PAGE_PRESENT \<noteq> 0
              then andthen (vmm_table_set addr pt m) (\<lambda>m. Inr (True, m))
              else Inr (False, m)) (\<lambda>(handled, m).
     andthen (vmm_exdir_set old m) (\<lambda>(_, m).
     Inr (handled, m\<lparr>exdir_sem := 0\<rparr>))))))"

definition kernel_fault :: "u32 \<Rightarrow> u32 \<Rightarrow> kernel \<Rightarrow> kernel res" where
  "kernel_fault addr err k =
     andthen (current_proc k) (\<lambda>p.
     andthen (on_mm (procmm_handle_page_fault p addr err) k) (\<lambda>(r, k).
     if r = 0 then Inr k
     else if addr \<ge> KERNEL_OFFSET \<and> err AND PF_PRESENT = 0
     then andthen (on_machine (copy_kernel_table addr) k) (\<lambda>(handled, k).
          if handled then Inr k else Inl Hang)
     else Inl Hang))"

section \<open>Bytes\<close>

definition word_base :: "u32 \<Rightarrow> u32" where
  "word_base va = va AND NOT 3"

definition bit_of :: "u32 \<Rightarrow> nat" where
  "bit_of va = 8 * unat (va AND 3)"

definition vload_byte :: "u32 \<Rightarrow> vm \<Rightarrow> u8 res" where
  "vload_byte va m = andthen (vload (word_base va) m) (\<lambda>w. Inr (ucast (drop_bit (bit_of va) w)))"

definition vstore_byte :: "u32 \<Rightarrow> u8 \<Rightarrow> vm \<Rightarrow> vm res" where
  "vstore_byte va b m =
     andthen (vload (word_base va) m) (\<lambda>w.
     vstore (word_base va) ((w AND NOT (push_bit (bit_of va) 0xFF)) OR push_bit (bit_of va) (ucast b)) m)"

text \<open>
  An access that faults runs the handler and is done again, until it succeeds. A new stack takes two faults: the first adds
  an area, the second maps a page of it. An access that is never granted does not return.
\<close>

partial_function (option) user_byte_loop :: "u32 \<Rightarrow> kernel \<Rightarrow> (u8 \<times> kernel) res option" where
  "user_byte_loop va k =
     (case vload_byte va (mvm (kmm k)) of
        Inr b \<Rightarrow> Some (Inr (b, k))
      | Inl _ \<Rightarrow> (case kernel_fault va 0 k of Inl e \<Rightarrow> Some (Inl e) | Inr k \<Rightarrow> user_byte_loop va k))"

partial_function (option) put_user_byte_loop :: "u32 \<Rightarrow> u8 \<Rightarrow> kernel \<Rightarrow> kernel res option" where
  "put_user_byte_loop va b k =
     (case vstore_byte va b (mvm (kmm k)) of
        Inr m \<Rightarrow> Some (Inr (k\<lparr>kmm := (kmm k)\<lparr>mvm := m\<rparr>\<rparr>))
      | Inl _ \<Rightarrow> (case kernel_fault va PF_WRITE k of Inl e \<Rightarrow> Some (Inl e) | Inr k \<Rightarrow> put_user_byte_loop va b k))"

declare user_byte_loop.simps [code] put_user_byte_loop.simps [code]

definition user_byte :: "u32 \<Rightarrow> kernel \<Rightarrow> (u8 \<times> kernel) res" where
  "user_byte va k = returns (user_byte_loop va k)"

definition put_user_byte :: "u32 \<Rightarrow> u8 \<Rightarrow> kernel \<Rightarrow> kernel res" where
  "put_user_byte va b k = returns (put_user_byte_loop va b k)"

lemma user_byte_granted: "vload_byte va (mvm (kmm k)) = Inr b \<Longrightarrow> user_byte va k = Inr (b, k)"
  by (simp add: user_byte_def returns_def user_byte_loop.simps)

lemma put_user_byte_granted:
  "vstore_byte va b (mvm (kmm k)) = Inr m \<Longrightarrow> put_user_byte va b k = Inr (k\<lparr>kmm := (kmm k)\<lparr>mvm := m\<rparr>\<rparr>)"
  by (simp add: put_user_byte_def returns_def put_user_byte_loop.simps)

lemma put_user_byte_faults:
  "vstore_byte va b (mvm (kmm k)) = Inl e \<Longrightarrow> kernel_fault va PF_WRITE k = Inr k' \<Longrightarrow>
    put_user_byte va b k = put_user_byte va b k'"
  by (simp add: put_user_byte_def put_user_byte_loop.simps [of va b k])

fun put_user :: "u32 \<Rightarrow> u8 list \<Rightarrow> kernel \<Rightarrow> kernel res" where
  "put_user va [] k = Inr k"
| "put_user va (b # bs) k = andthen (put_user_byte va b k) (\<lambda>k. put_user (va + 1) bs k)"

fun get_user :: "u32 \<Rightarrow> nat \<Rightarrow> kernel \<Rightarrow> (u8 list \<times> kernel) res" where
  "get_user va 0 k = Inr ([], k)"
| "get_user va (Suc n) k =
     andthen (user_byte va k) (\<lambda>(b, k).
     andthen (get_user (va + 1) n k) (\<lambda>(bs, k). Inr (b # bs, k)))"

text \<open>Little-endian words.\<close>

definition word_bytes :: "u32 \<Rightarrow> u8 list" where
  "word_bytes w = [ucast w, ucast (drop_bit 8 w), ucast (drop_bit 16 w), ucast (drop_bit 24 w)]"

fun bytes_word :: "u8 list \<Rightarrow> u32" where
  "bytes_word [] = 0"
| "bytes_word (b # bs) = ucast b OR push_bit 8 (bytes_word bs)"

definition put_user_word :: "u32 \<Rightarrow> u32 \<Rightarrow> kernel \<Rightarrow> kernel res" where
  "put_user_word va w = put_user va (word_bytes w)"

definition get_user_word :: "u32 \<Rightarrow> kernel \<Rightarrow> (u32 \<times> kernel) res" where
  "get_user_word va k = andthen (get_user va 4 k) (\<lambda>(bs, k). Inr (bytes_word bs, k))"

end
