(* ===== verification/Signals.thy ===== *)
theory Signals imports UserMem begin

text \<open>
  Signals, \<^verbatim>\<open>kernel/proc/signals.c\<close>, with the end of a process (\<open>_exit\<close> of
  \<^verbatim>\<open>kernel/syscall/sys_process.c\<close>) that the default handlers call, and the faults of user code
  (\<^verbatim>\<open>kernel/fault/page_fault.c\<close>) that raise one. The outcome \<open>Sleeps\<close> means that the code has called
  \<open>schedule\<close>; the messages the handlers print are left out.
\<close>

definition SIGKILL :: nat where "SIGKILL = 9"
definition SIGSEGV :: u32 where "SIGSEGV = 11"
definition SIGNAL_RETURN_ADDRESS :: u32 where "SIGNAL_RETURN_ADDRESS = 0xDEAD5165"

section \<open>The end of the current process\<close>

text \<open>The loop of \<open>_exit\<close> over the descriptors.\<close>

fun close_slots :: "nat list \<Rightarrow> nat \<Rightarrow> kernel \<Rightarrow> kernel res" where
  "close_slots [] p k = Inr k"
| "close_slots (i # is) p k =
     andthen (proc_of p k) (\<lambda>v.
     andthen (if fd v ! i \<noteq> None then andthen (sys_close (of_nat i) k) (\<lambda>(_, k). Inr k) else Inr k)
       (\<lambda>k. close_slots is p k))"

definition sys_exit :: "u32 \<Rightarrow> kernel \<Rightarrow> kernel res" where
  "sys_exit rc k =
     andthen (current_proc k) (\<lambda>p.
     andthen (close_slots [0..<NUM_FILEDES] p k) (\<lambda>k.
     andthen (exit_process p rc k) (\<lambda>k.
     Inr (set_state (current k) THREAD_STATE_FINISHED k))))"

section \<open>Delivery\<close>

datatype handler = NoHandler | Ignore | Terminate | CoreDump | Stop | Continue

definition default_sign :: "handler list" where
  "default_sign =
     [NoHandler, Terminate, Terminate, CoreDump, CoreDump, CoreDump, CoreDump, CoreDump, CoreDump,
      Terminate, CoreDump, CoreDump, CoreDump, Terminate, Terminate, Terminate, Terminate, Terminate,
      Ignore, Ignore, Ignore, Ignore, Ignore, Stop, Stop, Continue, Stop, Stop, Terminate, Terminate,
      CoreDump, CoreDump, Ignore]"

fun run_default :: "handler \<Rightarrow> u32 \<Rightarrow> kernel \<Rightarrow> (unit outcome \<times> kernel) res" where
  "run_default NoHandler n k = Inl BadPtr"
| "run_default Terminate n k = andthen (sys_exit n k) (\<lambda>k. Inr (Sleeps [], k))"
| "run_default CoreDump n k = andthen (sys_exit n k) (\<lambda>k. Inr (Sleeps [], k))"
| "run_default _ n k = Inr (Returns (), k)"

definition signal_of :: "nat \<Rightarrow> kernel \<Rightarrow> signal res" where
  "signal_of g k = deref (signals k g)"

text \<open>An array of \<open>NUM_SIGNALS\<close> entries, indexed by a signal number.\<close>

definition sig_entry :: "'a list \<Rightarrow> nat \<Rightarrow> 'a res" where
  "sig_entry xs n = (if n < length xs then Inr (xs ! n) else Inl Overrun)"

text \<open>
  The search for a signal: the first that is not blocked, or, when all are blocked, the last.
\<close>

fun pick_signal :: "sgnode list \<Rightarrow> process \<Rightarrow> kernel \<Rightarrow> nat option res" where
  "pick_signal [] v k = Inr None"
| "pick_signal (l # ls) v k =
     andthen (signal_entry l) (\<lambda>g.
     andthen (signal_of g k) (\<lambda>s.
     andthen (sig_entry (signal_blocked v) (unat (sig s))) (\<lambda>b.
     if b \<noteq> 0 \<and> ls \<noteq> [] then pick_signal ls v k else Inr (Some g))))"

definition free_signal :: "nat \<Rightarrow> kernel \<Rightarrow> kernel" where
  "free_signal g k = k\<lparr>signal_queue := remove_from_list (signal_queue k) (SignalNode g),
     signals := (signals k)(g := None)\<rparr>"

text \<open>
  A handler of the program runs on a thread of its own: it starts with the signal number and the magic
  return address on the user stack, and the interrupted thread waits for it.
\<close>

definition deliver :: "nat \<Rightarrow> nat \<Rightarrow> u32 \<Rightarrow> nat \<Rightarrow> u32 \<Rightarrow> kernel \<Rightarrow> kernel res" where
  "deliver th p hn g n k =
     andthen (switch_process p k) (\<lambda>k.
     andthen (new_thread hn True k) (\<lambda>(h, k).
     andthen (add_thread p h k) (\<lambda>k.
     andthen (thread_of th k) (\<lambda>tv.
     let stack = r_useresp (regs tv) - 4 in
     andthen (put_user_word stack n k) (\<lambda>k.
     let stack = stack - 4 in
     andthen (put_user_word stack SIGNAL_RETURN_ADDRESS k) (\<lambda>k.
     andthen (upd_thread h (\<lambda>v. v\<lparr>regs := (regs v)\<lparr>r_useresp := stack, r_ebp := stack\<rparr>\<rparr>) k) (\<lambda>k.
     let k = free_signal g k in
     andthen (do_sched (scheduler_remove h) k) (\<lambda>k.
     andthen (do_sched (scheduler_sleep th (ThWaiting h)) k) (\<lambda>k.
     do_sched (scheduler_cheat h) k)))))))))"

definition handle_signals :: "nat \<Rightarrow> kernel \<Rightarrow> (nat outcome \<times> kernel) res" where
  "handle_signals th k =
     andthen (thread_of th k) (\<lambda>tv.
     andthen (deref (proc tv)) (\<lambda>p.
     andthen (proc_of p k) (\<lambda>v.
     andthen (items (signal_queue k) (SignalQueue p)) (\<lambda>ls.
     andthen (pick_signal ls v k) (\<lambda>g.
     case g of
       None \<Rightarrow> Inr (Returns th, k)
     | Some g \<Rightarrow>
        andthen (signal_of g k) (\<lambda>s.
        andthen (sig_entry (signal_handler v) (unat (sig s))) (\<lambda>hn.
        if hn = SIG_IGN then Inr (Returns th, free_signal g k)
        else if hn = SIG_DFL
        then andthen (sig_entry default_sign (unat (sig s))) (\<lambda>d.
             andthen (run_default d (sig s) (free_signal g k)) (\<lambda>(r, k).
             Inr (case r of Returns _ \<Rightarrow> Returns th | Sleeps w \<Rightarrow> Sleeps w, k)))
        else andthen (deliver th p hn g (sig s) k) (\<lambda>k. Inr (Sleeps [], k)))))))))"

definition queue_signal :: "nat \<Rightarrow> u32 \<Rightarrow> kernel \<Rightarrow> kernel res" where
  "queue_signal p n k =
     andthen (current_proc k) (\<lambda>c.
     andthen (proc_of c k) (\<lambda>cv.
     let g = next_obj k;
         k = k\<lparr>next_obj := Suc g, signals := (signals k)(g \<mapsto> \<lparr>sig = n, sender = pid cv\<rparr>)\<rparr>;
         k = k\<lparr>signal_queue := init_list (signal_queue k) (SignalNode g)\<rparr>
     in Inr (k\<lparr>signal_queue := append_to_list (signal_queue k) (SignalQueue p) (SignalNode g)\<rparr>)))"

definition signal_process :: "u32 \<Rightarrow> u32 \<Rightarrow> kernel \<Rightarrow> (i32 outcome \<times> kernel) res" where
  "signal_process n signum k =
     andthen (get_process n k) (\<lambda>q.
     case q of
       None \<Rightarrow> Inr (Returns (-1), k)
     | Some p \<Rightarrow>
        andthen (proc_of p k) (\<lambda>v.
        if p_state v = PROC_STATE_FINISHED then Inr (Returns (-1), k)
        else
         andthen (queue_signal p signum k) (\<lambda>k.
         andthen (current_proc k) (\<lambda>c.
         andthen (if p = c then handle_signals (current k) k else Inr (Returns (current k), k)) (\<lambda>(r, k).
         case r of
           Sleeps w \<Rightarrow> Inr (Sleeps w, k)
         | Returns _ \<Rightarrow>
            andthen (pthread_entry (nxt (process_threads k) (Threads p))) (\<lambda>th.
            if state_of th k = THREAD_STATE_WAITING
            then andthen (handle_signals th k) (\<lambda>(r, k).
                 Inr (case r of Returns _ \<Rightarrow> Returns 0 | Sleeps w \<Rightarrow> Sleeps w, k))
            else Inr (Returns 0, k)))))))"

definition switch_handler :: "nat \<Rightarrow> u32 \<Rightarrow> kernel \<Rightarrow> (u32 \<times> kernel) res" where
  "switch_handler signum hn k =
     (if signum = SIGKILL then Inr (SIG_DFL, k)
      else
       andthen (current_proc k) (\<lambda>p.
       andthen (proc_of p k) (\<lambda>v.
       andthen (sig_entry (signal_handler v) signum) (\<lambda>old.
       andthen (upd_proc p (\<lambda>v. v\<lparr>signal_handler := (signal_handler v)[signum := hn]\<rparr>) k) (\<lambda>k.
       Inr (old, k))))))"

definition return_from_signal :: "kernel \<Rightarrow> kernel res" where
  "return_from_signal k =
     (let th = current k in
      andthen (do_sched (scheduler_wake (ThWaiting th)) k) (\<lambda>k.
      do_sched (scheduler_remove th) (set_state th THREAD_STATE_FINISHED k)))"

section \<open>Page faults\<close>

text \<open>
  The handler of page faults: \<open>Returns\<close> when the interrupted code goes on, \<open>Sleeps\<close> when the handler has
  called \<open>schedule\<close>. \<open>user\<close> is the privilege level in the saved \<open>cs\<close>.
\<close>

definition page_fault_handler :: "u32 \<Rightarrow> u32 \<Rightarrow> bool \<Rightarrow> kernel \<Rightarrow> (unit outcome \<times> kernel) res" where
  "page_fault_handler addr err user k =
     (if \<not> user then andthen (kernel_fault addr err k) (\<lambda>k. Inr (Returns (), k))
      else
       andthen (current_proc k) (\<lambda>p.
       andthen (on_mm (procmm_handle_page_fault p addr err) k) (\<lambda>(r, k).
       if r = 0 then Inr (Returns (), k)
       else if addr = SIGNAL_RETURN_ADDRESS
       then andthen (return_from_signal k) (\<lambda>k. Inr (Sleeps [], k))
       else
        andthen (proc_of p k) (\<lambda>v.
        andthen (signal_process (pid v) SIGSEGV k) (\<lambda>(_, k). Inr (Sleeps [], k))))))"

end
