(* ===== verification/FdRuns.thy ===== *)
theory FdRuns imports FdTable Signals begin

text \<open>
  Every step that touches descriptors, and the switch to another thread, keeps the invariant of the
  descriptor tables, and so does every run of such steps.
\<close>

section \<open>Loops and switches\<close>

lemma loop_saved_rel:
  assumes "loop_saved lk body head i s = Some (Inr s')" and "\<And>i s s'. body i s = Inr s' \<Longrightarrow> R s s'"
    and "\<And>s. R s s" and tr: "\<And>s t u. R s t \<Longrightarrow> R t u \<Longrightarrow> R s u"
  shows "R s s'"
proof -
  have "(\<forall>i s s'. body i s = Inr s' \<longrightarrow> R s s') \<longrightarrow> (\<forall>s'. r = Inr s' \<longrightarrow> R s s')"
    if "loop_saved lk body head i s = Some r" for r lk body head i s
    using that
  proof (rule loop_saved.raw_induct [rotated])
    fix f lk body head i s r
    assume ih: "\<And>lk body head i s r. f lk body head i s = Some r \<Longrightarrow>
        (\<forall>i s s'. body i s = Inr s' \<longrightarrow> R s s') \<longrightarrow> (\<forall>s'. r = Inr s' \<longrightarrow> R s s')"
      and st: "(if i = head then Some (Inr s) else let i' = nxt (lk s) i in
        case body i s of Inl e \<Rightarrow> Some (Inl e) | Inr s \<Rightarrow> f lk body head i' s) = Some r"
    show "(\<forall>i s s'. body i s = Inr s' \<longrightarrow> R s s') \<longrightarrow> (\<forall>s'. r = Inr s' \<longrightarrow> R s s')"
    proof (intro impI allI)
      fix s' assume b: "\<forall>i s s'. body i s = Inr s' \<longrightarrow> R s s'" and r: "r = Inr s'"
      show "R s s'"
      proof (cases "i = head")
        case True
        then show ?thesis using st r assms(3) by simp
      next
        case False
        then obtain t where t: "body i s = Inr t" "f lk body head (nxt (lk s) i) t = Some (Inr s')"
          using st r by (auto simp: Let_def split: sum.splits)
        have "R t s'" using ih [OF t(2)] b by simp
        moreover have "R s t" using b t(1) by simp
        ultimately show ?thesis by (rule tr [rotated])
      qed
    qed
  qed
  from this [OF assms(1)] show ?thesis using assms(2) by simp
qed

lemma for_each_safe_rel:
  assumes "for_each_safe lk head body s = Inr s'" and "\<And>i s s'. body i s = Inr s' \<Longrightarrow> R s s'"
    and "\<And>s. R s s" and "\<And>s t u. R s t \<Longrightarrow> R t u \<Longrightarrow> R s u"
  shows "R s s'"
proof -
  have "loop_saved lk body head (nxt (lk s) head) s = Some (Inr s')"
    using assms(1) by (simp add: for_each_safe_def split: option.splits)
  then show ?thesis by (rule loop_saved_rel) (fact assms)+
qed

lemma keeps_fs [simp]: "keeps k (k\<lparr>kfs := s\<rparr>)" "keeps k (k\<lparr>kmm := m\<rparr>)" "keeps k (set_state t v k)"
  "keeps k (set_tasks h k)" "keeps k (k\<lparr>process_threads := l\<rparr>)" "keeps k (k\<lparr>threads := ts\<rparr>)"
  "keeps k (k\<lparr>kernel_booted := b\<rparr>)"
  by (simp_all add: keeps_def set_state_def set_tasks_def)

lemma free_thread_keeps: "free_thread t k = Inr k' \<Longrightarrow> keeps k k'"
  by (auto simp: free_thread_def andthen_eq_Inr Let_def keeps_def set_tasks_def dest!: do_schedD)

lemma free_one_keeps: "clean_one i k = Inr k' \<Longrightarrow> keeps k k'" "free_other i k = Inr k' \<Longrightarrow> keeps k k'"
  by (auto simp: clean_one_def free_other_def andthen_eq_Inr free_thread_keeps split: if_splits)

lemma free_loops_keep: "clean_threads p k = Inr k' \<Longrightarrow> keeps k k'" "free_other_threads p k = Inr k' \<Longrightarrow> keeps k k'"
  unfolding clean_threads_def free_other_threads_def
  by (erule for_each_safe_rel; blast intro: free_one_keeps keeps_trans)+

lemma switch_process_keeps: "switch_process p k = Inr k' \<Longrightarrow> keeps k k'"
  by (auto simp: switch_process_def andthen_eq_Inr)

lemma do_sched_keeps: "do_sched f k = Inr k' \<Longrightarrow> keeps k k'"
  by (auto dest!: do_schedD)

lemma switch_kernel_thread_keeps:
  assumes "switch_kernel_thread r k = Inr (r', k')" shows "keeps k k'"
proof -
  obtain k1 n t k2 v p k3 k4 w where st:
    "(if r \<noteq> None \<and> r \<noteq> Some (ThreadRegs (boot_thread k))
        then andthen (upd_thread (current k) (\<lambda>v. v\<lparr>kernel_thread := r\<rparr>) k) (\<lambda>k.
             if state_of (current k) k = THREAD_STATE_READY
             then do_sched (scheduler_insert (current k)) k else Inr k)
        else Inr k) = Inr k1"
    "(case n of None \<Rightarrow> Inr (boot_thread k1, k1)
              | Some t \<Rightarrow> andthen (do_sched (scheduler_remove t) k1) (\<lambda>k. Inr (t, k))) = Inr (t, k2)"
    "switch_process p k2 = Inr k3" "clean_threads p k3 = Inr k4"
    "k' = k4\<lparr>kernel_booted := True, kfs := (kfs k4)\<lparr>cur_th := t\<rparr>\<rparr>"
    using assms unfolding switch_kernel_thread_def by (auto simp: andthen_eq_Inr Let_def)
  have "keeps k k1" using st(1)
    by (auto simp: andthen_eq_Inr split: if_splits dest: do_sched_keeps intro: keeps_trans dest!: upd_thread_keeps)
  moreover have "keeps k1 k2" using st(2) by (cases n) (auto simp: andthen_eq_Inr dest: do_sched_keeps)
  moreover have "keeps k4 k'" by (simp add: st(5) keeps_def)
  ultimately show ?thesis using switch_process_keeps [OF st(3)] free_loops_keep(1) [OF st(4)] by (meson keeps_trans)
qed

lemma exit_process_keeps: "exit_process p c k = Inr k' \<Longrightarrow> keeps k k'"
  unfolding exit_process_def Let_def
  by (auto simp: andthen_eq_Inr intro: keeps_trans keeps_fs
      dest!: do_sched_keeps free_loops_keep upd_proc_keeps) (meson keeps_trans keeps_fs(3))

lemma close_slots_ok: "close_slots is p k = Inr k' \<Longrightarrow> fd_ok k \<Longrightarrow> fd_ok k'"
  by (induction "is" p k rule: close_slots.induct)
    (auto simp: andthen_eq_Inr split: if_splits dest: sys_close_ok)

lemma sys_exit_ok: "sys_exit rc k = Inr k' \<Longrightarrow> fd_ok k \<Longrightarrow> fd_ok k'"
  unfolding sys_exit_def
  by (auto simp: andthen_eq_Inr intro: keeps_ok [OF keeps_fs(3)] dest!: exit_process_keeps close_slots_ok keeps_ok)

section \<open>Exit and the end of a process\<close>

lemma adopt_from_keeps: "adopt_from i ini k = Some (Inr (j, k')) \<Longrightarrow> keeps k k'"
proof -
  have "\<forall>j k'. r = Inr (j, k') \<longrightarrow> keeps k k'" if "adopt_from i ini k = Some r" for i ini k r
    using that
  proof (rule adopt_from.raw_induct [rotated])
    fix f i ini k r
    assume ih: "\<And>i ini k r. f i ini k = Some r \<Longrightarrow> \<forall>j k'. r = Inr (j, k') \<longrightarrow> keeps k k'"
      and st: "(case proc_of i k of Inl e \<Rightarrow> Some (Inl e) | Inr v \<Rightarrow>
         (case older_sibling v of None \<Rightarrow> Some (Inr (i, k))
          | Some j \<Rightarrow> f j ini (put_proc i (v\<lparr>p_parent := Some ini\<rparr>) k))) = Some r"
    show "\<forall>j k'. r = Inr (j, k') \<longrightarrow> keeps k k'"
    proof (intro allI impI)
      fix j k' assume r: "r = Inr (j, k')"
      then obtain v where v: "proc_of i k = Inr v" using st by (auto split: sum.splits)
      show "keeps k k'"
      proof (cases "older_sibling v")
        case (Some o')
        let ?k = "put_proc i (v\<lparr>p_parent := Some ini\<rparr>) k"
        have "f o' ini ?k = Some (Inr (j, k'))" using st v r Some by simp
        then have "keeps ?k k'" using ih by blast
        moreover have "keeps k ?k"
          using upd_proc_keeps [of i "\<lambda>v. v\<lparr>p_parent := Some ini\<rparr>" k] v by (simp add: upd_proc_def)
        ultimately show ?thesis by (rule keeps_trans [rotated])
      qed (use st v r in simp)
    qed
  qed
  then show "adopt_from i ini k = Some (Inr (j, k')) \<Longrightarrow> keeps k k'" by blast
qed

lemma adopt_children_keeps: "adopt_children ch ini k = Inr k' \<Longrightarrow> keeps k k'"
proof -
  assume "adopt_children ch ini k = Inr k'"
  then obtain i k1 o1 o2 k2 k3 where st: "adopt_from ch ini k = Some (Inr (i, k1))"
    "upd_proc i (\<lambda>v. v\<lparr>older_sibling := o1\<rparr>) k1 = Inr k2" "upd_proc o2 (\<lambda>v. v\<lparr>younger_sibling := Some i\<rparr>) k2 = Inr k3"
    "upd_proc ini (\<lambda>v. v\<lparr>p_child := Some ch\<rparr>) k3 = Inr k'"
    by (auto simp: adopt_children_def andthen_eq_Inr returns_def split: option.splits)
  have "keeps k1 k2" "keeps k2 k3" "keeps k3 k'"
    using upd_proc_keeps [OF st(2)] upd_proc_keeps [OF st(3)] upd_proc_keeps [OF st(4)] by simp_all
  with adopt_from_keeps [OF st(1)] show "keeps k k'" by (meson keeps_trans)
qed

lemma leave_family_keeps: "leave_family p k = Inr k' \<Longrightarrow> keeps k k'"
proof -
  assume "leave_family p k = Inr k'"
  then obtain par k1 k2 and v pv v1 v2 :: process where st:
    "(if p_child pv = Some p then upd_proc par (\<lambda>w. w\<lparr>p_child :=
               (if younger_sibling v \<noteq> None then younger_sibling v else older_sibling v)\<rparr>) k else Inr k) = Inr k1"
    "(case older_sibling v1 of None \<Rightarrow> Inr k1
       | Some o' \<Rightarrow> upd_proc o' (\<lambda>w. w\<lparr>younger_sibling := younger_sibling v1\<rparr>) k1) = Inr k2"
    "(case younger_sibling v2 of None \<Rightarrow> Inr k2
       | Some y \<Rightarrow> upd_proc y (\<lambda>w. w\<lparr>older_sibling := older_sibling v2\<rparr>) k2) = Inr k'"
    unfolding leave_family_def andthen_eq_Inr by blast
  have "keeps k k1" using st(1) by (auto split: if_split_asm dest: upd_proc_keeps)
  moreover have "keeps k1 k2" using st(2) by (auto split: option.split_asm dest: upd_proc_keeps)
  moreover have "keeps k2 k'" using st(3) by (auto split: option.split_asm dest: upd_proc_keeps)
  ultimately show "keeps k k'" by (meson keeps_trans)
qed

text \<open>A process with an empty table is removed.\<close>

lemma drop_proc_ok:
  assumes t: "fd_ok k" and p: "procs k p = Some v" "set (fd v) \<subseteq> {None}"
  shows "fd_ok (k\<lparr>procs := (procs k)(p := None)\<rparr>)"
proof -
  let ?k = "k\<lparr>procs := (procs k)(p := None)\<rparr>"
  have sh: "fd_shape k" using t by (simp add: fd_ok_def)
  then have fin: "finite (dom (procs k))" by (simp add: fd_shape_def)
  have d: "dom (procs ?k) = dom (procs k) - {p}" by auto
  have "card (dom (procs ?k)) \<le> card (dom (procs k))" unfolding d by (rule card_Diff1_le)
  then have "fd_shape ?k" using sh d fin by (auto simp: fd_shape_def)
  moreover have "refs ?k e = refs k e" for e
  proof -
    have "refs k e = count_list (fd v) (Some e) + (\<Sum>q\<in>dom (procs k) - {p}. count_list (fd (the (procs k q))) (Some e))"
      unfolding refs_def using fin p by (subst sum.remove [of _ p]) auto
    moreover have "count_list (fd v) (Some e) = 0" using p(2) by (auto simp: count_list_0_iff)
    moreover have "refs ?k e = (\<Sum>q\<in>dom (procs k) - {p}. count_list (fd (the (procs k q))) (Some e))"
      unfolding refs_def d by (intro sum.cong) auto
    ultimately show ?thesis by simp
  qed
  ultimately show ?thesis using t by (auto simp: fd_ok_def users_of_def)
qed

lemma keeps_fd: "keeps k k' \<Longrightarrow> procs k p = Some v \<Longrightarrow> \<exists>v'. procs k' p = Some v' \<and> fd v' = fd v"
  unfolding keeps_def by (metis (no_types, lifting) map_option_eq_Some)

lemma free_process_ok:
  assumes r: "free_process p k = Inr k'" and t: "fd_ok k" and p: "procs k p = Some v" "set (fd v) \<subseteq> {None}"
  shows "fd_ok k'"
proof -
  obtain k1 k2 k3 k4 and v1 :: process where st: "free_other_threads p k = Inr k1"
    "(case p_child v1 of None \<Rightarrow> Inr k1
       | Some ch \<Rightarrow> andthen (process_entry (nxt (process_list k1) ProcessList)) (\<lambda>i. adopt_children ch i k1)) = Inr k2"
    "leave_family p k2 = Inr k3"
    "do_mm (procmm_exit p) (k3\<lparr>process_list := remove_from_list (process_list k3) (ProcNode p)\<rparr>) = Inr k4"
    "k4\<lparr>procs := (procs k4)(p := None)\<rparr> = k'"
    using r unfolding free_process_def Let_def andthen_eq_Inr sum.inject by blast
  have "keeps k k1" by (rule free_loops_keep(2) [OF st(1)])
  moreover have "keeps k1 k2"
    using st(2) by (auto simp: andthen_eq_Inr split: option.split_asm dest: adopt_children_keeps)
  moreover note leave_family_keeps [OF st(3)]
  moreover have "keeps k3 k4" using st(4) by (auto simp: keeps_def dest!: do_mmD)
  ultimately have k: "keeps k k4" by (meson keeps_trans)
  obtain w where "procs k4 p = Some w" "fd w = fd v" using keeps_fd [OF k p(1)] by blast
  then show ?thesis unfolding st(5) [symmetric] using drop_proc_ok [of k4 p w] keeps_ok [OF k t] p(2) by simp
qed

text \<open>\<open>_exit\<close> empties the table.\<close>

lemma sys_close_other:
  assumes r: "sys_close file k = Inr (r, k')" and t: "table_ok k" and c: "current_proc k = Inr p" and v: "procs k p = Some v"
  shows "procs k' p = Some (v\<lparr>fd := (fd v)[unat file := None]\<rparr>)"
proof -
  have f: "fd_ok k" using t by (simp add: table_ok_def)
  obtain d w where a: "desc_at p file k = Inr (d, w)" using r c by (auto simp: sys_close_def andthen_eq_Inr)
  have "descs k d = Some w" using desc_atD [OF a] by blast
  then have "ino w \<noteq> None" using t by (auto simp: table_ok_def all_open_def)
  then show ?thesis using sys_close_held [OF r f c a v] by simp
qed

lemma vfs_close_cur: "vfs_close n s = Inr (r, s') \<Longrightarrow> cur_th s' = cur_th s"
proof -
  assume "vfs_close n s = Inr (r, s')"
  then obtain s1 d where st: "upd_node n (\<lambda>v. v\<lparr>users := users v - 1\<rparr>) s = Inr s1"
    "(case d_close (driver_of d) of Some f \<Rightarrow> f n s1 | None \<Rightarrow> Inr (-1, set_errno EBADF s1)) = Inr (r, s')"
    by (auto simp: vfs_close_def driver_at_def andthen_eq_Inr)
  have "cur_th s1 = cur_th s" using st(1) by (auto simp: upd_node_def andthen_eq_Inr)
  moreover have "cur_th s' = cur_th s1" using st(2)
    by (cases d) (auto simp: tarfs_driver_def pipe_driver_def debug_driver_def close_tar_def close_pipe_def
        debug_close_def put_pipe_def andthen_eq_Inr upd_node_def set_errno_def put_tree_def Let_def split: if_splits)
  ultimately show ?thesis by simp
qed

lemma vfs_free_cur: "vfs_free n s = Inr s' \<Longrightarrow> cur_th s' = cur_th s"
proof -
  assume a: "vfs_free n s = Inr s'"
  have fn: "free_node n s = Inr s' \<Longrightarrow> cur_th s' = cur_th s" by (auto simp: free_node_def andthen_eq_Inr)
  have "flush_tar n s = Inr s' \<Longrightarrow> cur_th s' = cur_th s"
    by (auto simp: flush_tar_def free_node_def andthen_eq_Inr put_tree_def Let_def split: if_splits option.splits)
  then show ?thesis using a fn
    by (auto simp: vfs_free_def andthen_eq_Inr tarfs_driver_def pipe_driver_def debug_driver_def split: if_splits option.splits)
      (case_tac x2; auto simp: tarfs_driver_def pipe_driver_def debug_driver_def)
qed

lemma sys_close_cur:
  assumes "sys_close file k = Inr (r, k')" "current_proc k = Inr p" shows "current_proc k' = Inr p"
proof -
  have "cur_th (kfs k') = cur_th (kfs k) \<and> threads k' = threads k"
    using assms(1)
    by (auto simp: sys_close_def andthen_eq_Inr kerrno_def set_errno_def on_fs_def do_fs_def drop_slot_def fd_put_def
        upd_desc_def set_slot_def upd_proc_def put_proc_def split: option.split_asm if_split_asm
        dest!: vfs_close_cur vfs_free_cur)
  then show ?thesis using assms(2) current_proc_eq by metis
qed

lemma close_slots_empty:
  "close_slots is p k = Inr k' \<Longrightarrow> table_ok k \<Longrightarrow> current_proc k = Inr p \<Longrightarrow> procs k p = Some v \<Longrightarrow>
    \<forall>i\<in>set is. i < NUM_FILEDES \<Longrightarrow>
    \<exists>fds. procs k' p = Some (v\<lparr>fd := fds\<rparr>) \<and> length fds = length (fd v) \<and>
      (\<forall>i. fd v ! i = None \<longrightarrow> fds ! i = None) \<and> (\<forall>i\<in>set is. fds ! i = None)"
proof (induction "is" arbitrary: k v)
  case Nil
  then show ?case by (intro exI [of _ "fd v"]) simp
next
  case (Cons i js)
  have pv: "proc_of p k = Inr v" using Cons.prems(4) by (simp add: proc_of_def)
  have len: "length (fd v) = NUM_FILEDES" and i: "i < NUM_FILEDES"
    using Cons.prems by (auto simp: table_ok_def fd_ok_def fd_shape_def)
  have ui: "unat (of_nat i :: 32 word) = i" using i by (simp add: unat_of_nat NUM_FILEDES_def)
  show ?case
  proof (cases "fd v ! i")
    case None
    then have "close_slots js p k = Inr k'" using Cons.prems(1) pv by simp
    from Cons.IH [OF this Cons.prems(2-4)] show ?thesis using Cons.prems(5) None by fastforce
  next
    case (Some d)
    then obtain r k1 where c: "sys_close (of_nat i) k = Inr (r, k1)" "close_slots js p k1 = Inr k'"
      using Cons.prems(1) pv by (auto simp: andthen_eq_Inr)
    have "procs k1 p = Some (v\<lparr>fd := (fd v)[i := None]\<rparr>)"
      using sys_close_other [OF c(1) Cons.prems(2-4)] ui by simp
    from Cons.IH [OF c(2) sys_close_table [OF c(1) Cons.prems(2)] sys_close_cur [OF c(1) Cons.prems(3)] this]
    obtain fds where f: "procs k' p = Some (v\<lparr>fd := fds\<rparr>)" "length fds = length (fd v)"
      "\<forall>j. (fd v)[i := None] ! j = None \<longrightarrow> fds ! j = None" "\<forall>j\<in>set js. fds ! j = None"
      using Cons.prems(5) by auto
    have "fds ! j = None" if "fd v ! j = None \<or> j = i" for j
      using f(3) that i len by (cases "j = i") auto
    then show ?thesis using f by (intro exI [of _ fds]) auto
  qed
qed

lemma sys_exit_empty:
  assumes r: "sys_exit rc k = Inr k'" and t: "table_ok k" and c: "current_proc k = Inr p"
  shows "\<exists>v. procs k' p = Some v \<and> fd v = replicate NUM_FILEDES None"
proof -
  obtain k1 k2 where st: "close_slots [0..<NUM_FILEDES] p k = Inr k1" "exit_process p rc k1 = Inr k2"
    "k' = set_state (current k2) THREAD_STATE_FINISHED k2"
    using r c by (auto simp: sys_exit_def andthen_eq_Inr)
  have "upt 0 NUM_FILEDES = 0 # upt 1 NUM_FILEDES" by (simp add: NUM_FILEDES_def upt_conv_Cons)
  then obtain v where v: "procs k p = Some v"
    using st(1) by (auto simp: andthen_eq_Inr dest: proc_ofD)
  then have len: "length (fd v) = NUM_FILEDES" using t by (auto simp: table_ok_def fd_ok_def fd_shape_def)
  obtain fds where f: "procs k1 p = Some (v\<lparr>fd := fds\<rparr>)" "length fds = NUM_FILEDES" "\<forall>i<NUM_FILEDES. fds ! i = None"
    using close_slots_empty [OF st(1) t c v] len by auto
  have "fds = replicate NUM_FILEDES None" using f(2,3) by (intro nth_equalityI) auto
  moreover have "keeps k1 k'" unfolding st(3) using exit_process_keeps [OF st(2)] by (meson keeps_trans keeps_fs(3))
  ultimately show ?thesis using keeps_fd [OF _ f(1)] by fastforce
qed

section \<open>Runs\<close>

text \<open>
  A run of the kernel as far as descriptors go: the calls, forks while there are fewer than \<open>2 ^ 23\<close> processes, the
  end of a process, its removal once its table is empty, and switches. A \<open>pipe\<close> may fail and leave a slot with a descriptor
  that has no node; what is not a step is a \<open>dup2\<close> onto such a slot, and the removal of a process that still has one.
\<close>

inductive fd_run :: "kernel \<Rightarrow> kernel \<Rightarrow> bool" where
  start: "fd_run k k"
| run_open: "fd_run k l \<Longrightarrow> sys_open addr path mode l = Inr (r, l') \<Longrightarrow> fd_run k l'"
| run_close: "fd_run k l \<Longrightarrow> sys_close file l = Inr (r, l') \<Longrightarrow> fd_run k l'"
| run_dup: "fd_run k l \<Longrightarrow> sys_dup file l = Inr (r, l') \<Longrightarrow> fd_run k l'"
| run_dup2: "fd_run k l \<Longrightarrow> sys_dup2 file file2 l = Inr (r, l') \<Longrightarrow> \<not> leaked l file2 \<Longrightarrow> fd_run k l'"
| run_pipe: "fd_run k l \<Longrightarrow> sys_pipe junk l = Inr (r, fds, l') \<Longrightarrow> fd_run k l'"
| run_read: "fd_run k l \<Longrightarrow> sys_read file addr len l = Inr (x, l') \<Longrightarrow> fd_run k l'"
| run_write: "fd_run k l \<Longrightarrow> sys_write file addr buf l = Inr (y, l') \<Longrightarrow> fd_run k l'"
| run_lseek: "fd_run k l \<Longrightarrow> sys_lseek file ptr dir l = Inr (r, l') \<Longrightarrow> fd_run k l'"
| run_fork: "fd_run k l \<Longrightarrow> fork_process l = Inr (ch, l') \<Longrightarrow> Suc (card (dom (procs l))) < 2 ^ 23 \<Longrightarrow> fd_run k l'"
| run_exit: "fd_run k l \<Longrightarrow> sys_exit code l = Inr l' \<Longrightarrow> fd_run k l'"
| run_reap: "fd_run k l \<Longrightarrow> free_process p l = Inr l' \<Longrightarrow> procs l p = Some v \<Longrightarrow> set (fd v) \<subseteq> {None} \<Longrightarrow> fd_run k l'"
| run_switch: "fd_run k l \<Longrightarrow> switch_kernel_thread rg l = Inr (rg', l') \<Longrightarrow> fd_run k l'"

lemma fd_run_ok: "fd_run k k' \<Longrightarrow> fd_ok k \<Longrightarrow> fd_ok k'"
proof (induction rule: fd_run.induct)
  case (run_switch k l rg rg' l')
  then show ?case using switch_kernel_thread_keeps keeps_ok by blast
qed (blast intro: sys_open_ok sys_close_ok sys_dup_ok sys_dup2_ok sys_pipe_ok sys_read_ok sys_write_ok
    sys_lseek_ok fork_process_ok sys_exit_ok free_process_ok)+

end
