(* ===== verification/FdProps.thy ===== *)
theory FdProps imports FdRuns PathNames DemoMachine begin

text \<open>
  The properties of the descriptor tables, on a small concrete kernel: one process with one thread, an empty table, and
  a file system whose root holds the debug device.
\<close>

section \<open>A concrete kernel\<close>

definition demo_fs :: fs where
  "demo_fs = \<lparr>nodes = [0 \<mapsto> new_node\<lparr>name := ''/'', parent := Some 0, child := Some 1\<rparr>,
                       1 \<mapsto> new_node\<lparr>name := ''debug'', parent := Some 0, drv := Some DebugDriver, type := FS_CHARDEV\<rparr>,
                       2 \<mapsto> new_node\<lparr>name := ''[pipe]'', drv := Some PipeDriver, type := FS_PIPE, data := Some 3, flags := PIPE_READ,
                              users := 1\<rparr>],
     vfs_root = Some 0, next_ptr = 4, errno = 0, pipes = [3 \<mapsto> pipe_open PIPE_READ (new_pipe 4 [7, 7, 7, 7])], tree = (\<lambda>_. None),
     tlinks = \<lparr>prv = id, nxt = id\<rparr>, ram = (\<lambda>_. 0), serial = [],
     fsched = \<lparr>tasks = \<lparr>prv = id, nxt = id\<rparr>, th_state = (\<lambda>_. 0), scheduler_sem = 0\<rparr>, cur_th = 0\<rparr>"

definition demo_thread :: thread where
  "demo_thread = \<lparr>regs = zero_regs, tid = 1, kernel_thread = None, proc = Some 0\<rparr>"

definition demo_kernel :: "nat option list \<Rightarrow> (nat \<Rightarrow> file_desc option) \<Rightarrow> kernel" where
  "demo_kernel fds ds = \<lparr>kfs = demo_fs,
     kmm = \<lparr>mvm = demo_vm, areas = (\<lambda>_. None), pmm = [0 \<mapsto> \<lparr>mm = zero_mm, pd = 0x1000, pd_sem = 0\<rparr>],
            mem = \<lparr>prv = id, nxt = id\<rparr>, copies = \<lparr>prv = id, nxt = id\<rparr>, procmm_sem = 0, next_area = 0\<rparr>,
     procs = [0 \<mapsto> (zero_process 1)\<lparr>fd := fds, cmdline := Some ''init''\<rparr>], threads = [0 \<mapsto> demo_thread], signals = (\<lambda>_. None), descs = ds,
     process_list = \<lparr>prv = id, nxt = id\<rparr>, process_threads = \<lparr>prv = id, nxt = id\<rparr>,
     signal_queue = \<lparr>prv = id, nxt = id\<rparr>, frames = (\<lambda>_. None), next_pid = 2, next_tid = 2, next_obj = 1,
     boot_thread = 0, kernel_booted = False, esp0 = None\<rparr>"

abbreviation demo_empty :: kernel where "demo_empty \<equiv> demo_kernel (replicate NUM_FILEDES None) (\<lambda>_. None)"

text \<open>The same with the reading end of a pipe as descriptor 0.\<close>

abbreviation demo_desc :: file_desc where
  "demo_desc \<equiv> \<lparr>ino = Some 2, offset = 0, fd_flags = 0, fd_users = 1\<rparr>"

abbreviation demo_held :: kernel where
  "demo_held \<equiv> demo_kernel ((replicate NUM_FILEDES None)[0 := Some 0]) [0 \<mapsto> demo_desc]"

lemma demo_empty_table: "table_ok demo_empty"
proof -
  have "refs demo_empty d = 0" for d
    by (simp add: refs_def demo_kernel_def count_list_0_iff)
  then show ?thesis
    by (auto simp: table_ok_def fd_ok_def fd_shape_def all_open_def users_of_def demo_kernel_def)
qed

lemma demo_held_table: "table_ok demo_held"
proof -
  have "count_list ((replicate NUM_FILEDES None)[0 := Some 0]) (Some d) = (if d = 0 then 1 else 0)" for d :: nat
    using count_list_upd [of 0 "replicate NUM_FILEDES (None :: nat option)" "Some 0" "Some d"]
    by (simp add: NUM_FILEDES_def count_list_0_iff)
  then have "refs demo_held d = (if d = 0 then 1 else 0)" for d
    by (simp add: refs_def demo_kernel_def)
  then show ?thesis
    by (auto simp: table_ok_def fd_ok_def fd_shape_def all_open_def users_of_def demo_kernel_def)
qed

lemma demo_current: "current_proc (demo_kernel fds ds) = Inr 0"
  by (simp add: current_proc_def current_def thread_of_def demo_kernel_def demo_fs_def demo_thread_def)

lemma first_free_replicate: "first_free (replicate NUM_FILEDES None) = Some 0"
  by (simp add: first_free_Some NUM_FILEDES_def)

lemma demo_path: "canonicalize_path ''/debug'' None = Inr ''/debug''"
  by code_simp

lemma demo_namei: "vfs_namei ''/debug'' demo_fs = Inr (Some 1, demo_fs)"
  by (simp add: vfs_namei_def vfs_namei_mount_def vfs_find_root_def demo_fs_def strsep_def named_child_def
      search_older.simps node_of_def new_node_def)

lemma demo_kernel_fs: "kfs (demo_kernel fds ds) = demo_fs" "procs (demo_kernel fds ds) 0 = Some ((zero_process 1)\<lparr>fd := fds, cmdline := Some ''init''\<rparr>)"
  "kernel_booted (demo_kernel fds ds) = False" "next_obj (demo_kernel fds ds) = 1" "descs (demo_kernel fds ds) = ds"
  by (simp_all add: demo_kernel_def)

lemma demo_grab: "\<exists>k1. grab_slot 0 demo_empty = Inr (Some (0, 1), k1) \<and> kfs k1 = demo_fs \<and> descs k1 1 \<noteq> None"
  using grab_slot_ok [of demo_empty 0 "(zero_process 1)\<lparr>fd := replicate NUM_FILEDES None, cmdline := Some ''init''\<rparr>" 0] demo_empty_table
  by (auto simp: demo_kernel_fs first_free_replicate table_ok_def)

lemma demo_open: "\<exists>k'. sys_open 0 ''/debug'' 0 demo_empty = Inr (0, k')"
proof -
  obtain k1 where k1: "grab_slot 0 demo_empty = Inr (Some (0, 1), k1)" "kfs k1 = demo_fs" "descs k1 1 \<noteq> None"
    using demo_grab by blast
  let ?s = "demo_fs\<lparr>nodes := (nodes demo_fs)(1 \<mapsto> new_node\<lparr>name := ''debug'', parent := Some 0, drv := Some DebugDriver,
      type := FS_CHARDEV, users := 1\<rparr>)\<rparr>"
  have "on_fs (vfs_namei ''/debug'') k1 = Inr (Some 1, k1\<lparr>kfs := demo_fs\<rparr>)"
    using demo_namei k1(2) by (simp add: on_fs_def)
  moreover have "vfs_open 1 0 demo_fs = Inr (0, ?s)"
    by (simp add: vfs_open_def upd_node_def node_of_def put_node_def driver_at_def demo_fs_def debug_driver_def
        debug_open_def new_node_def)
  then have "on_fs (vfs_open 1 0) (k1\<lparr>kfs := demo_fs\<rparr>) = Inr (0, k1\<lparr>kfs := ?s\<rparr>)" by (simp add: on_fs_def)
  ultimately show ?thesis using k1(1,3)
    by (simp add: sys_open_def user_address_def demo_kernel_fs demo_current demo_path upd_desc_def desc_of_def deref_def
        split: option.split)
qed

section \<open>Properties\<close>

text \<open>
  C1. Along every run of opens, closes, \<open>dup\<close>s, pipes, reads, writes, seeks, forks, exits and switches, failing calls
  included, the user count of a descriptor is the number of slots, over all processes, that hold it, and a descriptor exists
  exactly as long as some slot holds it: it is never freed early and never lost. A slot that a failing \<open>pipe\<close> has
  left with a descriptor without a node is counted as well; the runs leave out what the code does wrong with such a slot, a
  \<open>dup2\<close> onto it and the removal of a process that still has one, as well as forks at \<open>2 ^ 23\<close> processes.
\<close>

theorem fd_counts_exact:
  assumes "fd_run k k'" and "fd_ok k"
  shows "users_of k' d = refs k' d \<and> (descs k' d = None \<longleftrightarrow> refs k' d = 0)"
  using fd_run_ok [OF assms] unfolding fd_ok_def
  by (metis (no_types, lifting) option.exhaust option.simps(4,5) unat_eq_zero users_of_def)

theorem fd_counts_exact_witness: "\<exists>k'. fd_run demo_empty k' \<and> users_of k' 1 = refs k' 1"
proof -
  obtain k' where "sys_open 0 ''/debug'' 0 demo_empty = Inr (0, k')" using demo_open by blast
  then have "fd_run demo_empty k'" using fd_run.start fd_run.run_open by blast
  then show ?thesis using fd_counts_exact [of demo_empty k'] demo_empty_table by (auto simp: table_ok_def)
qed

text \<open>
  C19. A successful \<open>open\<close> returns the lowest free number; the slot holds a new descriptor of the node, with one user, the
  mode, and the position at the start, and no other slot or descriptor changes.
\<close>

theorem open_lowest:
  assumes "table_ok k" and "current_proc k = Inr p" and "procs k p = Some v"
    and "sys_open addr path mode k = Inr (r, k')" and "r \<noteq> -1"
  shows "\<exists>i d n. r = of_nat i \<and> i < NUM_FILEDES \<and> fd v ! i = None \<and> (\<forall>j<i. fd v ! j \<noteq> None) \<and>
    procs k' = (procs k)(p \<mapsto> v\<lparr>fd := (fd v)[i := Some d]\<rparr>) \<and> descs k d = None \<and>
    descs k' = (descs k)(d \<mapsto> \<lparr>ino = Some n, offset = 0, fd_flags = mode, fd_users = 1\<rparr>)"
proof -
  have f: "fd_ok k" using assms(1) by (simp add: table_ok_def)
  obtain g k1 where g: "grab_slot p k = Inr (g, k1)"
    using assms(2,4,5) by (auto simp: sys_open_def andthen_eq_Inr split: if_splits)
  obtain i d where x: "g = Some (i, d)"
    using assms(2,4,5) g by (cases g) (auto simp: sys_open_def andthen_eq_Inr split: if_splits)
  note gd = grab_slot_desc [OF g [unfolded x] f]
  have gs: "i < NUM_FILEDES" "first_free (fd v) = Some i" "procs k1 = (procs k)(p \<mapsto> v\<lparr>fd := (fd v)[i := Some d]\<rparr>)"
    using grab_slotD [OF g f] x assms(3) by auto
  obtain n s where u: "upd_desc d (\<lambda>v. v\<lparr>ino := Some n, offset := 0, fd_flags := mode\<rparr>) (k1\<lparr>kfs := s\<rparr>) = Inr k'" "r = of_nat i"
    using assms(2,4,5) g x
    by (auto simp: sys_open_def andthen_eq_Inr split: if_splits option.split_asm dest!: partD)
  then have "procs k' = procs k1" "descs k' = (descs k)(d \<mapsto> \<lparr>ino = Some n, offset = 0, fd_flags = mode, fd_users = 1\<rparr>)"
    using gd by (auto simp: upd_desc_def desc_of_def)
  then show ?thesis using u(2) gs gd by (auto simp: first_free_Some)
qed

theorem open_lowest_witness:
  "\<exists>i d n k'. sys_open 0 ''/debug'' 0 demo_empty = Inr (of_nat i, k') \<and> descs k' d = Some \<lparr>ino = Some n, offset = 0, fd_flags = 0, fd_users = 1\<rparr>"
proof -
  obtain k' where k': "sys_open 0 ''/debug'' 0 demo_empty = Inr (0, k')" using demo_open by blast
  have "(0 :: i32) \<noteq> -1" by simp
  from open_lowest [OF demo_empty_table demo_current demo_kernel_fs(2) k' this] k' show ?thesis by (metis fun_upd_same)
qed

text \<open>
  C18. A \<open>dup2\<close> that succeeds makes the second number an alias of the first and changes no other slot of the table;
  what was open there is closed, and with equal numbers nothing happens.
\<close>

theorem dup2_aliases:
  assumes "table_ok k" and "current_proc k = Inr p" and "procs k p = Some v"
    and "sys_dup2 f1 f2 k = Inr (r, k')" and "r \<noteq> -1"
  shows "\<exists>d v'. r = f2 \<and> unat f2 < NUM_FILEDES \<and> fd v ! unat f1 = Some d \<and> procs k' p = Some v' \<and>
    fd v' = (fd v)[unat f2 := Some d]"
proof -
  obtain s where s: "slot_of p f1 k = Inr s" using assms(2,4) by (auto simp: sys_dup2_def andthen_eq_Inr)
  have v1: "unat f1 < NUM_FILEDES" "fd v ! unat f1 = s" using slot_ofD [OF s] assms(3) by auto
  note r = assms(4) [unfolded sys_dup2_def assms(2) s andthen_Inr]
  have e: "\<not> (s = None \<or> f2 <s 0)" "\<not> of_nat NUM_FILEDES \<le>s f2"
    using r assms(5) by (auto split: if_splits)
  then obtain d where d: "s = Some d" by auto
  show ?thesis
  proof (cases "f1 = f2")
    case True
    then have "r = f2 \<and> k' = k" using r e by simp
    then show ?thesis using True v1 d assms(3) by (intro exI [of _ d] exI [of _ v]) (use list_update_id [of "fd v" "unat f2"] in simp)
  next
    case False
    obtain s2 k1 s3 k2 d3 where st: "slot_of p f2 k = Inr s2"
      "(if s2 \<noteq> None then andthen (sys_close f2 k) (\<lambda>(_, k). Inr k) else Inr k) = Inr k1"
      "slot_of p f1 k1 = Inr s3" "set_slot p (unat f2) s3 k1 = Inr k2" "fd_get d3 k2 = Inr k'" "r = f2"
      using r unfolding if_not_P [OF e(1)] if_not_P [OF e(2)] if_not_P [OF False]
      by (auto simp: andthen_eq_Inr split del: if_split)
    have v2: "unat f2 < NUM_FILEDES" "fd v ! unat f2 = s2" using slot_ofD [OF st(1)] assms(3) by auto
    have len: "length (fd v) = NUM_FILEDES" using assms(1,3) by (auto simp: table_ok_def fd_ok_def fd_shape_def)
    have ne: "unat f1 \<noteq> unat f2" using False by (metis word_unat_eq_iff)
    obtain v1' where v1': "procs k1 p = Some v1'" "(fd v1')[unat f2 := x] = (fd v)[unat f2 := x]"
        "fd v1' ! unat f1 = fd v ! unat f1" for x
    proof (cases s2)
      case None
      then show ?thesis using that [of v] st(2) assms(3) by simp
    next
      case (Some d2)
      then obtain rc where "sys_close f2 k = Inr (rc, k1)" using st(2) by (auto simp: andthen_eq_Inr)
      from sys_close_other [OF this assms(1-3)] show ?thesis using that ne by simp
    qed
    have "s3 = Some d" using slot_ofD [OF st(3)] v1' v1 d by auto
    then have "procs k2 p = Some (v1'\<lparr>fd := (fd v1')[unat f2 := Some d]\<rparr>)"
      using st(4) set_slot_eq [OF v1'(1)] by (auto simp: put_proc_def)
    moreover have "procs k' = procs k2" using st(5) by (auto simp: fd_get_def upd_desc_def andthen_eq_Inr)
    ultimately show ?thesis using st(6) v1 v2 v1'(2) d by auto
  qed
qed

text \<open>
  C15. The end of a process leaves its table empty, when every descriptor has a node (no \<open>pipe\<close> has left a slot without
  one, which \<open>close\<close> refuses): when \<open>_exit\<close> returns to the scheduler, no slot of the process holds a descriptor any more.
\<close>

theorem exit_releases:
  assumes "table_ok k" and "current_proc k = Inr p" and "sys_exit rc k = Inr k'"
  shows "\<exists>v. procs k' p = Some v \<and> fd v = replicate NUM_FILEDES None"
  by (rule sys_exit_empty [OF assms(3,1,2)])

lemma share_descs_open:
  "share_descs ds k = Inr k' \<Longrightarrow> Some d \<in> set ds \<Longrightarrow> \<exists>v n. descs k d = Some v \<and> ino v = Some n"
proof (induction ds k arbitrary: k' rule: share_descs.induct)
  case (2 r k)
  then show ?case by auto
next
  case (3 e r k)
  obtain k1 n v x k2 where st: "fd_get e k = Inr k1" "desc_of e k1 = Inr v" "ino v = Some n"
    "on_fs (vfs_open n (fd_flags v)) k1 = Inr (x, k2)" "share_descs r k2 = Inr k'"
    using "3.prems"(1) by (auto simp: andthen_eq_Inr deref_def split: option.splits)
  obtain w where w: "descs k e = Some w" "descs k1 = (descs k)(e \<mapsto> w\<lparr>fd_users := fd_users w + 1\<rparr>)"
    using st(1) by (auto simp: fd_get_def upd_desc_def andthen_eq_Inr dest!: desc_ofD)
  have "ino w = Some n" using st(2,3) w(2) by (auto dest!: desc_ofD)
  moreover have "descs k2 = descs k1" using partD(1) [OF st(4)] by auto
  ultimately show ?case using "3.IH" [OF st(5)] "3.prems"(2) w by (cases "d = e") auto
qed simp

lemma fork_needs_nodes:
  assumes r: "fork_process k = Inr (ch, k')" and c: "current_proc k = Inr p" and v: "procs k p = Some v"
    and s: "fd_shape k" and d: "Some d \<in> set (fd v)"
  shows "\<exists>w n. descs k d = Some w \<and> ino w = Some n"
proof -
  obtain k1 k2 x k3 k4 pv k5 k6 where st: "alloc_process k = Inr (ch, k1)"
    "do_mm (procmm_fork p ch) k1 = Inr k2" "on_machine vmm_clone_pd k2 = Inr (x, k3)" "set_pd ch x k3 = Inr k4"
    "proc_of p k4 = Inr pv" "upd_proc ch (\<lambda>v. v\<lparr>fd := fd pv\<rparr>) k4 = Inr k5" "share_descs (fd pv) k5 = Inr k6"
    using r c unfolding fork_process_def by (auto simp: andthen_eq_Inr)
  note n = alloc_process_new [OF st(1)]
  obtain m where k4: "k4 = k1\<lparr>kmm := m\<rparr>"
    using st(2-4) by (auto simp: on_machine_def set_pd_def dest!: partD)
  have "p \<noteq> ch" using n s v by (auto simp: fd_shape_def)
  then have "pv = v" using st(5) n k4 v by (auto dest!: proc_ofD)
  moreover have "descs k5 = descs k" using st(6) n k4 by (auto simp: upd_proc_def andthen_eq_Inr put_proc_def)
  ultimately show ?thesis using share_descs_open [OF st(7)] d by metis
qed

text \<open>
  C37. A \<open>pipe\<close> that finds only one free slot fails but keeps that slot, with a descriptor that has no node: closing it is
  refused, and the process cannot fork as long as one of its slots holds that descriptor and the descriptor has no node, since
  \<open>fork\<close> opens the node of every slot. (A \<open>dup2\<close> onto the slot takes it back.)
\<close>

theorem pipe_leaks_slot:
  assumes "table_ok k" and "current_proc k = Inr p" and "procs k p = Some v"
    and "first_free (fd v) = Some i" and "\<forall>j<NUM_FILEDES. j \<noteq> i \<longrightarrow> fd v ! j \<noteq> None"
  shows "\<exists>k' d v' w. sys_pipe junk k = Inr (-1, (of_nat i, -1), k') \<and> sys_close (of_nat i) k' = Inr (-1, kerrno EBADF k') \<and>
    procs k' p = Some v' \<and> fd v' ! i = Some d \<and> descs k' d = Some w \<and> ino w = None \<and> fd_ok k' \<and> current_proc k' = Inr p \<and>
    (\<forall>l u x. current_proc l = Inr p \<longrightarrow> fd_ok l \<longrightarrow> procs l p = Some u \<longrightarrow> Some d \<in> set (fd u) \<longrightarrow> descs l d = Some x \<longrightarrow>
       ino x = None \<longrightarrow> (\<forall>ch l'. fork_process l \<noteq> Inr (ch, l')))"
proof -
  have f: "fd_ok k" using assms(1) by (simp add: table_ok_def)
  define d where "d = next_obj k"
  obtain k1 where k1: "grab_slot p k = Inr (Some (i, d), k1)" "fd_ok k1" "i < NUM_FILEDES"
    "procs k1 = (procs k)(p \<mapsto> v\<lparr>fd := (fd v)[i := Some d]\<rparr>)" "kfs k1 = kfs k" "threads k1 = threads k"
    "descs k1 = (descs k)(d \<mapsto> \<lparr>ino = None, offset = 0, fd_flags = 0, fd_users = 1\<rparr>)"
    using grab_slot_ok [OF f assms(3,4)] unfolding d_def by blast
  have len: "length (fd v) = NUM_FILEDES" using f assms(3) by (auto simp: fd_ok_def fd_shape_def)
  have "None \<notin> set ((fd v)[i := Some d])"
    using assms(5) len k1(3) by (auto simp: in_set_conv_nth nth_list_update split: if_splits)
  then have "grab_slot p k1 = Inr (None, k1)"
    using k1(4) by (intro grab_slot_full) (auto simp: first_free_None)
  then have pipe: "sys_pipe junk k = Inr (-1, (of_nat i, -1), kerrno EMFILE k1)"
    using k1(1) assms(2) by (simp add: sys_pipe_def Let_def)
  let ?k = "kerrno EMFILE k1"
  have cp: "current_proc ?k = Inr p"
    using assms(2) k1(5,6) current_proc_eq [of ?k k] by (simp add: kerrno_def set_errno_def)
  have v': "procs ?k p = Some (v\<lparr>fd := (fd v)[i := Some d]\<rparr>)" using k1(4) by simp
  have i: "sint (of_nat i :: i32) = int i" "unat (of_nat i :: i32) = i"
    using k1(3) by (simp_all add: NUM_FILEDES_def unat_of_nat signed_of_nat take_bit_int_eq_self signed_take_bit_int_eq_self)
  then have "slot_of p (of_nat i) ?k = Inr (Some d)"
    using v' k1(3) len by (simp add: slot_of_def proc_of_def slot_index_def)
  then have "desc_at p (of_nat i) ?k = Inr (d, \<lparr>ino = None, offset = 0, fd_flags = 0, fd_users = 1\<rparr>)"
    using k1(7) by (simp add: desc_at_def desc_of_def)
  then have close: "sys_close (of_nat i) ?k = Inr (-1, kerrno EBADF ?k)"
    using cp by (simp add: sys_close_def)
  have "\<forall>ch l'. fork_process l \<noteq> Inr (ch, l')"
    if "current_proc l = Inr p" "fd_ok l" "procs l p = Some u" "Some d \<in> set (fd u)" "descs l d = Some x" "ino x = None" for l u x
    using fork_needs_nodes [OF _ that(1,3) _ that(4)] that(2,5,6) by (fastforce simp: fd_ok_def)
  moreover have "fd_ok ?k" using k1(2) by simp
  moreover have "(fd v)[i := Some d] ! i = Some d" using len k1(3) by simp
  ultimately show ?thesis using pipe close cp v' k1(7) by (intro exI [of _ ?k] exI [of _ d]) simp
qed

text \<open>
  C36. \<open>dup\<close> adds a user to the descriptor but not to the node, while every \<open>close\<close> takes one from the node: after the reading
  end of a pipe, open once, has been duplicated and one of the two numbers closed, the node is freed, though the other
  number is still open on it. Its next use is an access to freed memory.
\<close>

theorem dup_close_frees_node:
  assumes "table_ok k" and "current_proc k = Inr p" and "procs k p = Some v" and "i < NUM_FILEDES" and "fd v ! i = Some d"
    and "descs k d = Some w" and "ino w = Some n" and "first_free (fd v) = Some j"
    and "nodes (kfs k) n = Some nv" and "users nv = 1" and "parent nv = None" and "drv nv = Some PipeDriver"
    and "data nv = Some q" and "pipes (kfs k) q = Some pip"
  shows "\<exists>k1 k2. sys_dup (of_nat i) k = Inr (of_nat j, k1) \<and> sys_close (of_nat i) k1 = Inr (0, k2) \<and>
    descs k2 d = Some w \<and> sys_isatty (of_nat j) k2 = Inl BadPtr"
proof -
  have f: "fd_ok k" using assms(1) by (simp add: table_ok_def)
  have len: "length (fd v) = NUM_FILEDES" using f assms(3) by (auto simp: fd_ok_def fd_shape_def)
  have j: "j < NUM_FILEDES" "fd v ! j = None" "i \<noteq> j" using assms(5,8) len by (auto simp: first_free_Some)
  have num: "sint (of_nat m :: i32) = int m" "unat (of_nat m :: i32) = m" if "m < NUM_FILEDES" for m
    using that by (simp_all add: NUM_FILEDES_def unat_of_nat signed_of_nat take_bit_int_eq_self signed_take_bit_int_eq_self)
  have slot: "slot_of p (of_nat m) l = Inr (fd u ! m)" if "m < NUM_FILEDES" "procs l p = Some u" for m l u
    using that num [of m] by (simp add: slot_of_def proc_of_def slot_index_def)
  obtain k1 where k1: "andthen (set_slot p j (Some d) k) (fd_get d) = Inr k1" "fd_ok k1"
    "procs k1 = (procs k)(p \<mapsto> v\<lparr>fd := (fd v)[j := Some d]\<rparr>)" "kfs k1 = kfs k" "threads k1 = threads k"
    "descs k1 = (descs k)(d \<mapsto> w\<lparr>fd_users := fd_users w + 1\<rparr>)"
    using link_slot [OF f assms(3) j(1,2) assms(6)] by blast
  have dup: "sys_dup (of_nat i) k = Inr (of_nat j, k1)"
    using k1(1) by (auto simp: sys_dup_def assms slot [OF assms(4,3)] proc_of_def andthen_eq_Inr)
  have c1: "current_proc k1 = Inr p" using assms(2) current_proc_eq [of k1 k] k1 by simp
  let ?v1 = "v\<lparr>fd := (fd v)[j := Some d]\<rparr>"
  have at1: "desc_at p (of_nat i) k1 = Inr (d, w\<lparr>fd_users := fd_users w + 1\<rparr>)"
    using k1 j assms(4,5) slot [of i k1 ?v1] len by (simp add: desc_at_def desc_of_def)
  define s where "s = put_pipe q (pipe_close (flags nv) pip) (put_node n (nv\<lparr>users := 0\<rparr>) (kfs k))"
  have "vfs_close n (kfs k) = Inr (0, s)"
    by (simp add: vfs_close_def upd_node_def driver_at_def pipe_driver_def close_pipe_def pipe_of_def assms s_def)
  then have cl: "on_fs (vfs_close n) k1 = Inr (0, k1\<lparr>kfs := s\<rparr>)" using k1(4) by (simp add: on_fs_def)
  define s' where "s' = s\<lparr>nodes := (nodes s)(n := None)\<rparr>"
  have "vfs_free n s = Inr s'"
    by (simp add: vfs_free_def node_of_def s_def s'_def put_pipe_def in_vfs_tree_def assms pipe_driver_def free_node_def)
  then have fr: "do_fs (vfs_free n) (k1\<lparr>kfs := s\<rparr>) = Inr (k1\<lparr>kfs := s'\<rparr>)" by (simp add: do_fs_def)
  have "fd_users w + 1 \<noteq> 1" using users_word(3) [OF f assms(6)] by simp
  moreover have "fd_ok (k1\<lparr>kfs := s'\<rparr>)" using k1(2) by simp
  ultimately obtain k2 where k2: "drop_slot p i d (k1\<lparr>kfs := s'\<rparr>) = Inr k2"
    "procs k2 = (procs k1)(p \<mapsto> ?v1\<lparr>fd := (fd ?v1)[i := None]\<rparr>)" "kfs k2 = s'" "threads k2 = threads k1"
    "descs k2 = (descs k1)(d \<mapsto> w)"
    using drop_slot_ok [of "k1\<lparr>kfs := s'\<rparr>" p ?v1 i d "w\<lparr>fd_users := fd_users w + 1\<rparr>"] k1 j assms(4,5) len by auto
  have close: "sys_close (of_nat i) k1 = Inr (0, k2)"
    using c1 at1 cl fr k2(1) num(2) [OF assms(4)] assms(7) by (simp add: sys_close_def)
  have "cur_th s' = cur_th (kfs k)" by (simp add: s'_def s_def put_pipe_def)
  then have c2: "current_proc k2 = Inr p" using c1 current_proc_eq [of k2 k1] k1(4) k2(3,4) by simp
  have "desc_at p (of_nat j) k2 = Inr (d, w)"
    using k2(2,5) slot [of j k2 "?v1\<lparr>fd := (fd ?v1)[i := None]\<rparr>"] j len by (simp add: desc_at_def desc_of_def)
  moreover have "nodes s' n = None" by (simp add: s'_def)
  ultimately have "sys_isatty (of_nat j) k2 = Inl BadPtr"
    using c2 assms(7) k2(3) by (simp add: sys_isatty_def on_fs_def vfs_isatty_def driver_at_def)
  then show ?thesis using dup close k2(5) by auto
qed

theorem dup_close_frees_node_witness:
  "\<exists>k1 k2. sys_dup 0 demo_held = Inr (1, k1) \<and> sys_close 0 k1 = Inr (0, k2) \<and> sys_isatty 1 k2 = Inl BadPtr"
proof -
  have "first_free ((replicate NUM_FILEDES None)[0 := Some (0 :: nat)]) = Some 1"
    by (simp add: first_free_Some NUM_FILEDES_def)
  moreover have "nodes demo_fs 2 = Some (new_node\<lparr>name := ''[pipe]'', drv := Some PipeDriver, type := FS_PIPE, data := Some 3,
      flags := PIPE_READ, users := 1\<rparr>)" "pipes demo_fs 3 = Some (pipe_open PIPE_READ (new_pipe 4 [7, 7, 7, 7]))"
    by (simp_all add: demo_fs_def)
  ultimately have "\<exists>k1 k2. sys_dup (of_nat 0) demo_held = Inr (of_nat 1, k1) \<and> sys_close (of_nat 0) k1 = Inr (0, k2) \<and>
      descs k2 0 = Some demo_desc \<and> sys_isatty (of_nat 1) k2 = Inl BadPtr"
    by (intro dup_close_frees_node [OF demo_held_table demo_current demo_kernel_fs(2)])
      (simp_all add: demo_kernel_fs NUM_FILEDES_def, simp_all add: new_node_def)
  then show ?thesis by auto
qed

theorem dup2_aliases_witness:
  "\<exists>k' v'. sys_dup2 0 5 demo_held = Inr (5, k') \<and> procs k' 0 = Some v' \<and> fd v' ! 5 = Some 0"
proof -
  let ?v = "(zero_process 1)\<lparr>fd := (replicate NUM_FILEDES None)[0 := Some 0], cmdline := Some ''init''\<rparr>"
  have slot: "slot_of 0 0 demo_held = Inr (Some 0)" "slot_of 0 5 demo_held = Inr None"
    by (simp_all add: slot_of_def proc_of_def demo_kernel_fs slot_index_def NUM_FILEDES_def)
  have num: "\<not> (5 :: i32) <s 0" "\<not> (of_nat NUM_FILEDES :: i32) \<le>s 5" "(0 :: i32) \<noteq> 5" "unat (5 :: i32) = 5"
    by (simp_all add: NUM_FILEDES_def word_sless_alt word_sle_eq)
  have "\<exists>k'. andthen (set_slot 0 5 (Some 0) demo_held) (fd_get 0) = Inr k'"
    using link_slot [of demo_held 0 ?v 5 0 demo_desc] demo_held_table
    by (auto simp: table_ok_def demo_kernel_fs NUM_FILEDES_def)
  then obtain k' where k': "sys_dup2 0 5 demo_held = Inr (5, k')"
    by (auto simp: sys_dup2_def demo_current slot andthen_eq_Inr num)
  have "(5 :: i32) \<noteq> -1" by simp
  from dup2_aliases [OF demo_held_table demo_current demo_kernel_fs(2) k' this]
  obtain d v' where "fd ?v ! unat (0 :: i32) = Some d" "procs k' 0 = Some v'" "fd v' = (fd ?v)[unat (5 :: i32) := Some d]" by blast
  then have "procs k' 0 = Some v'" "fd v' ! 5 = Some 0" by (auto simp: NUM_FILEDES_def)
  then show ?thesis using k' by blast
qed

lemma close_slots_none:
  "procs k p = Some v \<Longrightarrow> \<forall>i\<in>set ns. fd v ! i = None \<Longrightarrow> close_slots ns p k = Inr k"
  by (induction ns) (simp_all add: proc_of_def)

lemma free_other_none: "nxt (process_threads k) (Threads p) = Threads p \<Longrightarrow> free_other_threads p k = Inr k"
  by (simp add: free_other_threads_def for_each_safe_def loop_saved.simps)

lemma wake_none:
  "nxt (tasks s) h = h \<Longrightarrow> scheduler_sem s = 0 \<Longrightarrow> \<exists>s'. scheduler_wake h s = Inr s'"
  by (simp add: scheduler_wake_def for_each_safe_def loop_saved.simps lock_sched_def)

lemma demo_held_close:
  "\<exists>k1. sys_close 0 demo_held = Inr (0, k1) \<and> process_threads k1 = \<lparr>prv = id, nxt = id\<rparr> \<and>
     fsched (kfs k1) = \<lparr>tasks = \<lparr>prv = id, nxt = id\<rparr>, th_state = (\<lambda>_. 0), scheduler_sem = 0\<rparr>"
proof -
  have "desc_at 0 0 demo_held = Inr (0, demo_desc)"
    by (simp add: desc_at_def slot_of_def proc_of_def demo_kernel_fs slot_index_def NUM_FILEDES_def desc_of_def)
  then show ?thesis
    by (simp add: sys_close_def demo_current on_fs_def demo_kernel_fs vfs_close_def upd_node_def node_of_def demo_fs_def
        driver_at_def pipe_driver_def close_pipe_def pipe_of_def new_node_def do_fs_def vfs_free_def in_vfs_tree_def
        free_node_def put_pipe_def put_node_def drop_slot_def fd_put_def upd_desc_def desc_of_def set_slot_def upd_proc_def
        proc_of_def put_proc_def) (simp add: demo_kernel_def)
qed

theorem exit_releases_witness:
  "\<exists>k' v. sys_exit 7 demo_held = Inr k' \<and> procs k' 0 = Some v \<and> fd v = replicate NUM_FILEDES None"
proof -
  obtain k1 where c: "sys_close 0 demo_held = Inr (0, k1)" "process_threads k1 = \<lparr>prv = id, nxt = id\<rparr>"
    "fsched (kfs k1) = \<lparr>tasks = \<lparr>prv = id, nxt = id\<rparr>, th_state = (\<lambda>_. 0), scheduler_sem = 0\<rparr>"
    using demo_held_close by blast
  have same: "(replicate NUM_FILEDES None)[0 := None] = (replicate NUM_FILEDES None :: nat option list)"
    using list_update_id [of "replicate NUM_FILEDES None" 0] by (simp add: NUM_FILEDES_def)
  obtain v1 where v1: "procs k1 0 = Some v1" "fd v1 = replicate NUM_FILEDES None"
    using sys_close_other [OF c(1) demo_held_table demo_current demo_kernel_fs(2)]
    by (simp add: same)
  have zero: "(replicate NUM_FILEDES None)[0 := Some 0] ! 0 = Some (0 :: nat)" by (simp add: NUM_FILEDES_def)
  have "[0..<NUM_FILEDES] = 0 # [1..<NUM_FILEDES]" by (simp add: NUM_FILEDES_def upt_conv_Cons)
  moreover have "close_slots [1..<NUM_FILEDES] 0 k1 = Inr k1"
    by (rule close_slots_none [OF v1(1)]) (simp add: v1)
  ultimately have "close_slots [0..<NUM_FILEDES] 0 demo_held = Inr k1"
    using c(1) by (simp add: proc_of_def demo_kernel_fs zero)
  moreover obtain k2 where "exit_process 0 7 k1 = Inr k2"
    using v1 c(2,3)
    by (simp add: exit_process_def upd_proc_def proc_of_def put_proc_def free_other_none set_state_def do_sched_def do_fs_def
      scheduler_wake_def for_each_safe_def loop_saved.simps lock_sched_def)
  ultimately have r: "sys_exit 7 demo_held = Inr (set_state (current k2) THREAD_STATE_FINISHED k2)"
    by (simp add: sys_exit_def demo_current)
  from exit_releases [OF demo_held_table demo_current r] r show ?thesis by blast
qed

lemma demo_one_left:
  "table_ok (demo_kernel ((replicate NUM_FILEDES (Some 0))[255 := None]) [0 \<mapsto> demo_desc\<lparr>fd_users := 255\<rparr>])"
proof -
  have "count_list ((replicate NUM_FILEDES (Some 0))[255 := None]) (Some d) = (if d = 0 then 255 else 0)" for d :: nat
  proof -
    have "count_list (replicate n (Some (0 :: nat))) (Some d) = (if d = 0 then n else 0)" for n
      by (induction n) auto
    then show ?thesis
      using count_list_upd [of 255 "replicate NUM_FILEDES (Some (0 :: nat))" None "Some d"] by (cases "d = 0") (simp_all add: NUM_FILEDES_def)
  qed
  then have "refs (demo_kernel ((replicate NUM_FILEDES (Some 0))[255 := None]) ds) d = (if d = 0 then 255 else 0)" for d ds
    by (simp add: refs_def demo_kernel_def)
  then show ?thesis
    by (auto simp: table_ok_def fd_ok_def fd_shape_def all_open_def users_of_def demo_kernel_def)
qed

theorem pipe_leaks_slot_witness:
  "\<exists>k'. sys_pipe [] (demo_kernel ((replicate NUM_FILEDES (Some 0))[255 := None]) [0 \<mapsto> demo_desc\<lparr>fd_users := 255\<rparr>]) =
     Inr (-1, (255, -1), k') \<and> sys_close 255 k' = Inr (-1, kerrno EBADF k')"
proof -
  have "first_free ((replicate NUM_FILEDES (Some (0 :: nat)))[255 := None]) = Some 255"
    by (simp add: first_free_Some NUM_FILEDES_def nth_list_update)
  moreover have "\<forall>j<NUM_FILEDES. j \<noteq> 255 \<longrightarrow> (replicate NUM_FILEDES (Some (0 :: nat)))[255 := None] ! j \<noteq> None"
    by (simp add: nth_list_update)
  ultimately show ?thesis
    using pipe_leaks_slot [OF demo_one_left demo_current demo_kernel_fs(2), of 255 "[]"] by fastforce
qed

end
