(* ===== verification/Elf.thy ===== *)
theory Elf imports UserMem begin

text \<open>
  Executables, \<^verbatim>\<open>kernel/proc/elf.c\<close>: the headers as they lie in the file, loading of the
  segments into the memory of the current process, and the kernel's own symbol table. A structure that is
  read from a file is a list of bytes; \<open>garbage\<close> is what \<open>malloc\<close> leaves in the buffer, of which a short read
  overwrites only the beginning. An executable is read without blocking.
\<close>

section \<open>Headers\<close>

definition half_at :: "u8 list \<Rightarrow> nat \<Rightarrow> u16" where
  "half_at bs i = ucast (bytes_word (take 2 (drop i bs)))"

definition word_at :: "u8 list \<Rightarrow> nat \<Rightarrow> u32" where
  "word_at bs i = bytes_word (take 4 (drop i bs))"

record elf_header =
  identity :: "u8 list"
  e_type :: u16
  e_entry :: u32
  ph_offset :: u32
  ph_num :: u16

record elf_phead =
  ph_type :: u32
  ph_off :: u32
  virtual_address :: u32
  file_size :: u32
  mem_size :: u32
  ph_flags :: u32

definition elf_header_size :: u32 where "elf_header_size = 52"
definition elf_phead_size :: u32 where "elf_phead_size = 32"

definition parse_header :: "u8 list \<Rightarrow> elf_header" where
  "parse_header bs = \<lparr>identity = take 16 bs, e_type = half_at bs 16, e_entry = word_at bs 24,
     ph_offset = word_at bs 28, ph_num = half_at bs 44\<rparr>"

definition parse_phead :: "u8 list \<Rightarrow> elf_phead" where
  "parse_phead bs = \<lparr>ph_type = word_at bs 0, ph_off = word_at bs 4, virtual_address = word_at bs 8,
     file_size = word_at bs 16, mem_size = word_at bs 20, ph_flags = word_at bs 24\<rparr>"

definition ELF_TYPE_EXECUTABLE :: u32 where "ELF_TYPE_EXECUTABLE = 2"
definition ELF_PT_LOAD :: u32 where "ELF_PT_LOAD = 1"
definition ELF_PT_W :: u32 where "ELF_PT_W = 4"

text \<open>\<open>_is_elf\<close>: the type of the file, or -1 for a file that is not an ELF file.\<close>

definition elf_kind :: "elf_header \<Rightarrow> u32" where
  "elf_kind h =
     (if take 4 (identity h) = [0x7F, 0x45, 0x4C, 0x46] then ucast (e_type h) else -1)"

section \<open>Loading\<close>

text \<open>A read from a file into a buffer of the kernel.\<close>

definition read_struct :: "nat \<Rightarrow> u32 \<Rightarrow> u32 \<Rightarrow> u8 list \<Rightarrow> kernel \<Rightarrow> (u8 list \<times> kernel) res" where
  "read_struct file len off garbage k =
     andthen (on_fs (vfs_read file len off) k) (\<lambda>(r, k).
     case r of
       Returns (bs, _) \<Rightarrow> Inr (bs @ drop (length bs) garbage, k)
     | Sleeps _ \<Rightarrow> Inl Hang)"

definition is_elf :: "nat \<Rightarrow> u8 list \<Rightarrow> kernel \<Rightarrow> (u32 \<times> kernel) res" where
  "is_elf file garbage k =
     andthen (read_struct file elf_header_size 0 garbage k) (\<lambda>(bs, k). Inr (elf_kind (parse_header bs), k))"

definition load_elf_segment :: "nat \<Rightarrow> elf_phead \<Rightarrow> kernel \<Rightarrow> kernel res" where
  "load_elf_segment file ph k =
     (let fl = (if ph_flags ph AND ELF_PT_W \<noteq> 0 then MM_FLAG_READ OR MM_FLAG_WRITE else MM_FLAG_READ);
          memsize = mem_size ph; filesize = file_size ph; mempos = virtual_address ph; filepos = ph_off ph in
      andthen (current_proc k) (\<lambda>p.
      andthen (on_mm (new_area p mempos (mempos + memsize) fl MM_TYPE_DATA) k) (\<lambda>(_, k).
      if memsize = 0 then Inr k
      else
       andthen (on_fs (vfs_read file filesize filepos) k) (\<lambda>(r, k).
       case r of
         Sleeps _ \<Rightarrow> Inl Hang
       | Returns (bs, _) \<Rightarrow>
          andthen (put_user mempos bs k) (\<lambda>k.
          put_user (mempos + filesize) (replicate (unat (memsize - filesize)) 0) k)))))"

definition upd_mm :: "(process_mem \<Rightarrow> process_mem) \<Rightarrow> kernel \<Rightarrow> kernel res" where
  "upd_mm f k = andthen (current_proc k) (\<lambda>p. do_mm (upd_pmm p (\<lambda>v. v\<lparr>mm := f (mm v)\<rparr>)) k)"

text \<open>The code range grows to hold a segment that is loaded.\<close>

definition cover_segment :: "elf_phead \<Rightarrow> process_mem \<Rightarrow> process_mem" where
  "cover_segment ph m =
     (let st = virtual_address ph; en = st + mem_size ph in
      m\<lparr>code_start := (if st < code_start m then st else code_start m),
        code_end := (if en > code_end m then en else code_end m)\<rparr>)"

fun load_segments :: "nat \<Rightarrow> elf_phead list \<Rightarrow> kernel \<Rightarrow> kernel res" where
  "load_segments file [] k = Inr k"
| "load_segments file (ph # r) k =
     andthen (if ph_type ph = ELF_PT_LOAD
              then andthen (upd_mm (cover_segment ph) k) (\<lambda>k. load_elf_segment file ph k)
              else Inr k) (\<lambda>k. load_segments file r k)"

definition pheads :: "nat \<Rightarrow> u8 list \<Rightarrow> elf_phead list" where
  "pheads n bs = map (\<lambda>i. parse_phead (take 32 (drop (32 * i) bs))) [0..<n]"

definition load_elf :: "nat \<Rightarrow> u8 list \<Rightarrow> u8 list \<Rightarrow> kernel \<Rightarrow> (u32 \<times> kernel) res" where
  "load_elf file garbage1 garbage2 k =
     andthen (read_struct file elf_header_size 0 garbage1 k) (\<lambda>(bs, k).
     let h = parse_header bs in
     if elf_kind h \<noteq> ELF_TYPE_EXECUTABLE then Inr (-1, k)
     else
      andthen (read_struct file (elf_phead_size * ucast (ph_num h)) (ph_offset h) garbage2 k) (\<lambda>(bs, k).
      andthen (upd_mm (\<lambda>m. m\<lparr>code_start := -1, code_end := 0\<rparr>) k) (\<lambda>k.
      andthen (load_segments file (pheads (unat (ph_num h)) bs) k) (\<lambda>k.
      andthen (upd_mm (\<lambda>m. m\<lparr>data_end := code_end m, code_entry := e_entry h\<rparr>) k) (\<lambda>k.
      Inr (0, k))))))"

section \<open>The symbols of the kernel\<close>

record elf_symbol =
  sym_name :: u32
  sym_value :: u32
  sym_size :: u32
  sym_info :: u8

record elf_section =
  sec_name :: string
  sec_address :: u32
  sec_size :: u32

record kernel_elf =
  symtab :: u32
  symtab_size :: u32
  strtab :: u32
  strtab_size :: u32

text \<open>The sections by name; the last one of a name counts.\<close>

fun kernel_elf_init :: "elf_section list \<Rightarrow> kernel_elf \<Rightarrow> kernel_elf" where
  "kernel_elf_init [] e = e"
| "kernel_elf_init (s # r) e =
     (let e = (if sec_name s = ''.strtab''
               then e\<lparr>strtab := assert_higher (sec_address s), strtab_size := sec_size s\<rparr> else e);
          e = (if sec_name s = ''.symtab''
               then e\<lparr>symtab := assert_higher (sec_address s), symtab_size := sec_size s\<rparr> else e)
      in kernel_elf_init r e)"

text \<open>The offset of the name of the function at an address.\<close>

fun kernel_lookup_symbol :: "u32 \<Rightarrow> elf_symbol list \<Rightarrow> u32 option" where
  "kernel_lookup_symbol addr [] = None"
| "kernel_lookup_symbol addr (s # r) =
     (if sym_info s AND 0xF \<noteq> 2 then kernel_lookup_symbol addr r
      else if addr \<ge> sym_value s \<and> addr < sym_value s + sym_size s then Some (sym_name s)
      else kernel_lookup_symbol addr r)"

end
