(* ===== verification/SysProcess.thy ===== *)
theory SysProcess imports Signals Elf begin

text \<open>
  The process calls, \<^verbatim>\<open>kernel/syscall/sys_process.c\<close>, and the calls for memory and the system,
  \<^verbatim>\<open>kernel/syscall/sys_mem.c\<close> and \<^verbatim>\<open>kernel/syscall/sys_system.c\<close>.
\<close>

definition ESRCH :: u32 where "ESRCH = 3"
definition ENOEXEC :: u32 where "ENOEXEC = 8"
definition ECHILD :: u32 where "ECHILD = 10"
definition ENOMEM :: u32 where "ENOMEM = 12"

section \<open>The stack of a new program\<close>

text \<open>
  The strings of \<open>argv\<close> or \<open>env\<close> go below the pointers to them: the loop of \<open>execve\<close> over the strings, as the
  list of what it writes, with the final position. \<open>base\<close> is the address of the array of pointers.
\<close>

fun string_writes :: "u32 \<Rightarrow> nat \<Rightarrow> u32 \<Rightarrow> u8 list list \<Rightarrow> (u32 \<times> u8 list) list \<times> u32" where
  "string_writes base i pos [] = ([], pos)"
| "string_writes base i pos (s # ss) =
     (let pos = pos - 4 * (of_nat (length s) div 4 + 2);
          (ws, fin) = string_writes base (Suc i) pos ss
      in ((pos, s @ [0]) # (base + 4 * of_nat i, word_bytes pos) # ws, fin))"

definition vector_writes :: "u32 \<Rightarrow> u8 list list \<Rightarrow> (u32 \<times> u8 list) list \<times> u32 \<times> u32" where
  "vector_writes pos ss =
     (let base = pos - 4 * (of_nat (length ss) + 1) - 4;
          (ws, fin) = string_writes base 0 base ss
      in (ws @ [(base + 4 * of_nat (length ss), word_bytes 0)], base, fin))"

fun do_writes :: "(u32 \<times> u8 list) list \<Rightarrow> kernel \<Rightarrow> kernel res" where
  "do_writes [] k = Inr k"
| "do_writes ((a, bs) # r) k = andthen (put_user a bs k) (\<lambda>k. do_writes r k)"

text \<open>A null vector leaves the pointer and the position as they are.\<close>

definition place_vector :: "u32 \<Rightarrow> u8 list list option \<Rightarrow> kernel \<Rightarrow> (u32 \<times> u32 \<times> kernel) res" where
  "place_vector pos v k =
     (case v of
        None \<Rightarrow> Inr (0, pos, k)
      | Some ss \<Rightarrow>
         (let (ws, base, fin) = vector_writes pos ss in
          andthen (do_writes ws k) (\<lambda>k. Inr (base, fin, k))))"

definition arg_count :: "u8 list list option \<Rightarrow> u32" where
  "arg_count v = (case v of None \<Rightarrow> 0 | Some ss \<Rightarrow> of_nat (length ss) + 1)"

definition set_regs :: "(registers \<Rightarrow> registers) \<Rightarrow> kernel \<Rightarrow> kernel res" where
  "set_regs f k = upd_thread (current k) (\<lambda>v. v\<lparr>regs := f (regs v)\<rparr>) k"

section \<open>The calls\<close>

definition sys_execve :: "u8 list \<Rightarrow> u8 list \<Rightarrow> u8 list \<Rightarrow> string \<Rightarrow> u8 list list option \<Rightarrow> u8 list list option \<Rightarrow>
    kernel \<Rightarrow> (i32 \<times> kernel) res" where
  "sys_execve g1 g2 g3 path argv env k =
     andthen (on_fs (vfs_namei path) k) (\<lambda>(exe, k).
     case exe of
       None \<Rightarrow> Inr (-1, kerrno ENOENT k)
     | Some exe \<Rightarrow>
        andthen (is_elf exe g1 k) (\<lambda>(kind, k).
        if kind \<noteq> 2 then Inr (-1, kerrno ENOEXEC k)
        else
         andthen (current_proc k) (\<lambda>p.
         andthen (upd_proc p (\<lambda>v. v\<lparr>cmdline := Some path\<rparr>) k) (\<lambda>k.
         andthen (do_mm (procmm_removeall p) k) (\<lambda>k.
         andthen (upd_proc p (\<lambda>v. v\<lparr>signal_handler := replicate NUM_SIGNALS 0,
                                   signal_blocked := replicate NUM_SIGNALS 0\<rparr>) k) (\<lambda>k.
         let k = k\<lparr>signal_queue := init_list (signal_queue k) (SignalQueue p)\<rparr> in
         andthen (load_elf exe g2 g3 k) (\<lambda>(_, k).
         andthen (set_regs (\<lambda>r. r\<lparr>r_eax := 0, r_ebx := 0, r_ecx := 0, r_edx := 0\<rparr>) k) (\<lambda>k.
         andthen (on_mm (new_area p USER_STACK_TOP USER_STACK_TOP
                    (MM_FLAG_WRITE OR MM_FLAG_GROWSDOWN OR MM_FLAG_ADDONUSE) MM_TYPE_STACK) k) (\<lambda>(_, k).
         andthen (upd_thread (current k) (\<lambda>v. v\<lparr>kernel_thread := Some (ThreadRegs (current k))\<rparr>) k) (\<lambda>k.
         andthen (place_vector USER_STACK_TOP env k) (\<lambda>(envp, pos, k).
         andthen (place_vector pos argv k) (\<lambda>(argvp, pos, k).
         let pos = pos - 12 in
         andthen (do_writes [(pos, word_bytes (arg_count argv - 1)), (pos + 4, word_bytes argvp),
                             (pos + 8, word_bytes envp)] k) (\<lambda>k.
         andthen (set_regs (\<lambda>r. r\<lparr>r_useresp := pos, r_ebp := pos, r_ecx := pos\<rparr>) k) (\<lambda>k.
         Inr (0, kerrno 0 k)))))))))))))))"

definition sys_fork :: "kernel \<Rightarrow> (i32 \<times> kernel) res" where
  "sys_fork k =
     andthen (fork_process k) (\<lambda>(ch, k).
     andthen (pthread_entry (nxt (process_threads k) (Threads ch))) (\<lambda>t.
     andthen (upd_thread t (\<lambda>v. v\<lparr>regs := (regs v)\<lparr>r_eax := 0\<rparr>\<rparr>) k) (\<lambda>k.
     let k = kerrno 0 k in
     andthen (do_sched (scheduler_insert t) k) (\<lambda>k.
     andthen (proc_of ch k) (\<lambda>v. Inr (pid v, k))))))"

definition sys_getpid :: "kernel \<Rightarrow> (i32 \<times> kernel) res" where
  "sys_getpid k =
     andthen (current_proc k) (\<lambda>p.
     andthen (proc_of p k) (\<lambda>v. Inr (pid v, kerrno 0 k)))"

definition sys_kill :: "i32 \<Rightarrow> i32 \<Rightarrow> kernel \<Rightarrow> (i32 outcome \<times> kernel) res" where
  "sys_kill n s k =
     (if n \<le>s 0 then Inr (Returns (-1), kerrno ESRCH k)
      else if of_nat NUM_SIGNALS <s s then Inr (Returns (-1), kerrno EINVAL k)
      else
       andthen (get_process n k) (\<lambda>q.
       if q = None then Inr (Returns (-1), kerrno ESRCH k)
       else andthen (signal_process n s k) (\<lambda>(r, k).
            Inr (case r of Returns _ \<Rightarrow> Returns 0 | Sleeps w \<Rightarrow> Sleeps w, k))))"

definition sys_wait :: "kernel \<Rightarrow> i32 \<times> kernel" where
  "sys_wait k = (-1, kerrno ECHILD k)"

text \<open>
  \<open>waitpid\<close>: the loop, which starts again here when the sleeping thread is woken, and the call.
\<close>

definition waitpid_loop :: "nat \<Rightarrow> kernel \<Rightarrow> (i32 outcome \<times> kernel) res" where
  "waitpid_loop p k =
     andthen (proc_of p k) (\<lambda>v.
     if p_state v \<noteq> PROC_STATE_FINISHED
     then andthen (do_sched (scheduler_sleep (current k) (ProcWaiting p)) k) (\<lambda>k. Inr (Sleeps [], k))
     else andthen (free_process p k) (\<lambda>k. Inr (Returns (exit_code v), kerrno 0 k)))"

definition sys_waitpid :: "i32 \<Rightarrow> kernel \<Rightarrow> (i32 outcome \<times> kernel) res" where
  "sys_waitpid n k =
     andthen (get_process n k) (\<lambda>q.
     andthen (deref q) (\<lambda>p. waitpid_loop p k))"

text \<open>\<open>signal\<close>; the number of \<open>SIGSTOP\<close> comes from the C library.\<close>

definition sys_signal :: "i32 \<Rightarrow> i32 \<Rightarrow> u32 \<Rightarrow> kernel \<Rightarrow> (u32 \<times> kernel) res" where
  "sys_signal sigstop s hn k =
     (if of_nat NUM_SIGNALS <s s then Inr (-1, kerrno EINVAL k)
      else if (s = of_nat SIGKILL \<or> s = sigstop) \<and> hn \<noteq> 0 then Inr (-1, kerrno EINVAL k)
      else
       andthen (current_proc k) (\<lambda>p.
       andthen (proc_of p k) (\<lambda>v.
       andthen (sig_entry (signal_handler v) (unat s)) (\<lambda>old.
       andthen (upd_proc p (\<lambda>v. v\<lparr>signal_handler := (signal_handler v)[unat s := hn]\<rparr>) k) (\<lambda>k.
       Inr (old, k))))))"

definition sys_process_debug :: "kernel \<Rightarrow> kernel res" where
  "sys_process_debug k =
     andthen (current_proc k) (\<lambda>p. upd_proc p (\<lambda>v. v\<lparr>p_flags := p_flags v OR PROC_FLAG_DEBUG\<rparr>) k)"

definition sys_thread_fork :: "u32 \<Rightarrow> u32 \<Rightarrow> u32 \<Rightarrow> kernel \<Rightarrow> (u32 \<times> kernel) res" where
  "sys_thread_fork stack func arg k =
     andthen (new_thread func True k) (\<lambda>(t, k).
     andthen (current_proc k) (\<lambda>p.
     andthen (add_thread p t k) (\<lambda>k.
     andthen (put_user_word (stack - 4) arg k) (\<lambda>k.
     andthen (put_user_word (stack - 8) SIGNAL_RETURN_ADDRESS k) (\<lambda>k.
     andthen (upd_thread t (\<lambda>v. v\<lparr>regs := (regs v)\<lparr>r_useresp := stack - 8, r_ebp := stack - 8\<rparr>\<rparr>) k) (\<lambda>k.
     andthen (thread_of t k) (\<lambda>v. Inr (tid v, k))))))))"

section \<open>Memory and system\<close>

text \<open>The kernel's own heap.\<close>

record kheap =
  kmem_top :: u32
  kmem_ptr :: u32

partial_function (option) map_heap :: "u32 \<Rightarrow> u32 \<Rightarrow> vm \<Rightarrow> (u32 \<times> vm) res option" where
  "map_heap tp target m =
     (if tp < target
      then case andthen (pmm_alloc_page m) (\<lambda>(page, m).
                vmm_page_set tp (vmm_page_val page (PAGE_PRESENT OR PAGE_WRITE)) m) of
             Inl e \<Rightarrow> Some (Inl e)
           | Inr m \<Rightarrow> map_heap (tp + PAGE_SIZE) target m
      else Some (Inr (tp, m)))"

declare map_heap.simps [code]

text \<open>\<open>sbrk\<close> of the kernel: the result, the value of \<open>errno\<close>, and the new state.\<close>

definition kernel_sbrk :: "i32 \<Rightarrow> kheap \<Rightarrow> vm \<Rightarrow> (u32 \<times> u32 \<times> kheap \<times> vm) res" where
  "kernel_sbrk incr h m =
     (if kmem_ptr h + incr \<ge> KERNEL_HEAP_END then Inr (0, ENOMEM, h, m)
      else
       andthen (returns (map_heap (kmem_top h) (kmem_ptr h + incr) m)) (\<lambda>(tp, m).
       Inr (kmem_ptr h, 0, h\<lparr>kmem_top := tp, kmem_ptr := kmem_ptr h + incr\<rparr>, m)))"

definition usr_sbrk :: "u32 \<Rightarrow> kernel \<Rightarrow> (u32 \<times> kernel) res" where
  "usr_sbrk incr k =
     (let k = kerrno 0 k in
      andthen (current_proc k) (\<lambda>p.
      andthen (pmm_of p (kmm k)) (\<lambda>v.
      let de = data_end (mm v) in
      if de + incr > KERNEL_OFFSET then Inr (-1, kerrno ENOMEM k)
      else
       andthen (find_including p de (kmm k)) (\<lambda>f.
       andthen
         (case f of
            Some a \<Rightarrow>
              andthen (area_of a (kmm k)) (\<lambda>av.
              if a_end av > de + incr then Inr k
              else andthen (on_mm (new_area p (a_end av) (de + incr) (MM_FLAG_READ OR MM_FLAG_WRITE) MM_TYPE_DATA) k)
                     (\<lambda>(_, k). Inr k))
          | None \<Rightarrow> andthen (on_mm (new_area p de (de + incr) (MM_FLAG_READ OR MM_FLAG_WRITE) MM_TYPE_DATA) k)
                     (\<lambda>(_, k). Inr k)) (\<lambda>k.
       andthen (do_mm (upd_pmm p (\<lambda>v. v\<lparr>mm := (mm v)\<lparr>data_end := de + incr\<rparr>\<rparr>)) k) (\<lambda>k.
       Inr (de, k)))))))"

definition sys_times :: "kernel \<Rightarrow> i32 \<times> kernel" where
  "sys_times k = (-1, kerrno 0 k)"

definition sys_vidmem :: "kernel \<Rightarrow> (u32 \<times> kernel) res" where
  "sys_vidmem k =
     andthen (current_proc k) (\<lambda>p.
     andthen (on_mm (new_area p 0xB8000 0xB9000 (MM_FLAG_READ OR MM_FLAG_WRITE OR MM_FLAG_NOSHARE) MM_TYPE_DATA) k) (\<lambda>(_, k).
     andthen (do_mm (on_vm (\<lambda>m. andthen (vmm_page_get 0xB8000 m) (\<lambda>pt. pmm_free_page pt m))) k) (\<lambda>k.
     andthen (do_mm (on_vm (vmm_page_set 0xB8000
        (vmm_page_val 0xB8000 (PAGE_PRESENT OR PAGE_WRITE OR PAGE_USER)))) k) (\<lambda>k.
     Inr (0xB8000, k)))))"

end
