(* ===== verification/Syscalls.thy ===== *)
theory Syscalls imports SysProcess begin

text \<open>
  The way into the kernel: the interrupt handler (\<^verbatim>\<open>kernel/arch/idt.c\<close>), the table of calls and
  their wrappers (\<^verbatim>\<open>kernel/syscall/syscall.c\<close> and the \<open>KDEF_SYSCALL\<close> functions), which take the
  arguments from the user's stack and leave the result in \<open>eax\<close> and \<open>errno\<close> in \<open>edx\<close>. The calls come from user
  mode, and the interrupted registers are those of the current thread.
\<close>

section \<open>Arguments\<close>

definition user_arg :: "nat \<Rightarrow> kernel \<Rightarrow> (u32 \<times> kernel) res" where
  "user_arg i k =
     andthen (thread_of (current k) k) (\<lambda>t. get_user_word (r_useresp (regs t) + 4 + 4 * of_nat i) k)"

text \<open>A string of the user, and a vector of strings that ends with a null pointer.\<close>

partial_function (option) user_bytes :: "u32 \<Rightarrow> u8 list \<Rightarrow> kernel \<Rightarrow> (u8 list \<times> kernel) res option" where
  "user_bytes va acc k =
     (case user_byte va k of
        Inl e \<Rightarrow> Some (Inl e)
      | Inr (b, k) \<Rightarrow> if b = 0 then Some (Inr (rev acc, k)) else user_bytes (va + 1) (b # acc) k)"

partial_function (option) user_vector :: "u32 \<Rightarrow> u8 list list \<Rightarrow> kernel \<Rightarrow> (u8 list list \<times> kernel) res option" where
  "user_vector va acc k =
     (case get_user_word va k of
        Inl e \<Rightarrow> Some (Inl e)
      | Inr (w, k) \<Rightarrow>
         if w = 0 then Some (Inr (rev acc, k))
         else (case returns (user_bytes w [] k) of
                 Inl e \<Rightarrow> Some (Inl e)
               | Inr (s, k) \<Rightarrow> user_vector (va + 4) (s # acc) k))"

declare user_bytes.simps [code] user_vector.simps [code]

definition user_string :: "u32 \<Rightarrow> kernel \<Rightarrow> (string \<times> kernel) res" where
  "user_string va k = andthen (returns (user_bytes va [] k)) (\<lambda>(bs, k). Inr (map ascii bs, k))"

definition user_vector_or_null :: "u32 \<Rightarrow> kernel \<Rightarrow> (u8 list list option \<times> kernel) res" where
  "user_vector_or_null va k =
     (if va = 0 then Inr (None, k)
      else andthen (returns (user_vector va [] k)) (\<lambda>(v, k). Inr (Some v, k)))"

section \<open>Results\<close>

text \<open>What a wrapper gives: the registers are set, or the thread has called \<open>schedule\<close> first.\<close>

definition set_result :: "u32 \<Rightarrow> kernel \<Rightarrow> (unit outcome \<times> kernel) res" where
  "set_result v k =
     andthen (set_regs (\<lambda>r. r\<lparr>r_eax := v, r_edx := errno (kfs k)\<rparr>) k) (\<lambda>k. Inr (Returns (), k))"

definition set_eax :: "u32 \<Rightarrow> kernel \<Rightarrow> (unit outcome \<times> kernel) res" where
  "set_eax v k = andthen (set_regs (\<lambda>r. r\<lparr>r_eax := v\<rparr>) k) (\<lambda>k. Inr (Returns (), k))"

definition outcome_result :: "u32 outcome \<Rightarrow> kernel \<Rightarrow> (unit outcome \<times> kernel) res" where
  "outcome_result r k = (case r of Returns v \<Rightarrow> set_result v k | Sleeps w \<Rightarrow> Inr (Sleeps w, k))"

section \<open>The wrappers\<close>

definition k_close :: "kernel \<Rightarrow> (unit outcome \<times> kernel) res" where
  "k_close k = andthen (user_arg 0 k) (\<lambda>(a, k). andthen (sys_close a k) (\<lambda>(r, k). set_result r k))"

text \<open>The mode is stored at the caller's address.\<close>

definition store_mode :: "u32 \<Rightarrow> u32 option \<Rightarrow> kernel \<Rightarrow> kernel res" where
  "store_mode va m k = (case m of None \<Rightarrow> Inr k | Some w \<Rightarrow> put_user_word va w k)"

definition k_fstat :: "(u32 \<Rightarrow> u32) \<Rightarrow> kernel \<Rightarrow> (unit outcome \<times> kernel) res" where
  "k_fstat mode_addr k =
     andthen (user_arg 0 k) (\<lambda>(a, k).
     andthen (user_arg 1 k) (\<lambda>(b, k).
     andthen (sys_fstat a b k) (\<lambda>(r, m, k).
     andthen (store_mode (mode_addr b) m k) (\<lambda>k. set_result r k))))"

definition k_isatty :: "kernel \<Rightarrow> (unit outcome \<times> kernel) res" where
  "k_isatty k = andthen (user_arg 0 k) (\<lambda>(a, k). andthen (sys_isatty a k) (\<lambda>(r, k). set_result r k))"

definition k_lseek :: "kernel \<Rightarrow> (unit outcome \<times> kernel) res" where
  "k_lseek k =
     andthen (user_arg 0 k) (\<lambda>(a, k).
     andthen (user_arg 1 k) (\<lambda>(b, k).
     andthen (user_arg 2 k) (\<lambda>(c, k).
     andthen (sys_lseek a b c k) (\<lambda>(r, k). set_result r k))))"

definition k_open :: "kernel \<Rightarrow> (unit outcome \<times> kernel) res" where
  "k_open k =
     andthen (user_arg 0 k) (\<lambda>(a, k).
     andthen (user_arg 1 k) (\<lambda>(b, k).
     andthen (user_string a k) (\<lambda>(s, k).
     andthen (sys_open a s b k) (\<lambda>(r, k). set_result r k))))"

definition k_read :: "kernel \<Rightarrow> (unit outcome \<times> kernel) res" where
  "k_read k =
     andthen (user_arg 0 k) (\<lambda>(a, k).
     andthen (user_arg 1 k) (\<lambda>(b, k).
     andthen (user_arg 2 k) (\<lambda>(c, k).
     andthen (sys_read a b c k) (\<lambda>(r, k).
     case r of
       Sleeps w \<Rightarrow> Inr (Sleeps w, k)
     | Returns (bs, n) \<Rightarrow> andthen (put_user b bs k) (\<lambda>k. set_result n k)))))"

definition k_stat :: "(u32 \<Rightarrow> u32) \<Rightarrow> kernel \<Rightarrow> (unit outcome \<times> kernel) res" where
  "k_stat mode_addr k =
     andthen (user_arg 0 k) (\<lambda>(a, k).
     andthen (user_arg 1 k) (\<lambda>(b, k).
     andthen (user_string a k) (\<lambda>(s, k).
     andthen (sys_stat a s b k) (\<lambda>(r, m, k).
     andthen (store_mode (mode_addr b) m k) (\<lambda>k. set_result r k)))))"

definition k_write :: "kernel \<Rightarrow> (unit outcome \<times> kernel) res" where
  "k_write k =
     andthen (user_arg 0 k) (\<lambda>(a, k).
     andthen (user_arg 1 k) (\<lambda>(b, k).
     andthen (user_arg 2 k) (\<lambda>(c, k).
     andthen (get_user b (unat c) k) (\<lambda>(bs, k).
     andthen (sys_write a b bs k) (\<lambda>(r, k). outcome_result r k)))))"

text \<open>An entry of the user's \<open>struct dirent\<close> has a zero number and the name in 256 bytes.\<close>

definition dirent_bytes :: "string \<Rightarrow> u8 list" where
  "dirent_bytes s = replicate 4 0 @ take 256 (map (\<lambda>c. of_nat (of_char c)) s @ replicate 256 0)"

definition k_readdir :: "kernel \<Rightarrow> (unit outcome \<times> kernel) res" where
  "k_readdir k =
     andthen (user_arg 0 k) (\<lambda>(a, k).
     andthen (user_arg 1 k) (\<lambda>(b, k).
     andthen (sys_readdir a (b - 1 + 1) k) (\<lambda>(de, k).
     case de of
       None \<Rightarrow> set_eax (-1) k
     | Some s \<Rightarrow>
        andthen (user_arg 2 k) (\<lambda>(c, k).
        andthen (put_user c (dirent_bytes s) k) (\<lambda>k. set_eax 0 k)))))"

definition k_dup :: "kernel \<Rightarrow> (unit outcome \<times> kernel) res" where
  "k_dup k = andthen (user_arg 0 k) (\<lambda>(a, k). andthen (sys_dup a k) (\<lambda>(r, k). set_result r k))"

definition k_dup2 :: "kernel \<Rightarrow> (unit outcome \<times> kernel) res" where
  "k_dup2 k =
     andthen (user_arg 0 k) (\<lambda>(a, k).
     andthen (user_arg 1 k) (\<lambda>(b, k).
     andthen (sys_dup2 a b k) (\<lambda>(r, k). set_result r k)))"

definition k_pipe :: "u8 list \<Rightarrow> kernel \<Rightarrow> (unit outcome \<times> kernel) res" where
  "k_pipe garbage k =
     andthen (user_arg 0 k) (\<lambda>(a, k).
     andthen (sys_pipe garbage k) (\<lambda>(r, (x, y), k).
     andthen (put_user_word a x k) (\<lambda>k.
     andthen (put_user_word (a + 4) y k) (\<lambda>k. set_result r k))))"

definition k_exit :: "kernel \<Rightarrow> (unit outcome \<times> kernel) res" where
  "k_exit k = andthen (user_arg 0 k) (\<lambda>(a, k). andthen (sys_exit a k) (\<lambda>k. Inr (Sleeps [], k)))"

text \<open>After a successful \<open>execve\<close> the thread starts at the entry of the program.\<close>

definition k_execve :: "u8 list \<Rightarrow> u8 list \<Rightarrow> u8 list \<Rightarrow> kernel \<Rightarrow> (unit outcome \<times> kernel) res" where
  "k_execve g1 g2 g3 k =
     andthen (user_arg 0 k) (\<lambda>(a, k).
     andthen (user_arg 1 k) (\<lambda>(b, k).
     andthen (user_arg 2 k) (\<lambda>(c, k).
     andthen (user_string a k) (\<lambda>(s, k).
     andthen (user_vector_or_null c k) (\<lambda>(env, k).
     andthen (user_vector_or_null b k) (\<lambda>(argv, k).
     andthen (sys_execve g1 g2 g3 s argv env k) (\<lambda>(r, k).
     andthen (set_result r k) (\<lambda>(_, k).
     if r = -1 then Inr (Returns (), k)
     else
      andthen (current_proc k) (\<lambda>p.
      andthen (pmm_of p (kmm k)) (\<lambda>v.
      andthen (set_regs (\<lambda>r. r\<lparr>r_eip := code_entry (mm v)\<rparr>) k) (\<lambda>k. Inr (Returns (), k))))))))))))"

definition k_fork :: "kernel \<Rightarrow> (unit outcome \<times> kernel) res" where
  "k_fork k = andthen (sys_fork k) (\<lambda>(r, k). set_result r k)"

definition k_getpid :: "kernel \<Rightarrow> (unit outcome \<times> kernel) res" where
  "k_getpid k = andthen (sys_getpid k) (\<lambda>(r, k). set_result r k)"

definition k_kill :: "kernel \<Rightarrow> (unit outcome \<times> kernel) res" where
  "k_kill k =
     andthen (user_arg 0 k) (\<lambda>(a, k).
     andthen (user_arg 1 k) (\<lambda>(b, k).
     andthen (sys_kill a b k) (\<lambda>(r, k). outcome_result r k)))"

definition k_waitpid :: "kernel \<Rightarrow> (unit outcome \<times> kernel) res" where
  "k_waitpid k =
     andthen (user_arg 0 k) (\<lambda>(a, k). andthen (sys_waitpid a k) (\<lambda>(r, k). outcome_result r k))"

definition k_signal :: "i32 \<Rightarrow> kernel \<Rightarrow> (unit outcome \<times> kernel) res" where
  "k_signal sigstop k =
     andthen (user_arg 0 k) (\<lambda>(a, k).
     andthen (user_arg 1 k) (\<lambda>(b, k).
     andthen (sys_signal sigstop a b k) (\<lambda>(r, k). set_result r k)))"

definition k_thread_fork :: "kernel \<Rightarrow> (unit outcome \<times> kernel) res" where
  "k_thread_fork k =
     andthen (user_arg 0 k) (\<lambda>(a, k).
     andthen (user_arg 1 k) (\<lambda>(b, k).
     andthen (user_arg 2 k) (\<lambda>(c, k).
     andthen (sys_thread_fork a b c k) (\<lambda>(r, k). set_eax r k))))"

definition k_sbrk :: "kernel \<Rightarrow> (unit outcome \<times> kernel) res" where
  "k_sbrk k = andthen (user_arg 0 k) (\<lambda>(a, k). andthen (usr_sbrk a k) (\<lambda>(r, k). set_result r k))"

definition k_vidmem :: "kernel \<Rightarrow> (unit outcome \<times> kernel) res" where
  "k_vidmem k = andthen (sys_vidmem k) (\<lambda>(r, k). set_eax r k)"

text \<open>\<open>printf\<close> writes to the kernel's log, which is left out.\<close>

definition k_printf :: "kernel \<Rightarrow> (unit outcome \<times> kernel) res" where
  "k_printf k = andthen (set_regs (\<lambda>r. r\<lparr>r_edx := 0\<rparr>) k) (\<lambda>k. Inr (Returns (), k))"

definition k_link :: "kernel \<Rightarrow> (unit outcome \<times> kernel) res" where
  "k_link k = (let (r, k) = sys_link k in set_result r k)"

definition k_unlink :: "kernel \<Rightarrow> (unit outcome \<times> kernel) res" where
  "k_unlink k = (let (r, k) = sys_unlink k in set_result r k)"

definition k_times :: "kernel \<Rightarrow> (unit outcome \<times> kernel) res" where
  "k_times k = (let (r, k) = sys_times k in set_result r k)"

definition k_wait :: "kernel \<Rightarrow> (unit outcome \<times> kernel) res" where
  "k_wait k = (let (r, k) = sys_wait k in set_result r k)"

definition k_yield :: "kernel \<Rightarrow> (unit outcome \<times> kernel) res" where
  "k_yield k = Inr (Sleeps [], k)"

definition k_process_debug :: "kernel \<Rightarrow> (unit outcome \<times> kernel) res" where
  "k_process_debug k = andthen (sys_process_debug k) (\<lambda>k. Inr (Returns (), k))"

section \<open>The table\<close>

datatype call =
  C_exit | C_close | C_execve | C_fork | C_fstat | C_getpid | C_isatty | C_kill | C_link | C_lseek
| C_open | C_read | C_sbrk | C_stat | C_times | C_unlink | C_wait | C_write | C_waitpid | C_yield
| C_signal | C_readdir | C_dup | C_dup2 | C_pipe | C_thread | C_pdbg | C_printf | C_vidmem

definition NUM_SYSCALLS :: u32 where "NUM_SYSCALLS = 256"

definition register_syscall :: "u32 \<Rightarrow> call \<Rightarrow> (u32 \<Rightarrow> call option) \<Rightarrow> (u32 \<Rightarrow> call option)" where
  "register_syscall num h tab = tab(num \<mapsto> h)"

definition syscall_numbers :: "(u32 \<times> call) list" where
  "syscall_numbers =
     [(0x1, C_exit), (0x2, C_close), (0x3, C_execve), (0x4, C_fork), (0x5, C_fstat), (0x6, C_getpid),
      (0x7, C_isatty), (0x8, C_kill), (0x9, C_link), (0xA, C_lseek), (0xB, C_open), (0xC, C_read),
      (0xD, C_sbrk), (0xE, C_stat), (0xF, C_times), (0x10, C_unlink), (0x11, C_wait), (0x12, C_write),
      (0x13, C_waitpid), (0x14, C_yield), (0x15, C_signal), (0x16, C_readdir), (0x17, C_dup),
      (0x18, C_dup2), (0x19, C_pipe), (0x1A, C_thread), (0xF1, C_printf), (0xF0, C_pdbg), (0xF2, C_vidmem)]"

definition syscall_init :: "u32 \<Rightarrow> call option" where
  "syscall_init = fold (\<lambda>(n, h) tab. register_syscall n h tab) syscall_numbers (\<lambda>_. None)"

text \<open>
  What the calls take from the C library and the allocator: the address of \<open>st_mode\<close> in a \<open>struct stat\<close>, the number
  of \<open>SIGSTOP\<close>, and the contents of fresh memory.
\<close>

record environment =
  st_mode_addr :: "u32 \<Rightarrow> u32"
  sigstop_number :: u32
  fresh_header :: "u8 list"
  fresh_pheads :: "u8 list"
  fresh_buffer :: "u8 list"

fun run_call :: "environment \<Rightarrow> call \<Rightarrow> kernel \<Rightarrow> (unit outcome \<times> kernel) res" where
  "run_call e C_exit k = k_exit k"
| "run_call e C_close k = k_close k"
| "run_call e C_execve k = k_execve (fresh_header e) (fresh_header e) (fresh_pheads e) k"
| "run_call e C_fork k = k_fork k"
| "run_call e C_fstat k = k_fstat (st_mode_addr e) k"
| "run_call e C_getpid k = k_getpid k"
| "run_call e C_isatty k = k_isatty k"
| "run_call e C_kill k = k_kill k"
| "run_call e C_link k = k_link k"
| "run_call e C_lseek k = k_lseek k"
| "run_call e C_open k = k_open k"
| "run_call e C_read k = k_read k"
| "run_call e C_sbrk k = k_sbrk k"
| "run_call e C_stat k = k_stat (st_mode_addr e) k"
| "run_call e C_times k = k_times k"
| "run_call e C_unlink k = k_unlink k"
| "run_call e C_wait k = k_wait k"
| "run_call e C_write k = k_write k"
| "run_call e C_waitpid k = k_waitpid k"
| "run_call e C_yield k = k_yield k"
| "run_call e C_signal k = k_signal (sigstop_number e) k"
| "run_call e C_readdir k = k_readdir k"
| "run_call e C_dup k = k_dup k"
| "run_call e C_dup2 k = k_dup2 k"
| "run_call e C_pipe k = k_pipe (fresh_buffer e) k"
| "run_call e C_thread k = k_thread_fork k"
| "run_call e C_pdbg k = k_process_debug k"
| "run_call e C_printf k = k_printf k"
| "run_call e C_vidmem k = k_vidmem k"

definition ERROR_NOSYSCALL :: u32 where "ERROR_NOSYSCALL = 1"

definition syscall_handler :: "environment \<Rightarrow> (u32 \<Rightarrow> call option) \<Rightarrow> kernel \<Rightarrow> (unit outcome \<times> kernel) res" where
  "syscall_handler e tab k =
     andthen (thread_of (current k) k) (\<lambda>t.
     if r_eax (regs t) \<ge> NUM_SYSCALLS then Inl Overrun
     else
      case tab (r_eax (regs t)) of
        Some c \<Rightarrow> run_call e c k
      | None \<Rightarrow> andthen (set_regs (\<lambda>r. r\<lparr>r_edx := ERROR_NOSYSCALL\<rparr>) k) (\<lambda>k. Inr (Returns (), k)))"

section \<open>Interrupts\<close>

definition INT_PF :: u32 where "INT_PF = 0xE"
definition INT_SYSCALL :: u32 where "INT_SYSCALL = 0x80"
definition INT_SCHEDULE :: u32 where "INT_SCHEDULE = 0x82"

text \<open>The bytes the handler sends to the interrupt controllers: (port, value).\<close>

definition ack_irq :: "u32 \<Rightarrow> (u16 \<times> u8) list" where
  "ack_irq n =
     (if n \<ge> 32 \<and> n \<le> 47
      then (if n - 32 > 8 then [(0xA0, 0x20), (0x20, 0x20)] else [(0x20, 0x20)])
      else [])"

text \<open>
  The return to user mode: pending signals are handled, the kernel stack is set for the next interrupt, and
  interrupts are enabled. A thread that is left waiting for a handler gives the processor away.
\<close>

definition to_user :: "nat \<Rightarrow> kernel \<Rightarrow> (nat outcome \<times> kernel) res" where
  "to_user t k =
     andthen (handle_signals t k) (\<lambda>(r, k).
     case r of
       Sleeps w \<Rightarrow> Inr (Sleeps w, k)
     | Returns t \<Rightarrow>
        andthen (upd_thread t (\<lambda>v. v\<lparr>regs := (regs v)\<lparr>r_eflags := r_eflags (regs v) OR EFL_INT\<rparr>\<rparr>) (k\<lparr>esp0 := Some t\<rparr>)) (\<lambda>k.
        Inr (Returns t, k)))"

text \<open>A system call of the current thread, from the interrupt to the return or the call of \<open>schedule\<close>.\<close>

definition system_call :: "environment \<Rightarrow> kernel \<Rightarrow> (nat outcome \<times> kernel) res" where
  "system_call e k =
     andthen (syscall_handler e syscall_init k) (\<lambda>(r, k).
     case r of
       Sleeps w \<Rightarrow> Inr (Sleeps w, k)
     | Returns _ \<Rightarrow> to_user (current k) k)"

section \<open>The interrupt table\<close>

record idt_entry =
  base_l :: u16
  segment :: u16
  reserved :: u8
  idt_flags :: u8
  base_h :: u16

definition idt_set :: "nat \<Rightarrow> u32 \<Rightarrow> u16 \<Rightarrow> u8 \<Rightarrow> idt_entry list \<Rightarrow> idt_entry list" where
  "idt_set num base seg fl idt =
     (if base = 0 then idt
      else idt[num := \<lparr>base_l = ucast base, segment = seg, reserved = 0, idt_flags = fl,
                       base_h = ucast (drop_bit 16 base)\<rparr>])"

definition idt_base :: "idt_entry \<Rightarrow> u32" where
  "idt_base d = ucast (base_l d) OR push_bit 16 (ucast (base_h d))"

text \<open>The stubs that exist: interrupts 0 to 47, 128, 130 and 255; \<open>isr\<close> gives their addresses.\<close>

definition has_stub :: "nat \<Rightarrow> bool" where
  "has_stub i \<longleftrightarrow> i \<le> 47 \<or> i = 128 \<or> i = 130 \<or> i = 255"

definition idt_raw :: "(nat \<Rightarrow> u32) \<Rightarrow> nat \<Rightarrow> u32" where
  "idt_raw isr i = (if has_stub i then isr i else 0)"

definition IDT_PRESENT :: u8 where "IDT_PRESENT = 0x80"
definition IDT_INT_GATE :: u8 where "IDT_INT_GATE = 0x0E"
definition IDT_DPL_3 :: u8 where "IDT_DPL_3 = 0x60"

definition idt_init :: "(nat \<Rightarrow> u32) \<Rightarrow> idt_entry list" where
  "idt_init isr =
     (let idt = replicate 256 \<lparr>base_l = 0, segment = 0, reserved = 0, idt_flags = 0, base_h = 0\<rparr>;
          idt = fold (\<lambda>i idt. idt_set i (idt_raw isr i) 0x08 (IDT_PRESENT OR IDT_INT_GATE) idt) [0..<256] idt;
          idt = idt[128 := (idt ! 128)\<lparr>idt_flags := idt_flags (idt ! 128) OR IDT_DPL_3\<rparr>]
      in idt[255 := (idt ! 255)\<lparr>idt_flags := idt_flags (idt ! 255) OR IDT_DPL_3\<rparr>])"

text \<open>The mask bits of the two interrupt controllers: the port and the new value.\<close>

definition pic_line :: "u8 \<Rightarrow> u16 \<times> u8" where
  "pic_line int_no = (if int_no < 8 then (0x21, int_no) else (0xA1, int_no - 8))"

definition mask_int :: "u8 \<Rightarrow> (u16 \<Rightarrow> u8) \<Rightarrow> u16 \<times> u8" where
  "mask_int int_no inb = (let (port, n) = pic_line int_no in (port, inb port OR push_bit (unat n) 1))"

definition unmask_int :: "u8 \<Rightarrow> (u16 \<Rightarrow> u8) \<Rightarrow> u16 \<times> u8" where
  "unmask_int int_no inb = (let (port, n) = pic_line int_no in (port, inb port AND NOT (push_bit (unat n) 1)))"

end
