(* ===== verification/Console.thy ===== *)
theory Console imports Prelude begin

text \<open>
  The kernel's text console, \<^verbatim>\<open>kernel/drivers/debug.c\<close>: the 80 by 25 cells of the video memory, the
  position, and the bytes sent to the ports of the cursor. A write outside of the screen is \<open>Overrun\<close>.
\<close>

section \<open>The screen\<close>

definition SCRN_W :: u32 where "SCRN_W = 80"
definition SCRN_H :: u32 where "SCRN_H = 25"
definition GRAY :: u8 where "GRAY = 7"
definition BLACK :: u8 where "BLACK = 0"

record console =
  vidmem :: "u16 list"
  scrn_x :: u32
  scrn_y :: u32
  text_style :: u8
  cursor_out :: "(u16 \<times> u8) list"

definition kdbg_setcursor :: "console \<Rightarrow> console" where
  "kdbg_setcursor c =
     (let position = (ucast (scrn_y c * 80 + scrn_x c) :: u16)
      in c\<lparr>cursor_out := cursor_out c @ [(0x3D4, 0x0F), (0x3D5, ucast (position AND 0xFF)),
           (0x3D4, 0x0E), (0x3D5, ucast (drop_bit 8 position) AND 0xF)]\<rparr>)"

text \<open>\<open>kdbg_init\<close>, without the serial line and the lock it also sets up.\<close>

definition kdbg_init :: "console \<Rightarrow> console" where
  "kdbg_init c = c\<lparr>scrn_x := 0, scrn_y := 0, text_style := GRAY OR BLACK,
     vidmem := replicate (unat (SCRN_W * SCRN_H)) 0\<rparr>"

definition kdbg_setpos :: "u32 \<Rightarrow> u32 \<Rightarrow> console \<Rightarrow> console" where
  "kdbg_setpos x y c = c\<lparr>scrn_x := x, scrn_y := y\<rparr>"

definition kdbg_getpos :: "console \<Rightarrow> u32 \<times> u32" where
  "kdbg_getpos c = (scrn_x c, scrn_y c)"

text \<open>One round of \<open>kdbg_scroll\<close>: every row moves up, cell by cell, and the last row is cleared.\<close>

definition scroll_cells :: "u16 list \<Rightarrow> u16 list res" where
  "scroll_cells m =
     (if length m < 2000 then Inl Overrun
      else Inr (fold (\<lambda>i m. m[i := 0]) [1920..<2000] (fold (\<lambda>i m. m[i := m ! (i + 80)]) [0..<1920] m)))"

function kdbg_scroll :: "console \<Rightarrow> console res" where
  "kdbg_scroll c =
     (if scrn_y c > SCRN_H - 1
      then andthen (scroll_cells (vidmem c)) (\<lambda>m. kdbg_scroll (c\<lparr>vidmem := m, scrn_y := scrn_y c - 1\<rparr>))
      else Inr c)"
  by pat_completeness auto
termination
proof (relation "measure (\<lambda>c. unat (scrn_y c))")
  fix c :: console and m
  assume "SCRN_H - 1 < scrn_y c"
  then have "24 < unat (scrn_y c)" by (simp add: SCRN_H_def word_less_nat_alt)
  then have "scrn_y c \<noteq> 0" by auto
  then show "(c\<lparr>vidmem := m, scrn_y := scrn_y c - 1\<rparr>, c) \<in> measure (\<lambda>c. unat (scrn_y c))"
    using \<open>24 < unat (scrn_y c)\<close> by (simp add: unat_minus_one)
qed simp

definition cell :: "u8 \<Rightarrow> u8 \<Rightarrow> u16" where
  "cell ch style = ucast ch OR push_bit 8 (ucast style)"

definition kdbg_putch :: "u8 \<Rightarrow> u8 \<Rightarrow> console \<Rightarrow> console res" where
  "kdbg_putch ch style c =
     (let i = unat (scrn_y c * SCRN_W + scrn_x c) in
      if i < length (vidmem c) then Inr (c\<lparr>vidmem := (vidmem c)[i := cell ch style]\<rparr>) else Inl Overrun)"

text \<open>\<open>isprint\<close> of the C locale.\<close>

definition isprint :: "u8 \<Rightarrow> bool" where
  "isprint ch \<longleftrightarrow> 0x20 \<le> ch \<and> ch < 0x7F"

definition newline :: "console \<Rightarrow> console" where
  "newline c = c\<lparr>scrn_x := 0, scrn_y := scrn_y c + 1\<rparr>"

text \<open>\<open>kdbg_putch(ch, text_style); scrn_x++\<close>.\<close>

definition show_char :: "u8 \<Rightarrow> console \<Rightarrow> console res" where
  "show_char ch c = andthen (kdbg_putch ch (text_style c) c) (\<lambda>c. Inr (c\<lparr>scrn_x := scrn_x c + 1\<rparr>))"

text \<open>The end of the loop bodies: wrap, scroll, move the cursor.\<close>

definition end_char :: "console \<Rightarrow> console res" where
  "end_char c =
     andthen (kdbg_scroll (if scrn_x c \<ge> SCRN_W then newline c else c)) (\<lambda>c. Inr (kdbg_setcursor c))"

fun kdbg_puts :: "u8 list \<Rightarrow> console \<Rightarrow> console res" where
  "kdbg_puts [] c = Inr c"
| "kdbg_puts (ch # s) c =
     andthen (if ch = 10 then Inr (newline c) else if isprint ch then show_char ch c else Inr c) (\<lambda>c.
     andthen (end_char c) (\<lambda>c. kdbg_puts s c))"

section \<open>Numbers\<close>

definition digit_char :: "u32 \<Rightarrow> u8" where
  "digit_char d = (if d < 10 then ucast (0x30 + d) else ucast (0x41 + d - 10))"

text \<open>
  The digits, the last one first. A base of 1 never gets to 0 and runs out of the buffer; with a larger base there
  are at most 32 digits.
\<close>

function num_digits :: "u32 \<Rightarrow> u32 \<Rightarrow> u8 list res" where
  "num_digits num base =
     (if num = 0 then Inr []
      else if base = 0 then Inl DivError
      else if base = 1 then Inl Overrun
      else andthen (num_digits (num div base) base) (\<lambda>r. Inr (digit_char (num mod base) # r)))"
  by pat_completeness auto
termination
proof (relation "measure (\<lambda>(num, _). unat num)")
  fix num base :: u32
  assume a: "num \<noteq> 0" "base \<noteq> 0" "base \<noteq> 1"
  have "unat num \<noteq> 0" "unat base \<noteq> 0" "unat base \<noteq> 1" using a by (metis unat_0 unat_1 word_unat_eq_iff)+
  then have "unat num div unat base < unat num" by (intro div_less_dividend) auto
  then show "((num div base, base), num, base) \<in> measure (\<lambda>(num, _). unat num)" by (simp add: unat_div)
qed simp

text \<open>\<open>for(i--, j=0; j<i; j++, i--) swap(buf[i], buf[j])\<close>: the buffer and the final \<open>i + j\<close>.\<close>

function flip :: "int \<Rightarrow> int \<Rightarrow> u8 list \<Rightarrow> u8 list \<times> int" where
  "flip i j buf =
     (if j < i then flip (i - 1) (j + 1) (buf[nat i := buf ! nat j, nat j := buf ! nat i]) else (buf, i + j))"
  by pat_completeness auto
termination
  by (relation "measure (\<lambda>(i, j, _). nat (i - j))") auto

text \<open>\<open>kdbg_num2str\<close>: the string and the returned length.\<close>

definition kdbg_num2str :: "u32 \<Rightarrow> u32 \<Rightarrow> (u8 list \<times> int) res" where
  "kdbg_num2str num base =
     (if num = 0 then Inr ([0x30], 0)
      else andthen (num_digits num base) (\<lambda>buf.
           let (buf, n) = flip (int (length buf) - 1) 0 buf in Inr (buf, n + 1)))"

declare kdbg_scroll.simps [simp del] num_digits.simps [simp del] flip.simps [simp del]

section \<open>Formatted output\<close>

text \<open>An argument of \<open>kdbg_printf\<close>; one that is missing or of the wrong kind is \<open>BadPtr\<close>.\<close>

datatype arg = Num u32 | Str "u8 list"

fun num_arg :: "arg list \<Rightarrow> (u32 \<times> arg list) res" where
  "num_arg (Num n # r) = Inr (n, r)"
| "num_arg _ = Inl BadPtr"

fun str_arg :: "arg list \<Rightarrow> (u8 list \<times> arg list) res" where
  "str_arg (Str s # r) = Inr (s, r)"
| "str_arg _ = Inl BadPtr"

lemma num_arg_length: "num_arg as = Inr (n, r) \<Longrightarrow> length r < length as"
  by (cases as rule: num_arg.cases) auto

lemma str_arg_length: "str_arg as = Inr (n, r) \<Longrightarrow> length r < length as \<and> as \<noteq> []"
  by (cases as rule: str_arg.cases) auto

declare andthen_cong [fundef_cong]

text \<open>The conversions after a percent sign; another character prints the sign itself and is then read again.\<close>

function kdbg_printf :: "u8 list \<Rightarrow> arg list \<Rightarrow> console \<Rightarrow> console res" where
  "kdbg_printf [] as c = Inr c"
| "kdbg_printf (ch # s) as c =
     (if ch = 10 then andthen (end_char (newline c)) (\<lambda>c. kdbg_printf s as c)
      else if ch = 0x25 then
       (case s of
          [] \<Rightarrow> andthen (show_char ch c) end_char
        | d # s' \<Rightarrow>
           if d = 0x62 \<or> d = 0x6F \<or> d = 0x64 \<or> d = 0x78 then
             andthen (num_arg as) (\<lambda>(n, as').
             andthen (kdbg_num2str n (if d = 0x62 then 2 else if d = 0x6F then 8 else if d = 0x64 then 10 else 16)) (\<lambda>(buf, _).
             andthen (kdbg_printf (if d = 0x6F then [0x30] else if d = 0x78 then [0x30, 0x78] else []) [] c) (\<lambda>c.
             andthen (kdbg_printf buf [] c) (\<lambda>c.
             andthen (kdbg_printf (if d = 0x62 then [0x62] else []) [] c) (\<lambda>c.
             andthen (end_char c) (\<lambda>c. kdbg_printf s' as' c))))))
           else if d = 0x73 then
             andthen (str_arg as) (\<lambda>(t, as').
             andthen (kdbg_printf t [] c) (\<lambda>c.
             andthen (end_char c) (\<lambda>c. kdbg_printf s' as' c)))
           else if d = 0x63 then
             andthen (num_arg as) (\<lambda>(n, as').
             andthen (show_char (ucast n) c) (\<lambda>c.
             andthen (end_char c) (\<lambda>c. kdbg_printf s' as' c)))
           else
             andthen (show_char ch c) (\<lambda>c.
             andthen (end_char c) (\<lambda>c. kdbg_printf s as c)))
      else
       andthen (if isprint ch then show_char ch c else Inr c) (\<lambda>c.
       andthen (end_char c) (\<lambda>c. kdbg_printf s as c)))"
  by pat_completeness auto
termination
  by (relation "measures [\<lambda>(s, as, c). length as, \<lambda>(s, as, c). length s]")
    (auto dest!: num_arg_length str_arg_length)

end
