(* ===== verification/ConsoleProps.thy ===== *)
theory ConsoleProps imports Console begin

text \<open>
  What the console shows: the text is typeset on an endless page, and the screen is the window of its last 25 rows.
\<close>

section \<open>Scrolling\<close>

lemma move_cells:
  "n + 80 \<le> length m \<Longrightarrow> fold (\<lambda>i m. m[i := m ! (i + 80)]) [0..<n] m = take n (drop 80 m) @ drop n m"
proof (induction n)
  case (Suc n)
  let ?m = "take n (drop 80 m) @ drop n m"
  have m: "?m ! (n + 80) = m ! (n + 80)" using Suc.prems by (simp add: nth_append)
  have "?m[n := m ! (n + 80)] = take n (drop 80 m) @ (drop n m)[0 := m ! (n + 80)]"
    using Suc.prems by (simp add: list_update_append)
  also have "(drop n m)[0 := m ! (n + 80)] = m ! (n + 80) # drop (Suc n) m"
    using Suc.prems by (simp add: Cons_nth_drop_Suc [symmetric])
  also have "take n (drop 80 m) @ m ! (n + 80) # drop (Suc n) m = take (Suc n) (drop 80 m) @ drop (Suc n) m"
    using Suc.prems by (simp add: take_Suc_conv_app_nth add.commute)
  finally show ?case using Suc m by simp
qed simp

lemma clear_cells:
  "a + n \<le> length m \<Longrightarrow> fold (\<lambda>i m. m[i := x]) [a..<a + n] m = take a m @ replicate n x @ drop (a + n) m"
proof (induction n)
  case (Suc n)
  let ?m = "take a m @ replicate n x @ drop (a + n) m"
  have "?m[a + n := x] = take a m @ replicate n x @ (drop (a + n) m)[0 := x]"
    using Suc.prems by (simp add: list_update_append)
  also have "(drop (a + n) m)[0 := x] = x # drop (Suc (a + n)) m"
    using Suc.prems by (simp add: Cons_nth_drop_Suc [symmetric])
  also have "take a m @ replicate n x @ x # drop (Suc (a + n)) m = take a m @ replicate (Suc n) x @ drop (a + Suc n) m"
    by (simp add: replicate_app_Cons_same)
  finally show ?case using Suc by simp
qed simp

lemma scroll_cells_eq: "length m = 2000 \<Longrightarrow> scroll_cells m = Inr (drop 80 m @ replicate 80 0)"
proof -
  assume m: "length m = 2000"
  let ?m = "take 1920 (drop 80 m) @ drop 1920 m"
  have "fold (\<lambda>i m. m[i := 0]) [1920..<1920 + 80] ?m = take 1920 ?m @ replicate 80 0 @ drop (1920 + 80) ?m"
    using m by (intro clear_cells) simp
  then have "fold (\<lambda>i m. m[i := 0]) [1920..<2000] ?m = drop 80 m @ replicate 80 0" using m by simp
  then show ?thesis using m move_cells [of 1920 m] by (simp only: scroll_cells_def) simp
qed

section \<open>The page\<close>

text \<open>The rows of the page, the row and the column of the next character.\<close>

type_synonym page = "(nat \<Rightarrow> nat \<Rightarrow> u16) \<times> nat \<times> nat"

definition wrap_page :: "page \<Rightarrow> page" where
  "wrap_page = (\<lambda>(pg, r, x). if x \<ge> 80 then (pg, Suc r, 0) else (pg, r, x))"

definition write_page :: "u16 \<Rightarrow> page \<Rightarrow> page" where
  "write_page v = (\<lambda>(pg, r, x). (pg(r := (pg r)(x := v)), r, Suc x))"

definition break_page :: "page \<Rightarrow> page" where
  "break_page = (\<lambda>(pg, r, x). (pg, Suc r, 0))"

definition typeset :: "u8 \<Rightarrow> u8 \<Rightarrow> page \<Rightarrow> page" where
  "typeset style ch p = wrap_page (if ch = 10 then break_page p else if isprint ch then write_page (cell ch style) p else p)"

text \<open>The screen with a row or column that may be one too far, as within a loop body.\<close>

definition holds :: "console \<Rightarrow> page \<Rightarrow> nat \<Rightarrow> bool" where
  "holds c p tp \<longleftrightarrow> (case p of (pg, r, x) \<Rightarrow>
     length (vidmem c) = 2000 \<and> x \<le> 80 \<and> tp \<le> r \<and> r \<le> tp + 25 \<and> scrn_x c = of_nat x \<and> scrn_y c = of_nat (r - tp) \<and>
     (\<forall>i<25. \<forall>j<80. vidmem c ! (80 * i + j) = pg (tp + i) j) \<and> (\<forall>i>r. pg i = (\<lambda>_. 0)) \<and> (r = tp + 25 \<longrightarrow> x = 0 \<and> pg r = (\<lambda>_. 0)))"

definition shows_page :: "console \<Rightarrow> page \<Rightarrow> bool" where
  "shows_page c p \<longleftrightarrow> (case p of (pg, r, x) \<Rightarrow> x < 80 \<and> holds c p (r - 24))"

lemma holdsD:
  assumes "holds c (pg, r, x) tp"
  shows "length (vidmem c) = 2000" "x \<le> 80" "tp \<le> r" "r \<le> tp + 25" "scrn_x c = of_nat x" "scrn_y c = of_nat (r - tp)"
    "i < 25 \<Longrightarrow> j < 80 \<Longrightarrow> vidmem c ! (80 * i + j) = pg (tp + i) j" "r < i' \<Longrightarrow> pg i' = (\<lambda>_. 0)"
  using assms by (auto simp: holds_def)

lemma holds_scroll:
  assumes h: "holds c (pg, r, x) tp" and r: "r = tp + 25"
  shows "\<exists>c'. kdbg_scroll c = Inr c' \<and> holds c' (pg, r, x) (Suc tp) \<and> text_style c' = text_style c"
proof -
  note d = holdsD [OF h]
  let ?m = "drop 80 (vidmem c) @ replicate 80 0"
  let ?c = "c\<lparr>vidmem := ?m, scrn_y := scrn_y c - 1\<rparr>"
  have y: "scrn_y c = 25" using d(6) r by simp
  have "kdbg_scroll ?c = Inr ?c" by (subst kdbg_scroll.simps) (simp add: y SCRN_H_def)
  then have "kdbg_scroll c = Inr ?c"
    using scroll_cells_eq [OF d(1)] by (subst kdbg_scroll.simps) (simp add: y SCRN_H_def)
  moreover have "?m ! (80 * i + j) = pg (Suc tp + i) j" if "i < 25" "j < 80" for i j
  proof (cases "i = 24")
    case True
    then have "?m ! (80 * i + j) = 0" using d(1) that by (simp add: nth_append)
    moreover have "pg r j = 0" using h r by (auto simp: holds_def)
    ultimately show ?thesis using True r by (simp add: add.commute)
  next
    case False
    then have "?m ! (80 * i + j) = vidmem c ! (80 * Suc i + j)" using d(1) that by (simp add: nth_append add.assoc)
    then show ?thesis using d(7) [of "Suc i" j] False that by simp
  qed
  moreover have "x = 0" using h r by (auto simp: holds_def)
  ultimately show ?thesis using h r y by (intro exI [of _ ?c]) (auto simp: holds_def)
qed

lemma holds_still: "holds c (pg, r, x) tp \<Longrightarrow> r < tp + 25 \<Longrightarrow> kdbg_scroll c = Inr c"
proof -
  assume h: "holds c (pg, r, x) tp" and r: "r < tp + 25"
  have "scrn_y c = of_nat (r - tp)" "r - tp \<le> 24" using holdsD [OF h] r by auto
  then have "\<not> scrn_y c > SCRN_H - 1" by (simp add: SCRN_H_def word_less_nat_alt unat_of_nat)
  then show ?thesis by (subst kdbg_scroll.simps) simp
qed

section \<open>One character\<close>

lemma holds_newline:
  "holds c (pg, r, x) tp \<Longrightarrow> r < tp + 25 \<Longrightarrow> holds (newline c) (pg, Suc r, 0) tp"
  by (auto simp: holds_def newline_def Suc_diff_le)

lemma holds_cursor [simp]: "holds (kdbg_setcursor c) p tp = holds c p tp" "text_style (kdbg_setcursor c) = text_style c"
  by (simp_all add: holds_def kdbg_setcursor_def Let_def)

lemma holds_write:
  assumes h: "holds c (pg, r, x) tp" and r: "r < tp + 25" "x < 80"
  shows "\<exists>c'. show_char ch c = Inr c' \<and> holds c' (write_page (cell ch (text_style c)) (pg, r, x)) tp \<and> text_style c' = text_style c"
proof -
  note d = holdsD [OF h]
  let ?v = "cell ch (text_style c)"
  have "scrn_y c * SCRN_W + scrn_x c = (of_nat ((r - tp) * 80 + x) :: u32)"
    using d(5,6) by (simp add: SCRN_W_def)
  moreover have "unat (of_nat ((r - tp) * 80 + x) :: u32) = (r - tp) * 80 + x"
    using r by (simp only: unat_of_nat) simp
  ultimately have "unat (scrn_y c * SCRN_W + scrn_x c) = (r - tp) * 80 + x" by (simp only:)
  also have "\<dots> = 80 * (r - tp) + x" by simp
  finally have i: "unat (scrn_y c * SCRN_W + scrn_x c) = 80 * (r - tp) + x" .
  let ?c = "c\<lparr>vidmem := (vidmem c)[80 * (r - tp) + x := ?v], scrn_x := scrn_x c + 1\<rparr>"
  have "80 * (r - tp) + x < 2000" using r by linarith
  then have s: "show_char ch c = Inr ?c" using d(1) by (simp add: show_char_def kdbg_putch_def i)
  have "vidmem ?c ! (80 * i + j) = (pg(r := (pg r)(x := ?v))) (tp + i) j" if "i < 25" "j < 80" for i j
  proof (cases "i = r - tp \<and> j = x")
    case True
    then show ?thesis using d(1,3) that by simp
  next
    case False
    have "80 * i + j \<noteq> 80 * (r - tp) + x"
    proof
      assume e: "80 * i + j = 80 * (r - tp) + x"
      then have "(80 * i + j) div 80 = (80 * (r - tp) + x) div 80" "(80 * i + j) mod 80 = (80 * (r - tp) + x) mod 80" by simp_all
      then show False using False that r(2) by simp
    qed
    moreover have "(pg(r := (pg r)(x := ?v))) (tp + i) j = pg (tp + i) j" using False d(3) by auto
    ultimately show ?thesis using d(7) that by simp
  qed
  then have "holds ?c (write_page ?v (pg, r, x)) tp"
    using h r by (auto simp: holds_def write_page_def)
  then show ?thesis using s by (intro exI [of _ ?c]) simp
qed

lemma end_char_shows:
  assumes h: "holds c (pg, r, x) tp" and x: "80 \<le> x \<Longrightarrow> r < tp + 25" and tp: "tp = 0 \<or> tp + 24 \<le> r"
  shows "\<exists>c'. end_char c = Inr c' \<and> shows_page c' (wrap_page (pg, r, x)) \<and> text_style c' = text_style c"
proof -
  let ?c = "if scrn_x c \<ge> SCRN_W then newline c else c"
  have w: "scrn_x c \<ge> SCRN_W \<longleftrightarrow> 80 \<le> x"
    using holdsD(2,5) [OF h] by (simp add: SCRN_W_def word_le_nat_alt unat_of_nat)
  obtain r' x' where p: "wrap_page (pg, r, x) = (pg, r', x')" "holds ?c (pg, r', x') tp" "x' < 80" "r \<le> r'"
  proof (cases "80 \<le> x")
    case True
    then show ?thesis using that [of "Suc r" 0] holds_newline [OF h x] w by (simp add: wrap_page_def)
  next
    case False
    then show ?thesis using that [of r x] h w by (simp add: wrap_page_def)
  qed
  have st: "text_style ?c = text_style c" by (simp add: newline_def)
  have le: "r' \<le> tp + 25" using p(2) by (rule holdsD(4))
  show ?thesis
  proof (cases "r' = tp + 25")
    case True
    obtain c' where "kdbg_scroll ?c = Inr c'" "holds c' (pg, r', x') (Suc tp)" "text_style c' = text_style c"
      using holds_scroll [OF p(2) True] st by auto
    then show ?thesis using p(1,3) True
      by (intro exI [of _ "kdbg_setcursor c'"]) (simp add: end_char_def shows_page_def)
  next
    case False
    then have "kdbg_scroll ?c = Inr ?c" using holds_still [OF p(2)] le by simp
    moreover have "r' - 24 = tp" using False le tp p(4) by auto
    ultimately show ?thesis using p(1-3) st
      by (intro exI [of _ "kdbg_setcursor ?c"]) (simp add: end_char_def shows_page_def)
  qed
qed

lemma char_shows:
  assumes "shows_page c p"
  shows "\<exists>c'. andthen (if ch = 10 then Inr (newline c) else if isprint ch then show_char ch c else Inr c) end_char = Inr c' \<and>
    shows_page c' (typeset (text_style c) ch p) \<and> text_style c' = text_style c"
proof -
  obtain pg r x where p: "p = (pg, r, x)" by (metis prod_cases3)
  let ?t = "r - 24"
  have h: "holds c (pg, r, x) ?t" "x < 80" and r: "r < ?t + 25" using assms by (auto simp: shows_page_def p)
  have tp: "?t = 0 \<or> ?t + 24 \<le> r" "?t = 0 \<or> ?t + 24 \<le> Suc r" by auto
  show ?thesis
  proof (cases "ch = 10")
    case True
    have n: "text_style (newline c) = text_style c" by (simp add: newline_def)
    show ?thesis using end_char_shows [OF holds_newline [OF h(1) r] _ tp(2)] True n
      by (simp add: typeset_def p break_page_def)
  next
    case False
    show ?thesis
    proof (cases "isprint ch")
      case True
      obtain c1 where c1: "show_char ch c = Inr c1" "text_style c1 = text_style c"
        "holds c1 (pg(r := (pg r)(x := cell ch (text_style c))), r, Suc x) ?t"
        using holds_write [OF h(1) r h(2)] by (auto simp: write_page_def)
      then show ?thesis using end_char_shows [OF c1(3) _ tp(1)] False True r by (simp add: typeset_def p write_page_def)
    next
      case F: False
      then show ?thesis using end_char_shows [OF h(1) _ tp(1)] False F h(2) by (simp add: typeset_def p)
    qed
  qed
qed

lemma puts_shows:
  "shows_page c p \<Longrightarrow> \<exists>c'. kdbg_puts s c = Inr c' \<and> shows_page c' (fold (typeset (text_style c)) s p) \<and> text_style c' = text_style c"
proof (induction s arbitrary: c p)
  case (Cons ch s)
  obtain c1 where c1: "andthen (if ch = 10 then Inr (newline c) else if isprint ch then show_char ch c else Inr c) end_char = Inr c1"
    "shows_page c1 (typeset (text_style c) ch p)" "text_style c1 = text_style c"
    using char_shows [OF Cons.prems] by blast
  then have "kdbg_puts (ch # s) c = kdbg_puts s c1" by (simp add: andthen_assoc [symmetric])
  then show ?case using Cons.IH [OF c1(2)] c1(3) by simp
qed auto

lemma init_shows: "shows_page (kdbg_init c) (\<lambda>_ _. 0, 0, 0)"
  by (simp add: shows_page_def holds_def kdbg_init_def SCRN_W_def SCRN_H_def)

section \<open>Numbers\<close>

lemma flip_segment:
  "length ys = n \<Longrightarrow> flip (int (length xs + n) - 1) (int (length xs)) (xs @ ys @ zs) =
    (xs @ rev ys @ zs, int (2 * length xs + n) - 1)"
proof (induction n arbitrary: xs ys zs rule: less_induct)
  case (less n)
  show ?case
  proof (cases "n \<le> 1")
    case True
    then have "rev ys = ys" using less.prems by (cases ys) auto
    then show ?thesis using True by (subst flip.simps) auto
  next
    case False
    obtain a m b where ys: "ys = a # m @ [b]"
    proof -
      obtain a t where "ys = a # t" using less.prems False by (cases ys) auto
      moreover from this obtain m b where "t = m @ [b]" using less.prems False by (cases t rule: rev_cases) auto
      ultimately show ?thesis using that by simp
    qed
    have n: "n = length m + 2" using less.prems ys by simp
    let ?i = "length xs + n - 1" and ?buf = "xs @ ys @ zs"
    have i: "?buf ! ?i = b" "?buf ! length xs = a" using n ys by (simp_all add: nth_append)
    have sw: "?buf[?i := a, length xs := b] = (xs @ [b]) @ m @ ([a] @ zs)"
      using n ys by (simp add: list_update_append)
    have "nat (int (length xs + n) - 1) = ?i" using n by simp
    then have "flip (int (length xs + n) - 1) (int (length xs)) ?buf =
      flip (int (length (xs @ [b]) + length m) - 1) (int (length (xs @ [b]))) ((xs @ [b]) @ m @ ([a] @ zs))"
      using False i sw n by (subst flip.simps) (simp add: add.commute)
    also have "\<dots> = ((xs @ [b]) @ rev m @ ([a] @ zs), int (2 * length (xs @ [b]) + length m) - 1)"
      using n by (intro less.IH) auto
    finally show ?thesis using ys n by simp
  qed
qed

lemma flip_rev: "flip (int (length buf) - 1) 0 buf = (rev buf, int (length buf) - 1)"
  using flip_segment [of buf "length buf" "[]" "[]"] by simp

definition digit_value :: "u8 \<Rightarrow> nat" where
  "digit_value ch = (if ch < 0x3A then unat ch - 0x30 else unat ch - 0x41 + 10)"

text \<open>The number a string of digits denotes.\<close>

definition number :: "nat \<Rightarrow> u8 list \<Rightarrow> nat" where
  "number base s = foldl (\<lambda>v ch. v * base + digit_value ch) 0 s"

lemma digit_char_value: "d < 36 \<Longrightarrow> digit_value (digit_char d) = unat d"
proof -
  assume d: "d < 36"
  then have "unat d < 36" by (simp add: word_less_nat_alt)
  then have "unat d \<in> set [0..<36]" by simp
  moreover have "d = of_nat (unat d)" by simp
  moreover have "\<forall>n\<in>set [0..<36]. digit_value (digit_char (of_nat n)) = n" by code_simp
  ultimately show ?thesis by metis
qed

lemma digit_char_zero: "d < 36 \<Longrightarrow> digit_char d = 0x30 \<Longrightarrow> d = 0"
proof -
  assume d: "d < 36" and z: "digit_char d = 0x30"
  have "unat d = digit_value 0x30" using digit_char_value [OF d] z by simp
  then show ?thesis by (simp add: digit_value_def unat_eq_zero)
qed

lemma num_digits_value:
  assumes "2 \<le> base" "base \<le> 36"
  shows "\<exists>ds. num_digits n base = Inr ds \<and> number (unat base) (rev ds) = unat n \<and> (n \<noteq> 0 \<longrightarrow> ds \<noteq> [] \<and> last ds \<noteq> 0x30) \<and>
    (n \<noteq> 0 \<longrightarrow> 2 ^ (length ds - 1) \<le> unat n)"
  using assms
proof (induction n base rule: num_digits.induct)
  case (1 n base)
  show ?case
  proof (cases "n = 0")
    case True
    then show ?thesis by (subst num_digits.simps) (simp add: number_def)
  next
    case False
    have b: "base \<noteq> 0" "base \<noteq> 1" "2 \<le> unat base" "unat base \<le> 36" using "1.prems" by (auto simp: word_le_nat_alt)
    let ?q = "n div base"
    obtain ds where ds: "num_digits ?q base = Inr ds" "number (unat base) (rev ds) = unat ?q"
      "?q \<noteq> 0 \<longrightarrow> ds \<noteq> [] \<and> last ds \<noteq> 0x30" "?q \<noteq> 0 \<longrightarrow> 2 ^ (length ds - 1) \<le> unat ?q"
      using "1.IH" [OF False b(1,2) "1.prems"] by blast
    have "unat n mod unat base < unat base" using b(3) by simp
    then have m: "n mod base < 36" using b(4) by (simp add: word_less_nat_alt unat_mod)
    have "number (unat base) (rev (digit_char (n mod base) # ds)) = unat ?q * unat base + unat (n mod base)"
      using ds(2) digit_char_value [OF m] by (simp add: number_def)
    then have v: "number (unat base) (rev (digit_char (n mod base) # ds)) = unat n"
      by (simp add: unat_div unat_mod)
    have "last (digit_char (n mod base) # ds) \<noteq> 0x30 \<and> 2 ^ length ds \<le> unat n"
    proof (cases "?q = 0")
      case True
      then have "ds = []" using ds(1) by (simp add: num_digits.simps)
      moreover have "n mod base = n" using True by (metis add_0 div_mult_mod_eq mult_zero_left)
      ultimately show ?thesis using False digit_char_zero [OF m] by (auto simp: unat_gt_0 Suc_le_eq)
    next
      case q: False
      have "2 ^ length ds = 2 * 2 ^ (length ds - 1)" using ds(3) q by (cases ds) auto
      also have "\<dots> \<le> unat base * unat ?q" using ds(4) q b(3) by (simp add: mult_le_mono)
      also have "\<dots> \<le> unat n" by (simp add: unat_div)
      finally show ?thesis using ds(3) q by simp
    qed
    then show ?thesis using False b ds(1) v by (subst num_digits.simps) simp
  qed
qed

lemma num2str_digits:
  assumes "2 \<le> base" "base \<le> 36"
  shows "\<exists>s. kdbg_num2str n base = Inr (s, if n = 0 then 0 else int (length s)) \<and> number (unat base) s = unat n \<and>
    1 \<le> length s \<and> length s \<le> 32 \<and> (n \<noteq> 0 \<longrightarrow> hd s \<noteq> 0x30)"
proof (cases "n = 0")
  case True
  then show ?thesis by (simp add: kdbg_num2str_def number_def digit_value_def)
next
  case False
  obtain ds where ds: "num_digits n base = Inr ds" "number (unat base) (rev ds) = unat n" "ds \<noteq> []" "last ds \<noteq> 0x30"
    "2 ^ (length ds - 1) \<le> unat n"
    using num_digits_value [OF assms, of n] False by blast
  have "unat n < 2 ^ 32" by (rule order_less_le_trans [OF unsigned_less]) simp
  then have "2 ^ (length ds - 1) < (2 :: nat) ^ 32" using ds(5) by simp
  then have "length ds - 1 < 32" by (rule power_less_imp_less_exp [rotated]) simp
  then have "length ds \<le> 32" by simp
  moreover have "1 \<le> length ds" using ds(3) by (cases ds) auto
  moreover have "kdbg_num2str n base = Inr (rev ds, int (length ds))"
    using False ds(1) by (simp add: kdbg_num2str_def flip_rev)
  ultimately show ?thesis using False ds by (simp add: hd_rev)
qed

section \<open>Formatted output\<close>

lemma end_char_newline: "andthen (end_char (newline c)) f = andthen (Inr (newline c)) (\<lambda>c. andthen (end_char c) f)"
  by simp

text \<open>Without a percent sign, formatted output is plain output.\<close>

lemma printf_plain: "0x25 \<notin> set s \<Longrightarrow> kdbg_printf s as c = kdbg_puts s c"
proof (induction s arbitrary: c)
  case (Cons ch s)
  then have "kdbg_printf s as = kdbg_puts s" by auto
  moreover have "ch \<noteq> 0x25" using Cons.prems by auto
  ultimately show ?case by (simp cong: andthen_cong)
qed simp

lemma digit_not_percent: "d < 36 \<Longrightarrow> digit_char d \<noteq> 0x25"
proof -
  assume d: "d < 36"
  show ?thesis
  proof
    assume "digit_char d = 0x25"
    then have "digit_value 0x25 = unat d" using digit_char_value [OF d] by simp
    then have "d = 0" by (simp add: digit_value_def unat_eq_zero)
    then show False using \<open>digit_char d = 0x25\<close> by (simp add: digit_char_def)
  qed
qed

text \<open>The digits of a number, by repeated division; the digits of the bases that formats use.\<close>

definition sixteen_digits :: "u8 list" where
  "sixteen_digits = map of_char ''0123456789ABCDEF''"

fun digits_of :: "nat \<Rightarrow> nat \<Rightarrow> u8 list" where
  "digits_of b n = (if b < 2 \<or> n < b then [sixteen_digits ! n] else digits_of b (n div b) @ [sixteen_digits ! (n mod b)])"

declare digits_of.simps [simp del]

lemma digit_char_digits: "n < 16 \<Longrightarrow> digit_char n = sixteen_digits ! unat n"
proof -
  have "\<forall>i\<in>set [0..<16]. digit_char (of_nat i) = sixteen_digits ! i" by code_simp
  moreover assume "n < 16"
  then have "unat n \<in> set [0..<16]" by (simp add: word_less_nat_alt)
  ultimately have "digit_char (of_nat (unat n)) = sixteen_digits ! unat n" by blast
  then show ?thesis by simp
qed

lemma num_digits_of:
  "2 \<le> base \<Longrightarrow> base \<le> 16 \<Longrightarrow> n \<noteq> 0 \<Longrightarrow> num_digits n base = Inr (rev (digits_of (unat base) (unat n)))"
proof (induction n base rule: num_digits.induct)
  case (1 n base)
  have b: "base \<noteq> 0" "base \<noteq> 1" "2 \<le> unat base" "unat base \<le> 16" using "1.prems" by (auto simp: word_le_nat_alt)
  have "unat n mod unat base < unat base" using b(3) by simp
  then have "n mod base < 16" using b(4) by (simp add: word_less_nat_alt unat_mod)
  then have d: "digit_char (n mod base) = sixteen_digits ! (unat n mod unat base)" by (simp add: digit_char_digits unat_mod)
  show ?case
  proof (cases "n div base = 0")
    case True
    then have "unat n < unat base" using b(3) by (metis div_eq_0_iff not_numeral_le_zero unat_0 unat_div)
    then show ?thesis using "1.prems"(3) b d True
      by (subst num_digits.simps) (simp add: digits_of.simps num_digits.simps [of 0])
  next
    case False
    then have "\<not> unat n < unat base" by (metis div_less unat_div unat_eq_zero)
    then have "digits_of (unat base) (unat n) = digits_of (unat base) (unat (n div base)) @ [digit_char (n mod base)]"
      using b(3) d by (subst digits_of.simps) (simp add: unat_div)
    then show ?thesis using "1.IH" [OF "1.prems"(3) b(1,2) "1.prems"(1,2) False] "1.prems"(3) b
      by (subst num_digits.simps) simp
  qed
qed

lemma num2str_digits_of:
  assumes "2 \<le> base" "base \<le> 16" shows "\<exists>l. kdbg_num2str n base = Inr (digits_of (unat base) (unat n), l)"
proof (cases "n = 0")
  case True
  have "2 \<le> unat base" using assms(1) by (simp add: word_le_nat_alt)
  then show ?thesis using True by (simp add: kdbg_num2str_def digits_of.simps sixteen_digits_def)
next
  case False
  then show ?thesis using num_digits_of [OF assms False] by (simp add: kdbg_num2str_def flip_rev)
qed

text \<open>
  What a format and its arguments stand for; \<open>None\<close> if an argument is missing or of the wrong kind, or if a string has a
  percent sign, which the code takes for a conversion of its own.
\<close>

definition conv_text :: "u8 \<Rightarrow> u32 \<Rightarrow> u8 list" where
  "conv_text d n =
     (if d = 0x62 then digits_of 2 (unat n) @ [0x62]
      else if d = 0x6F then [0x30] @ digits_of 8 (unat n)
      else if d = 0x64 then digits_of 10 (unat n)
      else [0x30, 0x78] @ digits_of 16 (unat n))"

definition conversion :: "u8 \<Rightarrow> arg list \<Rightarrow> (u8 list \<times> arg list) option" where
  "conversion d as =
     (case as of
        Num n # r \<Rightarrow> (if d = 0x62 \<or> d = 0x6F \<or> d = 0x64 \<or> d = 0x78 then Some (conv_text d n, r)
                     else if d = 0x63 \<and> isprint (ucast n) then Some ([ucast n], r) else None)
      | Str t # r \<Rightarrow> (if d = 0x73 \<and> 0x25 \<notin> set t then Some (t, r) else None)
      | [] \<Rightarrow> None)"

fun expand :: "u8 list \<Rightarrow> arg list \<Rightarrow> u8 list option" where
  "expand [] as = Some []"
| "expand [ch] as = Some [ch]"
| "expand (ch # d # s) as =
     (if ch = 0x25 \<and> (d = 0x62 \<or> d = 0x6F \<or> d = 0x64 \<or> d = 0x78 \<or> d = 0x73 \<or> d = 0x63)
      then (case conversion d as of None \<Rightarrow> None | Some (t, r) \<Rightarrow> map_option (\<lambda>u. t @ u) (expand s r))
      else map_option (\<lambda>u. ch # u) (expand (d # s) as))"

text \<open>Formatted output, seen as output of plain text.\<close>

definition prints :: "console \<Rightarrow> console res \<Rightarrow> u8 list \<Rightarrow> bool" where
  "prints c r t \<longleftrightarrow> (\<forall>p. shows_page c p \<longrightarrow>
     (\<exists>c'. r = Inr c' \<and> shows_page c' (fold (typeset (text_style c)) t p) \<and> text_style c' = text_style c))"

lemma prints_puts: "prints c (kdbg_puts s c) s"
  using puts_shows by (auto simp: prints_def)

lemma prints_andthen:
  assumes "prints c r s" and "\<And>c'. text_style c' = text_style c \<Longrightarrow> prints c' (f c') t"
  shows "prints c (andthen r f) (s @ t)"
  unfolding prints_def
proof (intro allI impI)
  fix p assume "shows_page c p"
  then obtain c1 where c1: "r = Inr c1" "shows_page c1 (fold (typeset (text_style c)) s p)" "text_style c1 = text_style c"
    using assms(1) unfolding prints_def by blast
  obtain c2 where "f c1 = Inr c2" "shows_page c2 (fold (typeset (text_style c1)) t (fold (typeset (text_style c)) s p))"
      "text_style c2 = text_style c1"
    using assms(2) [OF c1(3)] c1(2) unfolding prints_def by blast
  then show "\<exists>c'. andthen r f = Inr c' \<and> shows_page c' (fold (typeset (text_style c)) (s @ t) p) \<and> text_style c' = text_style c"
    using c1 by simp
qed

lemma prints_end_char: "prints c (end_char c) []"
  unfolding prints_def
proof (intro allI impI)
  fix p assume a: "shows_page c p"
  obtain pg r x where p: "p = (pg, r, x)" by (metis prod_cases3)
  have h: "holds c (pg, r, x) (r - 24)" "x < 80" using a by (auto simp: shows_page_def p)
  have "r - 24 = 0 \<or> r - 24 + 24 \<le> r" by auto
  from end_char_shows [OF h(1) _ this] h(2)
  show "\<exists>c'. end_char c = Inr c' \<and> shows_page c' (fold (typeset (text_style c)) [] p) \<and> text_style c' = text_style c"
    by (simp add: p wrap_page_def)
qed

lemma prints_char:
  "prints c (andthen (if ch = 10 then Inr (newline c) else if isprint ch then show_char ch c else Inr c) end_char) [ch]"
  using char_shows by (auto simp: prints_def)

lemma num_digits_chars:
  "num_digits n base = Inr ds \<Longrightarrow> 2 \<le> base \<Longrightarrow> base \<le> 36 \<Longrightarrow> ch \<in> set ds \<Longrightarrow> \<exists>d<36. ch = digit_char d"
proof (induction n base arbitrary: ds rule: num_digits.induct)
  case (1 n base)
  have b: "base \<noteq> 0" "base \<noteq> 1" "2 \<le> unat base" "unat base \<le> 36" using "1.prems" by (auto simp: word_le_nat_alt)
  have "n \<noteq> 0" using "1.prems" by (auto simp: num_digits.simps)
  then obtain r where r: "num_digits (n div base) base = Inr r" "ds = digit_char (n mod base) # r"
    using "1.prems"(1) b by (subst (asm) num_digits.simps) (auto simp: andthen_eq_Inr)
  have "unat n mod unat base < unat base" using b(3) by simp
  then have "n mod base < 36" using b(4) by (simp add: word_less_nat_alt unat_mod)
  then show ?case using "1.IH" [OF \<open>n \<noteq> 0\<close> b(1,2) r(1) "1.prems"(2,3)] "1.prems"(4) r(2) by auto
qed

lemma num2str_plain: "kdbg_num2str n base = Inr (s, l) \<Longrightarrow> 2 \<le> base \<Longrightarrow> base \<le> 36 \<Longrightarrow> 0x25 \<notin> set s"
proof
  assume a: "kdbg_num2str n base = Inr (s, l)" and b: "2 \<le> base" "base \<le> 36" and c: "0x25 \<in> set s"
  have "n \<noteq> 0" using a c by (auto simp: kdbg_num2str_def)
  then obtain ds where "num_digits n base = Inr ds" "s = rev ds"
    using a by (auto simp: kdbg_num2str_def andthen_eq_Inr flip_rev)
  then obtain d where "d < 36" "digit_char d = 0x25" using num_digits_chars [OF _ b] c by fastforce
  then show False using digit_not_percent by blast
qed

lemma printf_char:
  "ch \<noteq> 0x25 \<Longrightarrow> kdbg_printf (ch # s) as c =
    andthen (andthen (if ch = 10 then Inr (newline c) else if isprint ch then show_char ch c else Inr c) end_char)
      (\<lambda>c. kdbg_printf s as c)"
  by (subst kdbg_printf.simps(2)) (simp add: andthen_assoc del: kdbg_printf.simps(2))

lemma percent_char:
  "andthen (show_char 0x25 c) end_char =
    andthen (if 0x25 = (10 :: u8) then Inr (newline c) else if isprint 0x25 then show_char 0x25 c else Inr c) end_char"
  by (simp add: isprint_def)

lemma printf_percent:
  "\<not> (d = 0x62 \<or> d = 0x6F \<or> d = 0x64 \<or> d = 0x78 \<or> d = 0x73 \<or> d = 0x63) \<Longrightarrow>
    kdbg_printf (0x25 # d # s) as c = andthen (show_char 0x25 c) (\<lambda>c. andthen (end_char c) (\<lambda>c. kdbg_printf (d # s) as c))"
  by (subst kdbg_printf.simps(2)) (simp del: kdbg_printf.simps)

lemma prints_plain: "0x25 \<notin> set s \<Longrightarrow> prints c (kdbg_printf s as c) s"
  using printf_plain prints_puts by metis

lemma prints_numeral:
  assumes d: "d = 0x62 \<or> d = 0x6F \<or> d = 0x64 \<or> d = 0x78" and rest: "\<And>c. prints c (f c) u"
  shows "prints c (andthen (kdbg_num2str n (if d = 0x62 then 2 else if d = 0x6F then 8 else if d = 0x64 then 10 else 16)) (\<lambda>(buf, _).
     andthen (kdbg_printf (if d = 0x6F then [0x30] else if d = 0x78 then [0x30, 0x78] else []) [] c) (\<lambda>c.
     andthen (kdbg_printf buf [] c) (\<lambda>c.
     andthen (kdbg_printf (if d = 0x62 then [0x62] else []) [] c) (\<lambda>c. andthen (end_char c) f))))) (conv_text d n @ u)"
proof -
  let ?b = "if d = 0x62 then 2 else if d = 0x6F then 8 else if d = 0x64 then 10 else 16 :: u32"
  let ?pre = "if d = 0x6F then [0x30] else if d = 0x78 then [0x30, 0x78] else [] :: u8 list"
  let ?post = "if d = 0x62 then [0x62] else [] :: u8 list"
  have "2 \<le> ?b" "?b \<le> 16" by (cases "d = 0x62"; cases "d = 0x6F"; cases "d = 0x64"; simp)+
  then obtain buf l where b: "kdbg_num2str n ?b = Inr (buf, l)" and buf: "buf = digits_of (unat ?b) (unat n)"
    using num2str_digits_of by blast
  have t: "conv_text d n = ?pre @ buf @ ?post" using d unfolding buf conv_text_def by auto
  have "0x25 \<notin> set ?pre" "0x25 \<notin> set ?post" "0x25 \<notin> set buf" using num2str_plain [OF b] by auto
  note pl = this [THEN prints_plain]
  have "prints c (andthen (kdbg_printf ?pre [] c) (\<lambda>c. andthen (kdbg_printf buf [] c) (\<lambda>c.
      andthen (kdbg_printf ?post [] c) (\<lambda>c. andthen (end_char c) f)))) (?pre @ buf @ ?post @ [] @ u)"
    by (rule prints_andthen [OF pl(1)], rule prints_andthen [OF pl(3)], rule prints_andthen [OF pl(2)],
        rule prints_andthen [OF prints_end_char], rule rest)
  then show ?thesis unfolding b t andthen_Inr prod.case append_assoc append_Nil .
qed

lemma printf_shows: "expand fmt as = Some t \<Longrightarrow> prints c (kdbg_printf fmt as c) t"
proof (induction fmt as arbitrary: c t rule: expand.induct)
  case (1 as)
  then show ?case by (simp add: prints_def)
next
  case (2 ch as)
  have e: "kdbg_printf [ch] as c =
    andthen (if ch = 10 then Inr (newline c) else if isprint ch then show_char ch c else Inr c) end_char"
  proof (cases "ch = 0x25")
    case True
    then show ?thesis by (simp add: isprint_def)
  next
    case False
    have "andthen r (\<lambda>c. kdbg_printf [] as c) = r" for r :: "console res" by (cases r) simp_all
    then show ?thesis using printf_char [OF False, of "[]"] by (simp only:)
  qed
  have "t = [ch]" using 2 by simp
  then show ?case unfolding e by (simp only: prints_char)
next
  case (3 ch d s as)
  let ?conv = "ch = 0x25 \<and> (d = 0x62 \<or> d = 0x6F \<or> d = 0x64 \<or> d = 0x78 \<or> d = 0x73 \<or> d = 0x63)"
  show ?case
  proof (cases ?conv)
    case False
    then obtain u where u: "expand (d # s) as = Some u" "t = [ch] @ u" using "3.prems" by (auto split: if_splits)
    have e: "kdbg_printf (ch # d # s) as c =
      andthen (andthen (if ch = 10 then Inr (newline c) else if isprint ch then show_char ch c else Inr c) end_char)
        (\<lambda>c. kdbg_printf (d # s) as c)"
    proof (cases "ch = 0x25")
      case True
      then show ?thesis using False printf_percent unfolding True percent_char [symmetric] andthen_assoc by blast
    qed (rule printf_char)
    show ?thesis unfolding e u(2) by (intro prints_andthen [OF prints_char] "3.IH"(2) [OF False u(1)])
  next
    case True
    then obtain t0 r u where cv: "conversion d as = Some (t0, r)" "expand s r = Some u" "t = t0 @ u"
      using "3.prems" by (auto split: option.splits)
    note rest = "3.IH"(1) [OF True cv(1) refl cv(2)]
    consider n where "as = Num n # r" "d = 0x62 \<or> d = 0x6F \<or> d = 0x64 \<or> d = 0x78" "t0 = conv_text d n"
      | n where "as = Num n # r" "d = 0x63" "isprint (ucast n)" "t0 = [ucast n]"
      | "as = Str t0 # r" "d = 0x73" "0x25 \<notin> set t0"
      using cv(1) by (auto simp: conversion_def split: list.splits arg.splits if_splits)
    then show ?thesis
    proof cases
      case 1
      then show ?thesis using prints_numeral [OF 1(2) rest] True unfolding cv(3) 1(3)
        by (subst kdbg_printf.simps(2)) (simp del: kdbg_printf.simps(2))
    next
      case 2
      have "(ucast n :: u8) \<noteq> 10" using 2(3) by (auto simp: isprint_def)
      then have "andthen (show_char (ucast n) c) end_char = andthen (if (ucast n :: u8) = 10 then Inr (newline c)
          else if isprint (ucast n) then show_char (ucast n) c else Inr c) end_char" using 2(3) by simp
      then have "prints c (andthen (show_char (ucast n) c) end_char) [ucast n]" by (simp only: prints_char)
      then have "prints c (andthen (andthen (show_char (ucast n) c) end_char) (\<lambda>c. kdbg_printf s r c)) ([ucast n] @ u)"
        by (intro prints_andthen rest)
      then show ?thesis using 2 True unfolding cv(3)
        by (subst kdbg_printf.simps(2)) (simp add: andthen_assoc del: kdbg_printf.simps(2))
    next
      case 3
      have "prints c (andthen (kdbg_printf t0 [] c) (\<lambda>c. andthen (end_char c) (\<lambda>c. kdbg_printf s r c))) (t0 @ [] @ u)"
        by (intro prints_andthen prints_plain prints_end_char rest 3(3))
      then show ?thesis using 3 True unfolding cv(3)
        by (subst kdbg_printf.simps(2)) (simp del: kdbg_printf.simps(2))
    qed
  qed
qed

section \<open>Properties\<close>

text \<open>
  C12. The screen is the window of the last 25 rows of the text: after any string has been printed on a fresh console, the
  80 by 25 cells are exactly those rows of the page on which the string is typeset, scrolled as far as needed, the
  cursor is behind the last character, and no write has left the video memory.
\<close>

theorem console_window:
  "case fold (typeset (GRAY OR BLACK)) s (\<lambda>_ _. 0, 0, 0) of (pg, r, x) \<Rightarrow>
     \<exists>c'. kdbg_puts s (kdbg_init c) = Inr c' \<and> x < 80 \<and> scrn_x c' = of_nat x \<and> scrn_y c' = of_nat (min r 24) \<and>
       vidmem c' = map (\<lambda>k. pg (r - 24 + k div 80) (k mod 80)) [0..<2000]"
proof -
  obtain pg r x where p: "fold (typeset (GRAY OR BLACK)) s (\<lambda>_ _. 0, 0, 0) = (pg, r, x)" by (metis prod_cases3)
  have "text_style (kdbg_init c) = GRAY OR BLACK" by (simp add: kdbg_init_def)
  then obtain c' where c': "kdbg_puts s (kdbg_init c) = Inr c'" "shows_page c' (pg, r, x)"
    using puts_shows [OF init_shows, of s c] p by auto
  then have h: "x < 80" "holds c' (pg, r, x) (r - 24)" by (auto simp: shows_page_def)
  have "vidmem c' ! k = pg (r - 24 + k div 80) (k mod 80)" if "k < 2000" for k
    using holdsD(7) [OF h(2), of "k div 80" "k mod 80"] that by (simp add: less_mult_imp_div_less)
  then have "vidmem c' = map (\<lambda>k. pg (r - 24 + k div 80) (k mod 80)) [0..<2000]"
    using holdsD(1) [OF h(2)] by (intro nth_equalityI) simp_all
  moreover have "r - (r - 24) = min r 24" by simp
  ultimately show ?thesis using c' h holdsD(5,6) [OF h(2)] by (simp add: p)
qed

text \<open>
  C25. Formatted output shows the text that the format and its arguments stand for, if every conversion has an argument of its
  kind and no string among them contains a percent sign: the screen after \<open>kdbg_printf\<close> with its nested calls is that of
  printing the expansion, in which numbers are the digits of repeated division.
\<close>

theorem printf_expands:
  assumes "expand fmt as = Some t" and "shows_page c p"
  shows "\<exists>c'. kdbg_printf fmt as c = Inr c' \<and> shows_page c' (fold (typeset (text_style c)) t p)"
  using printf_shows [OF assms(1), of c] assms(2) unfolding prints_def by blast

theorem printf_expands_witness:
  "\<forall>c. \<exists>c'. kdbg_printf [0x25, 0x64, 0x21] [Num 42] (kdbg_init c) = Inr c' \<and>
     shows_page c' (fold (typeset 7) [0x34, 0x32, 0x21] (\<lambda>_ _. 0, 0, 0))"
proof -
  have "expand [0x25, 0x64, 0x21] [Num 42] = Some [0x34, 0x32, 0x21]" by code_simp
  moreover have "text_style (kdbg_init c) = 7" for c by (simp add: kdbg_init_def GRAY_def BLACK_def)
  ultimately show ?thesis using printf_expands [OF _ init_shows, of "[0x25, 0x64, 0x21]" "[Num 42]"] by metis
qed

text \<open>
  C31. Converting a number to a string and reading it back gives the number again, in every base from 2 to 36, without
  leading zeros and in at most 32 characters; the returned length is that of the string, except for the number 0.
\<close>

theorem num2str_roundtrip:
  assumes "2 \<le> base" and "base \<le> 36"
  shows "\<exists>s. kdbg_num2str n base = Inr (s, if n = 0 then 0 else int (length s)) \<and> number (unat base) s = unat n \<and>
    1 \<le> length s \<and> length s \<le> 32 \<and> (n = 0 \<or> hd s \<noteq> 0x30)"
  using num2str_digits [OF assms, of n] by blast

theorem num2str_roundtrip_witness: "\<exists>s. kdbg_num2str 0xBEEF 16 = Inr (s, int (length s)) \<and> number 16 s = 0xBEEF"
  using num2str_roundtrip [of 16 "0xBEEF"] by auto

end
