(* ===== verification/Terminal.thy ===== *)
theory Terminal imports Console begin

text \<open>
  The terminal program, \<^verbatim>\<open>tarfs/src/terminal_src/\<close>: the interpreter of ANSI control sequences
  and the cells it writes (\<open>terminal.c\<close>) and the keyboard decoder (\<open>keyboard.c\<close>); \<open>TerminalMain\<close> has the loops. \<open>int\<close> values are 32 bit words read as signed; an access outside of a buffer is \<open>Overrun\<close>.
\<close>

section \<open>Cells\<close>

record terminal =
  t_rows :: "32 word"
  t_cols :: "32 word"
  csr_row :: "32 word"
  csr_col :: "32 word"
  t_buffer :: "u16 list"
  fg_color :: u8
  bg_color :: u8
  current_style :: u8
  read_fd :: "u32 \<times> u32"
  write_fd :: "u32 \<times> u32"
  t_pid :: u32

definition cell_style :: "terminal \<Rightarrow> u8" where
  "cell_style t =
     (let stl = (if current_style t AND 2 \<noteq> 0 then push_bit 4 (fg_color t) + (bg_color t AND 0xF)
                 else push_bit 4 (bg_color t) + (fg_color t AND 0xF))
      in if current_style t AND 1 \<noteq> 0 then stl OR 8 else stl)"

definition csr_index :: "terminal \<Rightarrow> 32 word" where
  "csr_index t = csr_row t * t_cols t + csr_col t"

definition put_cell :: "u16 \<Rightarrow> terminal \<Rightarrow> terminal res" where
  "put_cell v t =
     (if 0 \<le>s csr_index t \<and> unat (csr_index t) < length (t_buffer t)
      then Inr (t\<lparr>t_buffer := (t_buffer t)[unat (csr_index t) := v]\<rparr>) else Inl Overrun)"

definition step_column :: "terminal \<Rightarrow> terminal" where
  "step_column t =
     (let t = t\<lparr>csr_col := csr_col t + 1\<rparr> in
      if t_cols t <s csr_col t
      then (let t = t\<lparr>csr_col := 0, csr_row := csr_row t + 1\<rparr> in
            if t_rows t <s csr_row t then t\<lparr>csr_row := 0\<rparr> else t)
      else t)"

definition terminal_putc :: "u8 \<Rightarrow> terminal \<Rightarrow> terminal res" where
  "terminal_putc c t =
     andthen (put_cell (push_bit 8 (scast (cell_style t)) OR scast c) t) (\<lambda>t. Inr (step_column t))"

section \<open>Control sequences\<close>

datatype ansi_class = NotPart | Digit | Separator | Final

definition ansi_escape_char :: "u8 \<Rightarrow> ansi_class" where
  "ansi_escape_char c =
     (if 0x30 \<le> c \<and> c \<le> 0x39 then Digit
      else if c = 0x3B then Separator
      else if c \<in> set [0x48, 0x66, 0x41, 0x42, 0x43, 0x44, 0x73, 0x75, 0x4A, 0x4B, 0x6D] then Final
      else NotPart)"

text \<open>
  The interpreter: its state, the string in the buffer, the position from which the current argument is read, and the
  arguments with the position of the next one.
\<close>

record ansi =
  ansi_state :: nat
  ansi_buffer :: "u8 list"
  ansi_bufp :: nat
  ansi_args :: "u32 list"
  ansi_argp :: nat

definition ansi_start :: ansi where
  "ansi_start = \<lparr>ansi_state = 0, ansi_buffer = [], ansi_bufp = 0, ansi_args = replicate 16 0, ansi_argp = 0\<rparr>"

definition count_saved_args :: "ansi \<Rightarrow> nat" where
  "count_saved_args a = min (ansi_argp a) 16"

text \<open>\<open>strncat(ansi_bufp, &c, 1)\<close>, in a buffer of 256 bytes.\<close>

definition save_char :: "u8 \<Rightarrow> ansi \<Rightarrow> ansi res" where
  "save_char c a =
     (if c = 0 then Inr a
      else if length (ansi_buffer a) + 2 \<le> 256 then Inr (a\<lparr>ansi_buffer := ansi_buffer a @ [c]\<rparr>) else Inl Overrun)"

text \<open>\<open>atoi\<close> of the C library reads the digits and stops at \<open>LONG_MAX\<close>; the buffer holds no spaces and no signs.\<close>

definition atoi :: "u8 list \<Rightarrow> u32" where
  "atoi s =
     (let v = foldl (\<lambda>v c. v * 10 + (unat c - 0x30)) (0 :: nat) (takeWhile (\<lambda>c. 0x30 \<le> c \<and> c \<le> 0x39) s)
      in of_nat (min v 0x7FFFFFFF))"

definition unread :: "ansi \<Rightarrow> u8 list" where
  "unread a = drop (ansi_bufp a) (ansi_buffer a)"

definition save_arg :: "ansi \<Rightarrow> ansi res" where
  "save_arg a =
     (if ansi_argp a < 16
      then Inr (a\<lparr>ansi_args := (ansi_args a)[ansi_argp a := atoi (unread a)], ansi_argp := Suc (ansi_argp a),
                   ansi_bufp := length (ansi_buffer a)\<rparr>)
      else Inl Overrun)"

text \<open>\<open>memset(&buffer[i], 0, n)\<close>: \<open>n\<close> bytes, two for every cell.\<close>

definition clear_bytes :: "u32 \<Rightarrow> u32 \<Rightarrow> u16 list \<Rightarrow> u16 list res" where
  "clear_bytes i n m =
     (let j = unat i; k = unat n div 2 in
      if n = 0 then Inr m
      else if 0 \<le>s i \<and> 2 * j + unat n \<le> 2 * length m
      then (let m = take j m @ replicate k 0 @ drop (j + k) m in
            Inr (if odd (unat n) then m[j + k := (m ! (j + k)) AND 0xFF00] else m))
      else Inl Overrun)"

definition set_graphics :: "u32 \<Rightarrow> terminal \<Rightarrow> terminal" where
  "set_graphics ar t =
     (let t = (if ar = 0 then t\<lparr>current_style := 0, fg_color := 7, bg_color := 0\<rparr> else t);
          t = (if ar = 1 then t\<lparr>current_style := current_style t OR 1\<rparr> else t);
          t = (if ar = 7 then t\<lparr>current_style := current_style t OR 2\<rparr> else t);
          t = (if 30 \<le>s ar \<and> ar \<le>s 37 then t\<lparr>fg_color := ucast (ar - 30)\<rparr> else t)
      in if 40 \<le>s ar \<and> ar \<le>s 47 then t\<lparr>bg_color := ucast (ar - 40)\<rparr> else t)"

text \<open>The functions: \<open>None\<close> is \<open>goto bail_print\<close>.\<close>

definition ansi_function :: "u8 \<Rightarrow> ansi \<Rightarrow> terminal \<Rightarrow> terminal option res" where
  "ansi_function c a t =
     (let n = count_saved_args a; x = ansi_args a ! 0; y = ansi_args a ! 1 in
      if c = 0x48 \<or> c = 0x66 then Inr (if n \<noteq> 2 then None else Some (t\<lparr>csr_row := x, csr_col := y\<rparr>))
      else if c = 0x41 then Inr (if n > 1 then None
        else Some (let t = t\<lparr>csr_row := csr_row t - (x + 1)\<rparr> in if csr_row t <s 0 then t\<lparr>csr_row := 0\<rparr> else t))
      else if c = 0x42 then Inr (if n > 1 then None
        else Some (let t = t\<lparr>csr_row := csr_row t + (x + 1)\<rparr> in if t_rows t \<le>s csr_row t then t\<lparr>csr_row := t_rows t\<rparr> else t))
      else if c = 0x43 then Inr (if n > 1 then None
        else Some (let t = t\<lparr>csr_col := csr_col t + (x + 1)\<rparr> in if t_cols t \<le>s csr_col t then t\<lparr>csr_col := t_cols t\<rparr> else t))
      else if c = 0x44 then Inr (if n > 1 then None
        else Some (let t = t\<lparr>csr_col := csr_col t - (x + 1)\<rparr> in if csr_col t <s 0 then t\<lparr>csr_col := 0\<rparr> else t))
      else if c = 0x4A then (if n \<noteq> 1 \<or> x \<noteq> 2 then Inr None
        else andthen (clear_bytes 0 (2 * t_rows t * t_cols t) (t_buffer t)) (\<lambda>m.
             Inr (Some (t\<lparr>t_buffer := m, csr_row := 0, csr_col := 0\<rparr>))))
      else if c = 0x4B then (if n \<noteq> 0 then Inr None
        else andthen (clear_bytes (csr_index t) (t_cols t - csr_col t) (t_buffer t)) (\<lambda>m. Inr (Some (t\<lparr>t_buffer := m\<rparr>))))
      else if c = 0x6D then Inr (Some (fold set_graphics (take n (ansi_args a)) t))
      else Inr (Some t))"

text \<open>\<open>bail_print\<close>: the printable characters of the buffer are shown.\<close>

fun bail_print :: "u8 list \<Rightarrow> terminal \<Rightarrow> terminal res" where
  "bail_print [] t = Inr t"
| "bail_print (c # s) t = andthen (if isprint c then terminal_putc c t else Inr t) (\<lambda>t. bail_print s t)"

text \<open>\<open>check_for_escape\<close>: whether the character was taken. After a function with bad arguments the state stays 2.\<close>

definition check_for_escape :: "u8 \<Rightarrow> ansi \<times> terminal \<Rightarrow> (bool \<times> ansi \<times> terminal) res" where
  "check_for_escape c = (\<lambda>(a, t).
     if ansi_state a = 0 then Inr (if c = 0x1B then (True, a\<lparr>ansi_state := 1\<rparr>, t) else (False, a, t))
     else if ansi_state a = 1
     then Inr (if c = 0x5B then (True, a\<lparr>ansi_state := 2, ansi_buffer := [0x5B], ansi_bufp := 1,
                                  ansi_args := replicate 16 0, ansi_argp := 0\<rparr>, t)
               else (False, a, t))
     else
      andthen (save_char c a) (\<lambda>a.
      case ansi_escape_char c of
        NotPart \<Rightarrow> andthen (bail_print (ansi_buffer a) t) (\<lambda>t. Inr (True, a\<lparr>ansi_state := 0\<rparr>, t))
      | Digit \<Rightarrow> Inr (True, a, t)
      | Separator \<Rightarrow> andthen (save_arg a) (\<lambda>a. Inr (True, a, t))
      | Final \<Rightarrow>
         andthen (if length (unread a) > 1 then save_arg a else Inr a) (\<lambda>a.
         andthen (ansi_function c a t) (\<lambda>r.
         case r of
           None \<Rightarrow> andthen (bail_print (ansi_buffer a) t) (\<lambda>t. Inr (True, a, t))
         | Some t \<Rightarrow> Inr (True, a\<lparr>ansi_state := 0\<rparr>, t)))))"

definition terminal_putch :: "u8 \<Rightarrow> ansi \<times> terminal \<Rightarrow> (ansi \<times> terminal) res" where
  "terminal_putch c s =
     andthen (check_for_escape c s) (\<lambda>(taken, a, t).
     if taken then Inr (a, t)
     else if c = 0x0A then Inr (a, t\<lparr>csr_row := csr_row t + 1, csr_col := 0\<rparr>)
     else if isprint c then andthen (terminal_putc c t) (\<lambda>t. Inr (a, t))
     else Inr (a, t))"

fun terminal_write :: "u8 list \<Rightarrow> ansi \<times> terminal \<Rightarrow> (ansi \<times> terminal) res" where
  "terminal_write [] s = Inr s"
| "terminal_write (c # cs) s = andthen (terminal_putch c s) (\<lambda>s. terminal_write cs s)"

text \<open>\<open>terminal_init\<close>: the new terminal.\<close>

definition new_terminal :: "u32 \<Rightarrow> u32 \<Rightarrow> terminal" where
  "new_terminal rows cols = \<lparr>t_rows = rows, t_cols = cols, csr_row = 0, csr_col = 0,
     t_buffer = replicate (unat (rows * cols)) 0, fg_color = 7, bg_color = 0, current_style = 0,
     read_fd = (0, 0), write_fd = (0, 0), t_pid = 0\<rparr>"

text \<open>\<open>copybuffer\<close>: the cells go to the video memory, and the cursor is set.\<close>

definition copybuffer :: "terminal \<Rightarrow> u16 list \<Rightarrow> (u16 list \<times> (u16 \<times> u8) list) res" where
  "copybuffer t vid =
     (let n = unat (t_rows t * t_cols t); position = (ucast (csr_row t * 80 + csr_col t) :: u16) in
      if n \<le> length (t_buffer t) \<and> n \<le> length vid
      then Inr (take n (t_buffer t) @ drop n vid,
                [(0x3D4, 0x0F), (0x3D5, ucast (position AND 0xFF)), (0x3D4, 0x0E), (0x3D5, ucast (drop_bit 8 position) AND 0xF)])
      else Inl Overrun)"

section \<open>The keyboard\<close>

definition term_kbd_map :: "int list" where
  "term_kbd_map = [
     (- 1), 27, 49, 50, 51, 52, 53, 54, 55, 56, 57, 48, 45, 61, 8, 9,
     113, 119, 101, 114, 116, 121, 117, 105, 111, 112, 91, 93, 10, 0, 97, 115,
     100, 102, 103, 104, 106, 107, 108, 59, 39, 96, 0, 92, 122, 120, 99, 118,
     98, 110, 109, 44, 46, 47, 0, 42, 48, 32, 0, 0, 0, 0, 0, 0,
     0, 0, 0, 0, 0, 0, 0, 55, 56, 57, 45, 52, 53, 54, 43, 49,
     50, 51, 48, 46, (- 1), (- 1), (- 1), 0, 0, (- 1)] @ replicate 38 0"

definition term_kbd_mapS :: "int list" where
  "term_kbd_mapS = [
     (- 1), 27, 33, 64, 35, 36, 37, 94, 38, 42, 40, 41, 95, 43, 8, 9,
     81, 87, 69, 82, 84, 89, 85, 73, 79, 80, 123, 125, 10, 0, 65, 83,
     68, 70, 71, 72, 74, 75, 76, 58, 34, 126, 0, 124, 90, 88, 67, 86,
     66, 78, 77, 60, 62, 63, 0, 42, 48, 32, 0, 0, 0, 0, 0, 0,
     0, 0, 0, 0, 0, 0, 0, 55, 56, 57, 45, 52, 53, 54, 43, 49,
     50, 51, 48, 46, (- 1), (- 1), (- 1), 0, 0, (- 1)] @ replicate 38 0"

record kbd =
  kbd_shift :: bool
  kbd_ctrl :: bool
  kbd_alt :: bool
  kbd_multi :: bool

definition term_keyboard_init :: kbd where
  "term_keyboard_init = \<lparr>kbd_shift = False, kbd_ctrl = False, kbd_alt = False, kbd_multi = False\<rparr>"

definition SCANCODE_CTRL :: u8 where "SCANCODE_CTRL = 0x1D"
definition SCANCODE_LSHIFT :: u8 where "SCANCODE_LSHIFT = 0x2A"
definition SCANCODE_RSHIFT :: u8 where "SCANCODE_RSHIFT = 0x36"
definition SCANCODE_ALT :: u8 where "SCANCODE_ALT = 0x38"
definition SCANCODE_CAPSLOCK :: u8 where "SCANCODE_CAPSLOCK = 0x3A"

definition term_keyboard_decode :: "u8 \<Rightarrow> kbd \<Rightarrow> u8 \<times> kbd" where
  "term_keyboard_decode scancode k =
     (let down = (scancode AND 0x80 = 0); code = scancode AND 0x7F;
          (ret, k) =
            (if code = SCANCODE_CAPSLOCK \<or> code = SCANCODE_CTRL then (0, k\<lparr>kbd_ctrl := down\<rparr>)
             else if code = SCANCODE_ALT then (0, k\<lparr>kbd_alt := down\<rparr>)
             else if code = SCANCODE_LSHIFT \<or> code = SCANCODE_RSHIFT then (0, k\<lparr>kbd_shift := down\<rparr>)
             else if \<not> down \<or> term_kbd_map ! unat code = -1 then (0, k)
             else (word_of_int (if kbd_shift k then term_kbd_mapS ! unat code else term_kbd_map ! unat code), k))
      in (ret, k\<lparr>kbd_multi := (scancode = 0xE0)\<rparr>))"

end
