(* ===== verification/Devices.thy ===== *)
theory Devices imports SysFs begin

text \<open>
  The devices: the keyboard (\<^verbatim>\<open>kernel/drivers/keyboard.c\<close>), the timer
  (\<^verbatim>\<open>kernel/drivers/timer.c\<close>) and the serial line (\<^verbatim>\<open>kernel/drivers/serial.c\<close>). Bytes sent to
  a port are pairs of port and value; what is read from a port is a parameter.
\<close>

section \<open>The keyboard\<close>

definition kbd_map :: "u8 list" where
  "kbd_map = [
     0, 27, 49, 50, 51, 52, 53, 54, 55, 56, 57, 48, 45, 61, 8, 9,
     113, 119, 101, 114, 116, 121, 117, 105, 111, 112, 91, 93, 10, 0, 97, 115,
     100, 102, 103, 104, 106, 107, 108, 59, 39, 96, 0, 92, 122, 120, 99, 118,
     98, 110, 109, 44, 46, 47, 0, 42, 48, 32, 0, 0, 0, 0, 0, 0,
     0, 0, 0, 0, 0, 0, 0, 0, 0, 0, 45, 0, 0, 0, 43, 0,
     0, 0, 0, 0, 0, 0, 0, 0, 0, 0] @ replicate 38 0"

definition kbd_mapS :: "u8 list" where
  "kbd_mapS = [
     0, 27, 33, 64, 35, 36, 37, 94, 38, 42, 40, 41, 95, 43, 8, 9,
     81, 87, 69, 82, 84, 89, 85, 73, 79, 80, 123, 125, 10, 0, 65, 83,
     68, 70, 71, 72, 74, 75, 76, 58, 34, 126, 0, 124, 90, 88, 67, 86,
     66, 78, 77, 60, 62, 63, 0, 42, 48, 32, 0, 0, 0, 0, 0, 0,
     0, 0, 0, 0, 0, 0, 0, 0, 0, 0, 45, 0, 0, 0, 43, 0,
     0, 0, 0, 0, 0, 0, 0, 0, 0, 0] @ replicate 38 0"

text \<open>The pipe behind the first descriptor of the first process, the raw pipe, and the state of the shift key.\<close>

record keyboard =
  keyboard_pipe :: nat
  keyboard_raw :: nat
  kbd_state :: u8

definition keyboard_decode :: "u8 \<Rightarrow> u8 \<Rightarrow> u8 \<times> u8" where
  "keyboard_decode scancode st =
     (if scancode AND 0x80 \<noteq> 0
      then (let scancode = scancode AND 0x7F in (0, if scancode = 0x2A \<or> scancode = 0x36 then 0 else st))
      else if scancode = 0x2A \<or> scancode = 0x36 then (0, 1)
      else if st = 1 then (kbd_mapS ! unat scancode, st) else (kbd_map ! unat scancode, st))"

text \<open>The handler polls the status of the controller; a controller that stays busy is an endless loop.\<close>

fun kbd_wait :: "u8 list \<Rightarrow> unit res" where
  "kbd_wait [] = Inl Hang"
| "kbd_wait (st # r) = (if st AND 2 = 0 then Inr () else kbd_wait r)"

text \<open>
  The interrupt: the character is decoded, but both pipes get the scancode. A full pipe puts the interrupted thread to sleep
  inside the handler; the rest of the handler runs when it has been woken.
\<close>

definition keyboard_handler :: "u8 list \<Rightarrow> u8 \<Rightarrow> keyboard \<Rightarrow> kernel \<Rightarrow> (unit outcome \<times> keyboard \<times> kernel) res" where
  "keyboard_handler status scancode kb k =
     andthen (kbd_wait status) (\<lambda>_.
     let (_, st) = keyboard_decode scancode (kbd_state kb); kb = kb\<lparr>kbd_state := st\<rparr> in
      andthen (on_fs (vfs_write (keyboard_raw kb) [scancode] 0) k) (\<lambda>(r, k).
      case r of
        Sleeps w \<Rightarrow> Inr (Sleeps w, kb, k)
      | Returns _ \<Rightarrow>
         andthen (on_fs (vfs_write (keyboard_pipe kb) [scancode] 0) k) (\<lambda>(r, k).
         Inr (case r of Sleeps w \<Rightarrow> Sleeps w | Returns _ \<Rightarrow> Returns (), kb, k))))"

definition keyboard_init :: "u8 list \<Rightarrow> u8 list \<Rightarrow> kernel \<Rightarrow> (keyboard \<times> kernel) res" where
  "keyboard_init junk1 junk2 k =
     (let (rd, wr, s) = make_pipe 1024 junk1 (kfs k); k = k\<lparr>kfs := s\<rparr> in
      andthen (on_fs (vfs_open wr O_WRONLY) k) (\<lambda>(_, k).
      andthen (current_proc k) (\<lambda>p.
      let (d, k) = new_desc k in
      andthen (set_slot p 0 (Some d) k) (\<lambda>k.
      andthen (fd_get d k) (\<lambda>k.
      andthen (upd_desc d (\<lambda>v. v\<lparr>ino := Some rd, fd_flags := O_RDONLY\<rparr>) k) (\<lambda>k.
      andthen (on_fs (vfs_open rd O_RDONLY) k) (\<lambda>(_, k).
      let (rd2, wr2, s) = make_pipe 1024 junk2 (kfs k); k = k\<lparr>kfs := s\<rparr> in
      andthen (on_fs (vfs_mount ''/dev/kbdraw'' rd2) k) (\<lambda>(_, k).
      andthen (on_fs (vfs_open wr2 O_WRONLY) k) (\<lambda>(_, k).
      Inr (\<lparr>keyboard_pipe = wr, keyboard_raw = wr2, kbd_state = 0\<rparr>, k))))))))))"

section \<open>The timer\<close>

definition PIT_DIVISOR_CONST :: u32 where "PIT_DIVISOR_CONST = 1193180"

definition timer_init :: "u32 \<Rightarrow> (u32 \<times> (u16 \<times> u8) list) res" where
  "timer_init freq =
     (if freq = 0 then Inl DivError
      else let divisor = PIT_DIVISOR_CONST div freq in
           Inr (0, [(0x43, 0x00 OR 0x30 OR 0x06), (0x40, ucast (divisor AND 0xFF)),
                    (0x40, ucast (drop_bit 8 divisor AND 0xFF))]))"

text \<open>The new value of \<open>ticks\<close>, and whether the handler calls \<open>schedule\<close>.\<close>

definition timer_tick :: "u32 \<Rightarrow> u32 \<times> bool" where
  "timer_tick ticks = (let ticks = ticks + 1 in (ticks, ticks mod 10 = 0))"

section \<open>The serial line\<close>

definition SERIAL_COM1 :: u16 where "SERIAL_COM1 = 0x3F8"

definition init_serial :: "u16 \<Rightarrow> (u16 \<times> u8) list" where
  "init_serial port =
     [(port + 1, 0x00), (port + 3, 0x80), (port + 0, 0x03), (port + 1, 0x00), (port + 3, 0x03),
      (port + 2, 0xC7), (port + 4, 0x0B)]"

text \<open>
  \<open>serial_send\<close> polls the status of the first line until its transmit bit is set: the status bytes still to be read
  afterwards, and the byte sent. A line that never gets ready is an endless loop.
\<close>

fun serial_send :: "u16 \<Rightarrow> u8 \<Rightarrow> u8 list \<Rightarrow> (u8 list \<times> (u16 \<times> u8)) res" where
  "serial_send port c [] = Inl Hang"
| "serial_send port c (st # r) = (if st AND 0x20 = 0 then serial_send port c r else Inr (r, (port, c)))"

text \<open>\<open>serial_debug\<close> of a formatted string.\<close>

fun send_all :: "u8 list \<Rightarrow> u8 list \<Rightarrow> (u8 list \<times> (u16 \<times> u8) list) res" where
  "send_all [] st = Inr (st, [])"
| "send_all (c # s) st =
     andthen (serial_send SERIAL_COM1 c st) (\<lambda>(st, o1).
     andthen (send_all s st) (\<lambda>(st, os). Inr (st, o1 # os)))"

definition serial_debug :: "bool \<Rightarrow> u8 list \<Rightarrow> u8 list \<Rightarrow> (u8 list \<times> (u16 \<times> u8) list) res" where
  "serial_debug enabled s st = (if enabled then send_all s st else Inr (st, []))"

end
