(* ===== verification/TerminalProps.thy ===== *)
theory TerminalProps imports Terminal ConsoleProps Devices begin

text \<open>
  Properties of the terminal: plain text goes to the cells of the line, cursor positions are read back from their
  decimal form, and what happens at the lower edge of the screen and after a malformed sequence.
\<close>

section \<open>Plain text\<close>

definition term_cell :: "terminal \<Rightarrow> u8 \<Rightarrow> u16" where
  "term_cell t c = push_bit 8 (scast (cell_style t)) OR scast c"

lemma plain_char:
  "ansi_state a = 0 \<Longrightarrow> c \<noteq> 0x1B \<Longrightarrow> isprint c \<Longrightarrow>
    terminal_putch c (a, t) = andthen (terminal_putc c t) (\<lambda>t. Inr (a, t))"
  by (auto simp: terminal_putch_def check_for_escape_def isprint_def)

text \<open>A terminal of moderate size with the cursor on the screen.\<close>

definition on_screen :: "nat \<Rightarrow> nat \<Rightarrow> terminal \<Rightarrow> bool" where
  "on_screen r x t \<longleftrightarrow> unat (t_rows t) < 2 ^ 15 \<and> unat (t_cols t) < 2 ^ 15 \<and> csr_row t = of_nat r \<and> csr_col t = of_nat x \<and>
     r < unat (t_rows t) \<and> x \<le> unat (t_cols t) \<and> length (t_buffer t) = unat (t_rows t) * unat (t_cols t)"

lemma csr_index_nat:
  assumes "on_screen r x t" shows "csr_index t = of_nat (r * unat (t_cols t) + x)"
  using assms by (simp add: on_screen_def csr_index_def)

lemma index_small:
  assumes "on_screen r x t" "x < unat (t_cols t)"
  shows "r * unat (t_cols t) + x < unat (t_rows t) * unat (t_cols t)" "unat (t_rows t) * unat (t_cols t) < 2 ^ 30"
proof -
  have "r * unat (t_cols t) + x < Suc r * unat (t_cols t)" using assms(2) by simp
  also have "\<dots> \<le> unat (t_rows t) * unat (t_cols t)" using assms(1) by (intro mult_le_mono1) (simp add: on_screen_def)
  finally show "r * unat (t_cols t) + x < unat (t_rows t) * unat (t_cols t)" .
  have "unat (t_rows t) * unat (t_cols t) \<le> unat (t_rows t) * 2 ^ 15"
    using assms(1) by (intro mult_le_mono2) (simp add: on_screen_def)
  also have "\<dots> < 2 ^ 15 * 2 ^ 15" using assms(1) by (intro mult_strict_right_mono) (simp_all add: on_screen_def)
  finally show "unat (t_rows t) * unat (t_cols t) < 2 ^ 30" by simp
qed

lemma signed_small: "n < 2 ^ 31 \<Longrightarrow> sint (of_nat n :: 32 word) = int n" "n < 2 ^ 31 \<Longrightarrow> unat (of_nat n :: 32 word) = n"
  by (simp_all add: signed_of_nat signed_take_bit_int_eq_self unat_of_nat)

lemma putc_on_screen:
  assumes s: "on_screen r x t" and x: "x < unat (t_cols t)"
  shows "\<exists>t'. terminal_putc c t = Inr t' \<and> on_screen r (Suc x) t' \<and>
    t' = t\<lparr>t_buffer := (t_buffer t)[r * unat (t_cols t) + x := term_cell t c], csr_col := of_nat (Suc x)\<rparr>"
proof -
  let ?i = "r * unat (t_cols t) + x"
  note i = index_small [OF s x]
  have "sint (csr_index t) = int ?i" "unat (csr_index t) = ?i"
    unfolding csr_index_nat [OF s] using i by (intro signed_small; simp)+
  then have p: "put_cell v t = Inr (t\<lparr>t_buffer := (t_buffer t)[?i := v]\<rparr>)" for v
    using i(1) s by (simp add: put_cell_def word_sle_eq on_screen_def)
  let ?t = "t\<lparr>t_buffer := (t_buffer t)[?i := term_cell t c], csr_col := of_nat (Suc x)\<rparr>"
  have "sint (t_cols t) = int (unat (t_cols t))"
    using s signed_small(1) [of "unat (t_cols t)"] by (simp add: on_screen_def)
  moreover have "sint (of_nat (Suc x) :: 32 word) = int (Suc x)"
    using s x by (intro signed_small) (simp add: on_screen_def)
  moreover have "int (Suc x) \<le> int (unat (t_cols t))" using x by linarith
  ultimately have "\<not> t_cols t <s of_nat (Suc x)" unfolding word_sless_alt by linarith
  moreover have "csr_col t + 1 = of_nat (Suc x)" using s by (simp add: on_screen_def)
  ultimately have "step_column (t\<lparr>t_buffer := (t_buffer t)[?i := term_cell t c]\<rparr>) = ?t"
    by (simp add: step_column_def Let_def del: of_nat_Suc)
  then have "terminal_putc c t = Inr ?t" using p by (simp add: terminal_putc_def term_cell_def)
  moreover have "on_screen r (Suc x) ?t" using s x by (simp add: on_screen_def)
  ultimately show ?thesis by blast
qed

lemma line_on_screen:
  "on_screen r x t \<Longrightarrow> x + length s \<le> unat (t_cols t) \<Longrightarrow> ansi_state a = 0 \<Longrightarrow> \<forall>c\<in>set s. isprint c \<Longrightarrow>
    \<exists>t'. terminal_write s (a, t) = Inr (a, t') \<and> on_screen r (x + length s) t' \<and>
      t' = t\<lparr>t_buffer := take (r * unat (t_cols t) + x) (t_buffer t) @ map (term_cell t) s @
               drop (r * unat (t_cols t) + x + length s) (t_buffer t), csr_col := of_nat (x + length s)\<rparr>"
proof (induction s arbitrary: x t)
  case Nil
  then show ?case by (auto simp: on_screen_def)
next
  case (Cons c s)
  let ?i = "r * unat (t_cols t) + x"
  have x: "x < unat (t_cols t)" using Cons.prems(2) by simp
  obtain t1 where t1: "terminal_putc c t = Inr t1" "on_screen r (Suc x) t1"
    "t1 = t\<lparr>t_buffer := (t_buffer t)[?i := term_cell t c], csr_col := of_nat (Suc x)\<rparr>"
    using putc_on_screen [OF Cons.prems(1) x] by blast
  have len: "?i < length (t_buffer t)" using index_small [OF Cons.prems(1) x] Cons.prems(1) by (simp add: on_screen_def)
  have cols: "t_cols t1 = t_cols t" "term_cell t1 = term_cell t" by (simp_all add: t1(3) term_cell_def cell_style_def fun_eq_iff)
  have pc: "isprint c" using Cons.prems(4) by simp
  then have "c \<noteq> 0x1B" by (auto simp: isprint_def)
  then have "terminal_write (c # s) (a, t) = terminal_write s (a, t1)"
    using plain_char [OF Cons.prems(3) _ pc] t1(1) by simp
  moreover obtain t2 where t2: "terminal_write s (a, t1) = Inr (a, t2)" "on_screen r (Suc x + length s) t2"
    "t2 = t1\<lparr>t_buffer := take (r * unat (t_cols t1) + Suc x) (t_buffer t1) @ map (term_cell t1) s @
            drop (r * unat (t_cols t1) + Suc x + length s) (t_buffer t1), csr_col := of_nat (Suc x + length s)\<rparr>"
    using Cons.IH [OF t1(2)] Cons.prems cols by auto
  moreover have "take (Suc ?i) ((t_buffer t)[?i := v]) = take ?i (t_buffer t) @ [v]" for v
    using len by (simp add: take_Suc_conv_app_nth take_update_swap list_update_append)
  ultimately show ?case using cols t1(3) by simp
qed

section \<open>Cursor positions\<close>

definition digits_only :: "u8 list \<Rightarrow> bool" where
  "digits_only s \<longleftrightarrow> (\<forall>c\<in>set s. 0x30 \<le> c \<and> c \<le> 0x39)"

lemma digit_class: "0x30 \<le> c \<Longrightarrow> c \<le> 0x39 \<Longrightarrow> ansi_escape_char c = Digit"
  by (simp add: ansi_escape_char_def)

lemma write_append: "terminal_write (s @ t) k = andthen (terminal_write s k) (terminal_write t)"
proof (induction s arbitrary: k)
  case (Cons c s)
  then have "terminal_write (s @ t) = (\<lambda>k. andthen (terminal_write s k) (terminal_write t))" by (intro ext)
  then show ?case by (simp add: andthen_assoc)
qed simp

text \<open>In a sequence, digits are collected.\<close>

lemma write_digits:
  "digits_only s \<Longrightarrow> ansi_state a = 2 \<Longrightarrow> length (ansi_buffer a) + length s + 1 \<le> 256 \<Longrightarrow>
    terminal_write s (a, t) = Inr (a\<lparr>ansi_buffer := ansi_buffer a @ s\<rparr>, t)"
proof (induction s arbitrary: a)
  case (Cons c s)
  have c: "0x30 \<le> c" "c \<le> 0x39" "digits_only s" using Cons.prems(1) by (auto simp: digits_only_def)
  then have "c \<noteq> 0" by auto
  then have "terminal_putch c (a, t) = Inr (a\<lparr>ansi_buffer := ansi_buffer a @ [c]\<rparr>, t)"
    using Cons.prems(2,3) digit_class [OF c(1,2)]
    by (simp add: terminal_putch_def check_for_escape_def save_char_def)
  then show ?case using Cons.IH [OF c(3), of "a\<lparr>ansi_buffer := ansi_buffer a @ [c]\<rparr>"] Cons.prems by simp
qed simp

lemma atoi_value:
  assumes "digits_only s" "\<not> (0x30 \<le> x \<and> x \<le> 0x39)"
  shows "atoi (s @ x # r) = of_nat (min (number 10 s) 0x7FFFFFFF)"
proof -
  have t: "takeWhile (\<lambda>c. 0x30 \<le> c \<and> c \<le> 0x39) (s @ x # r) = s"
    using assms by (simp add: digits_only_def takeWhile_append)
  have "foldl (\<lambda>v c. v * 10 + (unat c - 0x30)) v s = foldl (\<lambda>v ch. v * 10 + digit_value ch) v s" for v
    using assms(1)
  proof (induction s arbitrary: v)
    case (Cons c s)
    have c: "0x30 \<le> c" "c \<le> 0x39" "digits_only s" using Cons.prems by (auto simp: digits_only_def)
    have "c < 0x3A" using c by (simp add: word_less_nat_alt word_le_nat_alt)
    moreover have "unat (c - 0x30) = unat c - 48" using unat_sub [OF c(1)] by simp
    ultimately have "unat c - 0x30 = digit_value c" by (simp add: digit_value_def)
    then show ?case using Cons.IH [OF c(3)] by simp
  qed simp
  then show ?thesis by (simp add: atoi_def t number_def)
qed

lemma number_digits_only:
  assumes "kdbg_num2str n 10 = Inr (s, l)" shows "digits_only s" "length s \<le> 32" "number 10 s = unat n" "s \<noteq> []"
proof -
  have s: "number 10 s = unat n" "length s \<le> 32" "1 \<le> length s"
    using num2str_digits [of 10 n] assms by auto
  then show "length s \<le> 32" "number 10 s = unat n" "s \<noteq> []" by auto
  show "digits_only s"
  proof (cases "n = 0")
    case True
    then show ?thesis using assms by (auto simp: kdbg_num2str_def digits_only_def)
  next
    case False
    then obtain ds where "num_digits n 10 = Inr ds" "s = rev ds"
      using assms by (auto simp: kdbg_num2str_def andthen_eq_Inr flip_rev)
    moreover have "num_digits n 10 = Inr ds \<Longrightarrow> c \<in> set ds \<Longrightarrow> 0x30 \<le> c \<and> c \<le> 0x39" for ds c
    proof (induction n "10 :: u32" arbitrary: ds rule: num_digits.induct)
      case (1 n)
      have "n \<noteq> 0" using "1.prems" by (auto simp: num_digits.simps)
      then obtain r where r: "num_digits (n div 10) 10 = Inr r" "ds = digit_char (n mod 10) # r"
        using "1.prems"(1) by (subst (asm) num_digits.simps) (auto simp: andthen_eq_Inr)
      have "unat (n mod 10) < 10" by (simp add: unat_mod)
      then have "unat (n mod 10) \<in> set [0..<10]" by simp
      moreover have "\<forall>m\<in>set [0..<10]. 0x30 \<le> digit_char (of_nat m) \<and> digit_char (of_nat m) \<le> 0x39" by code_simp
      ultimately have "0x30 \<le> digit_char (n mod 10) \<and> digit_char (n mod 10) \<le> 0x39" by (metis of_nat_unat ucast_id)
      then show ?case using "1.hyps" [OF \<open>n \<noteq> 0\<close> _ _ r(1)] "1.prems"(2) r(2) by auto
    qed
    ultimately show ?thesis by (simp add: digits_only_def)
  qed
qed

lemma save_arg_digits:
  assumes "digits_only s" "\<not> (0x30 \<le> x \<and> x \<le> 0x39)" "ansi_buffer a = b @ s @ [x]" "ansi_bufp a = length b" "ansi_argp a < 16"
  shows "save_arg a = Inr (a\<lparr>ansi_args := (ansi_args a)[ansi_argp a := of_nat (min (number 10 s) 0x7FFFFFFF)], ansi_argp := Suc (ansi_argp a),
    ansi_bufp := length (ansi_buffer a)\<rparr>)"
  using assms atoi_value [OF assms(1,2), of "[]"] by (simp add: save_arg_def unread_def)

lemma cursor_sequence:
  assumes r: "digits_only r" "length r \<le> 100" and c: "digits_only c" "length c \<le> 100" "c \<noteq> []" and a: "ansi_state a = 0"
  shows "\<exists>a'. terminal_write ([0x1B, 0x5B] @ r @ [0x3B] @ c @ [0x48]) (a, t) =
    Inr (a', t\<lparr>csr_row := of_nat (min (number 10 r) 0x7FFFFFFF), csr_col := of_nat (min (number 10 c) 0x7FFFFFFF)\<rparr>) \<and> ansi_state a' = 0"
proof -
  let ?n = "of_nat (min (number 10 r) 0x7FFFFFFF) :: u32" and ?m = "of_nat (min (number 10 c) 0x7FFFFFFF) :: u32"
  let ?a2 = "a\<lparr>ansi_state := 2, ansi_buffer := [0x5B], ansi_bufp := 1, ansi_args := replicate 16 0, ansi_argp := 0\<rparr>"
  have 1: "terminal_write [0x1B, 0x5B] (a, t) = Inr (?a2, t)"
    using a by (simp add: terminal_putch_def check_for_escape_def)
  let ?a3 = "?a2\<lparr>ansi_buffer := 0x5B # r\<rparr>"
  have 2: "terminal_write r (?a2, t) = Inr (?a3, t)" using write_digits [OF r(1), of ?a2 t] r(2) by simp
  let ?a4 = "?a2\<lparr>ansi_buffer := 0x5B # r @ [0x3B], ansi_args := (replicate 16 0)[0 := ?n], ansi_argp := 1, ansi_bufp := length r + 2\<rparr>"
  have "save_arg (?a2\<lparr>ansi_buffer := 0x5B # r @ [0x3B]\<rparr>) = Inr ?a4"
    using save_arg_digits [OF r(1), of "0x3B" "?a2\<lparr>ansi_buffer := 0x5B # r @ [0x3B]\<rparr>" "[0x5B]"] by simp
  then have 3: "terminal_write [0x3B] (?a3, t) = Inr (?a4, t)"
    using r(2) by (simp add: terminal_putch_def check_for_escape_def save_char_def ansi_escape_char_def)
  let ?a5 = "?a4\<lparr>ansi_buffer := 0x5B # r @ [0x3B] @ c\<rparr>"
  have 4: "terminal_write c (?a4, t) = Inr (?a5, t)" using write_digits [OF c(1), of ?a4 t] r(2) c(2) by simp
  let ?a6 = "?a5\<lparr>ansi_buffer := 0x5B # r @ [0x3B] @ c @ [0x48]\<rparr>"
  let ?a7 = "?a6\<lparr>ansi_args := (replicate 16 0)[0 := ?n, 1 := ?m], ansi_argp := 2, ansi_bufp := length (ansi_buffer ?a6)\<rparr>"
  have "save_arg ?a6 = Inr ?a7"
    using save_arg_digits [OF c(1), of "0x48" ?a6 "0x5B # r @ [0x3B]"] by simp
  moreover have "length (unread ?a6) > 1" using c(3) by (cases c) (simp_all add: unread_def)
  moreover have "ansi_function 0x48 ?a7 t = Inr (Some (t\<lparr>csr_row := ?n, csr_col := ?m\<rparr>))"
    by (simp add: ansi_function_def count_saved_args_def Let_def)
  ultimately have 5: "terminal_write [0x48] (?a5, t) = Inr (?a7\<lparr>ansi_state := 0\<rparr>, t\<lparr>csr_row := ?n, csr_col := ?m\<rparr>)"
    using r(2) c(2) by (simp add: terminal_putch_def check_for_escape_def save_char_def ansi_escape_char_def)
  have "terminal_write ([0x1B, 0x5B] @ r @ [0x3B] @ c @ [0x48]) (a, t) =
      Inr (?a7\<lparr>ansi_state := 0\<rparr>, t\<lparr>csr_row := ?n, csr_col := ?m\<rparr>)"
    unfolding write_append 1 andthen_Inr 2 3 4 5 ..
  then show ?thesis by (intro exI [of _ "?a7\<lparr>ansi_state := 0\<rparr>"]) simp
qed

lemma small_min: "(w :: u32) < 2 ^ 31 \<Longrightarrow> of_nat (min (unat w) 0x7FFFFFFF) = w"
  by (simp add: word_less_nat_alt min_def)

section \<open>Properties\<close>

text \<open>
  Printable text that fits on the line is written into the cells from the cursor on, in the current colours, and
  moves the cursor behind it; no other cell and nothing else changes.
\<close>

theorem terminal_text:
  assumes "on_screen r x t" and "x + length s \<le> unat (t_cols t)" and "ansi_state a = 0" and "\<forall>c\<in>set s. isprint c"
  shows "terminal_write s (a, t) = Inr (a, t\<lparr>t_buffer := take (r * unat (t_cols t) + x) (t_buffer t) @ map (term_cell t) s @
     drop (r * unat (t_cols t) + x + length s) (t_buffer t), csr_col := of_nat (x + length s)\<rparr>)"
  using line_on_screen [OF assms] by blast

theorem terminal_text_witness:
  "terminal_write [0x48, 0x69] (ansi_start, new_terminal 25 80) =
    Inr (ansi_start, (new_terminal 25 80)\<lparr>t_buffer := [0x748, 0x769] @ replicate 1998 0, csr_col := 2\<rparr>)"
proof -
  have t: "on_screen 0 0 (new_terminal 25 80)" by (simp add: on_screen_def new_terminal_def)
  have "term_cell (new_terminal 25 80) 0x48 = 0x748" "term_cell (new_terminal 25 80) 0x69 = 0x769" by code_simp+
  moreover have "t_buffer (new_terminal 25 80) = replicate 2000 0" by (simp add: new_terminal_def)
  ultimately show ?thesis
    using terminal_text [OF t, of "[0x48, 0x69]" ansi_start] by (simp add: new_terminal_def ansi_start_def isprint_def)
qed

text \<open>
  C32. The sequence that sets the cursor is read back exactly: two numbers, printed in decimal as the kernel prints them,
  separated by a semicolon between the introducer and the letter H, put the cursor at these coordinates, for all values of
  31 bits, and leave the interpreter ready for the next character.
\<close>

theorem cursor_roundtrip:
  assumes "n < 2 ^ 31" and "m < 2 ^ 31" and "kdbg_num2str n 10 = Inr (r, i)" and "kdbg_num2str m 10 = Inr (c, j)"
    and "ansi_state a = 0"
  shows "\<exists>a'. terminal_write ([0x1B, 0x5B] @ r @ [0x3B] @ c @ [0x48]) (a, t) = Inr (a', t\<lparr>csr_row := n, csr_col := m\<rparr>) \<and>
    ansi_state a' = 0"
  using cursor_sequence [of r c a t] number_digits_only [OF assms(3)] number_digits_only [OF assms(4)] assms(5)
    small_min [OF assms(1)] small_min [OF assms(2)] by auto

theorem cursor_roundtrip_witness:
  "\<exists>a'. terminal_write [0x1B, 0x5B, 0x31, 0x32, 0x3B, 0x37, 0x48] (ansi_start, new_terminal 25 80) =
     Inr (a', (new_terminal 25 80)\<lparr>csr_row := 12, csr_col := 7\<rparr>) \<and> ansi_state a' = 0"
proof -
  have "kdbg_num2str 12 10 = Inr ([0x31, 0x32], 2)" "kdbg_num2str 7 10 = Inr ([0x37], 1)" by code_simp+
  from cursor_roundtrip [OF _ _ this, of ansi_start "new_terminal 25 80"] show ?thesis by (simp add: ansi_start_def)
qed

lemma write_newlines:
  "ansi_state a = 0 \<Longrightarrow> terminal_write (replicate n 10) (a, t) =
    Inr (a, if n = 0 then t else t\<lparr>csr_row := csr_row t + of_nat n, csr_col := 0\<rparr>)"
  by (induction n arbitrary: t) (simp_all add: terminal_putch_def check_for_escape_def add.assoc)

text \<open>
  C39. The lower edge is not guarded: a newline always moves down, so that after as many newlines as the screen has rows the
  next printable character is written behind the end of the buffer.
\<close>

theorem newline_overrun:
  assumes "isprint ch"
  shows "terminal_write (replicate 25 10 @ [ch]) (ansi_start, new_terminal 25 80) = Inl Overrun"
proof -
  have a: "ansi_state ansi_start = 0" by (simp add: ansi_start_def)
  let ?t = "(new_terminal 25 80)\<lparr>csr_row := 25, csr_col := 0\<rparr>"
  have "terminal_write (replicate 25 10) (ansi_start, new_terminal 25 80) = Inr (ansi_start, ?t)"
    using write_newlines [OF a, of 25 "new_terminal 25 80"] by (simp add: new_terminal_def)
  moreover have "ch \<noteq> 0x1B" using assms by (auto simp: isprint_def)
  moreover have "terminal_putc ch ?t = Inl Overrun"
    by (simp add: terminal_putc_def put_cell_def csr_index_def new_terminal_def)
  ultimately show ?thesis using plain_char [OF a _ assms, of ?t] by (simp add: write_append)
qed

theorem newline_overrun_witness: "terminal_write (replicate 25 10 @ [0x41]) (ansi_start, new_terminal 25 80) = Inl Overrun"
  by (rule newline_overrun) (simp add: isprint_def)

lemma plain_write:
  "ansi_state a = 0 \<Longrightarrow> \<forall>c\<in>set s. isprint c \<Longrightarrow> terminal_write s (a, t) = andthen (bail_print s t) (\<lambda>t. Inr (a, t))"
proof (induction s arbitrary: t)
  case (Cons c s)
  have "isprint c" "c \<noteq> 0x1B" using Cons.prems(2) by (auto simp: isprint_def)
  then show ?case using plain_char [OF Cons.prems(1)] Cons.IH [OF Cons.prems(1)] Cons.prems(2)
    by (simp add: andthen_assoc)
qed simp

lemma bail_append: "bail_print (s @ r) t = andthen (bail_print s t) (bail_print r)"
proof (induction s arbitrary: t)
  case (Cons c s)
  then have "bail_print (s @ r) = (\<lambda>t. andthen (bail_print s t) (bail_print r))" by (intro ext)
  then show ?case by (simp add: andthen_assoc)
qed simp

text \<open>
  A sequence with the wrong number of arguments is not finished: its text is shown, but the interpreter stays inside the
  sequence, so that the text is shown a second time, with the next character behind it.
\<close>

theorem malformed_shown_twice:
  assumes "on_screen row x t" and "x + 2 * length r + 5 \<le> unat (t_cols t)" and "digits_only r" and "r \<noteq> []" and "length r \<le> 100"
    and "isprint c" and "ansi_escape_char c = NotPart" and "ansi_state a = 0"
  shows "\<exists>a'. terminal_write ([0x1B, 0x5B] @ r @ [0x48, c]) (a, t) =
    andthen (terminal_write ([0x5B] @ r @ [0x48] @ [0x5B] @ r @ [0x48, c]) (a, t)) (\<lambda>(_, t). Inr (a', t)) \<and> ansi_state a' = 0 \<and>
    (\<exists>t'. terminal_write ([0x5B] @ r @ [0x48] @ [0x5B] @ r @ [0x48, c]) (a, t) = Inr (a, t'))"
proof -
  let ?s = "0x5B # r @ [0x48]"
  have pr: "\<forall>c\<in>set r. isprint c" using assms(3)
    by (auto simp: digits_only_def isprint_def word_le_nat_alt word_less_nat_alt)
  have prs: "\<forall>d\<in>set ([0x5B] @ r @ [0x48] @ [0x5B] @ r @ [0x48, c]). isprint d" using pr assms(6) by (auto simp: isprint_def)
  obtain t' where t': "terminal_write ([0x5B] @ r @ [0x48] @ [0x5B] @ r @ [0x48, c]) (a, t) = Inr (a, t')"
    using line_on_screen [OF assms(1) _ assms(8) prs] assms(2) by auto
  then have "bail_print ([0x5B] @ r @ [0x48] @ [0x5B] @ r @ [0x48, c]) t = Inr t'"
    using t' unfolding plain_write [OF assms(8) prs] andthen_eq_Inr sum.inject prod.inject by blast
  then have "andthen (bail_print ?s t) (bail_print (?s @ [c])) = Inr t'"
    using bail_append [of ?s "?s @ [c]" t] by simp
  then obtain t1 where t1: "bail_print ?s t = Inr t1" "bail_print (?s @ [c]) t1 = Inr t'" by (auto simp: andthen_eq_Inr)
  let ?a2 = "a\<lparr>ansi_state := 2, ansi_buffer := [0x5B], ansi_bufp := 1, ansi_args := replicate 16 0, ansi_argp := 0\<rparr>"
  let ?a3 = "?a2\<lparr>ansi_buffer := 0x5B # r\<rparr>"
  let ?a4 = "?a2\<lparr>ansi_buffer := ?s, ansi_args := (replicate 16 0)[0 := of_nat (min (number 10 r) 0x7FFFFFFF)], ansi_argp := 1,
    ansi_bufp := length r + 2\<rparr>"
  have 1: "terminal_write [0x1B, 0x5B] (a, t) = Inr (?a2, t)"
    using assms(8) by (simp add: terminal_putch_def check_for_escape_def)
  have 2: "terminal_write r (?a2, t) = Inr (?a3, t)" using write_digits [OF assms(3), of ?a2 t] assms(5) by simp
  have "save_arg (?a2\<lparr>ansi_buffer := ?s\<rparr>) = Inr ?a4"
    using save_arg_digits [OF assms(3), of "0x48" "?a2\<lparr>ansi_buffer := ?s\<rparr>" "[0x5B]"] by simp
  moreover have "length (unread (?a2\<lparr>ansi_buffer := ?s\<rparr>)) > 1" using assms(4) by (cases r) (simp_all add: unread_def)
  moreover have "ansi_function 0x48 ?a4 t = Inr None"
    by (simp add: ansi_function_def count_saved_args_def Let_def)
  ultimately have 3: "terminal_write [0x48] (?a3, t) = Inr (?a4, t1)"
    using assms(5) t1(1) by (simp add: terminal_putch_def check_for_escape_def save_char_def ansi_escape_char_def)
  have "c \<noteq> 0" using assms(6) by (auto simp: isprint_def)
  then have 4: "terminal_write [c] (?a4, t1) = Inr (?a4\<lparr>ansi_state := 0, ansi_buffer := ?s @ [c]\<rparr>, t')"
    using assms(5,7) t1(2) by (simp add: terminal_putch_def check_for_escape_def save_char_def)
  have "terminal_write ([0x1B, 0x5B] @ r @ [0x48] @ [c]) (a, t) = Inr (?a4\<lparr>ansi_state := 0, ansi_buffer := ?s @ [c]\<rparr>, t')"
    unfolding write_append 1 andthen_Inr 2 3 4 ..
  then show ?thesis using t' by (intro exI [of _ "?a4\<lparr>ansi_state := 0, ansi_buffer := ?s @ [c]\<rparr>"]) simp
qed

theorem malformed_shown_twice_witness:
  "\<exists>a' t'. terminal_write [0x1B, 0x5B, 0x35, 0x48, 0x78] (ansi_start, new_terminal 25 80) = Inr (a', t') \<and>
     terminal_write [0x5B, 0x35, 0x48, 0x5B, 0x35, 0x48, 0x78] (ansi_start, new_terminal 25 80) = Inr (ansi_start, t')"
proof -
  have t: "on_screen 0 0 (new_terminal 25 80)" by (simp add: on_screen_def new_terminal_def)
  have "ansi_state ansi_start = 0" by (simp add: ansi_start_def)
  moreover have "ansi_escape_char 0x78 = NotPart" by (simp add: ansi_escape_char_def)
  moreover have "unat (t_cols (new_terminal 25 80)) = 80" by (simp add: new_terminal_def)
  ultimately show ?thesis
    using malformed_shown_twice [OF t, of "[0x35]" "0x78" ansi_start]
      line_on_screen [OF t, of "[0x5B, 0x35, 0x48, 0x5B, 0x35, 0x48, 0x78]" ansi_start]
    by (simp add: digits_only_def isprint_def del: terminal_write.simps) (metis andthen_Inr case_prod_conv)
qed

section \<open>Two keyboard decoders\<close>

fun decode_all :: "(u8 \<Rightarrow> 's \<Rightarrow> u8 \<times> 's) \<Rightarrow> u8 list \<Rightarrow> 's \<Rightarrow> u8 list" where
  "decode_all f [] st = []"
| "decode_all f (c # cs) st = (let (d, st) = f c st in d # decode_all f cs st)"

text \<open>The keys on which they differ: the Alt key and the keypad.\<close>

definition apart :: "u8 list" where
  "apart = [0x38, 0x47, 0x48, 0x49, 0x4B, 0x4C, 0x4D, 0x4F, 0x50, 0x51, 0x52, 0x53]"

lemma tables_agree:
  "\<forall>(n, x, y)\<in>set (zip [0..<128] (zip kbd_map term_kbd_map)). of_nat n \<in> set apart \<or> x = (if y = -1 then 0 else word_of_int y)"
  "\<forall>(n, x, y, z)\<in>set (zip [0..<128] (zip kbd_mapS (zip term_kbd_map term_kbd_mapS))). of_nat n \<in> set apart \<or>
     x = (if y = -1 then 0 else word_of_int z)"
  by code_simp+

lemma control_keys: "kbd_map ! 0x1D = 0" "kbd_map ! 0x3A = 0" "kbd_mapS ! 0x1D = 0" "kbd_mapS ! 0x3A = 0"
  by code_simp+

lemma table_lengths: "length kbd_map = 128" "length kbd_mapS = 128" "length term_kbd_map = 128" "length term_kbd_mapS = 128"
  by (simp_all add: kbd_map_def kbd_mapS_def term_kbd_map_def term_kbd_mapS_def)

lemma table_entries:
  assumes "unat c < 128" "c \<notin> set apart"
  shows "kbd_map ! unat c = (if term_kbd_map ! unat c = -1 then 0 else word_of_int (term_kbd_map ! unat c))"
    "kbd_mapS ! unat c = (if term_kbd_map ! unat c = -1 then 0 else word_of_int (term_kbd_mapS ! unat c))"
proof -
  have "(unat c, kbd_map ! unat c, term_kbd_map ! unat c) \<in> set (zip [0..<128] (zip kbd_map term_kbd_map))"
    "(unat c, kbd_mapS ! unat c, term_kbd_map ! unat c, term_kbd_mapS ! unat c) \<in>
       set (zip [0..<128] (zip kbd_mapS (zip term_kbd_map term_kbd_mapS)))"
    using assms(1) by (auto simp: set_zip table_lengths intro!: exI [of _ "unat c"])
  then show "kbd_map ! unat c = (if term_kbd_map ! unat c = -1 then 0 else word_of_int (term_kbd_map ! unat c))"
    "kbd_mapS ! unat c = (if term_kbd_map ! unat c = -1 then 0 else word_of_int (term_kbd_mapS ! unat c))"
    using tables_agree assms(2) by fastforce+
qed

lemma pressed_code: "(c :: u8) AND 0x80 = 0 \<Longrightarrow> c AND 0x7F = c \<and> unat c < 128"
proof -
  assume h: "c AND 0x80 = 0"
  have "(0x80 :: u8) = push_bit 7 1" "(0x7F :: u8) = mask 7" by (simp_all add: mask_eq_exp_minus_1)
  then have m: "c AND push_bit 7 1 = 0" "c AND 0x7F = c AND mask 7" using h by simp_all
  have "bit c i \<longleftrightarrow> bit c i \<and> i < 7" if "i < 8" for i
  proof (cases "i = 7")
    case True
    have "\<not> bit (c AND push_bit 7 1) 7" using m(1) by simp
    then show ?thesis using True by (simp add: bit_simps)
  qed (use that in auto)
  then have e: "c AND 0x7F = c" unfolding m(2) by (intro bit_word_eqI) (auto simp: bit_simps)
  have "c AND 0x7F \<le> 0x7F" by (rule word_and_le1)
  then show ?thesis using e by (simp add: word_le_nat_alt)
qed

lemma same_key:
  assumes c: "c \<notin> set apart" and d: "keyboard_decode c (if kbd_shift k then 1 else 0) = (d, st)"
    and k': "term_keyboard_decode c k = (d', k')"
  shows "d = d' \<and> st = (if kbd_shift k' then 1 else 0)"
proof (cases "c AND 0x80 = 0")
  case False
  then show ?thesis using d k'
    by (auto simp: keyboard_decode_def term_keyboard_decode_def Let_def SCANCODE_CAPSLOCK_def SCANCODE_CTRL_def
        SCANCODE_ALT_def SCANCODE_LSHIFT_def SCANCODE_RSHIFT_def split: if_splits)
next
  case True
  have e: "c AND 0x7F = c" "unat c < 128" using pressed_code [OF True] by auto
  note t = table_entries [OF e(2) c]
  have "c \<noteq> 0x38" using c by (auto simp: apart_def)
  then show ?thesis using d k' True
    unfolding keyboard_decode_def term_keyboard_decode_def Let_def e(1) SCANCODE_CAPSLOCK_def SCANCODE_CTRL_def
        SCANCODE_ALT_def SCANCODE_LSHIFT_def SCANCODE_RSHIFT_def
    using t by (cases "c = 0x1D \<or> c = 0x3A") (auto simp: control_keys split: if_splits)
qed

text \<open>
  C34. The terminal's keyboard decoder and the kernel's give the same characters for every sequence of key presses and
  releases without the Alt key and the keypad, with any use of shift, control and caps lock in between.
\<close>

theorem decoders_agree:
  assumes "\<forall>c\<in>set cs. c \<notin> set apart"
  shows "decode_all keyboard_decode cs 0 = decode_all term_keyboard_decode cs term_keyboard_init"
proof -
  have "decode_all keyboard_decode cs (if kbd_shift k then 1 else 0) = decode_all term_keyboard_decode cs k" for k
    using assms
  proof (induction cs arbitrary: k)
    case (Cons c cs)
    obtain d st where d: "keyboard_decode c (if kbd_shift k then 1 else 0) = (d, st)" by fastforce
    obtain d' k' where k': "term_keyboard_decode c k = (d', k')" by fastforce
    have "d = d'" "st = (if kbd_shift k' then 1 else 0)"
      using same_key [OF _ d k'] Cons.prems by auto
    then show ?case using Cons d k' by simp
  qed simp
  from this [of term_keyboard_init] show ?thesis by (simp add: term_keyboard_init_def)
qed

theorem decoders_agree_witness:
  "decode_all keyboard_decode [0x2A, 0x23, 0xAA, 0x17] 0 = decode_all term_keyboard_decode [0x2A, 0x23, 0xAA, 0x17] term_keyboard_init"
  by (rule decoders_agree) (simp add: apart_def)

end
