(* ===== verification/Libc.thy ===== *)
theory Libc imports Syscalls begin

text \<open>
  The C library's side of the system calls: the stubs (\<^verbatim>\<open>toolchain/myos/syscall.S\<close>,
  \<^verbatim>\<open>toolchain/myos/include/syscalls.h\<close>), the functions programs call (\<^verbatim>\<open>toolchain/myos/syscalls.c\<close>) and
  directories (\<^verbatim>\<open>toolchain/myos/dirent.c\<close>). Arguments are words, pointers are user addresses.
\<close>

section \<open>The stubs\<close>

definition SYSCALL_EXIT :: u32 where "SYSCALL_EXIT = 0x1"
definition SYSCALL_CLOSE :: u32 where "SYSCALL_CLOSE = 0x2"
definition SYSCALL_EXECVE :: u32 where "SYSCALL_EXECVE = 0x3"
definition SYSCALL_FORK :: u32 where "SYSCALL_FORK = 0x4"
definition SYSCALL_FSTAT :: u32 where "SYSCALL_FSTAT = 0x5"
definition SYSCALL_GETPID :: u32 where "SYSCALL_GETPID = 0x6"
definition SYSCALL_ISATTY :: u32 where "SYSCALL_ISATTY = 0x7"
definition SYSCALL_KILL :: u32 where "SYSCALL_KILL = 0x8"
definition SYSCALL_LINK :: u32 where "SYSCALL_LINK = 0x9"
definition SYSCALL_LSEEK :: u32 where "SYSCALL_LSEEK = 0xA"
definition SYSCALL_OPEN :: u32 where "SYSCALL_OPEN = 0xB"
definition SYSCALL_READ :: u32 where "SYSCALL_READ = 0xC"
definition SYSCALL_SBRK :: u32 where "SYSCALL_SBRK = 0xD"
definition SYSCALL_STAT :: u32 where "SYSCALL_STAT = 0xE"
definition SYSCALL_TIMES :: u32 where "SYSCALL_TIMES = 0xF"
definition SYSCALL_UNLINK :: u32 where "SYSCALL_UNLINK = 0x10"
definition SYSCALL_WAIT :: u32 where "SYSCALL_WAIT = 0x11"
definition SYSCALL_WRITE :: u32 where "SYSCALL_WRITE = 0x12"
definition SYSCALL_WAITPID :: u32 where "SYSCALL_WAITPID = 0x13"
definition SYSCALL_YIELD :: u32 where "SYSCALL_YIELD = 0x14"
definition SYSCALL_SIGNAL :: u32 where "SYSCALL_SIGNAL = 0x15"
definition SYSCALL_READDIR :: u32 where "SYSCALL_READDIR = 0x16"
definition SYSCALL_DUP :: u32 where "SYSCALL_DUP = 0x17"
definition SYSCALL_DUP2 :: u32 where "SYSCALL_DUP2 = 0x18"
definition SYSCALL_PIPE :: u32 where "SYSCALL_PIPE = 0x19"
definition SYSCALL_THREAD :: u32 where "SYSCALL_THREAD = 0x1A"
definition SYSCALL_PDBG :: u32 where "SYSCALL_PDBG = 0xF0"
definition SYSCALL_VIDMEM :: u32 where "SYSCALL_VIDMEM = 0xF2"

record libc =
  lkern :: kernel
  syscall_errno :: u32
  c_errno :: u32
  environ :: u32

text \<open>
  Where a call leaves the processor: back in the function that made the call, in the kernel with the caller asleep, or in
  user code elsewhere (\<open>Away t\<close>: thread \<open>t\<close> runs a signal handler, or the caller has become another program).
\<close>

datatype 'a called = Back 'a | Asleep "u8 list" | Away nat

definition andback :: "('a called \<times> 's) res \<Rightarrow> ('a \<Rightarrow> 's \<Rightarrow> ('b called \<times> 's) res) \<Rightarrow> ('b called \<times> 's) res" where
  "andback r f =
     andthen r (\<lambda>(out, s). case out of Back v \<Rightarrow> f v s | Asleep w \<Rightarrow> Inr (Asleep w, s) | Away t \<Rightarrow> Inr (Away t, s))"

text \<open>
  A call of a stub: the caller has pushed the arguments and the return address, the stub loads the number and traps, then
  stores \<open>edx\<close>. The arguments are stored as the kernel stores user memory; the stack pointer is back in place after the
  return. The stub goes on when its thread comes back to the instruction behind the trap.
\<close>

definition push_args :: "u32 list \<Rightarrow> kernel \<Rightarrow> kernel res" where
  "push_args args k =
     andthen (thread_of (current k) k) (\<lambda>t.
     let sp = r_useresp (regs t) - 4 * of_nat (length args) in
     andthen (put_user sp (concat (map word_bytes args)) k) (\<lambda>k. set_regs (\<lambda>r. r\<lparr>r_useresp := sp - 4\<rparr>) k))"

definition stub :: "environment \<Rightarrow> u32 \<Rightarrow> u32 list \<Rightarrow> libc \<Rightarrow> (u32 called \<times> libc) res" where
  "stub e num args s =
     andthen (push_args args (lkern s)) (\<lambda>k.
     andthen (set_regs (\<lambda>r. r\<lparr>r_eax := num\<rparr>) k) (\<lambda>k.
     andthen (thread_of (current k) k) (\<lambda>v0.
     let t0 = current k in
     andthen (system_call e k) (\<lambda>(out, k).
     case out of
       Sleeps w \<Rightarrow> Inr (Asleep w, s\<lparr>lkern := k\<rparr>)
     | Returns t \<Rightarrow>
        andthen (thread_of t k) (\<lambda>v.
        if t \<noteq> t0 \<or> r_eip (regs v) \<noteq> r_eip (regs v0) then Inr (Away t, s\<lparr>lkern := k\<rparr>)
        else
        andthen (upd_thread t (\<lambda>v. v\<lparr>regs := (regs v)\<lparr>r_useresp := r_useresp (regs v) + 4 + 4 * of_nat (length args)\<rparr>\<rparr>) k) (\<lambda>k.
        Inr (Back (r_eax (regs v)), s\<lparr>lkern := k, syscall_errno := r_edx (regs v)\<rparr>)))))))"

section \<open>The functions\<close>

text \<open>Every function calls its stub and copies \<open>syscall_errno\<close> to \<open>errno\<close>.\<close>

definition with_errno :: "(u32 called \<times> libc) res \<Rightarrow> (u32 called \<times> libc) res" where
  "with_errno r = andback r (\<lambda>ret s. Inr (Back ret, s\<lparr>c_errno := syscall_errno s\<rparr>))"

definition libc_exit :: "environment \<Rightarrow> u32 \<Rightarrow> libc \<Rightarrow> (u32 called \<times> libc) res" where
  "libc_exit e rc s =
     andback (stub e SYSCALL_EXIT [rc] s) (\<lambda>_ _. Inl Hang)"

text \<open>
  \<open>_init\<close>: \<open>main\<close> gets the arguments \<open>execve\<close> has left on the stack, and its result is the exit code; \<open>no_env\<close> is the
  address of \<open>__env\<close>.
\<close>

definition libc_init :: "environment \<Rightarrow> u32 \<Rightarrow> (u32 \<Rightarrow> u32 \<Rightarrow> libc \<Rightarrow> (u32 called \<times> libc) res) \<Rightarrow> u32 \<Rightarrow> libc \<Rightarrow> (u32 called \<times> libc) res" where
  "libc_init e no_env main args s =
     andthen
       (if args \<noteq> 0
        then andthen (get_user_word args (lkern s)) (\<lambda>(argc, k).
             andthen (get_user_word (args + 4) k) (\<lambda>(argv, k).
             andthen (get_user_word (args + 8) k) (\<lambda>(env, k). Inr (argc, argv, s\<lparr>lkern := k, environ := env\<rparr>))))
        else Inr (0, 0, s\<lparr>environ := no_env\<rparr>)) (\<lambda>(argc, argv, s).
     andback (main argc argv s) (libc_exit e))"

definition libc_close :: "environment \<Rightarrow> u32 \<Rightarrow> libc \<Rightarrow> (u32 called \<times> libc) res" where
  "libc_close e fildes s = with_errno (stub e SYSCALL_CLOSE [fildes] s)"

definition libc_execve :: "environment \<Rightarrow> u32 \<Rightarrow> u32 \<Rightarrow> u32 \<Rightarrow> libc \<Rightarrow> (u32 called \<times> libc) res" where
  "libc_execve e path argv env s = with_errno (stub e SYSCALL_EXECVE [path, argv, env] s)"

definition libc_fork :: "environment \<Rightarrow> libc \<Rightarrow> (u32 called \<times> libc) res" where
  "libc_fork e s = with_errno (stub e SYSCALL_FORK [] s)"

definition libc_fstat :: "environment \<Rightarrow> u32 \<Rightarrow> u32 \<Rightarrow> libc \<Rightarrow> (u32 called \<times> libc) res" where
  "libc_fstat e fildes st s = with_errno (stub e SYSCALL_FSTAT [fildes, st] s)"

definition libc_getpid :: "environment \<Rightarrow> libc \<Rightarrow> (u32 called \<times> libc) res" where
  "libc_getpid e s = with_errno (stub e SYSCALL_GETPID [] s)"

definition libc_isatty :: "environment \<Rightarrow> u32 \<Rightarrow> libc \<Rightarrow> (u32 called \<times> libc) res" where
  "libc_isatty e fildes s = with_errno (stub e SYSCALL_ISATTY [fildes] s)"

definition libc_kill :: "environment \<Rightarrow> u32 \<Rightarrow> u32 \<Rightarrow> libc \<Rightarrow> (u32 called \<times> libc) res" where
  "libc_kill e n signum s = with_errno (stub e SYSCALL_KILL [n, signum] s)"

definition libc_link :: "environment \<Rightarrow> u32 \<Rightarrow> u32 \<Rightarrow> libc \<Rightarrow> (u32 called \<times> libc) res" where
  "libc_link e old new s = with_errno (stub e SYSCALL_LINK [old, new] s)"

definition libc_lseek :: "environment \<Rightarrow> u32 \<Rightarrow> u32 \<Rightarrow> u32 \<Rightarrow> libc \<Rightarrow> (u32 called \<times> libc) res" where
  "libc_lseek e fildes ptr dir s = with_errno (stub e SYSCALL_LSEEK [fildes, ptr, dir] s)"

definition libc_open :: "environment \<Rightarrow> u32 \<Rightarrow> u32 \<Rightarrow> libc \<Rightarrow> (u32 called \<times> libc) res" where
  "libc_open e path fl s = with_errno (stub e SYSCALL_OPEN [path, fl, 0] s)"

definition libc_read :: "environment \<Rightarrow> u32 \<Rightarrow> u32 \<Rightarrow> u32 \<Rightarrow> libc \<Rightarrow> (u32 called \<times> libc) res" where
  "libc_read e fildes ptr len s = with_errno (stub e SYSCALL_READ [fildes, ptr, len] s)"

definition libc_sbrk :: "environment \<Rightarrow> u32 \<Rightarrow> libc \<Rightarrow> (u32 called \<times> libc) res" where
  "libc_sbrk e incr s = with_errno (stub e SYSCALL_SBRK [incr] s)"

definition libc_stat :: "environment \<Rightarrow> u32 \<Rightarrow> u32 \<Rightarrow> libc \<Rightarrow> (u32 called \<times> libc) res" where
  "libc_stat e path st s = with_errno (stub e SYSCALL_STAT [path, st] s)"

definition libc_times :: "environment \<Rightarrow> u32 \<Rightarrow> libc \<Rightarrow> (u32 called \<times> libc) res" where
  "libc_times e buf s = with_errno (stub e SYSCALL_TIMES [buf] s)"

definition libc_unlink :: "environment \<Rightarrow> u32 \<Rightarrow> libc \<Rightarrow> (u32 called \<times> libc) res" where
  "libc_unlink e path s = with_errno (stub e SYSCALL_UNLINK [path] s)"

definition libc_wait :: "environment \<Rightarrow> u32 \<Rightarrow> libc \<Rightarrow> (u32 called \<times> libc) res" where
  "libc_wait e status s = with_errno (stub e SYSCALL_WAIT [status] s)"

text \<open>\<open>write\<close> first puts a zero byte behind the caller's buffer.\<close>

definition libc_write :: "environment \<Rightarrow> u32 \<Rightarrow> u32 \<Rightarrow> u32 \<Rightarrow> libc \<Rightarrow> (u32 called \<times> libc) res" where
  "libc_write e fildes ptr len s =
     andthen (put_user_byte (ptr + len) 0 (lkern s)) (\<lambda>k.
     with_errno (stub e SYSCALL_WRITE [fildes, ptr, len] (s\<lparr>lkern := k\<rparr>)))"

definition libc_signal :: "environment \<Rightarrow> u32 \<Rightarrow> u32 \<Rightarrow> libc \<Rightarrow> (u32 called \<times> libc) res" where
  "libc_signal e signum hn s = with_errno (stub e SYSCALL_SIGNAL [signum, hn] s)"

definition libc_dup :: "environment \<Rightarrow> u32 \<Rightarrow> libc \<Rightarrow> (u32 called \<times> libc) res" where
  "libc_dup e fildes s = with_errno (stub e SYSCALL_DUP [fildes] s)"

definition libc_dup2 :: "environment \<Rightarrow> u32 \<Rightarrow> u32 \<Rightarrow> libc \<Rightarrow> (u32 called \<times> libc) res" where
  "libc_dup2 e fildes1 fildes2 s = with_errno (stub e SYSCALL_DUP2 [fildes1, fildes2] s)"

definition libc_pipe :: "environment \<Rightarrow> u32 \<Rightarrow> libc \<Rightarrow> (u32 called \<times> libc) res" where
  "libc_pipe e fildes s = with_errno (stub e SYSCALL_PIPE [fildes] s)"

section \<open>Programs on the path\<close>

text \<open>
  \<open>execvp\<close>: \<open>exec\<close> is \<open>execve\<close> with the arguments and the environment of the call; it comes back only if it fails, and
  then with a result that is not looked at. The buffer for the full name has \<open>usable n\<close> bytes where \<open>n\<close> are asked for, one too few.
\<close>

fun search_path :: "(nat \<Rightarrow> nat) \<Rightarrow> (string \<Rightarrow> 's \<Rightarrow> (u32 called \<times> 's) res) \<Rightarrow> string list \<Rightarrow> string \<Rightarrow> 's \<Rightarrow>
    (u32 called \<times> 's) res" where
  "search_path usable exec [] file s = Inr (Back (-1), s)"
| "search_path usable exec (p # ps) file s =
     (if length p + length file + 2 > usable (length p + length file + 1) then Inl Overrun
      else andback (exec (p @ ''/'' @ file) s) (\<lambda>_. search_path usable exec ps file))"

text \<open>\<open>strdup\<close> of a null pointer faults, so that the default path is never used.\<close>

definition execvp :: "(nat \<Rightarrow> nat) \<Rightarrow> (string \<Rightarrow> 's \<Rightarrow> (u32 called \<times> 's) res) \<Rightarrow> (string \<Rightarrow> string option) \<Rightarrow> string \<Rightarrow> 's \<Rightarrow>
    (u32 called \<times> 's) res" where
  "execvp usable exec getenv file s =
     (if CHR ''/'' \<notin> set file
      then andthen (deref (getenv ''PATH'')) (\<lambda>path. search_path usable exec (strtok_all CHR '':'' path) file s)
      else andback (exec file s) (\<lambda>_ s. Inr (Back (-1), s)))"

section \<open>Directories\<close>

record DIR =
  dir_fd :: u32
  cur_entry :: u32

text \<open>The stream that \<open>opendir\<close> allocates is a record, handed from call to call.\<close>

definition opendir :: "environment \<Rightarrow> u32 \<Rightarrow> libc \<Rightarrow> (DIR option called \<times> libc) res" where
  "opendir e dirname s =
     andback (libc_open e dirname 0 s) (\<lambda>n s.
     Inr (Back (if n = -1 then None else Some \<lparr>dir_fd = n, cur_entry = -1\<rparr>), s))"

definition closedir :: "environment \<Rightarrow> DIR \<Rightarrow> libc \<Rightarrow> (u32 called \<times> libc) res" where
  "closedir e d s = (if dir_fd d \<noteq> 0 then libc_close e (dir_fd d) s else Inr (Back (-1), s))"

text \<open>The entry lies at \<open>de\<close>; it is cleared when there is none.\<close>

definition readdir :: "environment \<Rightarrow> u32 \<Rightarrow> DIR \<Rightarrow> libc \<Rightarrow> ((u32 \<times> DIR) called \<times> libc) res" where
  "readdir e de d s =
     (let d = d\<lparr>cur_entry := cur_entry d + 1\<rparr> in
      andback (stub e SYSCALL_READDIR [dir_fd d, cur_entry d, de] s) (\<lambda>ret s.
      if ret \<noteq> 0
      then andthen (put_user de (replicate 260 0) (lkern s)) (\<lambda>k. Inr (Back (0, d), s\<lparr>lkern := k\<rparr>))
      else Inr (Back (de, d), s)))"

definition dirfd :: "DIR \<Rightarrow> u32" where "dirfd d = dir_fd d"
definition rewinddir :: "DIR \<Rightarrow> DIR" where "rewinddir d = d\<lparr>cur_entry := -1\<rparr>"
definition seekdir :: "DIR \<Rightarrow> u32 \<Rightarrow> DIR" where "seekdir d pos = d\<lparr>cur_entry := pos\<rparr>"
definition telldir :: "DIR \<Rightarrow> u32" where "telldir d = cur_entry d"

end
