(* ===== verification/TerminalMain.thy ===== *)
theory TerminalMain imports Terminal Libc begin

text \<open>
  The terminal program as a process: the start of a terminal (\<open>terminal_init\<close>), the loop of \<open>main\<close> for the keys and the
  loop of a terminal's thread for the output of its program. Its memory that other parts do not see is kept in records; what
  the kernel writes to, it finds at the addresses of \<open>layout\<close>.
\<close>

record memory_layout =
  read_fd_at :: "u32 \<Rightarrow> u32"
  write_fd_at :: "u32 \<Rightarrow> u32"
  stack_at :: "u32 \<Rightarrow> u32"
  handler_at :: u32
  char_at :: u32

record screen =
  vterm :: "u32 \<Rightarrow> terminal option"
  active_vterm :: u32
  interp :: ansi
  keys :: kbd
  vid_addr :: u32
  video :: "u16 list"
  ports :: "(u16 \<times> u8) list"
  scr_libc :: libc

definition on_scr :: "(libc \<Rightarrow> ('a called \<times> libc) res) \<Rightarrow> screen \<Rightarrow> ('a called \<times> screen) res" where
  "on_scr f s = andthen (f (scr_libc s)) (\<lambda>(out, l). Inr (out, s\<lparr>scr_libc := l\<rparr>))"

definition set_term :: "u32 \<Rightarrow> (terminal \<Rightarrow> terminal) \<Rightarrow> screen \<Rightarrow> screen" where
  "set_term n f s = s\<lparr>vterm := (vterm s)(n := map_option f (vterm s n))\<rparr>"

section \<open>Terminals\<close>

definition screen_init :: "environment \<Rightarrow> screen \<Rightarrow> (unit called \<times> screen) res" where
  "screen_init e s = andback (on_scr (stub e SYSCALL_VIDMEM []) s) (\<lambda>v s. Inr (Back (), s\<lparr>vid_addr := v\<rparr>))"

text \<open>\<open>pipe\<close> into an array of two numbers.\<close>

definition pipe_pair :: "environment \<Rightarrow> u32 \<Rightarrow> libc \<Rightarrow> ((u32 \<times> u32) called \<times> libc) res" where
  "pipe_pair e va l =
     andback (libc_pipe e va l) (\<lambda>_ l.
     andthen (get_user_word va (lkern l)) (\<lambda>(a, k).
     andthen (get_user_word (va + 4) k) (\<lambda>(b, k). Inr (Back (a, b), l\<lparr>lkern := k\<rparr>))))"

text \<open>
  The program of a new terminal: the child gives its standard files to the pipes and runs the command; \<open>run\<close> is \<open>execvp\<close>
  on it. \<open>rd\<close> is the reading end of the first pipe, \<open>wr\<close> the writing end of the second.
\<close>

definition start_program :: "environment \<Rightarrow> (libc \<Rightarrow> (u32 called \<times> libc) res) \<Rightarrow> u32 \<Rightarrow> u32 \<Rightarrow> libc \<Rightarrow> (u32 called \<times> libc) res" where
  "start_program e run rd wr l =
     andback (libc_dup2 e rd 0 l) (\<lambda>_ l.
     andback (libc_dup2 e wr 1 l) (\<lambda>_ l.
     andback (libc_dup2 e wr 2 l) (\<lambda>_ l.
     andback (run l) (\<lambda>_ l. libc_exit e 1 l))))"

definition terminal_init :: "environment \<Rightarrow> memory_layout \<Rightarrow> (libc \<Rightarrow> (u32 called \<times> libc) res) \<Rightarrow> u32 \<Rightarrow> u32 \<Rightarrow> u32 \<Rightarrow> screen \<Rightarrow>
    (unit called \<times> screen) res" where
  "terminal_init e m run num rows cols s =
     (let s = s\<lparr>vterm := (vterm s)(num \<mapsto> new_terminal rows cols)\<rparr> in
      andback (on_scr (pipe_pair e (read_fd_at m num)) s) (\<lambda>r s.
      let s = set_term num (\<lambda>t. t\<lparr>read_fd := r\<rparr>) s in
      andback (on_scr (pipe_pair e (write_fd_at m num)) s) (\<lambda>w s.
      let s = set_term num (\<lambda>t. t\<lparr>write_fd := w\<rparr>) s in
      andback (on_scr (stub e SYSCALL_THREAD [stack_at m num + 1280, handler_at m, num]) s) (\<lambda>_ s.
      andback (on_scr (libc_fork e) s) (\<lambda>n s.
      let s = set_term num (\<lambda>t. t\<lparr>t_pid := n\<rparr>) s in
      if n = 0 then andback (on_scr (start_program e run (fst r) (snd w)) s) (\<lambda>_ s. Inr (Back (), s))
      else Inr (Back (), s))))))"

definition show_vterm :: "u32 \<Rightarrow> screen \<Rightarrow> screen res" where
  "show_vterm n s =
     (case vterm s n of
        None \<Rightarrow> Inr s
      | Some t \<Rightarrow> andthen (copybuffer t (video s)) (\<lambda>(vid, os). Inr (s\<lparr>video := vid, ports := ports s @ os\<rparr>)))"

definition switch_vterm :: "environment \<Rightarrow> memory_layout \<Rightarrow> (libc \<Rightarrow> (u32 called \<times> libc) res) \<Rightarrow> u32 \<Rightarrow> screen \<Rightarrow> (unit called \<times> screen) res" where
  "switch_vterm e m run num s =
     (if num <s 0 \<or> 4 <s num then Inr (Back (), s)
      else
       andback (if vterm s num = None then terminal_init e m run num 25 80 s else Inr (Back (), s)) (\<lambda>_ s.
       andthen (show_vterm num (s\<lparr>active_vterm := num\<rparr>)) (\<lambda>s. Inr (Back (), s))))"

section \<open>The loops\<close>

text \<open>The start of \<open>main\<close>, and the echo of a character.\<close>

definition main_start :: "environment \<Rightarrow> memory_layout \<Rightarrow> (libc \<Rightarrow> (u32 called \<times> libc) res) \<Rightarrow> screen \<Rightarrow> (unit called \<times> screen) res" where
  "main_start e m run s = andback (screen_init e s) (\<lambda>_ s. switch_vterm e m run 0 (s\<lparr>keys := term_keyboard_init\<rparr>))"

definition put_active :: "u8 \<Rightarrow> screen \<Rightarrow> screen res" where
  "put_active c s =
     (case vterm s (active_vterm s) of
        None \<Rightarrow> Inr s
      | Some t \<Rightarrow> andthen (terminal_putch c (interp s, t)) (\<lambda>(a, t).
                 Inr (s\<lparr>interp := a, vterm := (vterm s)(active_vterm s \<mapsto> t)\<rparr>)))"

text \<open>\<open>write\<close> of the character to the program of a terminal, from the variable at \<open>char_at\<close>.\<close>

definition feed :: "environment \<Rightarrow> u32 \<Rightarrow> u32 \<Rightarrow> u8 \<Rightarrow> libc \<Rightarrow> (u32 called \<times> libc) res" where
  "feed e fildes va d l =
     andthen (put_user_byte va d (lkern l)) (\<lambda>k. libc_write e fildes va 1 (l\<lparr>lkern := k\<rparr>))"

text \<open>One round of the loop of \<open>main\<close>, with the scancode read.\<close>

definition main_step :: "environment \<Rightarrow> memory_layout \<Rightarrow> (libc \<Rightarrow> (u32 called \<times> libc) res) \<Rightarrow> u8 \<Rightarrow> screen \<Rightarrow> (unit called \<times> screen) res" where
  "main_step e m run c s =
     (let (d, k) = term_keyboard_decode c (keys s); s = s\<lparr>keys := k\<rparr> in
      if kbd_ctrl k \<and> 0x31 \<le> d \<and> d \<le> 0x34 then switch_vterm e m run (ucast (d - 0x31)) s
      else if kbd_ctrl k \<and> d = 0x63
      then andthen (deref (vterm s (active_vterm s))) (\<lambda>t.
           andback (on_scr (libc_kill e (t_pid t) 2) s) (\<lambda>_ s. Inr (Back (), s)))
      else if d \<noteq> 0
      then andthen (put_active d s) (\<lambda>s.
           andthen (show_vterm (active_vterm s) s) (\<lambda>s.
           andthen (deref (vterm s (active_vterm s))) (\<lambda>t.
           andback (on_scr (feed e (snd (read_fd t)) (char_at m) d) s) (\<lambda>_ s. Inr (Back (), s)))))
      else Inr (Back (), s))"

text \<open>
  \<open>terminal_output_handler\<close>: one byte of the output of the program on a terminal. All terminals share one interpreter of
  control sequences.
\<close>

definition output_step :: "u32 \<Rightarrow> u8 \<Rightarrow> screen \<Rightarrow> screen res" where
  "output_step n c s =
     andthen (deref (vterm s n)) (\<lambda>t.
     andthen (terminal_putch c (interp s, t)) (\<lambda>(a, t).
     let s = s\<lparr>interp := a, vterm := (vterm s)(n \<mapsto> t)\<rparr> in
     if active_vterm s = n then show_vterm n s else Inr s))"

end
