(* ===== verification/Shell.thy ===== *)
theory Shell imports Libc begin

text \<open>
  The shell, \<^verbatim>\<open>tarfs/src/sh.c\<close>: variables are replaced in the command line (\<open>parse_command\<close>), the line is cut
  into arguments (\<open>tokenize_command\<close>), and a round of the main loop sets a variable or starts a program. An array of the program
  is a list of its bytes, an access outside of it is \<open>Overrun\<close>, and a pointer into it an index.
\<close>

definition BUF_SIZE :: nat where "BUF_SIZE = 1024"

text \<open>\<open>isalnum\<close> of the C locale, and the string that starts a byte array.\<close>

definition isalnum :: "u8 \<Rightarrow> bool" where
  "isalnum c \<longleftrightarrow> 0x30 \<le> c \<and> c \<le> 0x39 \<or> 0x41 \<le> c \<and> c \<le> 0x5A \<or> 0x61 \<le> c \<and> c \<le> 0x7A"

definition c_string :: "u8 list \<Rightarrow> u8 list" where
  "c_string m = takeWhile (\<lambda>c. c \<noteq> 0) m"

definition put_byte :: "nat \<Rightarrow> u8 \<Rightarrow> u8 list \<Rightarrow> u8 list res" where
  "put_byte i c m = (if i < length m then Inr (m[i := c]) else Inl Overrun)"

fun put_all :: "nat \<Rightarrow> u8 list \<Rightarrow> u8 list \<Rightarrow> u8 list res" where
  "put_all i [] m = Inr m"
| "put_all i (c # s) m = andthen (put_byte i c m) (\<lambda>m. put_all (Suc i) s m)"

section \<open>Variables\<close>

text \<open>The name after a dollar sign, collected in an array of 64 bytes, which has no room for the end of a name of 64.\<close>

fun read_name :: "u8 list \<Rightarrow> nat \<Rightarrow> u8 list res" where
  "read_name [] i = Inl Overrun"
| "read_name (c # r) i =
     (if c \<noteq> 0 \<and> isalnum c \<and> i < 64 then andthen (read_name r (Suc i)) (\<lambda>n. Inr (c # n))
      else if i < 64 then Inr [] else Inl Overrun)"

text \<open>
  The loop of \<open>parse_command\<close>, from position \<open>p\<close> of the line, writing at \<open>p2\<close>. After a variable the next character is
  skipped; a variable that is not set leaves a byte of \<open>buffer2\<close> as it was. \<open>None\<close> is the early return.
\<close>

function parse_loop :: "(u8 list \<Rightarrow> u8 list option) \<Rightarrow> u8 list \<Rightarrow> nat \<Rightarrow> nat \<Rightarrow> u8 list \<Rightarrow> (nat \<times> u8 list) option res" where
  "parse_loop getenv line p p2 buffer2 =
     (if p \<ge> length line then Inl Overrun
      else if line ! p = 0 then Inr (Some (p2, buffer2))
      else if p2 > BUF_SIZE then Inr None
      else if line ! p = 0x24
      then andthen (read_name (drop (Suc p) line) 0) (\<lambda>name.
           case getenv name of
             None \<Rightarrow> parse_loop getenv line (p + length name + 2) (Suc p2) buffer2
           | Some var \<Rightarrow> andthen (put_all p2 var buffer2) (\<lambda>buffer2.
                          parse_loop getenv line (p + length name + 2) (p2 + length var) buffer2))
      else andthen (put_byte p2 (if line ! p = 0x0A then 0 else line ! p) buffer2) (\<lambda>buffer2.
           parse_loop getenv line (Suc p) (Suc p2) buffer2))"
  by pat_completeness auto
termination by (relation "measure (\<lambda>(_, line, p, _, _). length line - p)") auto

declare parse_loop.simps [simp del]

definition parse_command :: "(u8 list \<Rightarrow> u8 list option) \<Rightarrow> u8 list \<Rightarrow> u8 list \<Rightarrow> u8 list option res" where
  "parse_command getenv line buffer2 =
     andthen (parse_loop getenv line 0 0 buffer2) (\<lambda>r.
     case r of
       None \<Rightarrow> Inr None
     | Some (p2, buffer2) \<Rightarrow> andthen (put_byte p2 0 buffer2) (\<lambda>buffer2. Inr (Some buffer2)))"

section \<open>Arguments\<close>

text \<open>
  The copy of the line, in which spaces become the ends of the arguments, and the array of the arguments: positions in the
  copy, and null pointers.
\<close>

fun mark_tokens :: "u8 list \<Rightarrow> nat \<Rightarrow> nat \<Rightarrow> nat option list \<Rightarrow> (u8 list \<times> nat \<times> nat option list) res" where
  "mark_tokens [] i t tokens = Inr ([], t, tokens)"
| "mark_tokens (c # r) i t tokens =
     (if c = 0x20
      then if t < length tokens
           then andthen (mark_tokens r (Suc i) (Suc t) (tokens[t := Some (Suc i)])) (\<lambda>(r, t, tokens). Inr (0 # r, t, tokens))
           else Inl Overrun
      else andthen (mark_tokens r (Suc i) t tokens) (\<lambda>(r, t, tokens). Inr (c # r, t, tokens)))"

definition tokenize_command :: "u8 list \<Rightarrow> (u8 list \<times> nat option list) res" where
  "tokenize_command line =
     (let command = c_string line; numtokens = 1 + length (filter (\<lambda>c. c = 0x20) command);
          tokens = (replicate (numtokens + 1) None)[0 := Some 0]
      in andthen (mark_tokens command 0 1 tokens) (\<lambda>(command, t, tokens).
         if t < length tokens then Inr (command @ [0], tokens[t := None]) else Inl Overrun))"

text \<open>The arguments as a program sees them: the strings up to the first null pointer.\<close>

fun arguments :: "u8 list \<Rightarrow> nat option list \<Rightarrow> u8 list list" where
  "arguments command (Some i # r) = c_string (drop i command) # arguments command r"
| "arguments command _ = []"

section \<open>The main loop\<close>

record shell =
  sh_line :: "u8 list"
  buffer2 :: "u8 list"
  sh_env :: "u8 list \<Rightarrow> u8 list option"
  sh_output :: "u8 list"
  fg_pid :: u32
  sh_libc :: libc

definition PS1 :: "u8 list" where "PS1 = [0x50, 0x53, 0x31]"

definition print_prompt :: "shell \<Rightarrow> shell" where
  "print_prompt s =
     (case sh_env s PS1 of
        Some v \<Rightarrow> s\<lparr>sh_output := sh_output s @ v\<rparr>
      | None \<Rightarrow> s\<lparr>sh_env := (sh_env s)(PS1 \<mapsto> [0x24, 0x20]), sh_output := sh_output s @ [0x24, 0x20]\<rparr>)"

text \<open>\<open>fgets\<close> stores a line and its end; at the end of the input the array stays as it was.\<close>

definition get_line :: "u8 list option \<Rightarrow> u8 list \<Rightarrow> u8 list" where
  "get_line input m =
     (case input of None \<Rightarrow> m
      | Some s \<Rightarrow> let s = take (BUF_SIZE - 1) s in s @ 0 # drop (Suc (length s)) m)"

text \<open>\<open>putenv\<close> of a string with an equals sign.\<close>

definition put_env :: "u8 list \<Rightarrow> (u8 list \<Rightarrow> u8 list option) \<Rightarrow> u8 list \<Rightarrow> u8 list option" where
  "put_env s env = env(takeWhile (\<lambda>c. c \<noteq> 0x3D) s \<mapsto> tl (dropWhile (\<lambda>c. c \<noteq> 0x3D) s))"

text \<open>A call of the C library by the shell; the library works on strings, the shell on bytes.\<close>

definition on_libc :: "(libc \<Rightarrow> ('a called \<times> libc) res) \<Rightarrow> shell \<Rightarrow> ('a called \<times> shell) res" where
  "on_libc f s = andthen (f (sh_libc s)) (\<lambda>(out, l). Inr (out, s\<lparr>sh_libc := l\<rparr>))"

definition to_text :: "u8 list \<Rightarrow> string" where "to_text s = map (\<lambda>c. char_of (unat c)) s"
definition to_bytes :: "string \<Rightarrow> u8 list" where "to_bytes s = map of_char s"

text \<open>The signal handler passes the signal on to the program in the foreground.\<close>

definition signal_transfer :: "environment \<Rightarrow> u32 \<Rightarrow> shell \<Rightarrow> (unit called \<times> shell) res" where
  "signal_transfer e signum s =
     (if fg_pid s \<noteq> 0 then andback (on_libc (libc_kill e (fg_pid s) signum) s) (\<lambda>_ s. Inr (Back (), s)) else Inr (Back (), s))"

text \<open>The start of \<open>main\<close>; \<open>handler\<close> is the address of \<open>signal_transfer\<close>.\<close>

definition shell_start :: "environment \<Rightarrow> u32 \<Rightarrow> shell \<Rightarrow> (u32 called \<times> shell) res" where
  "shell_start e handler s = on_libc (libc_signal e 2 handler) s"

text \<open>
  The command of a round. The parent waits for the child and gives no exit code; the child becomes the program, or prints a
  message and ends with exit code \<open>-1\<close>. \<open>exec\<close> is \<open>execve\<close> on a file and arguments that lie in the shell's memory.
\<close>

definition run_command :: "environment \<Rightarrow> (nat \<Rightarrow> nat) \<Rightarrow> (u8 list \<Rightarrow> u8 list list \<Rightarrow> libc \<Rightarrow> (u32 called \<times> libc) res) \<Rightarrow> u8 list \<Rightarrow>
    u8 list list \<Rightarrow> shell \<Rightarrow> (u32 option called \<times> shell) res" where
  "run_command e usable exec argv0 args s =
     andback (on_libc (libc_fork e) s) (\<lambda>n s.
     let s = s\<lparr>fg_pid := n\<rparr> in
     if n \<noteq> 0
     then andback (on_libc (stub e SYSCALL_WAITPID [n]) s) (\<lambda>_ s. Inr (Back None, s\<lparr>fg_pid := 0\<rparr>))
     else andback (on_libc (execvp usable (\<lambda>f. exec (to_bytes f) args) (\<lambda>n. map_option to_text (sh_env s (to_bytes n))) (to_text (hd args))) s) (\<lambda>r s.
          Inr (Back (Some (-1)), if r \<noteq> 0
             then s\<lparr>sh_output := sh_output s @ argv0 @ to_bytes '': command not found: '' @ hd args @ [10]\<rparr> else s)))"

text \<open>A round of the loop of \<open>main\<close>: a line sets a variable or runs a command.\<close>

definition shell_step :: "environment \<Rightarrow> (nat \<Rightarrow> nat) \<Rightarrow> (u8 list \<Rightarrow> u8 list list \<Rightarrow> libc \<Rightarrow> (u32 called \<times> libc) res) \<Rightarrow> u8 list \<Rightarrow>
    u8 list option \<Rightarrow> shell \<Rightarrow> (u32 option called \<times> shell) res" where
  "shell_step e usable exec argv0 input s =
     (let s = print_prompt s; s = s\<lparr>sh_line := get_line input (sh_line s)\<rparr>; len = length (c_string (sh_line s)) in
      if len > 1
      then
       (let s = s\<lparr>sh_line := (sh_line s)[len - 1 := 0]\<rparr> in
        andthen (parse_command (sh_env s) (sh_line s) (buffer2 s)) (\<lambda>r.
        andthen (deref r) (\<lambda>line2.
        let s = s\<lparr>buffer2 := line2\<rparr> in
        andthen (tokenize_command line2) (\<lambda>(command, tokens).
        if 0x3D \<in> set (c_string line2)
        then Inr (Back None, s\<lparr>sh_env := put_env (c_string line2) (sh_env s)\<rparr>)
        else run_command e usable exec argv0 (arguments command tokens) s))))
      else Inr (Back None, s))"

end
