(* ===== verification/UserMemProps.thy ===== *)
theory UserMemProps imports FdProps begin

text \<open>
  What the kernel's accesses to user memory do, byte by byte: a store changes one byte of physical memory, and bytes that have
  been stored are read back. A page that is written must not be a page table.
\<close>

section \<open>One byte\<close>

text \<open>The byte at a physical address.\<close>

definition pbyte :: "vm \<Rightarrow> u32 \<Rightarrow> u8" where
  "pbyte s pa = ucast (drop_bit (bit_of pa) (phys s (word_base pa)))"

definition data_page :: "vm \<Rightarrow> u32 \<Rightarrow> bool" where
  "data_page s va \<longleftrightarrow> vmm_dir_idx va < 1022 \<and> (\<exists>pa. mmu_translate s va = Some pa \<and> no_table s (frame pa))"

lemma bit_low_masks [bitw]:
  "bit (3 :: int) n \<longleftrightarrow> n < 2" "bit (0xFF :: int) n \<longleftrightarrow> n < 8" "bit (0xFFFFF :: int) n \<longleftrightarrow> n < 20"
proof -
  have "(3 :: int) = mask 2" "(0xFF :: int) = mask 8" "(0xFFFFF :: int) = mask 20" by (simp_all add: mask_eq_exp_minus_1)
  then show "bit (3 :: int) n \<longleftrightarrow> n < 2" "bit (0xFF :: int) n \<longleftrightarrow> n < 8" "bit (0xFFFFF :: int) n \<longleftrightarrow> n < 20"
    by (metis bit_mask_iff possible_bit_int)+
qed

lemma word_base_idx: "vmm_dir_idx (word_base va) = vmm_dir_idx va" "vmm_table_idx (word_base va) = vmm_table_idx va"
  unfolding vmm_dir_idx_def vmm_table_idx_def word_base_def
  by (rule bit_word_eqI; auto simp: bit_simps bitw dest: word_bit_less)+

lemma translate_word_base:
  assumes "mmu_translate s va = Some pa"
  shows "mmu_translate s (word_base va) = Some (word_base pa)" and "bit_of pa = bit_of va"
proof -
  obtain e where e: "hw_pte s va = Some e" "pa = (e AND PAGE_MASK) OR (va AND PAGE_FLAG_MASK)"
    using assms by (auto simp: mmu_translate_def split: option.splits)
  have "hw_pte s (word_base va) = hw_pte s va"
    using word_base_idx [of va] hw_pde_cong [of "word_base va" va s] pte_pa_cong [of "word_base va" va]
    by (simp add: hw_pte_def)
  moreover have "(e AND PAGE_MASK) OR (word_base va AND PAGE_FLAG_MASK) = word_base pa"
    unfolding e(2) word_base_def by (rule bit_word_eqI) (auto simp: bit_simps bitw)
  ultimately show "mmu_translate s (word_base va) = Some (word_base pa)" using e(1) by (simp add: mmu_translate_def)
  have "pa AND 3 = va AND 3"
    unfolding e(2) by (rule bit_word_eqI) (auto simp: bit_simps bitw)
  then show "bit_of pa = bit_of va" by (simp add: bit_of_def)
qed

lemma frame_word_base [simp]: "frame (word_base pa) = frame pa"
  unfolding frame_def word_base_def by (rule bit_word_eqI) (auto simp: bit_simps bitw)

lemma load_byte: "mmu_translate s va = Some pa \<Longrightarrow> vload_byte va s = Inr (pbyte s pa)"
  using translate_word_base [of s va pa] by (simp add: vload_byte_def vload_def pbyte_def)

lemma bit_of_cases: "bit_of pa = 0 \<or> bit_of pa = 8 \<or> bit_of pa = 16 \<or> bit_of pa = 24"
proof -
  have "pa AND 3 = pa mod 4" using take_bit_eq_mod [of 2 pa] by (simp add: take_bit_eq_mask mask_eq_exp_minus_1)
  then have "unat (pa AND 3) < 4" by (simp add: unat_mod)
  then show ?thesis by (auto simp: bit_of_def)
qed

lemma byte_of_word:
  fixes w :: u32 and b :: u8
  assumes "i = 0 \<or> i = 8 \<or> i = 16 \<or> i = 24" and "j = 0 \<or> j = 8 \<or> j = 16 \<or> j = 24"
  shows "ucast (drop_bit j ((w AND NOT (push_bit i 0xFF)) OR push_bit i (ucast b))) = (if i = j then b else (ucast (drop_bit j w) :: u8))"
  by (rule bit_word_eqI) (use assms in \<open>auto simp: bit_simps bitw dest: bit_imp_le_length\<close>)

lemma word_base_bit_of: "word_base p = word_base q \<Longrightarrow> bit_of p = bit_of q \<Longrightarrow> p = q"
proof -
  assume a: "word_base p = word_base q" "bit_of p = bit_of q"
  have "p = word_base p OR (p AND 3)" "q = word_base q OR (q AND 3)"
    unfolding word_base_def by (rule bit_word_eqI; auto simp: bit_simps bitw)+
  moreover have "p AND 3 = q AND 3" using a(2) by (simp add: bit_of_def word_unat_eq_iff)
  ultimately show "p = q" using a(1) by metis
qed

text \<open>The machines that differ in the bytes of data pages only.\<close>

definition same_pages :: "vm \<Rightarrow> vm \<Rightarrow> bool" where
  "same_pages s t \<longleftrightarrow> tables_ok t \<and> no_table t = no_table s \<and>
     (\<forall>x. vmm_dir_idx x < 1022 \<longrightarrow> mmu_translate t x = mmu_translate s x)"

lemma same_pages_trans: "same_pages s t \<Longrightarrow> same_pages t u \<Longrightarrow> same_pages s u"
  by (simp add: same_pages_def)

lemma same_pages_data: "same_pages s t \<Longrightarrow> data_page t = data_page s"
  by (auto simp: same_pages_def data_page_def fun_eq_iff)

lemma store_byte:
  assumes "tables_ok s" and "vmm_dir_idx va < 1022" and "mmu_translate s va = Some pa" and "no_table s (frame pa)"
  shows "\<exists>t. vstore_byte va b s = Inr t \<and> same_pages s t \<and> (\<forall>q. pbyte t q = (if q = pa then b else pbyte s q))"
proof -
  let ?w = "phys s (word_base pa)"
  define v where "v = (?w AND NOT (push_bit (bit_of pa) 0xFF)) OR push_bit (bit_of pa) (ucast b)"
  let ?t = "s\<lparr>phys := (phys s)(word_base pa := v)\<rparr>"
  note w = no_table_write [OF assms(1), where a = "word_base pa" and v = v, unfolded frame_word_base, OF assms(4)]
  have "vstore_byte va b s = Inr ?t"
    using translate_word_base [OF assms(3)] by (simp add: vstore_byte_def vload_def vstore_def v_def)
  moreover have "mmu_translate ?t x = mmu_translate s x" if "vmm_dir_idx x < 1022" for x
    unfolding mmu_translate_def w(3) [OF that] ..
  then have "same_pages s ?t" using w(1,4) by (simp add: same_pages_def)
  moreover have "pbyte ?t q = (if q = pa then b else pbyte s q)" for q
  proof (cases "word_base q = word_base pa")
    case True
    then have "pbyte ?t q = ucast (drop_bit (bit_of q) v)" by (simp add: pbyte_def)
    also have "\<dots> = (if bit_of pa = bit_of q then b else pbyte s q)"
      unfolding v_def byte_of_word [OF bit_of_cases bit_of_cases] by (simp add: pbyte_def True)
    finally show ?thesis using word_base_bit_of [OF True] by auto
  qed (auto simp: pbyte_def)
  ultimately show ?thesis by blast
qed

section \<open>Regions\<close>

text \<open>The machine of a kernel, and a region of user memory: data pages, and no byte of it twice.\<close>

abbreviation machine :: "kernel \<Rightarrow> vm" where "machine k \<equiv> mvm (kmm k)"

definition set_machine :: "vm \<Rightarrow> kernel \<Rightarrow> kernel" where
  "set_machine m k = k\<lparr>kmm := (kmm k)\<lparr>mvm := m\<rparr>\<rparr>"

lemma set_machine_simps [simp]:
  "machine (set_machine m k) = m" "set_machine m (set_machine n k) = set_machine m k" "set_machine (machine k) k = k"
  by (simp_all add: set_machine_def)

definition at :: "vm \<Rightarrow> u32 \<Rightarrow> nat \<Rightarrow> u32" where
  "at s va i = the (mmu_translate s (va + of_nat i))"

definition region :: "vm \<Rightarrow> u32 \<Rightarrow> nat \<Rightarrow> bool" where
  "region s va n \<longleftrightarrow> (\<forall>i<n. data_page s (va + of_nat i)) \<and> inj_on (at s va) {..<n}"

definition bytes_at :: "vm \<Rightarrow> u32 \<Rightarrow> nat \<Rightarrow> u8 list" where
  "bytes_at s va n = map (\<lambda>i. pbyte s (at s va i)) [0..<n]"

lemma at_Suc: "at s (va + 1) i = at s va (Suc i)"
  by (simp add: at_def add.assoc)

lemma at_same: "same_pages s t \<Longrightarrow> data_page s (va + of_nat i) \<Longrightarrow> at t va i = at s va i"
  by (auto simp: at_def same_pages_def data_page_def)

lemma region_same: "same_pages s t \<Longrightarrow> region t va n = region s va n"
  using at_same [of s t va] by (auto simp: region_def same_pages_data inj_on_def)

lemma region_Suc: "region s va (Suc n) \<Longrightarrow> data_page s va \<and> region s (va + 1) n \<and> (\<forall>i<n. at s (va + 1) i \<noteq> at s va 0)"
proof -
  assume r: "region s va (Suc n)"
  have "data_page s (va + 1 + of_nat i)" if "i < n" for i
    using r that by (auto simp: region_def add.assoc dest!: spec [of _ "Suc i"])
  moreover have "inj_on (at s (va + 1)) {..<n}"
    using r by (auto simp: region_def inj_on_def at_Suc)
  moreover have "data_page s va" using r by (auto simp: region_def dest!: spec [of _ 0])
  moreover have "at s (va + 1) i \<noteq> at s va 0" if "i < n" for i
    using r that by (auto simp: region_def at_Suc dest!: inj_onD [of _ _ "Suc i" 0])
  ultimately show ?thesis by (auto simp: region_def)
qed

lemma get_user_bytes:
  "(\<forall>i<n. data_page (machine k) (va + of_nat i)) \<Longrightarrow> get_user va n k = Inr (bytes_at (machine k) va n, k)"
proof (induction n arbitrary: va)
  case 0
  then show ?case by (simp add: bytes_at_def)
next
  case (Suc n)
  have "data_page (machine k) va" using Suc.prems by (auto dest!: spec [of _ 0])
  then obtain pa where "mmu_translate (machine k) va = Some pa" by (auto simp: data_page_def)
  then have "user_byte va k = Inr (pbyte (machine k) (at (machine k) va 0), k)"
    by (simp add: user_byte_granted load_byte at_def)
  moreover have "get_user (va + 1) n k = Inr (bytes_at (machine k) (va + 1) n, k)"
  proof (rule Suc.IH, intro allI impI)
    fix i assume "i < n"
    then show "data_page (machine k) (va + 1 + of_nat i)" using Suc.prems [rule_format, of "Suc i"] by (simp add: add.assoc)
  qed
  moreover have "bytes_at (machine k) va (Suc n) = pbyte (machine k) (at (machine k) va 0) # bytes_at (machine k) (va + 1) n"
    by (simp add: bytes_at_def at_Suc upt_conv_Cons map_Suc_upt [symmetric] del: upt_Suc)
  ultimately show ?case by simp
qed

lemma put_user_bytes:
  "tables_ok (machine k) \<Longrightarrow> region (machine k) va (length bs) \<Longrightarrow>
    \<exists>m. put_user va bs k = Inr (set_machine m k) \<and> same_pages (machine k) m \<and>
      (\<forall>i<length bs. pbyte m (at (machine k) va i) = bs ! i) \<and>
      (\<forall>q. q \<notin> at (machine k) va ` {..<length bs} \<longrightarrow> pbyte m q = pbyte (machine k) q)"
proof (induction bs arbitrary: va k)
  case Nil
  then show ?case by (intro exI [of _ "machine k"]) (simp add: same_pages_def)
next
  case (Cons b bs)
  let ?s = "machine k"
  note r = region_Suc [of ?s va "length bs"]
  have d: "data_page ?s va" "region ?s (va + 1) (length bs)" "\<forall>i<length bs. at ?s (va + 1) i \<noteq> at ?s va 0"
    using r Cons.prems(2) by auto
  then obtain pa where pa: "vmm_dir_idx va < 1022" "mmu_translate ?s va = Some pa" "no_table ?s (frame pa)" "at ?s va 0 = pa"
    by (auto simp: data_page_def at_def)
  obtain t where t: "vstore_byte va b ?s = Inr t" "same_pages ?s t" "\<forall>q. pbyte t q = (if q = pa then b else pbyte ?s q)"
    using store_byte [OF Cons.prems(1) pa(1-3)] by blast
  have k1: "put_user_byte va b k = Inr (set_machine t k)" using t(1) by (simp add: put_user_byte_granted set_machine_def)
  have same: "at t (va + 1) i = at ?s (va + 1) i" if "i < length bs" for i
    using at_same [OF t(2)] d(2) that by (auto simp: region_def)
  obtain m where m: "put_user (va + 1) bs (set_machine t k) = Inr (set_machine m k)" "same_pages t m"
    "\<forall>i<length bs. pbyte m (at t (va + 1) i) = bs ! i"
    "\<forall>q. q \<notin> at t (va + 1) ` {..<length bs} \<longrightarrow> pbyte m q = pbyte t q"
    using Cons.IH [of "set_machine t k" "va + 1"] t(2) d(2) region_same [OF t(2)] by (auto simp: same_pages_def)
  have im: "at t (va + 1) ` {..<length bs} = at ?s (va + 1) ` {..<length bs}" using same by auto
  have "pa \<notin> at ?s (va + 1) ` {..<length bs}" using d(3) unfolding pa(4) by auto
  then have "pbyte m pa = b" using m(4) t(3) unfolding im by simp
  then have "pbyte m (at ?s va i) = (b # bs) ! i" if "i < length (b # bs)" for i
    using that m(3) same pa(4) by (cases i) (auto simp: at_Suc)
  moreover have "pbyte m q = pbyte ?s q" if "q \<notin> at ?s va ` {..<length (b # bs)}" for q
  proof -
    have "q \<noteq> pa" using that pa(4) by auto
    moreover have "q \<notin> at ?s (va + 1) ` {..<length bs}" using that by (auto simp: at_Suc)
    ultimately show ?thesis using m(4) t(3) unfolding im by auto
  qed
  ultimately show ?case using k1 m(1) same_pages_trans [OF t(2) m(2)] by (intro exI [of _ m]) simp
qed

text \<open>
  What the kernel stores in user memory is read back as it was, also across pages, and no other user memory that is
  mapped changes.
\<close>

theorem user_memory_roundtrip:
  assumes "tables_ok (machine k)" and "region (machine k) va (length bs)"
  shows "\<exists>k'. put_user va bs k = Inr k' \<and> get_user va (length bs) k' = Inr (bs, k') \<and>
    (\<forall>vb n. (\<forall>i<n. data_page (machine k) (vb + of_nat i)) \<longrightarrow>
       at (machine k) vb ` {..<n} \<inter> at (machine k) va ` {..<length bs} = {} \<longrightarrow>
       get_user vb n k' = Inr (bytes_at (machine k) vb n, k'))"
proof -
  obtain m where m: "put_user va bs k = Inr (set_machine m k)" "same_pages (machine k) m"
    "\<forall>i<length bs. pbyte m (at (machine k) va i) = bs ! i"
    "\<forall>q. q \<notin> at (machine k) va ` {..<length bs} \<longrightarrow> pbyte m q = pbyte (machine k) q"
    using put_user_bytes [OF assms] by blast
  let ?k = "set_machine m k"
  have g: "get_user vb n ?k = Inr (map (\<lambda>i. pbyte m (at (machine k) vb i)) [0..<n], ?k)"
    if "\<forall>i<n. data_page (machine k) (vb + of_nat i)" for vb n
    using get_user_bytes [of n ?k vb] that at_same [OF m(2)] same_pages_data [OF m(2)] by (auto simp: bytes_at_def)
  have "map (\<lambda>i. pbyte m (at (machine k) va i)) [0..<length bs] = bs" using m(3) by (auto intro: nth_equalityI)
  then have "get_user va (length bs) ?k = Inr (bs, ?k)" using g [of "length bs" va] assms(2) by (auto simp: region_def)
  moreover have "map (\<lambda>i. pbyte m (at (machine k) vb i)) [0..<n] = bytes_at (machine k) vb n"
    if "at (machine k) vb ` {..<n} \<inter> at (machine k) va ` {..<length bs} = {}" for vb n
    unfolding bytes_at_def
  proof (rule map_cong [OF refl])
    fix i assume "i \<in> set [0..<n]"
    then have "at (machine k) vb i \<notin> at (machine k) va ` {..<length bs}" using that by (metis atLeast_upt disjoint_iff imageI)
    then show "pbyte m (at (machine k) vb i) = pbyte (machine k) (at (machine k) vb i)" using m(4) by blast
  qed
  ultimately show ?thesis using m(1) g by (intro exI [of _ ?k]) metis
qed

lemma demo_stack_page:
  assumes "i < 32"
  shows "data_page demo_vm (PMM_PAGE_STACK + of_nat i)" "at demo_vm PMM_PAGE_STACK i = 0x3000 + of_nat i"
proof -
  have "\<forall>i\<in>set [0..<32]. vmm_dir_idx (PMM_PAGE_STACK + of_nat i) = 0x3F8 \<and> drop_bit 12 (PMM_PAGE_STACK + of_nat i) AND 0x3FF = 0 \<and>
      (PMM_PAGE_STACK + of_nat i) AND PAGE_FLAG_MASK = of_nat i \<and> 0x3000 OR of_nat i = (0x3000 + of_nat i :: u32) \<and>
      (0x3000 + of_nat i) AND PAGE_MASK = (0x3000 :: u32)" by code_simp
  then have idx: "vmm_dir_idx (PMM_PAGE_STACK + of_nat i) = 0x3F8" "drop_bit 12 (PMM_PAGE_STACK + of_nat i) AND 0x3FF = 0"
    "(PMM_PAGE_STACK + of_nat i) AND PAGE_FLAG_MASK = of_nat i" "0x3000 OR of_nat i = (0x3000 + of_nat i :: u32)"
    "(0x3000 + of_nat i) AND PAGE_MASK = (0x3000 :: u32)" using assms by auto
  then have "hw_pte demo_vm (PMM_PAGE_STACK + of_nat i) = Some 0x3003"
    by (simp add: hw_pte_def demo_pde pte_pa_def PAGE_PRESENT_def PAGE_MASK_def Let_def) (simp add: demo_vm_def demo_phys_def)
  then have tr: "mmu_translate demo_vm (PMM_PAGE_STACK + of_nat i) = Some (0x3000 + of_nat i)"
    by (simp add: mmu_translate_def idx) (simp add: PAGE_MASK_def idx(4))
  have "frame (0x3000 + of_nat i) = 0x3000" by (simp add: frame_def idx(5))
  then show "data_page demo_vm (PMM_PAGE_STACK + of_nat i)"
    using tr idx(1) demo_no_table [of "0x3000"] by (simp add: data_page_def)
  show "at demo_vm PMM_PAGE_STACK i = 0x3000 + of_nat i" by (simp add: at_def tr)
qed

lemma demo_region: "n \<le> 32 \<Longrightarrow> region demo_vm PMM_PAGE_STACK n"
proof -
  assume n: "n \<le> 32"
  have "inj_on (at demo_vm PMM_PAGE_STACK) {..<n}"
  proof (rule inj_onI)
    fix i j assume a: "i \<in> {..<n}" "j \<in> {..<n}" "at demo_vm PMM_PAGE_STACK i = at demo_vm PMM_PAGE_STACK j"
    then have "(of_nat i :: u32) = of_nat j" using n by (simp add: demo_stack_page)
    then have "unat (of_nat i :: u32) = unat (of_nat j :: u32)" by simp
    then show "i = j" using a n by (simp add: unsigned_of_nat take_bit_nat_eq_self)
  qed
  then show ?thesis using n demo_stack_page by (simp add: region_def)
qed

lemma demo_machine: "machine (demo_kernel fds ds) = demo_vm"
  by (simp add: demo_kernel_def)

theorem user_memory_roundtrip_witness:
  "\<exists>k'. put_user PMM_PAGE_STACK [1, 2, 3] demo_empty = Inr k' \<and> get_user PMM_PAGE_STACK 3 k' = Inr ([1, 2, 3], k')"
proof -
  have l: "length [1, 2, 3 :: u8] = 3" by simp
  show ?thesis
    using user_memory_roundtrip [of demo_empty PMM_PAGE_STACK "[1, 2, 3]", unfolded l demo_machine, OF demo_tables_ok demo_region] by auto
qed

end
