(* ===== verification/LibcProps.thy ===== *)
theory LibcProps imports Libc UserMemProps begin

text \<open>
  System calls from the program's side: the arguments a program pushes are the ones the kernel's function gets, its result and
  its \<open>errno\<close> are what the program sees; and the search of a program on the path.
\<close>

section \<open>Arguments on the stack\<close>

lemma bytes_word_bytes [simp]: "bytes_word (word_bytes w) = w"
proof (rule bit_word_eqI)
  fix n assume "n < LENGTH(32)"
  then consider "n < 8" | "8 \<le> n" "n < 16" | "16 \<le> n" "n < 24" | "24 \<le> n" "n < 32" by fastforce
  then show "bit (bytes_word (word_bytes w)) n = bit w n" by cases (auto simp: word_bytes_def bit_simps)
qed

lemma length_word_bytes [simp]: "length (word_bytes w) = 4"
  by (simp add: word_bytes_def)

lemma length_words: "length (concat (map word_bytes ws)) = 4 * length ws"
  by (induction ws) auto

lemma words_nth: "i < length ws \<Longrightarrow> take 4 (drop (4 * i) (concat (map word_bytes ws))) = word_bytes (ws ! i)"
proof (induction ws arbitrary: i)
  case (Cons w ws)
  then show ?case by (cases i) (auto simp: mult.commute)
qed simp

lemma set_regs_simps:
  assumes "threads k (current k) = Some v"
  shows "set_regs f k = Inr (k\<lparr>threads := (threads k)(current k \<mapsto> v\<lparr>regs := f (regs v)\<rparr>)\<rparr>)"
  using assms by (simp add: set_regs_def upd_thread_def thread_of_def)

text \<open>The kernel after the pushes, and the argument words it finds.\<close>

definition stack_of :: "thread \<Rightarrow> nat \<Rightarrow> u32" where
  "stack_of v n = r_useresp (regs v) - 4 * of_nat n"

lemma at_shift: "at s (va + of_nat j) i = at s va (j + i)"
  by (simp add: at_def add.assoc)

lemma push_args_words:
  assumes t: "threads k (current k) = Some v" and ok: "tables_ok (machine k)"
    and r: "region (machine k) (stack_of v (length args)) (4 * length args)"
  shows "\<exists>m. push_args args k = Inr ((set_machine m k)\<lparr>threads := (threads k)(current k \<mapsto>
      v\<lparr>regs := (regs v)\<lparr>r_useresp := stack_of v (length args) - 4\<rparr>\<rparr>)\<rparr>) \<and>
    same_pages (machine k) m \<and>
    (\<forall>k1. machine k1 = m \<longrightarrow> (\<forall>i<length args. get_user_word (stack_of v (length args) + 4 * of_nat i) k1 = Inr (args ! i, k1)))"
proof -
  let ?sp = "stack_of v (length args)" and ?bs = "concat (map word_bytes args)"
  have r': "region (machine k) ?sp (length ?bs)" using r by (simp add: length_words)
  obtain m where m: "put_user ?sp ?bs k = Inr (set_machine m k)" "same_pages (machine k) m"
    "\<forall>i<length ?bs. pbyte m (at (machine k) ?sp i) = ?bs ! i" using put_user_bytes [OF ok r'] by blast
  have rm: "region m ?sp (length ?bs)" using r' region_same [OF m(2)] by simp
  have "get_user_word (?sp + 4 * of_nat i) k1 = Inr (args ! i, k1)" if i: "machine k1 = m" "i < length args" for k1 i
  proof -
    have d: "\<forall>j<4. data_page (machine k1) (?sp + 4 * of_nat i + of_nat j)"
    proof (intro allI impI)
      fix j :: nat assume "j < 4"
      then have "4 * i + j < length ?bs" using i by (simp add: length_words)
      then have "data_page m (?sp + of_nat (4 * i + j))" using rm unfolding region_def by blast
      then show "data_page (machine k1) (?sp + 4 * of_nat i + of_nat j)" using i(1) by (simp add: add.assoc)
    qed
    have "bytes_at m (?sp + 4 * of_nat i) 4 = take 4 (drop (4 * i) ?bs)"
    proof (rule nth_equalityI)
      fix j assume "j < length (bytes_at m (?sp + 4 * of_nat i) 4)"
      then have j: "j < 4" by (simp add: bytes_at_def)
      then have l: "4 * i + j < length ?bs" using i by (simp add: length_words)
      have "at m (?sp + 4 * of_nat i) j = at (machine k) ?sp (4 * i + j)"
        using at_shift [of m ?sp "4 * i" j] at_same [OF m(2), of ?sp "4 * i + j"] r' l by (auto simp: region_def)
      then show "bytes_at m (?sp + 4 * of_nat i) 4 ! j = take 4 (drop (4 * i) ?bs) ! j"
        using m(3) j l by (simp add: bytes_at_def)
    qed (use i in \<open>simp add: bytes_at_def length_words\<close>)
    then show ?thesis using get_user_bytes [OF d] i words_nth [OF i(2)] by (simp add: get_user_word_def)
  qed
  moreover have "push_args args k = Inr ((set_machine m k)\<lparr>threads := (threads k)(current k \<mapsto>
      v\<lparr>regs := (regs v)\<lparr>r_useresp := ?sp - 4\<rparr>\<rparr>)\<rparr>)"
    using t m(1) set_regs_simps [of "set_machine m k" v]
    by (simp add: push_args_def thread_of_def stack_of_def Let_def set_machine_def current_def)
  ultimately show ?thesis using m(2) by blast
qed

section \<open>The return to the program\<close>

text \<open>Thread \<open>t\<close> of process \<open>p\<close> is running, and no signal is pending for the process.\<close>

definition caller :: "nat \<Rightarrow> nat \<Rightarrow> kernel \<Rightarrow> bool" where
  "caller t p k \<longleftrightarrow> current k = t \<and> (\<exists>v. threads k t = Some v \<and> proc v = Some p) \<and> procs k p \<noteq> None \<and>
     nxt (signal_queue k) (SignalQueue p) = SignalQueue p"

lemma no_items: "nxt h head = head \<Longrightarrow> items h head = Inr []"
  by (simp add: items_def for_each_in_list_def walk.simps)

lemma to_user_quiet:
  assumes "caller t p k" and "threads k t = Some v"
  shows "to_user t k = Inr (Returns t, k\<lparr>esp0 := Some t,
    threads := (threads k)(t \<mapsto> v\<lparr>regs := (regs v)\<lparr>r_eflags := r_eflags (regs v) OR EFL_INT\<rparr>\<rparr>)\<rparr>)"
  using assms by (auto simp: caller_def to_user_def handle_signals_def thread_of_def proc_of_def no_items upd_thread_def)

text \<open>The functions with one argument that are looked at, with the numbers of their calls.\<close>

definition fd_calls :: "(u32 \<times> (u32 \<Rightarrow> kernel \<Rightarrow> (u32 \<times> kernel) res)) list" where
  "fd_calls = [(SYSCALL_CLOSE, sys_close), (SYSCALL_DUP, sys_dup)]"

lemma upd_desc_rest:
  "upd_desc d f k = Inr k' \<Longrightarrow> threads k' = threads k \<and> kfs k' = kfs k \<and> signal_queue k' = signal_queue k \<and> procs k' = procs k"
  by (auto simp: upd_desc_def andthen_eq_Inr)

lemma upd_proc_rest:
  "upd_proc p f k = Inr k' \<Longrightarrow> threads k' = threads k \<and> kfs k' = kfs k \<and> signal_queue k' = signal_queue k \<and>
    (\<forall>q. procs k' q = None \<longleftrightarrow> procs k q = None)"
  by (auto simp: upd_proc_def andthen_eq_Inr put_proc_def proc_of_def deref_def split: option.splits if_splits)

lemma caller_step:
  "threads k' = threads k \<Longrightarrow> cur_th (kfs k') = cur_th (kfs k) \<Longrightarrow> signal_queue k' = signal_queue k \<Longrightarrow>
    (\<forall>q. procs k' q = None \<longleftrightarrow> procs k q = None) \<Longrightarrow> caller t p k' = caller t p k"
  by (simp add: caller_def current_def)

lemma dup_caller: "sys_dup a k = Inr (r, k') \<Longrightarrow> threads k' = threads k \<and> caller t p k' = caller t p k"
  by (rule conjI; (rule caller_step)?)
    (auto simp: sys_dup_def andthen_eq_Inr kerrno_def set_errno_def set_slot_def fd_get_def
      dest!: upd_desc_rest upd_proc_rest split: option.splits)

lemma fd_put_rest:
  "fd_put d k = Inr k' \<Longrightarrow> threads k' = threads k \<and> kfs k' = kfs k \<and> signal_queue k' = signal_queue k \<and> procs k' = procs k"
  by (auto simp: fd_put_def andthen_eq_Inr Let_def split: if_splits dest!: upd_desc_rest)

lemma close_caller: "sys_close a k = Inr (r, k') \<Longrightarrow> threads k' = threads k \<and> caller t p k' = caller t p k"
  by (rule conjI; (rule caller_step)?)
    (auto simp: sys_close_def andthen_eq_Inr kerrno_def set_errno_def set_slot_def drop_slot_def on_fs_def do_fs_def
      dest!: fd_put_rest upd_proc_rest vfs_close_cur vfs_free_cur split: option.splits)

lemma fd_calls_caller:
  "(num, f) \<in> set fd_calls \<Longrightarrow> f a k = Inr (r, k') \<Longrightarrow> threads k' = threads k \<and> caller t p k' = caller t p k"
  using dup_caller close_caller by (auto simp: fd_calls_def)

lemma fd_calls_handler:
  assumes "(num, f) \<in> set fd_calls" and "threads k (current k) = Some v" and "r_eax (regs v) = num"
  shows "syscall_handler e syscall_init k = andthen (user_arg 0 k) (\<lambda>(a, k). andthen (f a k) (\<lambda>(r, k). set_result r k))"
proof -
  have "syscall_init SYSCALL_CLOSE = Some C_close" "syscall_init SYSCALL_DUP = Some C_dup"
    by (simp_all add: syscall_init_def syscall_numbers_def register_syscall_def SYSCALL_CLOSE_def SYSCALL_DUP_def)
  moreover have "\<not> SYSCALL_CLOSE \<ge> NUM_SYSCALLS" "\<not> SYSCALL_DUP \<ge> NUM_SYSCALLS"
    by (simp_all add: SYSCALL_CLOSE_def SYSCALL_DUP_def NUM_SYSCALLS_def)
  ultimately show ?thesis using assms
    by (auto simp: fd_calls_def syscall_handler_def thread_of_def k_close_def k_dup_def)
qed

text \<open>
  C8. A program that calls \<open>close\<close> or \<open>dup\<close> gets the result of the kernel's function for just the number it passed, and
  its \<open>errno\<close>: the argument on the stack, the trap, the table of calls, and the way back fit together. \<open>k1\<close> is the kernel
  that the function runs on: it differs in the words that were pushed and in the registers of the caller.
\<close>

theorem libc_call_result:
  assumes "(num, f) \<in> set fd_calls" and "caller t p (lkern s)" and "threads (lkern s) t = Some v" and "tables_ok (machine (lkern s))"
    and "region (machine (lkern s)) (r_useresp (regs v) - 4) 4"
  shows "\<exists>k1. (\<exists>m rg. k1 = (set_machine m (lkern s))\<lparr>threads := (threads (lkern s))(t \<mapsto> v\<lparr>regs := rg\<rparr>)\<rparr>) \<and>
    (\<forall>r k2. f a k1 = Inr (r, k2) \<longrightarrow>
      (\<exists>s'. with_errno (stub e num [a] s) = Inr (Back r, s') \<and> c_errno s' = errno (kfs k2) \<and>
        kfs (lkern s') = kfs k2 \<and> procs (lkern s') = procs k2 \<and> descs (lkern s') = descs k2))"
proof -
  let ?k = "lkern s"
  have cur: "current ?k = t" using assms(2) by (simp add: caller_def)
  have sp: "stack_of v (Suc 0) = r_useresp (regs v) - 4" by (simp add: stack_of_def)
  obtain m where m: "push_args [a] ?k = Inr ((set_machine m ?k)\<lparr>threads := (threads ?k)(t \<mapsto>
      v\<lparr>regs := (regs v)\<lparr>r_useresp := stack_of v (Suc 0) - 4\<rparr>\<rparr>)\<rparr>)"
    "\<forall>k1. machine k1 = m \<longrightarrow> get_user_word (stack_of v (Suc 0)) k1 = Inr (a, k1)"
    using push_args_words [of ?k v "[a]"] assms(3-5) unfolding cur by (auto simp: sp)
  define rg where "rg = (regs v)\<lparr>r_useresp := stack_of v (Suc 0) - 4, r_eax := num\<rparr>"
  define k1 where "k1 = (set_machine m ?k)\<lparr>threads := (threads ?k)(t \<mapsto> v\<lparr>regs := rg\<rparr>)\<rparr>"
  have k1: "current k1 = t" "threads k1 t = Some (v\<lparr>regs := rg\<rparr>)" "machine k1 = m"
    using cur by (simp_all add: k1_def current_def set_machine_def)
  have pushed: "andthen (push_args [a] ?k) (set_regs (\<lambda>r. r\<lparr>r_eax := num\<rparr>)) = Inr k1"
    unfolding m(1) using cur by (simp add: set_regs_def upd_thread_def thread_of_def current_def k1_def rg_def set_machine_def)
  have arg: "user_arg 0 k1 = Inr (a, k1)"
    using k1 m(2) by (simp add: user_arg_def thread_of_def rg_def)
  have cl1: "caller t p k1" using assms(2,3) k1 by (auto simp: caller_def k1_def set_machine_def)
  have "\<exists>s'. with_errno (stub e num [a] s) = Inr (Back r, s') \<and> c_errno s' = errno (kfs k2) \<and>
      kfs (lkern s') = kfs k2 \<and> procs (lkern s') = procs k2 \<and> descs (lkern s') = descs k2" if f: "f a k1 = Inr (r, k2)" for r k2
  proof -
    have c: "threads k2 = threads k1" "caller t p k2" using fd_calls_caller [OF assms(1) f] cl1 by auto
    then have cur2: "current k2 = t" by (simp add: caller_def)
    define w where "w = v\<lparr>regs := rg\<lparr>r_eax := r, r_edx := errno (kfs k2)\<rparr>\<rparr>"
    define k3 where "k3 = k2\<lparr>threads := (threads k2)(t \<mapsto> w)\<rparr>"
    have "syscall_handler e syscall_init k1 = Inr (Returns (), k3)"
      using fd_calls_handler [OF assms(1), of k1 "v\<lparr>regs := rg\<rparr>" e] k1 arg f c(1) cur2
      by (simp add: rg_def set_result_def set_regs_def upd_thread_def thread_of_def k3_def w_def)
    moreover have cl3: "caller t p k3" "threads k3 t = Some w" "current k3 = t"
      using c(2) k1(2) c(1) by (auto simp: caller_def k3_def current_def w_def)
    ultimately have sc: "system_call e k1 = to_user t k3" by (simp add: system_call_def)
    show ?thesis
      unfolding stub_def andthen_assoc [symmetric] pushed andthen_Inr Let_def sc to_user_quiet [OF cl3(1,2)]
      using k1(1,2) by (simp add: with_errno_def andback_def thread_of_def upd_thread_def w_def k3_def)
  qed
  then show ?thesis using k1_def by blast
qed

definition demo_caller :: libc where
  "demo_caller = \<lparr>lkern = demo_empty\<lparr>threads := [0 \<mapsto> demo_thread\<lparr>regs := zero_regs\<lparr>r_useresp := PMM_PAGE_STACK + 4\<rparr>\<rparr>]\<rparr>,
     syscall_errno = 0, c_errno = 0, environ = 0\<rparr>"

theorem libc_call_result_witness:
  "\<forall>e. \<exists>s'. with_errno (stub e SYSCALL_DUP [5] demo_caller) = Inr (Back (-1), s') \<and> c_errno s' = EBADF"
proof
  fix e
  let ?v = "demo_thread\<lparr>regs := zero_regs\<lparr>r_useresp := PMM_PAGE_STACK + 4\<rparr>\<rparr>"
  have 1: "(SYSCALL_DUP, sys_dup) \<in> set fd_calls" by (simp add: fd_calls_def)
  have 2: "caller 0 0 (lkern demo_caller)" "threads (lkern demo_caller) 0 = Some ?v" "machine (lkern demo_caller) = demo_vm"
    by (simp_all add: caller_def demo_caller_def demo_kernel_def current_def demo_fs_def demo_thread_def)
  have 3: "region (machine (lkern demo_caller)) (r_useresp (regs ?v) - 4) 4"
    using demo_region [of 4] by (simp add: 2)
  have 4: "tables_ok (machine (lkern demo_caller))" unfolding 2(3) by (rule demo_tables_ok)
  obtain k1 where k1: "(\<exists>m rg. k1 = (set_machine m (lkern demo_caller))\<lparr>threads := (threads (lkern demo_caller))(0 \<mapsto> ?v\<lparr>regs := rg\<rparr>)\<rparr>) \<and>
    (\<forall>r k2. sys_dup 5 k1 = Inr (r, k2) \<longrightarrow>
      (\<exists>s'. with_errno (stub e SYSCALL_DUP [5] demo_caller) = Inr (Back r, s') \<and> c_errno s' = errno (kfs k2) \<and>
        kfs (lkern s') = kfs k2 \<and> procs (lkern s') = procs k2 \<and> descs (lkern s') = descs k2))"
    using libc_call_result [OF 1 2(1,2) 4 3] by (rule exE)
  have th: "threads k1 0 \<noteq> None" "proc (the (threads k1 0)) = Some 0" "kfs k1 = demo_fs"
      "procs k1 0 = Some ((zero_process 1)\<lparr>fd := replicate NUM_FILEDES None, cmdline := Some ''init''\<rparr>)"
    using k1 by (auto simp: set_machine_def demo_caller_def demo_kernel_def demo_thread_def)
  have "sys_dup 5 k1 = Inr (-1, kerrno EBADF k1)"
    using th by (auto simp: sys_dup_def current_proc_def current_def thread_of_def slot_of_def proc_of_def slot_index_def
        demo_fs_def NUM_FILEDES_def)
  with k1 have "\<exists>s'. with_errno (stub e SYSCALL_DUP [5] demo_caller) = Inr (Back (-1), s') \<and> c_errno s' = errno (kfs (kerrno EBADF k1))"
    by blast
  then show "\<exists>s'. with_errno (stub e SYSCALL_DUP [5] demo_caller) = Inr (Back (-1), s') \<and> c_errno s' = EBADF"
    by (simp add: kerrno_def set_errno_def)
qed

section \<open>The search on the path\<close>

text \<open>
  \<open>execvp\<close> of a plain name tries the directories of the path in their order, goes on as long as \<open>execve\<close> comes back, and
  ends with the first one that does not, if the allocator gives at least one byte more than it is asked for.
\<close>

theorem execvp_first:
  assumes "\<forall>n. n < usable n" and "CHR ''/'' \<notin> set file" and "getenv ''PATH'' = Some path"
    and "strtok_all CHR '':'' path = ps @ p # qs"
    and "\<forall>q\<in>set ps. \<forall>s. P s \<longrightarrow> (\<exists>r s'. exec (q @ ''/'' @ file) s = Inr (Back r, s') \<and> P s')"
    and "\<forall>s. P s \<longrightarrow> (\<exists>t s'. exec (p @ ''/'' @ file) s = Inr (Away t, s') \<and> Q t s')" and "P s"
  shows "\<exists>t s'. execvp usable exec getenv file s = Inr (Away t, s') \<and> Q t s'"
proof -
  have u: "\<not> usable (length q + length file + 1) < length q + length file + 2" for q
    using assms(1) [rule_format, of "length q + length file + 1"] by linarith
  have "\<exists>t s'. search_path usable exec (ps @ p # qs) file s = Inr (Away t, s') \<and> Q t s'" if "P s"
    using assms(5) that
  proof (induction ps arbitrary: s)
    case Nil
    then show ?case using u assms(6) by (fastforce simp: andback_def)
  next
    case (Cons q ps)
    obtain r s1 where "exec (q @ ''/'' @ file) s = Inr (Back r, s1)" "P s1" using Cons.prems by fastforce
    then show ?case using u Cons.IH [of s1] Cons.prems(1) by (simp add: andback_def)
  qed
  then show ?thesis using assms(2-4,7) by (simp add: execvp_def)
qed

theorem execvp_first_witness:
  "\<exists>s'. execvp Suc (\<lambda>f s. if f = ''/bin/ls'' then Inr (Away 7, f # s) else Inr (Back (-1), f # s))
     [''PATH'' \<mapsto> ''/usr:/bin''] ''ls'' [] = Inr (Away 7, ''/bin/ls'' # s') \<and> ''/bin/ls'' \<notin> set s'"
  using execvp_first [of Suc "''ls''" "[''PATH'' \<mapsto> ''/usr:/bin'']" "''/usr:/bin''" "[''/usr'']" "''/bin''" "[]"
      "\<lambda>s. ''/bin/ls'' \<notin> set s" "\<lambda>f s. if f = ''/bin/ls'' then Inr (Away 7, f # s) else Inr (Back (-1), f # s)"
      "\<lambda>t s. t = 7 \<and> hd s = ''/bin/ls'' \<and> s \<noteq> [] \<and> ''/bin/ls'' \<notin> set (tl s)" "[]"]
  by (force simp: strtok_all_def neq_Nil_conv)

text \<open>
  The buffer for the full name is one byte too small: with an allocator that gives exactly what it is asked for, the search
  of a plain name writes behind it, whatever the directories on the path are.
\<close>

theorem execvp_overruns:
  assumes "CHR ''/'' \<notin> set file" and "getenv ''PATH'' = Some path" and "strtok_all CHR '':'' path \<noteq> []"
  shows "execvp (\<lambda>n. n) exec getenv file s = Inl Overrun"
  using assms by (cases "strtok_all CHR '':'' path") (simp_all add: execvp_def)

theorem execvp_overruns_witness: "\<forall>exec s. execvp (\<lambda>n. n) exec [''PATH'' \<mapsto> ''/bin''] ''ls'' s = Inl Overrun"
  by (intro allI execvp_overruns [where path = "''/bin''"]) (simp_all add: strtok_all_def)

end
