(* ===== verification/ShellProps.thy ===== *)
theory ShellProps imports Shell LibcProps begin

text \<open>
  What the shell makes of a command line: the arguments are the pieces between the spaces, and variables are replaced as
  \<open>expand_text\<close> says.
\<close>

section \<open>Arguments\<close>

text \<open>Words with one space between them.\<close>

fun join_words :: "u8 list list \<Rightarrow> u8 list" where
  "join_words [] = []"
| "join_words [w] = w"
| "join_words (w # ws) = w @ 0x20 # join_words ws"

text \<open>The pieces of a text: the first one, and those that start behind each space.\<close>

fun pieces :: "u8 list \<Rightarrow> u8 list list" where
  "pieces [] = [[]]"
| "pieces (c # r) = (if c = 0x20 then [] # pieces r else (c # hd (pieces r)) # tl (pieces r))"

lemma pieces_nonempty [simp]: "pieces s \<noteq> []" by (cases s) auto

lemma join_pieces: "join_words (pieces s) = s"
proof (induction s)
  case (Cons c r)
  obtain w ws where w: "pieces r = w # ws" by (cases "pieces r") auto
  show ?case using Cons w by (cases ws) auto
qed simp

lemma pieces_word: "0x20 \<notin> set w \<Longrightarrow> pieces w = [w]"
  by (induction w) auto

lemma pieces_append: "0x20 \<notin> set w \<Longrightarrow> pieces (w @ 0x20 # s) = w # pieces s"
  by (induction w) auto

lemma pieces_join: "ws \<noteq> [] \<Longrightarrow> \<forall>w\<in>set ws. 0x20 \<notin> set w \<Longrightarrow> pieces (join_words ws) = ws"
  by (induction ws rule: join_words.induct) (auto simp: pieces_word pieces_append)

lemma length_pieces: "length (pieces s) = 1 + length (filter (\<lambda>c. c = 0x20) s)"
  by (induction s) auto

lemma pieces_no_space: "w \<in> set (pieces s) \<Longrightarrow> 0x20 \<notin> set w"
proof (induction s arbitrary: w)
  case (Cons c r)
  have "hd (pieces r) \<in> set (pieces r)" "set (tl (pieces r)) \<subseteq> set (pieces r)" by (auto dest: list.set_sel(2)[rotated])
  then show ?case using Cons by (auto split: if_splits)
qed simp

text \<open>The positions written into the array, and the marked text.\<close>

fun starts :: "u8 list \<Rightarrow> nat \<Rightarrow> nat list" where
  "starts [] i = []"
| "starts (c # r) i = (if c = 0x20 then Suc i # starts r (Suc i) else starts r (Suc i))"

definition marked :: "u8 list \<Rightarrow> u8 list" where
  "marked s = map (\<lambda>c. if c = 0x20 then 0 else c) s"

lemma marked_simps [simp]: "marked [] = []" "marked (c # s) = (if c = 0x20 then 0 else c) # marked s"
  by (simp_all add: marked_def)

lemma length_starts: "length (starts s i) = length (filter (\<lambda>c. c = 0x20) s)"
  by (induction s arbitrary: i) auto

lemma mark_tokens_starts:
  "length pre = t \<Longrightarrow> length (starts s i) \<le> length post \<Longrightarrow>
    mark_tokens s i t (pre @ post) =
      Inr (marked s, t + length (starts s i), pre @ map Some (starts s i) @ drop (length (starts s i)) post)"
proof (induction s arbitrary: i t pre post)
  case (Cons c r)
  show ?case
  proof (cases "c = 0x20")
    case True
    then obtain x post' where p: "post = x # post'" using Cons.prems(2) by (cases post) auto
    have "mark_tokens r (Suc i) (Suc t) ((pre @ [Some (Suc i)]) @ post') =
      Inr (marked r, Suc t + length (starts r (Suc i)),
        (pre @ [Some (Suc i)]) @ map Some (starts r (Suc i)) @ drop (length (starts r (Suc i))) post')"
      by (rule Cons.IH) (use Cons.prems True p in auto)
    then show ?thesis using True p Cons.prems(1) by (simp add: list_update_append)
  next
    case False
    then show ?thesis using Cons.IH [of pre t "Suc i" post] Cons.prems by simp
  qed
qed simp

lemma arguments_starts:
  "0 \<notin> set s \<Longrightarrow> length pre = i \<Longrightarrow>
    arguments (pre @ marked s @ [0]) (map Some (starts s i) @ [None]) = tl (pieces s) \<and>
    c_string (marked s @ [0]) = hd (pieces s)"
proof (induction s arbitrary: pre i)
  case Nil
  then show ?case by (simp add: c_string_def)
next
  case (Cons c r)
  let ?c = "if c = 0x20 then 0 else c :: u8"
  have ih: "arguments ((pre @ [?c]) @ marked r @ [0]) (map Some (starts r (Suc i)) @ [None]) = tl (pieces r)"
    "c_string (marked r @ [0]) = hd (pieces r)"
    using Cons.IH [of "pre @ [?c]" "Suc i"] Cons.prems by auto
  then show ?case using Cons.prems by (cases "c = 0x20") (auto simp: c_string_def)
qed

lemma tokenize_pieces:
  "\<exists>command tokens. tokenize_command line = Inr (command, tokens) \<and> arguments command tokens = pieces (c_string line)"
proof -
  let ?s = "c_string line"
  let ?n = "length (filter (\<lambda>c. c = 0x20) ?s)"
  have s: "0 \<notin> set ?s" unfolding c_string_def by (auto dest: set_takeWhileD)
  have r: "(replicate (1 + ?n + 1) None)[0 := Some 0] = [Some 0] @ replicate (Suc ?n) (None :: nat option)"
    by simp
  have d: "drop n (None # replicate n None) = [None :: nat option]" for n
    by (induction n) (simp_all add: replicate_append_same [symmetric])
  have "mark_tokens ?s 0 1 ((replicate (1 + ?n + 1) None)[0 := Some 0]) =
      Inr (marked ?s, 1 + ?n, [Some 0] @ map Some (starts ?s 0) @ [None])"
    unfolding r using mark_tokens_starts [of "[Some 0]" 1 ?s 0 "replicate (Suc ?n) None"]
    by (simp add: length_starts d)
  then have "tokenize_command line = Inr (marked ?s @ [0], Some 0 # map Some (starts ?s 0) @ [None])"
    by (simp add: tokenize_command_def Let_def list_update_append length_starts)
  moreover have "arguments (marked ?s @ [0]) (Some 0 # map Some (starts ?s 0) @ [None]) = pieces ?s"
    using arguments_starts [OF s, of "[]" 0] by simp
  ultimately show ?thesis by blast
qed

text \<open>
  C24. Cutting a command line into arguments loses nothing and never writes outside of its arrays: with one space between each
  two of them the arguments are the line again, none has a space in it, and words joined in this way are the arguments again.
\<close>

theorem tokenize_roundtrip:
  "\<exists>command tokens. tokenize_command line = Inr (command, tokens) \<and>
    join_words (arguments command tokens) = c_string line \<and> (\<forall>w\<in>set (arguments command tokens). 0x20 \<notin> set w) \<and>
    (\<forall>ws. ws \<noteq> [] \<longrightarrow> (\<forall>w\<in>set ws. 0x20 \<notin> set w) \<longrightarrow> c_string line = join_words ws \<longrightarrow> arguments command tokens = ws)"
  using tokenize_pieces [of line] join_pieces pieces_join pieces_no_space by metis

theorem tokenize_roundtrip_witness:
  "\<exists>command tokens. tokenize_command [0x6C, 0x73, 0x20, 0x2F, 0] = Inr (command, tokens) \<and>
    arguments command tokens = [[0x6C, 0x73], [0x2F]]"
proof -
  have "c_string [0x6C, 0x73, 0x20, 0x2F, 0] = join_words [[0x6C, 0x73], [0x2F]]" by (simp add: c_string_def)
  moreover have "\<forall>w\<in>set [[0x6C, 0x73], [0x2F]]. (0x20 :: u8) \<notin> set w" by simp
  ultimately show ?thesis using tokenize_roundtrip [of "[0x6C, 0x73, 0x20, 0x2F, 0]"] by blast
qed

section \<open>Variables\<close>

text \<open>
  The text a command line stands for; the character after a variable is lost. \<open>None\<close> if a variable is not set or has a
  name of 64 characters or more.
\<close>

function expand_text :: "(u8 list \<Rightarrow> u8 list option) \<Rightarrow> u8 list \<Rightarrow> u8 list option" where
  "expand_text getenv [] = Some []"
| "expand_text getenv (c # r) =
     (if c = 0x24
      then (case getenv (takeWhile isalnum r) of
              None \<Rightarrow> None
            | Some v \<Rightarrow> if length (takeWhile isalnum r) < 64
                       then map_option ((@) v) (expand_text getenv (drop 1 (dropWhile isalnum r))) else None)
      else map_option ((#) c) (expand_text getenv r))"
  by pat_completeness auto
termination
  by (relation "measure (\<lambda>(_, s). length s)") (auto simp: less_Suc_eq_le intro!: le_trans [OF diff_le_self length_dropWhile_le])

lemma read_name_prefix:
  "0 \<notin> set s \<Longrightarrow> i + length (takeWhile isalnum s) < 64 \<Longrightarrow> read_name (s @ 0 # r) i = Inr (takeWhile isalnum s)"
  by (induction s arbitrary: i) auto

lemma put_all_append: "length s \<le> length b \<Longrightarrow> put_all (length a) s (a @ b) = Inr (a @ s @ drop (length s) b)"
proof (induction s arbitrary: a b)
  case (Cons c s)
  then obtain x b' where "b = x # b'" by (cases b) auto
  then show ?case using Cons.IH [of b' "a @ [c]"] Cons.prems by (simp add: put_byte_def list_update_append)
qed simp

lemma parse_loop_end: "parse_loop getenv (pre @ 0 # r) (length pre) p2 b = Inr (Some (p2, b))"
  by (subst parse_loop.simps) (simp add: nth_append)

lemma parse_loop_text:
  assumes "expand_text getenv s = Some t" "0 \<notin> set s" "0x0A \<notin> set s" "length d + length t < BUF_SIZE"
    and "length d + length b = BUF_SIZE"
  shows "parse_loop getenv (pre @ s @ 0 # 0 # r) (length pre) (length d) (d @ b) =
    Inr (Some (length d + length t, d @ t @ drop (length t) b))"
  using assms
proof (induction getenv s arbitrary: pre d b t rule: expand_text.induct)
  case (1 getenv)
  then show ?case by (simp add: parse_loop_end)
next
  case (2 getenv c s)
  let ?line = "pre @ (c # s) @ 0 # 0 # r"
  have at: "length pre < length ?line" "?line ! length pre = c" "c \<noteq> 0" "c \<noteq> 0x0A" "\<not> BUF_SIZE < length d"
    using "2.prems" by (auto simp: nth_append)
  show ?case
  proof (cases "c = 0x24")
    case False
    then obtain t' where t': "expand_text getenv s = Some t'" "t = c # t'" using "2.prems"(1) by auto
    then obtain x b' where b: "b = x # b'" using "2.prems"(4,5) by (cases b) auto
    have "parse_loop getenv ?line (length pre) (length d) (d @ b) =
        parse_loop getenv ((pre @ [c]) @ s @ 0 # 0 # r) (length (pre @ [c])) (length (d @ [c])) ((d @ [c]) @ b')"
      using at False by (subst parse_loop.simps) (simp add: put_byte_def b list_update_append)
    also have "\<dots> = Inr (Some (length (d @ [c]) + length t', (d @ [c]) @ t' @ drop (length t') b'))"
      by (rule "2.IH"(2) [OF False t'(1)]) (use "2.prems" t' b in auto)
    finally show ?thesis by (simp add: t' b)
  next
    case True
    let ?n = "takeWhile isalnum s"
    obtain v where v: "getenv ?n = Some v" using "2.prems"(1) True by (auto split: option.splits)
    then obtain t' where t': "length ?n < 64" "expand_text getenv (drop 1 (dropWhile isalnum s)) = Some t'" "t = v @ t'"
      using "2.prems"(1) True by (auto split: if_splits)
    have "read_name (drop (Suc (length pre)) ?line) 0 = Inr ?n"
      using read_name_prefix [of s 0 "0 # r"] "2.prems"(2) t'(1) by simp
    moreover have "put_all (length d) v (d @ b) = Inr (d @ v @ drop (length v) b)"
      by (rule put_all_append) (use "2.prems"(4,5) t' in auto)
    ultimately have step: "parse_loop getenv ?line (length pre) (length d) (d @ b) =
        parse_loop getenv ?line (length pre + length ?n + 2) (length d + length v) (d @ v @ drop (length v) b)"
      using at True v by (subst parse_loop.simps) simp
    have sp: "s = ?n @ dropWhile isalnum s" by simp
    show ?thesis
    proof (cases "dropWhile isalnum s")
      case Nil
      have "expand_text getenv (drop 1 []) = Some t'" using t'(2) unfolding Nil .
      then have t0: "t' = []" by simp
      have "?line = (pre @ (c # ?n) @ [0]) @ 0 # r" using sp Nil by simp
      moreover have "length pre + length ?n + 2 = length (pre @ (c # ?n) @ [0])" by simp
      ultimately have "parse_loop getenv ?line (length pre + length ?n + 2) (length d + length v) (d @ v @ drop (length v) b) =
          Inr (Some (length d + length v, d @ v @ drop (length v) b))" by (metis parse_loop_end)
      then show ?thesis using step t' t0 by simp
    next
      case (Cons x u)
      define n where "n = ?n"
      have s: "s = n @ x # u" unfolding n_def Cons [symmetric] by simp
      have line: "?line = (pre @ (c # n) @ [x]) @ u @ 0 # 0 # r" unfolding s by simp
      have sub: "y \<in> set u \<Longrightarrow> y \<in> set s" for y unfolding s by simp
      have u: "drop 1 (dropWhile isalnum s) = u" unfolding Cons by simp
      have e: "expand_text getenv u = Some t'" using t'(2) unfolding u .
      have "parse_loop getenv ((pre @ (c # n) @ [x]) @ u @ 0 # 0 # r) (length (pre @ (c # n) @ [x])) (length (d @ v))
          ((d @ v) @ drop (length v) b) =
        Inr (Some (length (d @ v) + length t', (d @ v) @ t' @ drop (length t') (drop (length v) b)))"
        by (rule "2.IH"(1) [OF True v t'(1), unfolded u, OF e])
          (use "2.prems" t'(3) sub in auto)
      then show ?thesis unfolding step using t'(3) by (subst line) (simp add: add.commute n_def)
    qed
  qed
qed

lemma parse_command_expands:
  assumes "expand_text getenv s = Some t" and "0 \<notin> set s" and "0x0A \<notin> set s" and "0 \<notin> set t" and "length t < BUF_SIZE"
    and "length b = BUF_SIZE"
  shows "\<exists>m. parse_command getenv (s @ 0 # 0 # r) b = Inr (Some m) \<and> c_string m = t \<and> length m = BUF_SIZE"
proof -
  have "parse_loop getenv (s @ 0 # 0 # r) 0 0 b = Inr (Some (length t, t @ drop (length t) b))"
    using parse_loop_text [OF assms(1-3), of "[]" b "[]" r] assms(5,6) by simp
  moreover obtain x u where "drop (length t) b = x # u" using assms(5,6) by (cases "drop (length t) b") auto
  moreover have "takeWhile (\<lambda>c. c \<noteq> 0) (t @ 0 # u) = t" using assms(4) by (simp add: takeWhile_append)
  moreover have "length (t @ drop (length t) b) = BUF_SIZE" using assms(5,6) by simp
  ultimately show ?thesis by (simp add: parse_command_def put_byte_def c_string_def list_update_append)
qed

text \<open>
  C33. Variables are replaced as \<open>expand_text\<close> says, when all are set and the result fits: the string in the buffer
  is the text with every variable, together with the character that follows it, replaced by its value.
\<close>

theorem parse_expands:
  assumes "expand_text getenv s = Some t" and "0 \<notin> set s" and "0x0A \<notin> set s" and "0 \<notin> set t" and "length t < BUF_SIZE"
    and "length b = BUF_SIZE"
  shows "\<exists>m. parse_command getenv (s @ 0 # 0 # r) b = Inr (Some m) \<and> c_string m = t \<and> length m = BUF_SIZE"
  using assms by (rule parse_command_expands)

theorem parse_expands_witness:
  "\<exists>m. parse_command [[0x41] \<mapsto> [0x2F]] ([0x6C, 0x73, 0x20, 0x24, 0x41, 0x2F, 0x62] @ 0 # 0 # []) (replicate 1024 0) = Inr (Some m) \<and>
    c_string m = [0x6C, 0x73, 0x20, 0x2F, 0x62] \<and> length m = BUF_SIZE"
proof (rule parse_expands)
  show "expand_text [[0x41] \<mapsto> [0x2F]] [0x6C, 0x73, 0x20, 0x24, 0x41, 0x2F, 0x62] = Some [0x6C, 0x73, 0x20, 0x2F, 0x62]"
    by (simp add: isalnum_def)
qed (simp_all add: BUF_SIZE_def)

section \<open>A round of the shell\<close>

lemma stored_line:
  assumes "Suc (length line) < BUF_SIZE"
  shows "get_line (Some (line @ [10])) m = line @ 10 # 0 # drop (length line + 2) m"
  using assms by (simp add: get_line_def Let_def)

text \<open>
  C23. A command line is run as it is meant: when its variables are set and it is not an assignment, a round of the shell shows
  the prompt and runs the command whose arguments are the pieces of the expanded line, in the environment of the shell.
\<close>

theorem shell_runs_line:
  assumes "expand_text (sh_env (print_prompt s)) line = Some t" and "line \<noteq> []" and "0 \<notin> set line" and "0x0A \<notin> set line"
    and "Suc (length line) < BUF_SIZE" and "0 \<notin> set t" and "0x3D \<notin> set t" and "length t < BUF_SIZE" and "length (buffer2 s) = BUF_SIZE"
  shows "\<exists>m b. shell_step e usable exec argv0 (Some (line @ [10])) s =
    run_command e usable exec argv0 (pieces t) ((print_prompt s)\<lparr>sh_line := m, buffer2 := b\<rparr>)"
proof -
  let ?p = "print_prompt s"
  obtain rest where g: "get_line (Some (line @ [10])) (sh_line ?p) = line @ 10 # 0 # rest" using stored_line [OF assms(5)] by blast
  let ?m = "line @ 0 # 0 # rest"
  have c: "c_string (line @ 10 # 0 # rest) = line @ [10]" using assms(3) by (simp add: c_string_def takeWhile_append)
  have "length (buffer2 ?p) = BUF_SIZE" using assms(9) by (simp add: print_prompt_def split: option.splits)
  then obtain b where b: "parse_command (sh_env ?p) ?m (buffer2 ?p) = Inr (Some b)" "c_string b = t"
    using parse_command_expands [OF assms(1,3,4,6,8)] by blast
  obtain command tokens where tk: "tokenize_command b = Inr (command, tokens)" "arguments command tokens = pieces t"
    using tokenize_pieces [of b] b(2) by auto
  have "shell_step e usable exec argv0 (Some (line @ [10])) s = run_command e usable exec argv0 (pieces t) (?p\<lparr>sh_line := ?m, buffer2 := b\<rparr>)"
    using assms(2,7) b tk by (simp add: shell_step_def Let_def g c list_update_append)
  then show ?thesis by blast
qed

definition demo_shell :: shell where
  "demo_shell = \<lparr>sh_line = replicate 1024 0, buffer2 = replicate 1024 0, sh_env = [PS1 \<mapsto> [0x3E], [0x41] \<mapsto> [0x2F]], sh_output = [], fg_pid = 0,
     sh_libc = demo_caller\<rparr>"

theorem shell_runs_line_witness:
  "\<forall>e usable exec argv0. \<exists>m b. shell_step e usable exec argv0 (Some [0x6C, 0x73, 0x20, 0x24, 0x41, 10]) demo_shell =
    run_command e usable exec argv0 [[0x6C, 0x73], [0x2F]] (demo_shell\<lparr>sh_output := [0x3E], sh_line := m, buffer2 := b\<rparr>)"
proof (intro allI)
  fix e :: environment and usable exec argv0
  have p: "print_prompt demo_shell = demo_shell\<lparr>sh_output := [0x3E]\<rparr>" by (simp add: print_prompt_def demo_shell_def PS1_def)
  have x: "expand_text (sh_env (print_prompt demo_shell)) [0x6C, 0x73, 0x20, 0x24, 0x41] = Some [0x6C, 0x73, 0x20, 0x2F]"
    unfolding p by (simp add: demo_shell_def isalnum_def PS1_def)
  have "\<exists>m b. shell_step e usable exec argv0 (Some ([0x6C, 0x73, 0x20, 0x24, 0x41] @ [10])) demo_shell =
    run_command e usable exec argv0 (pieces [0x6C, 0x73, 0x20, 0x2F]) ((print_prompt demo_shell)\<lparr>sh_line := m, buffer2 := b\<rparr>)"
    by (rule shell_runs_line [OF x]) (simp_all add: BUF_SIZE_def demo_shell_def)
  then show "\<exists>m b. shell_step e usable exec argv0 (Some [0x6C, 0x73, 0x20, 0x24, 0x41, 10]) demo_shell =
    run_command e usable exec argv0 [[0x6C, 0x73], [0x2F]] (demo_shell\<lparr>sh_output := [0x3E], sh_line := m, buffer2 := b\<rparr>)"
    by (simp add: p)
qed

lemma read_name_long:
  "\<forall>c\<in>set n. isalnum c \<Longrightarrow> 64 \<le> i + length n \<Longrightarrow> i \<le> 64 \<Longrightarrow> read_name (n @ r) i = Inl Overrun"
proof (induction n arbitrary: i)
  case Nil
  then show ?case by (cases r) auto
next
  case (Cons c n)
  then have "c \<noteq> 0" by (auto simp: isalnum_def)
  then show ?case using Cons by simp
qed

text \<open>
  A name of 64 letters or digits or more is written behind the end of its array, whatever follows and whether or not the
  variable is set.
\<close>

theorem long_name_overruns:
  assumes "\<forall>c\<in>set n. isalnum c" and "64 \<le> length n"
  shows "parse_command getenv (0x24 # n @ r) b = Inl Overrun"
  using read_name_long [OF assms(1), of 0 r] assms(2)
  by (simp add: parse_command_def parse_loop.simps [of _ _ 0])

theorem long_name_overruns_witness: "parse_command (\<lambda>_. None) (0x24 # replicate 70 0x41 @ [0, 0]) (replicate 1024 0) = Inl Overrun"
  by (rule long_name_overruns) (simp_all add: isalnum_def)

end
