(* ===== verification/Dispatch.thy ===== *)
theory Dispatch imports Syscalls Devices Console begin

text \<open>
  The whole machine: the dispatch of interrupts to their handlers (\<^verbatim>\<open>kernel/arch/idt.c\<close>) and the start of the kernel
  (\<^verbatim>\<open>kernel/boot/kinit.c\<close>), which puts all components together.
\<close>

section \<open>Interrupt handlers\<close>

datatype int_handler = PageFaultHandler | SwitchHandler | TimerTick | SyscallHandler | KeyboardHandler

definition NUM_INTERRUPTS :: nat where "NUM_INTERRUPTS = 256"
definition IRQ_TIMER :: nat where "IRQ_TIMER = 0"
definition IRQ_KBD :: nat where "IRQ_KBD = 1"

definition IRQ2INT :: "nat \<Rightarrow> nat" where
  "IRQ2INT n = n + 32"

definition ISIRQ :: "nat \<Rightarrow> bool" where
  "ISIRQ n \<longleftrightarrow> n \<ge> 32 \<and> n \<le> 47"

text \<open>
  The descriptor of the task state segment and the segment itself; its stack pointer is \<open>esp0\<close> of the kernel. The other
  segment registers are one list.
\<close>

record gdt_entry =
  limit_l :: u16
  gbase_l :: u16
  base_m :: u8
  access :: u8
  limit_h :: "4 word"
  gdt_flags :: "4 word"
  gbase_h :: u8

record tss =
  ptl :: u32
  ss0 :: u32
  unused :: "u32 list"
  tss_segments :: "u32 list"
  ldt :: u32
  trap :: u16
  iomap :: u16

definition set_gdt_base :: "u32 \<Rightarrow> gdt_entry \<Rightarrow> gdt_entry" where
  "set_gdt_base b d = d\<lparr>gbase_l := ucast (b AND 0xFFFF), base_m := ucast (drop_bit 16 b AND 0xFF), gbase_h := ucast (drop_bit 24 b AND 0xFF)\<rparr>"

definition set_gdt_limit :: "u32 \<Rightarrow> gdt_entry \<Rightarrow> gdt_entry" where
  "set_gdt_limit l d = d\<lparr>limit_l := ucast (l AND 0xFF), limit_h := ucast (l AND 0x0F)\<rparr>"

definition GDT_TSS :: nat where "GDT_TSS = 5"
definition tss_size :: u32 where "tss_size = 104"

record system =
  kern :: kernel
  gdt :: "gdt_entry list"
  global_tss :: tss
  screen_state :: console
  kbd_dev :: keyboard
  int_handlers :: "int_handler option list"
  idt :: "idt_entry list"
  syscall_handlers :: "u32 \<Rightarrow> call option"
  ticks :: u32
  kernel_symbols :: kernel_elf
  debug_enabled :: bool
  port_log :: "(u16 \<times> u8) list"

definition register_int_handler :: "nat \<Rightarrow> int_handler \<Rightarrow> system \<Rightarrow> (int_handler option \<times> system) res" where
  "register_int_handler num h s =
     (if num < length (int_handlers s)
      then Inr (int_handlers s ! num, s\<lparr>int_handlers := (int_handlers s)[num := Some h]\<rparr>) else Inl Overrun)"

definition outb_all :: "(u16 \<times> u8) list \<Rightarrow> system \<Rightarrow> system" where
  "outb_all os s = s\<lparr>port_log := port_log s @ os\<rparr>"

text \<open>What a handler reads from the hardware: the address of a page fault, and the keyboard controller.\<close>

record hardware =
  cr2 :: u32
  kbd_status :: "u8 list"
  kbd_data :: u8

definition regs_at :: "reg_ptr \<Rightarrow> kernel \<Rightarrow> registers res" where
  "regs_at r k = (case r of ThreadRegs t \<Rightarrow> andthen (thread_of t k) (\<lambda>v. Inr (regs v)) | Frame f \<Rightarrow> deref (frames k f))"

definition from_user :: "registers \<Rightarrow> bool" where
  "from_user r \<longleftrightarrow> r_cs r AND 3 = 3"

text \<open>A handler: the registers to continue with, or a call of \<open>schedule\<close> inside the handler.\<close>

fun run_handler :: "environment \<Rightarrow> hardware \<Rightarrow> int_handler \<Rightarrow> reg_ptr \<Rightarrow> system \<Rightarrow> (reg_ptr outcome \<times> system) res" where
  "run_handler e hw PageFaultHandler r s =
     andthen (regs_at r (kern s)) (\<lambda>v.
     andthen (page_fault_handler (cr2 hw) (r_err_code v) (r_cs v AND 3 \<noteq> 0) (kern s)) (\<lambda>(out, k).
     Inr (case out of Returns _ \<Rightarrow> Returns r | Sleeps w \<Rightarrow> Sleeps w, s\<lparr>kern := k\<rparr>)))"
| "run_handler e hw SwitchHandler r s =
     andthen (switch_kernel_thread (Some r) (kern s)) (\<lambda>(n, k).
     andthen (deref n) (\<lambda>n. Inr (Returns n, s\<lparr>kern := k\<rparr>)))"
| "run_handler e hw TimerTick r s =
     (let (t, resched) = timer_tick (ticks s); s = s\<lparr>ticks := t\<rparr>
      in Inr (if resched then Sleeps [] else Returns r, s))"
| "run_handler e hw SyscallHandler r s =
     (if r = ThreadRegs (current (kern s))
      then andthen (syscall_handler e (syscall_handlers s) (kern s)) (\<lambda>(out, k).
           Inr (case out of Returns _ \<Rightarrow> Returns r | Sleeps w \<Rightarrow> Sleeps w, s\<lparr>kern := k\<rparr>))
      else Inl BadPtr)"
| "run_handler e hw KeyboardHandler r s =
     andthen (keyboard_handler (kbd_status hw) (kbd_data hw) (kbd_dev s) (kern s)) (\<lambda>(out, kb, k).
     Inr (case out of Returns _ \<Rightarrow> Returns r | Sleeps w \<Rightarrow> Sleeps w, s\<lparr>kbd_dev := kb, kern := k\<rparr>))"

text \<open>
  The common handler. Without a handler of its own an interrupt request is ignored, and any other interrupt stops the
  machine.
\<close>

definition idt_handler :: "environment \<Rightarrow> hardware \<Rightarrow> reg_ptr \<Rightarrow> system \<Rightarrow> (reg_ptr outcome \<times> system) res" where
  "idt_handler e hw r s =
     andthen (regs_at r (kern s)) (\<lambda>v.
     let n = unat (r_int_no v); s = outb_all (ack_irq (r_int_no v)) s in
     if n \<ge> length (int_handlers s) then Inl Overrun
     else
      case int_handlers s ! n of
        Some h \<Rightarrow>
          andthen (run_handler e hw h r s) (\<lambda>(out, s).
          case out of
            Sleeps w \<Rightarrow> Inr (Sleeps w, s)
          | Returns ret \<Rightarrow>
             andthen (regs_at ret (kern s)) (\<lambda>v.
             if from_user v
             then (case ret of
                     Frame _ \<Rightarrow> Inl BadPtr
                   | ThreadRegs t \<Rightarrow>
                      andthen (to_user t (kern s)) (\<lambda>(out, k).
                      Inr (case out of Returns t \<Rightarrow> Returns (ThreadRegs t) | Sleeps w \<Rightarrow> Sleeps w, s\<lparr>kern := k\<rparr>)))
             else Inr (Returns ret, s)))
      | None \<Rightarrow> if \<not> ISIRQ n then Inl Hang else Inr (Returns r, s))"

section \<open>The start of the kernel\<close>

text \<open>\<open>base\<close> is the address of the task state segment; loading the task register is left out.\<close>

definition tss_init :: "u32 \<Rightarrow> system \<Rightarrow> system res" where
  "tss_init base s =
     (if GDT_TSS < length (gdt s)
      then let d = set_gdt_limit tss_size (set_gdt_base base (gdt s ! GDT_TSS)) in
           Inr (s\<lparr>gdt := (gdt s)[GDT_TSS := d\<lparr>gdt_flags := 0, access := 0x89\<rparr>],
                  global_tss := \<lparr>ptl = 0, ss0 = SEG_KERNEL_DATA, unused = replicate 15 0, tss_segments = replicate 6 0, ldt = 0,
                                 trap = 0, iomap = ucast tss_size\<rparr>\<rparr>)
      else Inl Overrun)"

definition pic_setup :: "(u16 \<times> u8) list" where
  "pic_setup = [(0x20, 0x11), (0xA0, 0x11), (0x21, 0x20), (0xA1, 0x28), (0x21, 0x04), (0xA1, 0x02), (0x21, 0x01), (0xA1, 0x01),
     (0x21, 0x00), (0xA1, 0x00)]"

definition setup_interrupts :: "(nat \<Rightarrow> u32) \<Rightarrow> system \<Rightarrow> system" where
  "setup_interrupts isr s =
     (outb_all pic_setup s)\<lparr>idt := idt_init isr, int_handlers := replicate NUM_INTERRUPTS None\<rparr>"

definition start_timer :: "u32 \<Rightarrow> system \<Rightarrow> system res" where
  "start_timer freq s =
     andthen (register_int_handler (IRQ2INT IRQ_TIMER) TimerTick s) (\<lambda>(_, s).
     andthen (timer_init freq) (\<lambda>(t, os). Inr (outb_all os (s\<lparr>ticks := t\<rparr>))))"

definition start_syscalls :: "system \<Rightarrow> system res" where
  "start_syscalls s =
     andthen (register_int_handler (unat INT_SYSCALL) SyscallHandler s) (\<lambda>(_, s).
     Inr (s\<lparr>syscall_handlers := syscall_init\<rparr>))"

definition start_keyboard :: "u8 list \<Rightarrow> u8 list \<Rightarrow> system \<Rightarrow> system res" where
  "start_keyboard junk1 junk2 s =
     andthen (keyboard_init junk1 junk2 (kern s)) (\<lambda>(kb, k).
     andthen (register_int_handler (IRQ2INT IRQ_KBD) KeyboardHandler (s\<lparr>kbd_dev := kb, kern := k\<rparr>)) (\<lambda>(_, s). Inr s))"

definition on_kern :: "(kernel \<Rightarrow> kernel res) \<Rightarrow> system \<Rightarrow> system res" where
  "on_kern f s = andthen (f (kern s)) (\<lambda>k. Inr (s\<lparr>kern := k\<rparr>))"

definition MBOOT_MAGIC2 :: u32 where "MBOOT_MAGIC2 = 0x2BADB002"

text \<open>
  What the boot takes from outside: the section headers of the kernel's executable, the addresses of the stubs and of the idle
  loop, the mode with which the C library opens a file for writing, and what \<open>malloc\<close> leaves in fresh memory.
\<close>

record boot_info =
  kernel_sections :: "elf_section list"
  stubs :: "nat \<Rightarrow> u32"
  idle_address :: u32
  tss_address :: u32
  fopen_w :: u32
  junk_kbd :: "u8 list"
  junk_raw :: "u8 list"
  junk_header :: "u8 list"
  junk_pheads :: "u8 list"

text \<open>\<open>vfs_mount(path, tarfs_init(location))\<close>, and the mount of the debug device.\<close>

definition mount_tarfs :: "string \<Rightarrow> u32 \<Rightarrow> kernel \<Rightarrow> kernel res" where
  "mount_tarfs path loc k =
     andthen (on_fs (tarfs_init loc) k) (\<lambda>(n, k).
     andthen (on_fs (vfs_mount path n) k) (\<lambda>(_, k). Inr k))"

definition mount_debug :: "kernel \<Rightarrow> kernel res" where
  "mount_debug k =
     (let (n, s) = debug_dev_init (kfs k)
      in andthen (on_fs (vfs_mount ''/dev/debug'' n) (k\<lparr>kfs := s\<rparr>)) (\<lambda>(_, k). Inr k))"

text \<open>The memory, up to the switch to the kernel's own page directory; the result is where the tar file lies.\<close>

definition init_memory :: "u32 \<Rightarrow> kernel \<Rightarrow> (u32 \<times> kernel) res" where
  "init_memory mboot k =
     andthen (vload (mboot + 24) (mvm (kmm k))) (\<lambda>mods_addr.
     let mods = assert_higher mods_addr in
     andthen (do_mm (on_vm (pmm_init mboot)) k) (\<lambda>k.
     andthen (vload (mods + 4) (mvm (kmm k))) (\<lambda>mod_end.
     andthen (do_mm (on_vm (vmm_init mod_end)) k) (\<lambda>k.
     andthen (vload mods (mvm (kmm k))) (\<lambda>mod_start. Inr (assert_higher mod_start, k))))))"

text \<open>The first program: it is loaded by the boot thread, and gets a thread of its own.\<close>

definition start_init :: "boot_info \<Rightarrow> kernel \<Rightarrow> kernel res" where
  "start_init b k =
     andthen (sys_execve (junk_header b) (junk_header b) (junk_pheads b) ''/bin/init'' None None k) (\<lambda>(_, k).
     andthen (current_proc k) (\<lambda>p.
     andthen (pmm_of p (kmm k)) (\<lambda>v.
     andthen (new_thread (code_entry (mm v)) True k) (\<lambda>(t, k).
     andthen (current_proc k) (\<lambda>p.
     upd_thread t (\<lambda>v. v\<lparr>proc := Some p\<rparr>) k)))))"

definition kinit :: "boot_info \<Rightarrow> u32 \<Rightarrow> u32 \<Rightarrow> system \<Rightarrow> (reg_ptr option \<times> system) res" where
  "kinit b mboot magic s =
     (let s = s\<lparr>screen_state := kdbg_init (screen_state s), port_log := port_log s @ init_serial SERIAL_COM1\<rparr> in
      if magic \<noteq> MBOOT_MAGIC2 then Inl Panic
      else
       let s = s\<lparr>kernel_symbols := kernel_elf_init (kernel_sections b) (kernel_symbols s)\<rparr> in
       andthen (init_memory mboot (kern s)) (\<lambda>(tar, k).
       let s = setup_interrupts (stubs b) (s\<lparr>kern := k\<rparr>) in
       andthen (tss_init (tss_address b) s) (\<lambda>s.
       andthen (register_int_handler (unat INT_PF) PageFaultHandler s) (\<lambda>(_, s).
       andthen (register_int_handler (unat INT_SCHEDULE) SwitchHandler s) (\<lambda>(_, s).
       andthen (on_kern (do_sched scheduler_init) s) (\<lambda>s.
       andthen (start_timer 500 s) (\<lambda>s.
       andthen (start_syscalls s) (\<lambda>s.
       andthen (process_init (idle_address b) (kern s)) (\<lambda>(_, k).
       let s = s\<lparr>kern := k\<lparr>kfs := vfs_init (kfs k)\<rparr>, debug_enabled := True\<rparr> in
       andthen (on_kern (mount_tarfs ''/'' tar) s) (\<lambda>s.
       andthen (on_kern (mount_tarfs ''/mnt/tarfs'' tar) s) (\<lambda>s.
       andthen (on_kern mount_debug s) (\<lambda>s.
       andthen (start_keyboard (junk_kbd b) (junk_raw b) s) (\<lambda>s.
       andthen (sys_open 0 ''/dev/debug'' (fopen_w b) (kern s)) (\<lambda>(_, k).
       andthen (sys_open 0 ''/dev/debug'' (fopen_w b) k) (\<lambda>(_, k).
       andthen (start_init b k) (\<lambda>k.
       andthen (switch_kernel_thread None k) (\<lambda>(r, k). Inr (r, s\<lparr>kern := k\<rparr>))))))))))))))))))"

end
