(* ===== verification/DispatchProps.thy ===== *)
theory DispatchProps imports Dispatch FdProps begin

text \<open>
  Which interrupts there are: the gates of the interrupt table, the handlers that are installed when the kernel has
  started, and the acknowledgement of interrupt requests.
\<close>

section \<open>The table\<close>

definition no_gate :: idt_entry where
  "no_gate = \<lparr>base_l = 0, segment = 0, reserved = 0, idt_flags = 0, base_h = 0\<rparr>"

definition kernel_gate :: "u32 \<Rightarrow> idt_entry" where
  "kernel_gate a = (if a = 0 then no_gate else
     \<lparr>base_l = ucast a, segment = 0x08, reserved = 0, idt_flags = IDT_PRESENT OR IDT_INT_GATE, base_h = ucast (drop_bit 16 a)\<rparr>)"

lemma gate_base [simp]: "idt_base (kernel_gate a) = a"
proof -
  have "ucast (ucast a :: u16) OR push_bit 16 (ucast (ucast (drop_bit 16 a) :: u16)) = a"
    by (rule bit_word_eqI) (auto simp: bit_simps)
  then show ?thesis by (simp add: kernel_gate_def idt_base_def no_gate_def)
qed

lemma fill_gates:
  "n \<le> length t \<Longrightarrow> \<forall>i<length t. t ! i = no_gate \<Longrightarrow>
    fold (\<lambda>i idt. idt_set i (a i) 0x08 (IDT_PRESENT OR IDT_INT_GATE) idt) [0..<n] t =
      map (\<lambda>i. if i < n then kernel_gate (a i) else no_gate) [0..<length t]"
proof (induction n)
  case 0
  then show ?case by (intro nth_equalityI) auto
next
  case (Suc n)
  then have "fold (\<lambda>i idt. idt_set i (a i) 0x08 (IDT_PRESENT OR IDT_INT_GATE) idt) [0..<Suc n] t =
      idt_set n (a n) 0x08 (IDT_PRESENT OR IDT_INT_GATE) (map (\<lambda>i. if i < n then kernel_gate (a i) else no_gate) [0..<length t])"
    by simp
  also have "\<dots> = map (\<lambda>i. if i < Suc n then kernel_gate (a i) else no_gate) [0..<length t]"
    using Suc.prems(1)
    by (intro nth_equalityI) (auto simp: idt_set_def kernel_gate_def nth_list_update less_Suc_eq split: if_splits)
  finally show ?case .
qed

lemma idt_gates:
  "idt_init isr = (map (\<lambda>i. kernel_gate (idt_raw isr i)) [0..<256])
     [128 := (kernel_gate (idt_raw isr 128))\<lparr>idt_flags := idt_flags (kernel_gate (idt_raw isr 128)) OR IDT_DPL_3\<rparr>,
      255 := (kernel_gate (idt_raw isr 255))\<lparr>idt_flags := idt_flags (kernel_gate (idt_raw isr 255)) OR IDT_DPL_3\<rparr>]"
proof -
  have "map (\<lambda>i. if i < 256 then kernel_gate (idt_raw isr i) else no_gate) [0..<256] = map (\<lambda>i. kernel_gate (idt_raw isr i)) [0..<256]"
    by (rule map_cong) auto
  with fill_gates [of 256 "replicate 256 no_gate" "idt_raw isr"]
  have f: "fold (\<lambda>i. idt_set i (idt_raw isr i) 0x08 (IDT_PRESENT OR IDT_INT_GATE)) [0..<256] (replicate 256 no_gate) =
      map (\<lambda>i. kernel_gate (idt_raw isr i)) [0..<256]" by (simp only: length_replicate nth_replicate) simp
  show ?thesis by (simp add: idt_init_def no_gate_def [symmetric] Let_def f del: upt_Suc)
qed

definition user_may_call :: "idt_entry \<Rightarrow> bool" where
  "user_may_call d \<longleftrightarrow> idt_flags d AND IDT_PRESENT \<noteq> 0 \<and> idt_flags d AND IDT_DPL_3 = IDT_DPL_3"

text \<open>
  C26. The interrupt table leads every interrupt that has a stub to its stub and has no other gate; user code may raise
  exactly the interrupts 128 and 255 by itself.
\<close>

theorem interrupt_gates:
  assumes "\<forall>i. has_stub i \<longrightarrow> isr i \<noteq> 0" and "i < 256"
  shows "idt_base (idt_init isr ! i) = (if has_stub i then isr i else 0) \<and>
    (idt_flags (idt_init isr ! i) AND IDT_PRESENT \<noteq> 0 \<longleftrightarrow> has_stub i) \<and>
    (user_may_call (idt_init isr ! i) \<longleftrightarrow> i = 128 \<or> i = 255)"
proof -
  have b: "idt_base (d\<lparr>idt_flags := f\<rparr>) = idt_base d" for d f by (simp add: idt_base_def)
  have st: "isr 128 \<noteq> 0" "isr 255 \<noteq> 0" "has_stub 128" "has_stub 255" using assms(1) by (auto simp: has_stub_def)
  have fl: "idt_flags (kernel_gate a) = (if a = 0 then 0 else 0x8E)" for a
    by (simp add: kernel_gate_def no_gate_def IDT_PRESENT_def IDT_INT_GATE_def)
  show ?thesis
    using assms st by (auto simp: idt_gates nth_list_update b fl idt_raw_def user_may_call_def IDT_PRESENT_def IDT_DPL_3_def)
qed

theorem interrupt_gates_witness:
  "user_may_call (idt_init (\<lambda>_. 0xC0101000) ! 255) \<and> \<not> user_may_call (idt_init (\<lambda>_. 0xC0101000) ! 14) \<and>
    idt_base (idt_init (\<lambda>_. 0xC0101000) ! 14) = 0xC0101000"
  using interrupt_gates [of "\<lambda>_. 0xC0101000" 255] interrupt_gates [of "\<lambda>_. 0xC0101000" 14] by (simp add: has_stub_def)

section \<open>The handlers\<close>

text \<open>The handlers that are installed when the kernel has started.\<close>

definition boot_handlers :: "int_handler option list" where
  "boot_handlers = (replicate 256 None)[14 := Some PageFaultHandler, 130 := Some SwitchHandler, 32 := Some TimerTick,
     128 := Some SyscallHandler, 33 := Some KeyboardHandler]"

lemma register_handler:
  "register_int_handler n h s = Inr (old, s') \<Longrightarrow> n < length (int_handlers s) \<and> s' = s\<lparr>int_handlers := (int_handlers s)[n := Some h]\<rparr>"
  by (auto simp: register_int_handler_def split: if_splits)

lemma on_kern_rest:
  "on_kern f s = Inr s' \<Longrightarrow> int_handlers s' = int_handlers s \<and> idt s' = idt s \<and> syscall_handlers s' = syscall_handlers s"
  by (auto simp: on_kern_def andthen_eq_Inr)

lemma kinit_installs:
  assumes "kinit b mboot magic s = Inr (r, s')"
  shows "int_handlers s' = boot_handlers \<and> idt s' = idt_init (stubs b) \<and> syscall_handlers s' = syscall_init"
  using assms
  by (auto simp: kinit_def tss_init_def Let_def andthen_eq_Inr setup_interrupts_def outb_all_def start_timer_def start_syscalls_def
      start_keyboard_def boot_handlers_def NUM_INTERRUPTS_def INT_PF_def INT_SCHEDULE_def INT_SYSCALL_def IRQ2INT_def
      IRQ_TIMER_def IRQ_KBD_def dest!: register_handler on_kern_rest split: if_splits)

text \<open>
  C28. When the kernel has started, an interrupt without a handler stops the machine, unless it is an interrupt request: then
  nothing happens but that the end-of-interrupt command (0x20) is sent to the first controller (port 0x20), and before it to the
  second one (port 0xA0) for the lines 9 to 15. The second controller has line 8 as well, which \<open>mask_int\<close> counts to it: a
  request there is never acknowledged where it came from. User code may call the gate 255 and so stop the machine.
\<close>

theorem unhandled_interrupt:
  assumes "int_handlers s = boot_handlers" and "regs_at r (kern s) = Inr v" and "unat (r_int_no v) < 256"
    and "unat (r_int_no v) \<notin> {14, 32, 33, 128, 130}"
  shows "idt_handler e hw r s =
      (let n = unat (r_int_no v) in
       if n < 32 \<or> 47 < n then Inl Hang
       else Inr (Returns r, s\<lparr>port_log := port_log s @ (if n \<le> 40 then [] else [(0xA0, 0x20)]) @ [(0x20, 0x20)]\<rparr>)) \<and>
    fst (mask_int 8 inb) = 0xA1"
proof
  let ?n = "unat (r_int_no v)"
  have "boot_handlers ! ?n = None" "length boot_handlers = 256"
    using assms(3,4) by (auto simp: boot_handlers_def nth_list_update)
  moreover have "int_handlers (outb_all os s) = boot_handlers" for os using assms(1) by (simp add: outb_all_def)
  moreover have "outb_all (ack_irq (r_int_no v)) s =
      s\<lparr>port_log := port_log s @ (if ?n \<le> 40 then [] else [(0xA0, 0x20)]) @ [(0x20, 0x20)]\<rparr>" if "32 \<le> ?n" "?n \<le> 47"
    using that by (auto simp: outb_all_def ack_irq_def word_le_nat_alt word_less_nat_alt unat_sub)
  ultimately show "idt_handler e hw r s =
      (let n = ?n in if n < 32 \<or> 47 < n then Inl Hang
       else Inr (Returns r, s\<lparr>port_log := port_log s @ (if n \<le> 40 then [] else [(0xA0, 0x20)]) @ [(0x20, 0x20)]\<rparr>))"
    using assms(1,2,3) by (auto simp: idt_handler_def Let_def ISIRQ_def)
  show "fst (mask_int 8 inb) = 0xA1" by (simp add: mask_int_def pic_line_def)
qed

definition demo_system :: "registers \<Rightarrow> system" where
  "demo_system v = \<lparr>kern = demo_empty\<lparr>frames := [0 \<mapsto> v]\<rparr>,
     gdt = replicate 6 \<lparr>limit_l = 0, gbase_l = 0, base_m = 0, access = 0, limit_h = 0, gdt_flags = 0, gbase_h = 0\<rparr>,
     global_tss = \<lparr>ptl = 0, ss0 = 0, unused = [], tss_segments = [], ldt = 0, trap = 0, iomap = 0\<rparr>,
     screen_state = \<lparr>vidmem = [], scrn_x = 0, scrn_y = 0, text_style = 7, cursor_out = []\<rparr>,
     kbd_dev = \<lparr>keyboard_pipe = 0, keyboard_raw = 0, kbd_state = 0\<rparr>, int_handlers = boot_handlers,
     idt = idt_init (\<lambda>_. 0xC0101000), syscall_handlers = syscall_init, ticks = 0,
     kernel_symbols = \<lparr>symtab = 0, symtab_size = 0, strtab = 0, strtab_size = 0\<rparr>, debug_enabled = True, port_log = []\<rparr>"

theorem unhandled_interrupt_witness:
  "\<forall>e hw. idt_handler e hw (Frame 0) (demo_system (zero_regs\<lparr>r_int_no := 255\<rparr>)) = Inl Hang \<and>
     (\<exists>s'. idt_handler e hw (Frame 0) (demo_system (zero_regs\<lparr>r_int_no := 44\<rparr>)) = Inr (Returns (Frame 0), s') \<and>
       port_log s' = [(0xA0, 0x20), (0x20, 0x20)])"
  using unhandled_interrupt [of "demo_system (zero_regs\<lparr>r_int_no := 255\<rparr>)" "Frame 0" "zero_regs\<lparr>r_int_no := 255\<rparr>"]
    unhandled_interrupt [of "demo_system (zero_regs\<lparr>r_int_no := 44\<rparr>)" "Frame 0" "zero_regs\<lparr>r_int_no := 44\<rparr>"]
  by (simp add: demo_system_def regs_at_def)

section \<open>The task state segment\<close>

text \<open>A descriptor as the processor reads it: the base and, in bytes because the flags are 0, the limit.\<close>

definition gdt_base :: "gdt_entry \<Rightarrow> u32" where
  "gdt_base d = ucast (gbase_l d) OR push_bit 16 (ucast (base_m d)) OR push_bit 24 (ucast (gbase_h d))"

definition gdt_limit :: "gdt_entry \<Rightarrow> nat" where
  "gdt_limit d = unat (limit_l d) + 0x10000 * unat (limit_h d)"

text \<open>The two bytes of the permission map that the processor reads for a port lie in the segment.\<close>

definition port_in_segment :: "tss \<Rightarrow> gdt_entry \<Rightarrow> u16 \<Rightarrow> bool" where
  "port_in_segment v d port \<longleftrightarrow> unat (iomap v) + unat port div 8 + 1 \<le> gdt_limit d"

lemma gdt_base_set: "gdt_base (set_gdt_base b d) = b"
proof -
  have m: "(0xFF :: u32) = mask 8" "(0xFFFF :: u32) = mask 16" by (simp_all add: mask_eq_exp_minus_1)
  have n: "24 + (n - 24) = n" if "\<not> n - 16 < 8" for n :: nat using that by simp
  show ?thesis unfolding gdt_base_def set_gdt_base_def m by (rule bit_word_eqI) (auto simp: bit_simps, (metis n)+)
qed

text \<open>
  C27. The descriptor of the task state segment has the right base, but its limit is \<open>0x80068\<close> instead of the last byte of the
  104: the limit's low byte is stored, and its low four bits again as the high part. So the whole permission map for
  ports lies inside of the segment, in whatever memory follows the structure, and no port is out of reach of user code for lack of a map.
\<close>

theorem tss_covers_port_map:
  assumes "tss_init base s = Inr s'"
  shows "gdt_base (gdt s' ! GDT_TSS) = base \<and> gdt_limit (gdt s' ! GDT_TSS) = 0x80068 \<and> unat (iomap (global_tss s')) = unat tss_size \<and>
    (\<forall>port. port_in_segment (global_tss s') (gdt s' ! GDT_TSS) port)"
proof -
  let ?d = "set_gdt_limit tss_size (set_gdt_base base (gdt s ! GDT_TSS))\<lparr>gdt_flags := 0, access := 0x89\<rparr>"
  have s: "gdt s' ! GDT_TSS = ?d" "iomap (global_tss s') = 104"
    using assms by (auto simp: tss_init_def tss_size_def split: if_splits)
  have "gdt_base ?d = gdt_base (set_gdt_base base (gdt s ! GDT_TSS))" by (simp add: gdt_base_def set_gdt_limit_def)
  moreover have l: "gdt_limit ?d = 0x80068" by (simp add: gdt_limit_def set_gdt_limit_def tss_size_def)
  moreover have "unat port div 8 \<le> 0x7FFFF" for port :: u16
  proof -
    have "unat port < 2 ^ LENGTH(16)" by (rule unsigned_less)
    then show ?thesis by simp
  qed
  then have "port_in_segment (global_tss s') ?d port" for port
    using s(2) l by (simp add: port_in_segment_def)
  ultimately show ?thesis using s by (simp add: gdt_base_set tss_size_def)
qed

theorem tss_covers_port_map_witness:
  "\<exists>s'. tss_init 0xC0123456 (demo_system zero_regs) = Inr s' \<and> gdt_base (gdt s' ! GDT_TSS) = 0xC0123456 \<and>
    port_in_segment (global_tss s') (gdt s' ! GDT_TSS) 0x60"
proof -
  obtain s' where "tss_init 0xC0123456 (demo_system zero_regs) = Inr s'"
    by (simp add: tss_init_def demo_system_def GDT_TSS_def)
  with tss_covers_port_map [OF this] show ?thesis by blast
qed

end
