(* ===== verification/AllocEffect.thy ===== *)
theory AllocEffect imports PmmSpec VmmProps begin

text \<open>
  What an allocation and the setting of an entry leave alone: the frames, the translations and the free pages that the callers
  of the allocator reason about.
\<close>

section \<open>Where the allocator writes\<close>

lemma alloc_memory:
  assumes ok: "pmm_ok s" and run: "pmm_alloc_page s = Inr (f, s')"
  shows "cr3 s' = cr3 s" "temp_sem s' = temp_sem s" "phys s' = phys s \<or> (\<exists>m<1024. phys s' = phys (set_pte s (spage m) 0))"
    "exdir_sem s' = exdir_sem s"
proof -
  note st = pmm_okD [OF ok]
  note fa = stack_ok_facts [OF st]
  have ne: "pmm_page_stack_ptr s \<noteq> PMM_PAGE_STACK" using run pmm_alloc_panics [OF ok] by auto
  have r: "pmm_running s" "pmm_sem s = 0" using ok by (auto simp: pmm_ok_def)
  have "cr3 s' = cr3 s \<and> temp_sem s' = temp_sem s \<and> exdir_sem s' = exdir_sem s \<and> (phys s' = phys s \<or> (\<exists>m<1024. phys s' = phys (set_pte s (spage m) 0)))"
  proof (cases "pmm_page_stack_ptr s < pmm_page_stack_max s - 0x1000")
    case False
    then show ?thesis using run r ne
      by (auto simp: pmm_alloc_page_eq pmm_alloc_body_def lock_pmm_def Let_def stack_page_size andthen_eq_Inr vload_def
          split: option.splits)
  next
    case True
    have "pmm_entries s \<noteq> 0" using ne stack_ok_ptr [OF st] by simp
    then obtain m where m: "pmm_pages s = Suc m" using fa(4) by (cases "pmm_pages s") auto
    then have lt: "m < 1024" using fa(5) by simp
    have max: "pmm_page_stack_max s - 0x1000 = spage m" using fa(6) m spage_pred [of "Suc m"] by simp
    let ?s1 = "s\<lparr>pmm_sem := 1, pmm_page_stack_max := spage m\<rparr>"
    have "vmm_page_set (spage m) 0 ?s1 = Inr (set_pte ?s1 (spage m) 0)"
      using fa(2) mapped_spage [OF fa(3) lt] by (intro vmm_page_set_present) auto
    moreover have "vmm_page_get (spage m) ?s1 = Inr (case hw_pte s (spage m) of None \<Rightarrow> 0 | Some e \<Rightarrow> e)"
      using fa(2) by (subst vmm_page_get_hw) auto
    ultimately have "s' = (set_pte ?s1 (spage m) 0)\<lparr>pmm_sem := 0\<rparr>"
      using run r ne True max
      by (simp add: pmm_alloc_page_eq pmm_alloc_body_def lock_pmm_def Let_def stack_page_size)
    then have "cr3 s' = cr3 s" "temp_sem s' = temp_sem s" "exdir_sem s' = exdir_sem s" "phys s' = phys (set_pte s (spage m) 0)" by (simp_all add: set_pte_def)
    with lt show ?thesis by blast
  qed
  then show "cr3 s' = cr3 s" "temp_sem s' = temp_sem s" "phys s' = phys s \<or> (\<exists>m<1024. phys s' = phys (set_pte s (spage m) 0))"
    "exdir_sem s' = exdir_sem s" by auto
qed

text \<open>An allocation leaves directories, all frames but that of the stack's table, and all translations outside of the stack.\<close>

lemma alloc_effect:
  assumes ok: "pmm_ok s" and run: "pmm_alloc_page s = Inr (f, s')"
  shows "pmm_ok s'" "f \<in> set (avail s)" "hw_pde s' = hw_pde s" "no_table s' = no_table s" "mapped_dir s' = mapped_dir s"
    "frame a \<noteq> table_frame s PMM_PAGE_STACK \<Longrightarrow> phys s' a = phys s a"
    "vmm_dir_idx x < 1022 \<Longrightarrow> vmm_dir_idx x \<noteq> vmm_dir_idx PMM_PAGE_STACK \<Longrightarrow> hw_pte s' x = hw_pte s x"
proof -
  note fa = stack_ok_facts [OF pmm_okD [OF ok]]
  note res = pmm_alloc_result [OF ok run]
  show "pmm_ok s'" using res by blast
  have "f \<in># mset (avail s)" using res by simp
  then show "f \<in> set (avail s)" by simp
  note mem = alloc_memory [OF ok run]
  have "hw_pde s' = hw_pde s \<and> no_table s' = no_table s \<and> mapped_dir s' = mapped_dir s \<and>
    (frame a \<noteq> table_frame s PMM_PAGE_STACK \<longrightarrow> phys s' a = phys s a) \<and>
    (vmm_dir_idx x < 1022 \<longrightarrow> vmm_dir_idx x \<noteq> vmm_dir_idx PMM_PAGE_STACK \<longrightarrow> hw_pte s' x = hw_pte s x)" for a x
  proof (cases "phys s' = phys s")
    case True
    then show ?thesis using mem(1) same_mem [of s' s] by simp
  next
    case False
    then obtain m where m: "m < 1024" "phys s' = phys (set_pte s (spage m) 0)" using mem(3) by blast
    have sm: "vmm_dir_idx (spage m) < 1022" "mapped_dir s (spage m)" "vmm_dir_idx (spage m) = vmm_dir_idx PMM_PAGE_STACK"
      using m(1) fa(3) by (auto simp: dir_idx_spage mapped_spage dir_idx_stack)
    have "cr3 s' = cr3 (set_pte s (spage m) 0)" using mem(1) by simp
    note same = same_mem [OF m(2) this]
    note e = set_pte_effect [OF fa(1) sm(1,2), where v = 0]
    have "frame (pte_pa (hw_pde s (spage m)) (spage m)) = table_frame s PMM_PAGE_STACK"
      using hw_pde_cong [OF sm(3), of s] by (simp add: table_frame_def)
    moreover have "vmm_table_idx x \<noteq> vmm_table_idx (spage m)" if "vmm_dir_idx x \<noteq> vmm_dir_idx PMM_PAGE_STACK"
      using that sm(3) table_idx_dir_idx by metis
    ultimately show ?thesis
      using same(1,2,4,6) m(2) e(2,4) set_pte_no_table [OF fa(1,3) m(1), of 0] by (auto simp: fun_eq_iff set_pte_def)
  qed
  then show "hw_pde s' = hw_pde s" "no_table s' = no_table s" "mapped_dir s' = mapped_dir s"
    "frame a \<noteq> table_frame s PMM_PAGE_STACK \<Longrightarrow> phys s' a = phys s a"
    "vmm_dir_idx x < 1022 \<Longrightarrow> vmm_dir_idx x \<noteq> vmm_dir_idx PMM_PAGE_STACK \<Longrightarrow> hw_pte s' x = hw_pte s x" by blast+
qed

text \<open>An allocation takes at most one entry of the stack, and it succeeds as long as there is one.\<close>

lemma pmm_alloc_entries:
  assumes ok: "pmm_ok s"
  shows "pmm_entries s = 0 \<Longrightarrow> pmm_alloc_page s = Inl Panic"
    "pmm_alloc_page s = Inr (f, t) \<Longrightarrow> pmm_entries s \<noteq> 0 \<and> pmm_entries s \<le> Suc (pmm_entries t)"
    "pmm_alloc_page s = Inl h \<Longrightarrow> h = Panic \<and> pmm_entries s = 0"
proof -
  note st = pmm_okD [OF ok]
  have run: "pmm_running s" "pmm_sem s = 0" using ok by (auto simp: pmm_ok_def)
  show z: "pmm_alloc_page s = Inl Panic" if "pmm_entries s = 0"
    using that stack_ok_ptr [OF st] by (intro pmm_alloc_panics [OF ok]) simp
  have ne: "\<exists>p s'. pmm_alloc_page s = Inr (p, s') \<and> pmm_entries s \<le> Suc (pmm_entries s')" if z: "pmm_entries s \<noteq> 0"
  proof -
    obtain n where n: "pmm_entries s = Suc n" using z by (cases "pmm_entries s") auto
    show ?thesis
    proof (cases "1024 * (pmm_pages s - 1) \<le> Suc n")
      case True
      then show ?thesis using alloc_from_entries [OF st [unfolded n] run True] stack_ok_counts(2) n by fastforce
    next
      case False
      then obtain m where m: "pmm_pages s = Suc m" by (cases "pmm_pages s") auto
      with False n have lt: "0 < pmm_entries s" "pmm_entries s < 1024 * m" by auto
      then show ?thesis using alloc_from_stack_page [OF st [unfolded m] run lt] stack_ok_counts(2) by fastforce
    qed
  qed
  show "pmm_alloc_page s = Inr (f, t) \<Longrightarrow> pmm_entries s \<noteq> 0 \<and> pmm_entries s \<le> Suc (pmm_entries t)"
    "pmm_alloc_page s = Inl h \<Longrightarrow> h = Panic \<and> pmm_entries s = 0"
    using z ne by (cases "pmm_entries s = 0"; fastforce)+
qed

text \<open>The state of the allocator depends on its variables, the entries of its pages and the content of their frames only.\<close>

lemma pmm_ok_transfer:
  assumes ok: "pmm_ok s"
    and vars: "pmm_page_stack_max t = pmm_page_stack_max s" "pmm_page_stack_ptr t = pmm_page_stack_ptr s" "pmm_running t = pmm_running s"
      "pmm_sem t = pmm_sem s"
    and tabs: "tables_ok t" "mapped_dir t PMM_PAGE_STACK = mapped_dir s PMM_PAGE_STACK" "no_table t = no_table s"
    and pte: "\<And>i. i < 1024 \<Longrightarrow> hw_pte t (spage i) = hw_pte s (spage i)"
    and mem: "\<And>i a. i < pmm_pages s \<Longrightarrow> frame a = sframe s i \<Longrightarrow> phys t a = phys s a"
  shows "pmm_ok t" "avail t = avail s"
proof -
  note st = pmm_okD [OF ok]
  note fa = stack_ok_facts [OF st]
  have sf: "sframe t i = sframe s i" if "i < 1024" for i using pte [OF that] by (simp add: sframe_def)
  have cnt: "pmm_pages t = pmm_pages s" "pmm_entries t = pmm_entries s" using vars by (simp_all add: pmm_pages_def pmm_entries_def)
  have i: "i < 1024" if "i < pmm_pages s" for i using that fa(5) by simp
  have inj: "inj_on (sframe t) {..<pmm_pages s}" using fa(8) sf i by (simp add: inj_on_def)
  have all: "\<forall>i<pmm_pages s. hw_pte t (spage i) \<noteq> None \<and> no_table t (sframe t i)"
    using stack_ok_page [OF st] pte sf i tabs(3) by simp
  have "stack_ok t (pmm_pages s) (pmm_entries s)" using st tabs(1,2) inj all vars(1,2) by (simp add: stack_ok_def)
  then show "pmm_ok t" using ok cnt vars(3,4) by (simp add: pmm_ok_def)
  have "entry t k = entry s k" if k: "k < pmm_entries s" for k
  proof -
    have p: "k div 1024 < pmm_pages s" by (rule stack_ok_entry_page [OF st k])
    show ?thesis using mem [OF p frame_entry_pa] sf [OF i [OF p]] by (simp add: entry_def entry_pa_def)
  qed
  then show "avail t = avail s" using cnt sf i by (simp add: avail_def)
qed

lemma sframe_no_table: "pmm_ok s \<Longrightarrow> i < pmm_pages s \<Longrightarrow> no_table s (sframe s i) \<and> sframe s i \<in> set (avail s)"
  using stack_ok_page(2) [OF pmm_okD] by (simp add: avail_def)

text \<open>Setting an entry of a table that is not the stack's leaves the allocator's pages as they are.\<close>

lemma set_pte_pmm_ok:
  assumes ok: "pmm_ok s" and va: "vmm_dir_idx va < 1022" "vmm_dir_idx va \<noteq> vmm_dir_idx PMM_PAGE_STACK" "mapped_dir s va"
  shows "pmm_ok (set_pte s va v)" "avail (set_pte s va v) = avail s"
proof -
  note fa = stack_ok_facts [OF pmm_okD [OF ok]]
  note e = set_pte_effect [OF fa(1) va(1,3), where v = v]
  note g = set_pte_no_table_gen [OF fa(1) va(1,3), of v]
  have pte: "hw_pte (set_pte s va v) (spage i) = hw_pte s (spage i)" if "i < 1024" for i
    using that va(2) table_idx_dir_idx [of "spage i" va] by (intro e(4)) (auto simp: dir_idx_spage dir_idx_stack)
  have mem: "phys (set_pte s va v) a = phys s a" if "i < pmm_pages s" "frame a = sframe s i" for i a
  proof -
    have "frame (pte_pa (hw_pde s va) va) \<noteq> frame a"
      using sframe_no_table [OF ok that(1)] va that(2) by (auto simp: no_table_def table_frame_def)
    then show ?thesis by (auto simp: set_pte_def)
  qed
  show "pmm_ok (set_pte s va v)" "avail (set_pte s va v) = avail s"
    using pmm_ok_transfer [OF ok, of "set_pte s va v"] e(1) g pte mem by simp_all
qed

section \<open>Frames that hold no table\<close>

lemma set_pte_outside:
  assumes "no_table s (frame a)" and "vmm_dir_idx va < 1022" and "mapped_dir s va"
  shows "phys (set_pte s va v) a = phys s a"
proof -
  have "frame (pte_pa (hw_pde s va) va) \<noteq> frame a" using assms by (auto simp: no_table_def table_frame_def)
  then show ?thesis by (auto simp: set_pte_def)
qed

lemma set_pte_base [simp]: "set_pte s (x AND PAGE_MASK) v = set_pte s x v"
  by (simp add: set_pte_def)

lemma pte_mapped: "hw_pte s x = Some e \<Longrightarrow> mapped_dir s x" "hw_pte s x = Some e \<Longrightarrow> e AND PAGE_PRESENT \<noteq> 0"
  by (auto simp: hw_pte_def mapped_dir_def Let_def split: if_splits)

lemma frame_flags [simp]: "frame x AND PAGE_FLAG_MASK = 0" "frame (frame x OR (y AND PAGE_FLAG_MASK)) = frame x"
  "(frame x OR (y AND PAGE_FLAG_MASK)) AND PAGE_FLAG_MASK = y AND PAGE_FLAG_MASK"
  unfolding frame_def by (rule bit_word_eqI; auto simp: bit_simps bitw)+

lemma user_dir: "y < KERNEL_OFFSET \<Longrightarrow> vmm_dir_idx y < 768"
proof -
  assume "y < KERNEL_OFFSET"
  then have "unat y < 0xC0000000" by (simp add: KERNEL_OFFSET_def word_less_nat_alt)
  moreover have "unat (vmm_dir_idx y) = unat y div 4194304" unfolding vmm_dir_idx_def unat_drop_bit_eq by (simp add: drop_bit_eq_div)
  ultimately show ?thesis by (simp add: word_less_nat_alt)
qed

end
