(* ===== verification/StackFaults.thy ===== *)
theory StackFaults imports AreaProps AllocEffect UserMemProps begin

text \<open>
  The first write to the stack of a new program (\<^verbatim>\<open>kernel/mem/procmm.c\<close>): its stack is an empty area, so that the write faults
  twice. The first fault adds the page below the area to the stack, the second one maps it, and then the write is done.
\<close>

section \<open>The two faults\<close>

lemma free_area_machine: "free_area a s = Inr s' \<Longrightarrow> mvm s' = mvm s"
  by (auto simp: free_area_def andthen_eq_Inr Let_def split: if_splits)

lemma glue_machine: "glue_left a s = Inr (b, s') \<Longrightarrow> mvm s' = mvm s" "glue_right a s = Inr s' \<Longrightarrow> mvm s' = mvm s"
  by (auto simp: glue_left_def glue_right_def upd_area_def put_area_def andthen_eq_Inr split: option.split_asm dest!: free_area_machine)

lemma new_area_machine:
  assumes "new_area p st en fl ty s = Inr (a, s')" and "fl AND MM_FLAG_ADDONUSE \<noteq> 0" shows "mvm s' = mvm s"
  using assms
  by (auto simp: new_area_def alloc_area_def put_area_def glue_area_def lock_procmm_def andthen_eq_Inr Let_def split: if_split_asm dest!: glue_machine)

text \<open>A page table that is missing is allocated, entered into the directory and cleared through its window.\<close>

lemma touch_new_table:
  assumes ok: "tables_ok m" and x: "x < KERNEL_OFFSET" and new: "\<not> mapped_dir m x" and al: "pmm_alloc_page m = Inr (T, m2)"
    and st: "pmm_ok m" and T: "no_table m T" "frame T = T" and fl: "fl AND PAGE_PRESENT \<noteq> 0"
  obtains t where "\<And>v. v AND PAGE_FLAG_MASK = fl AND PAGE_FLAG_MASK \<Longrightarrow> vmm_page_set (x AND PAGE_MASK) v m = Inr (set_pte t x v)"
    "tables_ok t" "mapped_dir t x" "\<And>g. no_table m g \<Longrightarrow> g \<noteq> T \<Longrightarrow> no_table t g"
proof -
  note a = alloc_effect [OF st al]
  have ok2: "tables_ok m2" using stack_ok_facts(1) [OF pmm_okD [OF a(1)]] .
  have d: "vmm_dir_idx x < 768" by (rule user_dir [OF x])
  define e where "e = T OR (fl AND PAGE_FLAG_MASK)"
  define m3 where "m3 = m2\<lparr>phys := (phys m2)(pde_pa (cr3 m2) x := e)\<rparr>"
  have pde3: "hw_pde m3 y = (if vmm_dir_idx y = vmm_dir_idx x then e else hw_pde m2 y)" for y
    using pde_pa_eq [of "cr3 m2" y x] by (simp add: hw_pde_def m3_def)
  have fe: "frame e = T" "e AND PAGE_PRESENT \<noteq> 0"
  proof -
    have "frame e = T AND PAGE_MASK" unfolding e_def frame_def by (rule bit_word_eqI) (auto simp: bit_simps bitw)
    then show "frame e = T" using T(2) by (simp add: frame_def)
    have "bit fl 0" using fl by (simp add: and_1_bit)
    then show "e AND PAGE_PRESENT \<noteq> 0" unfolding e_def by (simp add: and_1_bit bit_simps bitw)
  qed
  have nt2: "no_table m2 T" using T(1) a(4) by simp
  have m3: "mapped_dir m3 y \<longleftrightarrow> vmm_dir_idx y = vmm_dir_idx x \<or> mapped_dir m2 y"
    "table_frame m3 y = (if vmm_dir_idx y = vmm_dir_idx x then T else table_frame m2 y)" for y
    using fe by (simp_all add: mapped_dir_def table_frame_def pde3)
  have c3: "cr3 m3 = cr3 m2" by (simp add: m3_def)
  have last: "vmm_dir_idx VMM_PAGE_DIR \<noteq> vmm_dir_idx x" using d by (auto simp: VMM_PAGE_DIR_def vmm_dir_idx_def word_less_nat_alt)
  have r3: "rec_slot m3" using tables_ok_rec [OF ok2] last by (simp add: rec_slot_def pde3 c3)
  have n2: "T \<noteq> frame (cr3 m2)" "\<And>y. vmm_dir_idx y < 1022 \<Longrightarrow> mapped_dir m2 y \<Longrightarrow> table_frame m2 y \<noteq> T"
    using nt2 by (auto simp: no_table_def)
  have t2: "vmm_dir_idx y < 1022 \<Longrightarrow> mapped_dir m2 y \<Longrightarrow> table_frame m2 y \<noteq> frame (cr3 m2)"
    "vmm_dir_idx y < 1022 \<Longrightarrow> vmm_dir_idx z < 1022 \<Longrightarrow> mapped_dir m2 y \<Longrightarrow> mapped_dir m2 z \<Longrightarrow>
       table_frame m2 y = table_frame m2 z \<Longrightarrow> vmm_dir_idx y = vmm_dir_idx z" for y z
    using ok2 unfolding tables_ok_def by blast+
  have ok3: "tables_ok m3"
    unfolding tables_ok_def c3
  proof (intro conjI allI impI)
    fix y assume "vmm_dir_idx y < 1022" "mapped_dir m3 y"
    then show "table_frame m3 y \<noteq> frame (cr3 m2)" using n2(1) t2(1) [of y] unfolding m3 by (cases "vmm_dir_idx y = vmm_dir_idx x") simp_all
  next
    fix y z assume "vmm_dir_idx y < 1022" "vmm_dir_idx z < 1022" "mapped_dir m3 y" "mapped_dir m3 z" "table_frame m3 y = table_frame m3 z"
    then show "vmm_dir_idx y = vmm_dir_idx z"
      using n2(2) [of y] n2(2) [of z] t2(2) [of y z] unfolding m3
      by (cases "vmm_dir_idx y = vmm_dir_idx x"; cases "vmm_dir_idx z = vmm_dir_idx x") simp_all
  qed (rule r3)
  define t where "t = clear_frame T m3"
  have out: "phys t b = phys m3 b" if "frame b \<noteq> T" for b using that by (simp add: t_def clear_frame_def frame_def)
  have ct: "cr3 t = cr3 m3" by (simp add: t_def clear_frame_def)
  have T3: "T \<noteq> frame (cr3 m3)" using nt2 by (simp add: no_table_def c3)
  have pdet: "hw_pde t y = hw_pde m3 y" for y by (rule hw_pde_write [OF ct]) (use out T3 in auto)
  have okt: "tables_ok t" by (rule tables_ok_write [OF ok3 ct]) (use out T3 in auto)
  have mt: "mapped_dir t y = mapped_dir m3 y" "table_frame t y = table_frame m3 y" for y by (simp_all add: mapped_dir_def table_frame_def pdet)
  have tr: "mmu_translate m3 ((VMM_PAGE_TABLES + 4 * vmm_table_idx x) AND PAGE_MASK) = Some T"
  proof -
    have w: "mmu_translate m3 (VMM_PAGE_TABLES + 4 * vmm_table_idx x) = Some (pte_pa e x)"
      using translate_table_window [OF r3, of x] fe(2) by (simp add: pde3)
    let ?W = "VMM_PAGE_TABLES + 4 * vmm_table_idx x"
    obtain g where g: "hw_pte m3 ?W = Some g" "frame g OR (?W AND PAGE_FLAG_MASK) = pte_pa e x"
      using w by (auto simp: mmu_translate_def frame_def split: option.split_asm)
    have "frame g = T" using arg_cong [OF g(2), of frame] fe(1) by simp
    moreover have "hw_pte m3 (?W AND PAGE_MASK) = Some g" using g(1) hw_pte_cong [OF table_idx_base [of ?W], of m3] by simp
    moreover have "(?W AND PAGE_MASK) AND PAGE_FLAG_MASK = 0" using frame_flags(1) [of ?W] by (simp add: frame_def)
    ultimately show ?thesis by (simp add: mmu_translate_def frame_def)
  qed
  have user: "\<not> KERNEL_OFFSET \<le> x AND PAGE_MASK"
    using x word_and_le2 [of x PAGE_MASK] by (simp add: not_le le_less_trans)
  have pdx: "page_directory_get (vmm_dir_idx x) m = Inr (hw_pde m x)" by (rule page_directory_get_rec [OF tables_ok_rec [OF ok]])
  have di: "vmm_dir_idx (x AND PAGE_MASK) = vmm_dir_idx x" using table_idx_dir_idx [OF table_idx_base] .
  have set2: "page_directory_set (vmm_dir_idx x) e m2 = Inr m3"
    unfolding m3_def by (rule page_directory_set_rec [OF tables_ok_rec [OF ok2]])
  have clr: "vclear_page ((VMM_PAGE_TABLES + 4 * vmm_table_idx x) AND PAGE_MASK) m3 = Inr t"
    using vclear_page_frame [OF tr] T(2) by (simp add: t_def)
  have fin: "page_tables_set (vmm_table_idx x) v t = Inr (set_pte t x v)" for v
    using page_tables_set_rec [OF tables_ok_rec [OF okt], of x v] fe(2) by (simp add: pdet pde3 set_pte_def)
  have "vmm_page_set (x AND PAGE_MASK) v m = Inr (set_pte t x v)" if v: "v AND PAGE_FLAG_MASK = fl AND PAGE_FLAG_MASK" for v
    using new al set2 clr fin [of v] user
    by (simp add: vmm_page_set_def vmm_page_set_with_def vmm_page_touch_with_def Let_def page_mask_idem di pdx mapped_dir_def v and.assoc e_def)
  moreover have "no_table t g" if "no_table m g" "g \<noteq> T" for g
  proof -
    have "no_table m2 g" using that(1) a(4) by simp
    then show ?thesis using that(2) unfolding no_table_def mt m3 ct c3 by simp
  qed
  ultimately show thesis using that okt mt m3 by blast
qed

lemma add_on_use_page:
  assumes ok: "pmm_ok m" and room: "(if mapped_dir m x then 1 else 2) \<le> pmm_entries m" and x: "x < KERNEL_OFFSET"
    and free: "distinct (avail m)" "\<forall>g\<in>set (avail m). frame g = g \<and> no_table m g" and s: "mvm s = m"
  obtains f t where "add_on_use x fl s = Inr (s\<lparr>mvm := t\<rparr>)" "tables_ok t"
    "\<And>y. vmm_table_idx y = vmm_table_idx x \<Longrightarrow> data_page t y \<and> mmu_translate t y = Some (frame f OR (y AND PAGE_FLAG_MASK))"
proof -
  let ?w = "if fl AND MM_FLAG_WRITE \<noteq> 0 then PAGE_PRESENT OR PAGE_USER OR PAGE_WRITE else PAGE_PRESENT OR PAGE_USER"
  obtain f m1 where r: "pmm_alloc_page m = Inr (f, m1)"
    using pmm_alloc_entries(3) [OF ok] room by (cases "pmm_alloc_page m") (auto split: if_split_asm)
  note a = alloc_effect [OF ok r] and en = pmm_alloc_entries(2) [OF ok r]
  have f: "frame f = f" "no_table m1 f" using a(2,4) free(2) by auto
  define v where "v = vmm_page_val f ?w"
  have dx: "vmm_dir_idx x < 1022" using user_dir [OF x] by (rule less_trans) simp
  have ok1: "tables_ok m1" using stack_ok_facts(1) [OF pmm_okD [OF a(1)]] .
  have vp: "v AND PAGE_PRESENT \<noteq> 0" "frame v = frame f" "?w AND PAGE_PRESENT \<noteq> 0"
  proof -
    show "v AND PAGE_PRESENT \<noteq> 0" unfolding v_def page_val_present by (auto simp: and_1_bit bit_simps bitw PAGE_PRESENT_def)
    show "frame v = frame f" by (simp add: v_def frame_def)
    show "?w AND PAGE_PRESENT \<noteq> 0" by (auto simp: and_1_bit bit_simps bitw PAGE_PRESENT_def)
  qed
  obtain t where t: "vmm_page_set (x AND PAGE_MASK) v m1 = Inr (set_pte t x v)" "tables_ok t" "mapped_dir t x" "no_table t f"
  proof (cases "mapped_dir m x")
    case True
    then have mx: "mapped_dir m1 x" using a(5) by simp
    then have "vmm_page_set (x AND PAGE_MASK) v m1 = Inr (set_pte m1 x v)"
      using vmm_page_set_present [OF tables_ok_rec [OF ok1], of "x AND PAGE_MASK" v] mapped_dir_cong [of "x AND PAGE_MASK" x m1] by simp
    then show thesis using that ok1 mx f(2) by blast
  next
    case False
    then obtain T m2 where r2: "pmm_alloc_page m1 = Inr (T, m2)"
      using pmm_alloc_entries(3) [OF a(1)] room en by (cases "pmm_alloc_page m1") auto
    have T: "T \<in> set (avail m1)" using alloc_effect(2) [OF a(1) r2] .
    have ms: "mset (avail m) = add_mset f (mset (avail m1))" using pmm_alloc_result [OF ok r] by simp
    then have "T \<in> set (avail m)" using T by (metis insert_iff set_mset_add_mset_insert set_mset_mset)
    moreover have "T \<noteq> f" using free(1) ms T by (metis distinct.simps(2) mset.simps(2) mset_eq_imp_distinct_iff)
    ultimately have TT: "no_table m1 T" "frame T = T" "f \<noteq> T" using free(2) a(4) by auto
    have "\<not> mapped_dir m1 x" using False a(5) by simp
    from touch_new_table [OF ok1 x this r2 a(1) TT(1,2) vp(3)] obtain t where
      t: "\<And>v. v AND PAGE_FLAG_MASK = ?w AND PAGE_FLAG_MASK \<Longrightarrow> vmm_page_set (x AND PAGE_MASK) v m1 = Inr (set_pte t x v)"
      "tables_ok t" "mapped_dir t x" "\<And>g. no_table m1 g \<Longrightarrow> g \<noteq> T \<Longrightarrow> no_table t g" by blast
    have "v AND PAGE_FLAG_MASK = ?w AND PAGE_FLAG_MASK"
      unfolding v_def vmm_page_val_def by (rule bit_word_eqI) (auto simp: bit_simps bitw)
    then show thesis using that t f(2) TT(3) by blast
  qed
  let ?t = "set_pte t x v"
  note e = set_pte_effect [OF t(2) dx t(3), where v = v] and g = set_pte_no_table_gen [OF t(2) dx t(3), of v]
  have run: "add_on_use x fl s = Inr (s\<lparr>mvm := ?t\<rparr>)"
    using r s t(1) by (simp add: add_on_use_def on_vm_def v_def Let_def split: if_splits)
  have "data_page ?t y \<and> mmu_translate ?t y = Some (frame f OR (y AND PAGE_FLAG_MASK))" if y: "vmm_table_idx y = vmm_table_idx x" for y
  proof -
    have d: "vmm_dir_idx y = vmm_dir_idx x" by (rule table_idx_dir_idx [OF y])
    have "hw_pte ?t y = Some v" using e(3) vp(1) hw_pte_cong [OF y, of ?t] by simp
    then have tr: "mmu_translate ?t y = Some (frame f OR (y AND PAGE_FLAG_MASK))" using vp(2) by (simp add: mmu_translate_def frame_def)
    moreover have "no_table ?t (frame f)" using g t(4) f(1) by simp
    ultimately show ?thesis using d dx by (simp add: data_page_def)
  qed
  then show thesis using that run e(1) by blast
qed

lemma split_page: "x AND PAGE_MASK = y AND PAGE_MASK \<Longrightarrow> x AND PAGE_FLAG_MASK = y AND PAGE_FLAG_MASK \<Longrightarrow> x = (y :: u32)"
proof -
  assume a: "x AND PAGE_MASK = y AND PAGE_MASK" "x AND PAGE_FLAG_MASK = y AND PAGE_FLAG_MASK"
  have "z = (z AND PAGE_MASK) OR (z AND PAGE_FLAG_MASK)" for z :: u32 by (rule bit_word_eqI) (auto simp: bit_simps bitw)
  then show ?thesis using a by metis
qed

lemma page_base_cong: "vmm_table_idx x = vmm_table_idx y \<Longrightarrow> x AND PAGE_MASK = y AND PAGE_MASK"
proof -
  have "z AND PAGE_MASK = push_bit 12 (vmm_table_idx z)" for z
    unfolding vmm_table_idx_def by (rule bit_word_eqI) (auto simp: bit_simps bitw)
  then show "vmm_table_idx x = vmm_table_idx y \<Longrightarrow> x AND PAGE_MASK = y AND PAGE_MASK" by simp
qed

text \<open>The bytes of a page are a region.\<close>

lemma page_index:
  assumes "4096 dvd B" and "j < 4096" and "B + 4096 \<le> 2 ^ 32"
  shows "vmm_table_idx (of_nat (B + j)) = vmm_table_idx (of_nat B)"
proof -
  have "unat (of_nat (B + j) :: u32) = B + j" "unat (of_nat B :: u32) = B"
    using assms(2,3) by (auto simp: unsigned_of_nat take_bit_nat_eq_self simp del: of_nat_add)
  moreover have "(B + j) div 4096 = B div 4096" using assms(1,2) by (auto elim!: dvdE)
  ultimately have "unat (vmm_table_idx (of_nat (B + j))) = unat (vmm_table_idx (of_nat B))"
    unfolding vmm_table_idx_def unat_drop_bit_eq by (simp add: drop_bit_eq_div)
  then show ?thesis by (simp only: word_unat_eq_iff)
qed

lemma page_region:
  assumes page: "\<And>y. vmm_table_idx y = vmm_table_idx (of_nat B) \<Longrightarrow> data_page t y \<and> mmu_translate t y = Some (frame f OR (y AND PAGE_FLAG_MASK))"
    and B: "4096 dvd B" "B + 4096 \<le> 2 ^ 32" and lo: "B \<le> lo" "lo + n \<le> B + 4096"
  shows "region t (of_nat lo) n"
proof -
  have idx: "vmm_table_idx (of_nat lo + of_nat i) = vmm_table_idx (of_nat B)" if "i < n" for i
  proof -
    have "B + (lo - B + i) = lo + i" using lo(1) by simp
    then have "(of_nat lo + of_nat i :: u32) = of_nat (B + (lo - B + i))" by (metis of_nat_add)
    moreover have "lo - B + i < 4096" using lo that by simp
    ultimately show ?thesis using page_index [OF B(1) _ B(2)] by metis
  qed
  have at: "at t (of_nat lo) i = frame f OR ((of_nat lo + of_nat i) AND PAGE_FLAG_MASK)" if "i < n" for i
    using page [OF idx [OF that]] by (simp add: at_def)
  have "inj_on (at t (of_nat lo)) {..<n}"
  proof (rule inj_onI)
    fix i j assume a: "i \<in> {..<n}" "j \<in> {..<n}" "at t (of_nat lo) i = at t (of_nat lo) j"
    let ?x = "of_nat lo + of_nat i :: u32" and ?y = "of_nat lo + of_nat j :: u32"
    have "(frame f OR (?x AND PAGE_FLAG_MASK)) AND PAGE_FLAG_MASK = (frame f OR (?y AND PAGE_FLAG_MASK)) AND PAGE_FLAG_MASK"
      using a at by simp
    then have fl: "?x AND PAGE_FLAG_MASK = ?y AND PAGE_FLAG_MASK" by simp
    have "vmm_table_idx ?x = vmm_table_idx ?y" using a idx by simp
    then have "?x AND PAGE_MASK = ?y AND PAGE_MASK" by (rule page_base_cong)
    then have "?x = ?y" using fl by (rule split_page)
    then have "unat (of_nat (lo + i) :: u32) = unat (of_nat (lo + j) :: u32)" by simp
    then show "i = j" using a(1,2) lo B by (simp add: unsigned_of_nat take_bit_nat_eq_self del: of_nat_add)
  qed
  then show ?thesis using page idx by (simp add: region_def)
qed

section \<open>A fresh stack\<close>

text \<open>
  The state in which \<open>execve\<close> puts the first vector on the stack, after \<open>new_area\<close>: the stack of the current process \<open>p\<close> is
  an empty area at the top of user memory, the last one in its list; nothing lies in the page below, which is not mapped; and
  there is a free page for it, and one for the page table if there is none.
\<close>

definition fresh_stack :: "nat set \<Rightarrow> (nat \<Rightarrow> nat list) \<Rightarrow> nat \<Rightarrow> kernel \<Rightarrow> bool" where
  "fresh_stack P L p k \<longleftrightarrow>
     current_proc k = Inr p \<and> p \<in> P \<and> mm_view P (kmm k) L \<and> procmm_sem (kmm k) = 0 \<and>
     (\<exists>us b a pv. L p = us @ [b, a] \<and> a_end (the (areas (kmm k) b)) < USER_STACK_TOP - PAGE_SIZE \<and>
        areas (kmm k) a = Some \<lparr>a_start = USER_STACK_TOP, a_end = USER_STACK_TOP,
          a_flags = MM_FLAG_WRITE OR MM_FLAG_GROWSDOWN OR MM_FLAG_ADDONUSE, a_type = MM_TYPE_STACK, owner = p\<rparr> \<and>
        pmm (kmm k) p = Some pv \<and> stack_limit (mm pv) < USER_STACK_TOP - PAGE_SIZE) \<and>
     (\<forall>y. USER_STACK_TOP - PAGE_SIZE \<le> y \<and> y \<le> USER_STACK_TOP \<longrightarrow> area_at (kmm k) (L p) y = None) \<and>
     pmm_ok (machine k) \<and> distinct (avail (machine k)) \<and> (\<forall>g\<in>set (avail (machine k)). frame g = g \<and> no_table (machine k) g) \<and>
     (if mapped_dir (machine k) (USER_STACK_TOP - PAGE_SIZE) then 1 else 2) \<le> pmm_entries (machine k) \<and>
     hw_pte (machine k) (USER_STACK_TOP - PAGE_SIZE) = None"

abbreviation stack_page :: nat where "stack_page \<equiv> 0xBFFFE000"

lemma stack_page_word: "USER_STACK_TOP - PAGE_SIZE = of_nat stack_page" "USER_STACK_TOP = of_nat (stack_page + 4096)"
  by (simp_all add: USER_STACK_TOP_def PAGE_SIZE_def)

lemma in_stack_page:
  assumes "i < 4096" and x: "x = of_nat (stack_page + i)"
  shows "vmm_table_idx x = vmm_table_idx (USER_STACK_TOP - PAGE_SIZE)" "x AND PAGE_MASK = USER_STACK_TOP - PAGE_SIZE"
    "x < KERNEL_OFFSET" "USER_STACK_TOP - PAGE_SIZE \<le> x" "x < USER_STACK_TOP" "USER_STACK_TOP - x \<le> PAGE_SIZE"
proof -
  show idx: "vmm_table_idx x = vmm_table_idx (USER_STACK_TOP - PAGE_SIZE)"
    unfolding x stack_page_word(1) using assms(1) by (intro page_index) auto
  show "x AND PAGE_MASK = USER_STACK_TOP - PAGE_SIZE"
    using page_base_cong [OF idx] by (simp add: USER_STACK_TOP_def PAGE_SIZE_def PAGE_MASK_def)
  have u: "unat x = stack_page + i" using assms by (simp add: unsigned_of_nat take_bit_nat_eq_self del: of_nat_add)
  then show "x < KERNEL_OFFSET" "USER_STACK_TOP - PAGE_SIZE \<le> x" and lt: "x < USER_STACK_TOP"
    using assms(1) by (simp_all add: word_less_nat_alt word_le_nat_alt KERNEL_OFFSET_def USER_STACK_TOP_def PAGE_SIZE_def)
  have "unat (USER_STACK_TOP - x) = unat USER_STACK_TOP - unat x" using lt by (simp add: unat_sub word_less_nat_alt word_le_nat_alt)
  then show "USER_STACK_TOP - x \<le> PAGE_SIZE" using u by (simp add: word_le_nat_alt USER_STACK_TOP_def PAGE_SIZE_def)
qed

lemma store_faults:
  assumes "hw_pte m x = None" shows "\<exists>e. vstore_byte x b m = Inl e"
proof -
  have "mmu_translate m (word_base x) = None"
    using assms hw_pte_cong [of "word_base x" x m] word_base_idx(2) [of x] by (simp add: mmu_translate_def)
  then show ?thesis by (simp add: vstore_byte_def vload_def)
qed

lemma kernel_fault_resolved:
  assumes "current_proc k = Inr p" and "procmm_handle_page_fault p x fl (kmm k) = Inr (0, s)"
  shows "kernel_fault x fl k = Inr (k\<lparr>kmm := s\<rparr>)"
  using assms by (simp add: kernel_fault_def on_mm_def)

lemma fresh_stack_faults:
  assumes f: "fresh_stack P L p k" and i: "0 < i" "i < 4096" and x: "x = of_nat (stack_page + i)"
  obtains k' g where "\<And>b. put_user_byte x b k = put_user_byte x b k'" "tables_ok (machine k')"
    "\<And>y. vmm_table_idx y = vmm_table_idx (USER_STACK_TOP - PAGE_SIZE) \<Longrightarrow>
       data_page (machine k') y \<and> mmu_translate (machine k') y = Some (frame g OR (y AND PAGE_FLAG_MASK))"
proof -
  let ?s = "kmm k" and ?m = "machine k" and ?B = "USER_STACK_TOP - PAGE_SIZE" and ?fl = "MM_FLAG_WRITE OR MM_FLAG_GROWSDOWN OR MM_FLAG_ADDONUSE"
  obtain us b a pv where l: "L p = us @ [b, a]" "a_end (the (areas ?s b)) < ?B"
    "areas ?s a = Some \<lparr>a_start = USER_STACK_TOP, a_end = USER_STACK_TOP, a_flags = ?fl, a_type = MM_TYPE_STACK, owner = p\<rparr>"
    "pmm ?s p = Some pv" "stack_limit (mm pv) < ?B"
    using f unfolding fresh_stack_def by blast
  have h: "current_proc k = Inr p" "p \<in> P" "mm_view P ?s L" "procmm_sem ?s = 0"
    "\<And>y. ?B \<le> y \<Longrightarrow> y \<le> USER_STACK_TOP \<Longrightarrow> area_at ?s (L p) y = None" "pmm_ok ?m" "distinct (avail ?m)"
    "\<forall>g\<in>set (avail ?m). frame g = g \<and> no_table ?m g" "(if mapped_dir ?m ?B then 1 else 2) \<le> pmm_entries ?m" "hw_pte ?m ?B = None"
    using f unfolding fresh_stack_def by blast+
  note xs = in_stack_page [OF i(2) x]
  have ne: "x \<noteq> ?B"
  proof
    assume "x = ?B"
    then have "unat (of_nat (stack_page + i) :: u32) = unat (of_nat stack_page :: u32)" unfolding x stack_page_word(1) by simp
    then show False using i by (simp add: unsigned_of_nat take_bit_nat_eq_self del: of_nat_add)
  qed
  have "USER_STACK_TOP - x \<noteq> PAGE_SIZE" using ne by (auto simp: algebra_simps)
  then have lt: "USER_STACK_TOP - x < PAGE_SIZE" using xs(6) by simp
  have fl: "?fl AND MM_FLAG_ADDONUSE \<noteq> 0" "?fl AND MM_FLAG_GROWSDOWN \<noteq> 0" "?fl AND MM_FLAG_COW = 0"
    by (simp_all add: MM_FLAG_WRITE_def MM_FLAG_GROWSDOWN_def MM_FLAG_ADDONUSE_def MM_FLAG_COW_def)
  have top: "USER_STACK_TOP AND PAGE_MASK = USER_STACK_TOP" "PAGE_SIZE \<le> USER_STACK_TOP" "unat USER_STACK_TOP + 4096 < 4294967296"
    "?B AND PAGE_MASK = ?B" "?B \<le> USER_STACK_TOP"
    by (simp_all add: USER_STACK_TOP_def PAGE_MASK_def PAGE_SIZE_def)
  have "below_stack p x us b a ?s"
    unfolding below_stack_def using l h(5) [of x] xs lt fl(2) top by (auto intro: less_le_trans [OF l(2) xs(4)] less_le_trans [OF l(5) xs(4)])
  note g = grow_below [OF h(3,2) l(1) this, of PF_WRITE]
  have "area_fits p ?B USER_STACK_TOP ?fl MM_TYPE_STACK ?s (L p)"
    unfolding area_fits_def using top h(4,5) fl(1) page_aligned by simp
  from new_area_view [OF h(3,2) this] obtain n s1 L1 where n: "new_area p ?B USER_STACK_TOP ?fl MM_TYPE_STACK ?s = Inr (n, s1)"
    "mm_view P s1 L1" "perms s1 (L1 p) x = Some (?fl, MM_TYPE_STACK)"
    using h(2) xs(4,5) by fastforce
  have m1: "mvm s1 = ?m" using new_area_machine [OF n(1) fl(1)] .
  have kf1: "kernel_fault x PF_WRITE k = Inr (k\<lparr>kmm := s1\<rparr>)"
    by (rule kernel_fault_resolved [OF h(1)]) (simp add: g l(3) n(1))
  obtain c where c: "area_at s1 (L1 p) x = Some c" "a_flags (the (areas s1 c)) = ?fl"
    using n(3) by (auto simp: perms_def)
  then have "area_of c s1 = Inr (the (areas s1 c))"
    using area_at_Some [OF n(2) h(2)] mm_area [OF n(2) h(2), of c] by (metis area_of_def deref_Some option.sel)
  then have "procmm_handle_page_fault p x PF_WRITE s1 = andthen (add_on_use x ?fl s1) (\<lambda>s. Inr (0, s))"
    using c fl by (simp add: procmm_handle_page_fault_def find_including_view [OF n(2) h(2)] PF_WRITE_def PF_PRESENT_def)
  moreover have "mapped_dir ?m x = mapped_dir ?m ?B" using mapped_dir_cong [of x ?B ?m] table_idx_dir_idx [OF xs(1)] by simp
  then have "(if mapped_dir ?m x then 1 else 2) \<le> pmm_entries ?m" using h(9) by simp
  from add_on_use_page [OF h(6) this xs(3) h(7,8) m1, of ?fl] obtain gf t where t: "add_on_use x ?fl s1 = Inr (s1\<lparr>mvm := t\<rparr>)" "tables_ok t"
    "\<And>y. vmm_table_idx y = vmm_table_idx x \<Longrightarrow> data_page t y \<and> mmu_translate t y = Some (frame gf OR (y AND PAGE_FLAG_MASK))"
    by blast
  ultimately have hp: "procmm_handle_page_fault p x PF_WRITE s1 = Inr (0, s1\<lparr>mvm := t\<rparr>)" by simp
  have "current_proc (k\<lparr>kmm := s1\<rparr>) = Inr p" using h(1) by (simp add: current_proc_def current_def thread_of_def)
  then have kf2: "kernel_fault x PF_WRITE (k\<lparr>kmm := s1\<rparr>) = Inr (k\<lparr>kmm := s1\<lparr>mvm := t\<rparr>\<rparr>)"
    using kernel_fault_resolved [of "k\<lparr>kmm := s1\<rparr>" p x PF_WRITE "s1\<lparr>mvm := t\<rparr>"] hp by simp
  have un: "hw_pte ?m x = None" using h(10) hw_pte_cong [OF xs(1), of ?m] by simp
  have "put_user_byte x b k = put_user_byte x b (k\<lparr>kmm := s1\<lparr>mvm := t\<rparr>\<rparr>)" for b
  proof -
    obtain e1 where e1: "vstore_byte x b ?m = Inl e1" using store_faults [OF un] by blast
    have "put_user_byte x b k = put_user_byte x b (k\<lparr>kmm := s1\<rparr>)" by (rule put_user_byte_faults [OF e1 kf1])
    also have "\<dots> = put_user_byte x b (k\<lparr>kmm := s1\<lparr>mvm := t\<rparr>\<rparr>)"
      by (rule put_user_byte_faults [OF _ kf2]) (simp add: m1 e1)
    finally show ?thesis .
  qed
  then show thesis using that [of "k\<lparr>kmm := s1\<lparr>mvm := t\<rparr>\<rparr>" gf] t(2,3) xs(1) by simp
qed

end
