(* ===== verification/ExecArgs.thy ===== *)
theory ExecArgs imports LibcProps StackFaults begin

text \<open>
  The arguments of a new program: the vector of strings that \<open>execve\<close> builds on the user stack
  (\<^verbatim>\<open>kernel/syscall/sys_process.c\<close>) is read back as the same vector. Addresses are natural numbers in between.
\<close>

section \<open>A window of user memory\<close>

text \<open>The bytes of a region, and what a store in the middle of it does to them.\<close>

definition splice :: "nat \<Rightarrow> 'a list \<Rightarrow> 'a list \<Rightarrow> 'a list" where
  "splice i bs l = take i l @ bs @ drop (i + length bs) l"

lemma splice_nth:
  "i + length bs \<le> length l \<Longrightarrow> j < length l \<Longrightarrow> splice i bs l ! j = (if i \<le> j \<and> j < i + length bs then bs ! (j - i) else l ! j)"
  by (auto simp: splice_def nth_append min_def)

lemma length_splice [simp]: "i + length bs \<le> length l \<Longrightarrow> length (splice i bs l) = length l"
  by (simp add: splice_def)

lemma region_part:
  assumes "region s (of_nat lo) n" and "i + k \<le> n" shows "region s (of_nat (lo + i)) k"
proof -
  have "data_page s (of_nat (lo + i) + of_nat j)" if "j < k" for j
  proof -
    have "data_page s (of_nat lo + of_nat (i + j))"
      using assms(1) [unfolded region_def, THEN conjunct1, rule_format, of "i + j"] assms(2) that by simp
    then show ?thesis by (simp add: add.assoc)
  qed
  moreover have "inj_on (at s (of_nat (lo + i))) {..<k}"
  proof (rule inj_onI)
    fix x y assume "x \<in> {..<k}" "y \<in> {..<k}" "at s (of_nat (lo + i)) x = at s (of_nat (lo + i)) y"
    then have "at s (of_nat lo) (i + x) = at s (of_nat lo) (i + y)" using at_shift [of s "of_nat lo" i] by simp
    then show "x = y" using assms \<open>x \<in> _\<close> \<open>y \<in> _\<close> by (auto simp: region_def dest!: inj_onD [of _ _ "i + x" "i + y"])
  qed
  ultimately show ?thesis by (simp add: region_def)
qed

lemma store_window:
  assumes "tables_ok (machine k)" and "region (machine k) (of_nat lo) n" and "i + length bs \<le> n"
  shows "\<exists>m. put_user (of_nat (lo + i)) bs k = Inr (set_machine m k) \<and> same_pages (machine k) m \<and>
    bytes_at m (of_nat lo) n = splice i bs (bytes_at (machine k) (of_nat lo) n)"
proof -
  obtain m where m: "put_user (of_nat (lo + i)) bs k = Inr (set_machine m k)" "same_pages (machine k) m"
    "\<forall>j<length bs. pbyte m (at (machine k) (of_nat (lo + i)) j) = bs ! j"
    "\<forall>q. q \<notin> at (machine k) (of_nat (lo + i)) ` {..<length bs} \<longrightarrow> pbyte m q = pbyte (machine k) q"
    using put_user_bytes [OF assms(1) region_part [OF assms(2,3)]] by blast
  have sh: "at (machine k) (of_nat (lo + i)) j = at (machine k) (of_nat lo) (i + j)" for j
    using at_shift [of "machine k" "of_nat lo" i j] by simp
  have "bytes_at m (of_nat lo) n = splice i bs (bytes_at (machine k) (of_nat lo) n)"
  proof (rule nth_equalityI)
    fix j assume "j < length (bytes_at m (of_nat lo) n)"
    then have j: "j < n" by (simp add: bytes_at_def)
    have same: "at m (of_nat lo) j = at (machine k) (of_nat lo) j" using at_same [OF m(2)] assms(2) j by (simp add: region_def)
    have "pbyte m (at (machine k) (of_nat lo) j) =
        (if i \<le> j \<and> j < i + length bs then bs ! (j - i) else pbyte (machine k) (at (machine k) (of_nat lo) j))"
    proof (cases "i \<le> j \<and> j < i + length bs")
      case True
      then have "j - i < length bs" "i + (j - i) = j" by auto
      then have "pbyte m (at (machine k) (of_nat lo) j) = bs ! (j - i)" using m(3) [rule_format, of "j - i"] sh [of "j - i"] by metis
      then show ?thesis using True by simp
    next
      case False
      have "at (machine k) (of_nat lo) j \<notin> at (machine k) (of_nat (lo + i)) ` {..<length bs}"
      proof
        assume "at (machine k) (of_nat lo) j \<in> at (machine k) (of_nat (lo + i)) ` {..<length bs}"
        then obtain x where "x < length bs" "at (machine k) (of_nat lo) j = at (machine k) (of_nat lo) (i + x)" using sh by auto
        then have "j = i + x" using assms(2,3) j by (auto simp: region_def dest!: inj_onD [of _ _ j "i + x"])
        then show False using False \<open>x < length bs\<close> by simp
      qed
      then show ?thesis using m(4) False by auto
    qed
    then show "bytes_at m (of_nat lo) n ! j = splice i bs (bytes_at (machine k) (of_nat lo) n) ! j"
      using j same assms(3) by (simp add: splice_nth bytes_at_def)
  qed (use assms(3) in \<open>simp add: bytes_at_def\<close>)
  then show ?thesis using m by blast
qed

text \<open>Several stores in a window.\<close>

definition within :: "nat \<Rightarrow> nat \<Rightarrow> (nat \<times> u8 list) list \<Rightarrow> bool" where
  "within lo n ws \<longleftrightarrow> (\<forall>(a, bs)\<in>set ws. lo \<le> a \<and> a + length bs \<le> lo + n)"

lemma stores_window:
  assumes "tables_ok (machine k)" and "region (machine k) (of_nat lo) n" and "within lo n ws"
  shows "\<exists>m. do_writes (map (\<lambda>(a, bs). (of_nat a, bs)) ws) k = Inr (set_machine m k) \<and> same_pages (machine k) m \<and>
    bytes_at m (of_nat lo) n = fold (\<lambda>(a, bs). splice (a - lo) bs) ws (bytes_at (machine k) (of_nat lo) n)"
  using assms
proof (induction ws arbitrary: k)
  case Nil
  then show ?case by (intro exI [of _ "machine k"]) (simp add: same_pages_def)
next
  case (Cons w ws)
  obtain a bs where w: "w = (a, bs)" by fastforce
  then have a: "lo \<le> a" "a - lo + length bs \<le> n" using Cons.prems(3) by (auto simp: within_def)
  obtain t where t: "put_user (of_nat a) bs k = Inr (set_machine t k)" "same_pages (machine k) t"
    "bytes_at t (of_nat lo) n = splice (a - lo) bs (bytes_at (machine k) (of_nat lo) n)"
    using store_window [OF Cons.prems(1,2) a(2)] a(1) by auto
  have "tables_ok (machine (set_machine t k))" "region (machine (set_machine t k)) (of_nat lo) n" "within lo n ws"
    using Cons.prems t(2) region_same [OF t(2)] by (auto simp: same_pages_def within_def)
  from Cons.IH [OF this] obtain m where m: "do_writes (map (\<lambda>(a, bs). (of_nat a, bs)) ws) (set_machine t k) = Inr (set_machine m k)"
    "same_pages t m" "bytes_at m (of_nat lo) n = fold (\<lambda>(a, bs). splice (a - lo) bs) ws (bytes_at t (of_nat lo) n)"
    by (auto simp only: set_machine_simps)
  then show ?case using t same_pages_trans [OF t(2) m(2)] by (intro exI [of _ m]) (simp add: w)
qed

definition apart_writes :: "nat \<times> u8 list \<Rightarrow> nat \<times> u8 list \<Rightarrow> bool" where
  "apart_writes v w \<longleftrightarrow> fst v + length (snd v) \<le> fst w \<or> fst w + length (snd w) \<le> fst v"

lemma splice_apart:
  assumes "i + length bs \<le> length l" and "a + n \<le> i \<or> i + length bs \<le> a" and "a + n \<le> length l"
  shows "take n (drop a (splice i bs l)) = take n (drop a l)"
  by (rule nth_equalityI) (use assms in \<open>auto simp: splice_nth\<close>)

lemma splice_self: "i + length bs \<le> length l \<Longrightarrow> take (length bs) (drop i (splice i bs l)) = bs"
  by (simp add: splice_def)

lemma fold_splice_apart:
  "within lo (length l) ws \<Longrightarrow> lo \<le> a \<Longrightarrow> a + n \<le> lo + length l \<Longrightarrow> \<forall>(b, bs)\<in>set ws. a + n \<le> b \<or> b + length bs \<le> a \<Longrightarrow>
    take n (drop (a - lo) (fold (\<lambda>(b, bs). splice (b - lo) bs) ws l)) = take n (drop (a - lo) l)"
proof (induction ws arbitrary: l)
  case (Cons w ws)
  obtain b bs where w: "w = (b, bs)" by fastforce
  have b: "lo \<le> b" "b - lo + length bs \<le> length l" using Cons.prems(1) by (auto simp: w within_def)
  have "take n (drop (a - lo) (fold (\<lambda>(b, bs). splice (b - lo) bs) ws (splice (b - lo) bs l))) =
      take n (drop (a - lo) (splice (b - lo) bs l))"
    using Cons.prems b by (intro Cons.IH) (auto simp: w within_def)
  also have "\<dots> = take n (drop (a - lo) l)"
    using Cons.prems b by (intro splice_apart) (auto simp: w)
  finally show ?case by (simp add: w)
qed simp

lemma fold_splice_member:
  "within lo (length l) ws \<Longrightarrow> sorted_wrt apart_writes ws \<Longrightarrow> (a, bs) \<in> set ws \<Longrightarrow>
    take (length bs) (drop (a - lo) (fold (\<lambda>(b, bs). splice (b - lo) bs) ws l)) = bs"
proof (induction ws arbitrary: l)
  case (Cons w ws)
  obtain b cs where w: "w = (b, cs)" by fastforce
  have b: "lo \<le> b" "b - lo + length cs \<le> length l" using Cons.prems(1) by (auto simp: w within_def)
  have wi: "within lo (length (splice (b - lo) cs l)) ws" using Cons.prems(1) b by (auto simp: within_def)
  show ?case
  proof (cases "(a, bs) \<in> set ws")
    case True
    then show ?thesis using Cons.IH [OF wi] Cons.prems(2) by (simp add: w)
  next
    case False
    then have e: "b = a" "cs = bs" using Cons.prems(3) by (auto simp: w)
    have "take (length bs) (drop (a - lo) (fold (\<lambda>(b, bs). splice (b - lo) bs) ws (splice (a - lo) bs l))) =
        take (length bs) (drop (a - lo) (splice (a - lo) bs l))"
      using wi b Cons.prems(2) e by (intro fold_splice_apart) (auto simp: w apart_writes_def)
    then show ?thesis using splice_self [of "a - lo" bs l] b e by (simp add: w)
  qed
qed simp

section \<open>The layout of a vector\<close>

text \<open>The words a string takes, and what a whole vector takes.\<close>

definition room :: "u8 list \<Rightarrow> nat" where
  "room s = 4 * (length s div 4 + 2)"

definition vector_room :: "u8 list list \<Rightarrow> nat" where
  "vector_room ss = 4 * (length ss + 1) + 4 + sum_list (map room ss)"

text \<open>The loop of \<open>execve\<close>, over natural numbers.\<close>

fun layout :: "nat \<Rightarrow> nat \<Rightarrow> nat \<Rightarrow> u8 list list \<Rightarrow> (nat \<times> u8 list) list" where
  "layout base i pos [] = []"
| "layout base i pos (s # ss) =
     (pos - room s, s @ [0]) # (base + 4 * i, word_bytes (of_nat (pos - room s))) # layout base (Suc i) (pos - room s) ss"

lemma string_writes_layout:
  "sum_list (map room ss) \<le> pos \<Longrightarrow> pos < 2 ^ 32 \<Longrightarrow>
    string_writes (of_nat base) i (of_nat pos) ss =
      (map (\<lambda>(a, bs). (of_nat a, bs)) (layout base i pos ss), of_nat (pos - sum_list (map room ss)))"
proof (induction ss arbitrary: i pos)
  case (Cons s ss)
  have l: "length s < 2 ^ 32" using Cons.prems by (auto simp: room_def)
  then have "(of_nat (length s) :: u32) div 4 = of_nat (length s div 4)"
    by (simp add: word_arith_nat_div unsigned_of_nat take_bit_nat_eq_self)
  then have e: "(of_nat pos :: u32) - 4 * (of_nat (length s) div 4 + 2) = of_nat (pos - room s)"
    using Cons.prems(1) by (simp add: room_def of_nat_diff)
  have "sum_list (map room ss) \<le> pos - room s" "pos - room s < 2 ^ 32" using Cons.prems by auto
  from Cons.IH [OF this, of "Suc i"] show ?case
    unfolding string_writes.simps e Let_def by (simp add: add.commute)
qed simp

lemma layout_bounds:
  "(a, bs) \<in> set (layout base i pos ss) \<Longrightarrow> sum_list (map room ss) \<le> pos \<Longrightarrow> pos \<le> base \<Longrightarrow>
    (pos - sum_list (map room ss) \<le> a \<and> a + length bs \<le> pos) \<or>
    (base + 4 * i \<le> a \<and> a + length bs \<le> base + 4 * (i + length ss))"
proof (induction ss arbitrary: i pos)
  case (Cons s ss)
  have r: "length s + 1 \<le> room s" by (simp add: room_def)
  have p: "sum_list (map room ss) \<le> pos - room s" "pos - room s \<le> base" "room s \<le> pos" using Cons.prems by auto
  consider "(a, bs) = (pos - room s, s @ [0])" | "a = base + 4 * i" "length bs = 4" | "(a, bs) \<in> set (layout base (Suc i) (pos - room s) ss)"
    using Cons.prems(1) by (auto simp: word_bytes_def)
  then show ?case using r p Cons.IH [OF _ p(1,2), of "Suc i"] by cases auto
qed simp

lemma layout_apart:
  "sum_list (map room ss) \<le> pos \<Longrightarrow> pos \<le> base \<Longrightarrow> sorted_wrt apart_writes (layout base i pos ss)"
proof (induction ss arbitrary: i pos)
  case (Cons s ss)
  have "length s + 1 \<le> room s" by (simp add: room_def)
  moreover have "sorted_wrt apart_writes (layout base (Suc i) (pos - room s) ss)" using Cons by simp
  moreover have p: "sum_list (map room ss) \<le> pos - room s" "pos - room s \<le> base" "room s \<le> pos" using Cons.prems by auto
  moreover have "apart_writes (pos - room s, s @ [0]) (a, bs) \<and> apart_writes (base + 4 * i, word_bytes w) (a, bs)"
    if "(a, bs) \<in> set (layout base (Suc i) (pos - room s) ss)" for a bs w
    using layout_bounds [OF that p(1,2)] p Cons.prems(2) \<open>length s + 1 \<le> room s\<close>
    by (auto simp: apart_writes_def word_bytes_def)
  moreover have "apart_writes (pos - room s, s @ [0]) (base + 4 * i, word_bytes w)" for w
    using p Cons.prems(2) \<open>length s + 1 \<le> room s\<close> by (auto simp: apart_writes_def)
  ultimately show ?case by auto
qed simp

text \<open>Where the strings are.\<close>

fun places :: "nat \<Rightarrow> u8 list list \<Rightarrow> nat list" where
  "places pos [] = []"
| "places pos (s # ss) = (pos - room s) # places (pos - room s) ss"

lemma length_places [simp]: "length (places pos ss) = length ss"
  by (induction ss arbitrary: pos) auto

lemma layout_places:
  "j < length ss \<Longrightarrow> (places pos ss ! j, ss ! j @ [0]) \<in> set (layout base i pos ss) \<and>
    (base + 4 * (i + j), word_bytes (of_nat (places pos ss ! j))) \<in> set (layout base i pos ss)"
proof (induction ss arbitrary: i pos j)
  case (Cons s ss)
  then show ?case using Cons.IH [of "j - 1" "pos - room s" "Suc i"] by (cases j) auto
qed simp

section \<open>Reading a vector\<close>

lemma user_bytes_string:
  assumes "\<forall>j\<le>length s. user_byte (va + of_nat j) k = Inr ((s @ [0]) ! j, k)" and "0 \<notin> set s"
  shows "user_bytes va acc k = Some (Inr (rev acc @ s, k))"
  using assms
proof (induction s arbitrary: va acc)
  case Nil
  then have "user_byte va k = Inr (0, k)" by simp
  then show ?case by (subst user_bytes.simps) simp
next
  case (Cons c s)
  have "user_byte va k = Inr (c, k)" using Cons.prems(1) [rule_format, of 0] by simp
  moreover have "user_bytes (va + 1) (c # acc) k = Some (Inr (rev (c # acc) @ s, k))"
  proof (rule Cons.IH)
    show "\<forall>j\<le>length s. user_byte (va + 1 + of_nat j) k = Inr ((s @ [0]) ! j, k)"
    proof (intro allI impI)
      fix j assume "j \<le> length s"
      then show "user_byte (va + 1 + of_nat j) k = Inr ((s @ [0]) ! j, k)"
        using Cons.prems(1) [rule_format, of "Suc j"] by (simp add: add.assoc)
    qed
  qed (use Cons.prems in auto)
  ultimately show ?case using Cons.prems(2) by (subst user_bytes.simps) simp
qed

lemma user_vector_strings:
  assumes "\<forall>j<length ss. get_user_word (va + 4 * of_nat j) k = Inr (ps ! j, k) \<and> ps ! j \<noteq> 0 \<and>
      user_bytes (ps ! j) [] k = Some (Inr (ss ! j, k))"
    and "get_user_word (va + 4 * of_nat (length ss)) k = Inr (0, k)" and "length ps = length ss"
  shows "user_vector va acc k = Some (Inr (rev acc @ ss, k))"
  using assms
proof (induction ss arbitrary: va acc ps)
  case Nil
  then show ?case by (subst user_vector.simps) simp
next
  case (Cons s ss)
  obtain p ps' where p: "ps = p # ps'" using Cons.prems(3) by (cases ps) auto
  have h: "get_user_word va k = Inr (p, k)" "p \<noteq> 0" "user_bytes p [] k = Some (Inr (s, k))"
    using Cons.prems(1) [rule_format, of 0] by (simp_all add: p)
  have "user_vector (va + 4) (s # acc) k = Some (Inr (rev (s # acc) @ ss, k))"
  proof (rule Cons.IH [where ps = ps'])
    show "\<forall>j<length ss. get_user_word (va + 4 + 4 * of_nat j) k = Inr (ps' ! j, k) \<and> ps' ! j \<noteq> 0 \<and>
        user_bytes (ps' ! j) [] k = Some (Inr (ss ! j, k))"
    proof (intro allI impI)
      fix j assume "j < length ss"
      then show "get_user_word (va + 4 + 4 * of_nat j) k = Inr (ps' ! j, k) \<and> ps' ! j \<noteq> 0 \<and>
          user_bytes (ps' ! j) [] k = Some (Inr (ss ! j, k))"
        using Cons.prems(1) [rule_format, of "Suc j"] by (simp add: p algebra_simps)
    qed
  qed (use Cons.prems(2,3) p in \<open>simp_all add: algebra_simps\<close>)
  then show ?case using h by (subst user_vector.simps) (simp add: returns_def)
qed

section \<open>The vector of a new program\<close>

lemma window_bytes:
  assumes "region (machine k) (of_nat lo) n" and "lo \<le> a" "a + length bs \<le> lo + n"
    and "take (length bs) (drop (a - lo) (bytes_at (machine k) (of_nat lo) n)) = bs"
  shows "get_user (of_nat a) (length bs) k = Inr (bs, k)" and "\<forall>j<length bs. user_byte (of_nat a + of_nat j) k = Inr (bs ! j, k)"
proof -
  have r: "region (machine k) (of_nat a) (length bs)" using region_part [OF assms(1), of "a - lo" "length bs"] assms(2,3) by simp
  have sh: "at (machine k) (of_nat a) j = at (machine k) (of_nat lo) (a - lo + j)" for j
    using at_shift [of "machine k" "of_nat lo" "a - lo" j] assms(2) by simp
  have "bytes_at (machine k) (of_nat a) (length bs) = take (length bs) (drop (a - lo) (bytes_at (machine k) (of_nat lo) n))"
    by (rule nth_equalityI) (use assms(2,3) sh in \<open>auto simp: bytes_at_def\<close>)
  then have b: "bytes_at (machine k) (of_nat a) (length bs) = bs" using assms(4) by simp
  then show "get_user (of_nat a) (length bs) k = Inr (bs, k)"
    using get_user_bytes [of "length bs" k "of_nat a"] r by (simp add: region_def)
  show "\<forall>j<length bs. user_byte (of_nat a + of_nat j) k = Inr (bs ! j, k)"
  proof (intro allI impI)
    fix j assume j: "j < length bs"
    then have "data_page (machine k) (of_nat a + of_nat j)" using r by (simp add: region_def)
    then obtain pa where "mmu_translate (machine k) (of_nat a + of_nat j) = Some pa" by (auto simp: data_page_def)
    then have "user_byte (of_nat a + of_nat j) k = Inr (pbyte (machine k) (at (machine k) (of_nat a) j), k)"
      by (simp add: user_byte_granted load_byte at_def)
    moreover have "bs ! j = pbyte (machine k) (at (machine k) (of_nat a) j)"
      using b j by (metis (no_types, lifting) bytes_at_def nth_map_upt add_0 diff_zero)
    ultimately show "user_byte (of_nat a + of_nat j) k = Inr (bs ! j, k)" by simp
  qed
qed

lemma places_bounds:
  "j < length ss \<Longrightarrow> sum_list (map room ss) < pos \<Longrightarrow> 0 < places pos ss ! j \<and> places pos ss ! j < pos"
proof (induction ss arbitrary: pos j)
  case (Cons s ss)
  have "0 < room s" by (simp add: room_def)
  moreover have "0 < places (pos - room s) ss ! i \<and> places (pos - room s) ss ! i < pos" if "i < length ss" for i
  proof -
    have "0 < places (pos - room s) ss ! i \<and> places (pos - room s) ss ! i < pos - room s"
      using Cons.IH [OF that, of "pos - room s"] Cons.prems(2) by simp
    then show ?thesis by linarith
  qed
  ultimately show ?case using Cons.prems by (cases j) auto
qed simp

text \<open>The stores of a whole vector below \<open>pos\<close>, and what a machine that holds them is read as.\<close>

definition vector_base :: "nat \<Rightarrow> u8 list list \<Rightarrow> nat" where
  "vector_base pos ss = pos - (4 * (length ss + 1) + 4)"

definition vector_layout :: "nat \<Rightarrow> u8 list list \<Rightarrow> (nat \<times> u8 list) list" where
  "vector_layout pos ss = (let base = vector_base pos ss in layout base 0 base ss @ [(base + 4 * length ss, word_bytes 0)])"

lemma vector_bounds:
  assumes "vector_room ss < pos"
  shows "sum_list (map room ss) < vector_base pos ss" "vector_base pos ss + 4 * (length ss + 1) + 4 = pos"
    "pos - vector_room ss + sum_list (map room ss) = vector_base pos ss"
  using assms by (auto simp: vector_base_def vector_room_def)

lemma vector_writes_layout:
  assumes "vector_room ss < pos" and "pos < 2 ^ 32"
  shows "vector_writes (of_nat pos) ss =
    (map (\<lambda>(a, bs). (of_nat a, bs)) (vector_layout pos ss), of_nat (vector_base pos ss), of_nat (pos - vector_room ss))"
proof -
  note b = vector_bounds [OF assms(1)]
  let ?b = "vector_base pos ss"
  have "of_nat pos = (of_nat (?b + 4 * (length ss + 1) + 4) :: u32)" using b(2) by simp
  then have "(of_nat pos :: u32) - 4 * (of_nat (length ss) + 1) - 4 = of_nat ?b" by simp
  moreover have "string_writes (of_nat ?b) 0 (of_nat ?b) ss =
      (map (\<lambda>(a, bs). (of_nat a, bs)) (layout ?b 0 ?b ss), of_nat (?b - sum_list (map room ss)))"
    by (rule string_writes_layout) (use b assms(2) in auto)
  moreover have "?b - sum_list (map room ss) = pos - vector_room ss" using b(3) by simp
  ultimately show ?thesis by (simp add: vector_writes_def vector_layout_def Let_def)
qed

lemma vector_layout_within:
  assumes "vector_room ss < pos"
  shows "within (pos - vector_room ss) (vector_room ss) (vector_layout pos ss)" "sorted_wrt apart_writes (vector_layout pos ss)"
proof -
  note b = vector_bounds [OF assms]
  let ?b = "vector_base pos ss"
  have lb: "pos - vector_room ss \<le> a \<and> a + length bs \<le> ?b + 4 * length ss" if "(a, bs) \<in> set (layout ?b 0 ?b ss)" for a bs
    using layout_bounds [OF that] b by auto
  have n: "pos - vector_room ss + vector_room ss = pos" using assms by simp
  show "within (pos - vector_room ss) (vector_room ss) (vector_layout pos ss)"
    unfolding within_def n
  proof (clarify)
    fix a bs assume "(a, bs) \<in> set (vector_layout pos ss)"
    then consider "(a, bs) \<in> set (layout ?b 0 ?b ss)" | "a = ?b + 4 * length ss" "bs = word_bytes 0"
      by (auto simp: vector_layout_def Let_def)
    then show "pos - vector_room ss \<le> a \<and> a + length bs \<le> pos" using lb [of a bs] b by cases (auto simp: word_bytes_def)
  qed
  show "sorted_wrt apart_writes (vector_layout pos ss)"
    using layout_apart [of ss ?b ?b 0] b lb by (auto simp: vector_layout_def Let_def sorted_wrt_append apart_writes_def)
qed

lemma vector_read:
  assumes room: "vector_room ss < pos" "pos < 2 ^ 32" and nz: "\<forall>s\<in>set ss. 0 \<notin> set s"
    and rd: "\<And>a bs. (a, bs) \<in> set (vector_layout pos ss) \<Longrightarrow> get_user (of_nat a) (length bs) k = Inr (bs, k) \<and>
      (\<forall>j<length bs. user_byte (of_nat a + of_nat j) k = Inr (bs ! j, k))"
  shows "user_vector_or_null (of_nat (vector_base pos ss)) k = Inr (Some ss, k)"
proof -
  note b = vector_bounds [OF room(1)]
  let ?b = "vector_base pos ss" and ?ps = "map (\<lambda>p. of_nat p :: u32) (places (vector_base pos ss) ss)"
  have word: "get_user_word (of_nat a) k = Inr (w, k)" if "(a, word_bytes w) \<in> set (vector_layout pos ss)" for a w
    using rd [OF that] by (simp add: get_user_word_def)
  have "get_user_word (of_nat ?b + 4 * of_nat j) k = Inr (?ps ! j, k) \<and> ?ps ! j \<noteq> 0 \<and>
      user_bytes (?ps ! j) [] k = Some (Inr (ss ! j, k))" if j: "j < length ss" for j
  proof (intro conjI)
    have l: "(places ?b ss ! j, ss ! j @ [0]) \<in> set (vector_layout pos ss)"
      "(?b + 4 * j, word_bytes (of_nat (places ?b ss ! j))) \<in> set (vector_layout pos ss)"
      using layout_places [OF j, of ?b ?b 0] by (auto simp: vector_layout_def Let_def)
    show "get_user_word (of_nat ?b + 4 * of_nat j) k = Inr (?ps ! j, k)" using word [OF l(2)] j by simp
    have "0 < places ?b ss ! j" "places ?b ss ! j < ?b" using places_bounds [OF j b(1)] by auto
    then show "?ps ! j \<noteq> 0" using j b(2) room(2) by (simp add: word_unat_eq_iff unsigned_of_nat take_bit_nat_eq_self)
    have "\<forall>i<length (ss ! j @ [0]). user_byte (of_nat (places ?b ss ! j) + of_nat i) k = Inr ((ss ! j @ [0]) ! i, k)"
      using rd [OF l(1)] by blast
    then show "user_bytes (?ps ! j) [] k = Some (Inr (ss ! j, k))"
      using user_bytes_string [of "ss ! j" "?ps ! j" k "[]"] nz j by (simp add: less_Suc_eq_le)
  qed
  moreover have "get_user_word (of_nat ?b + 4 * of_nat (length ss)) k = Inr (0, k)"
    using word [of "?b + 4 * length ss" 0] by (simp add: vector_layout_def Let_def)
  ultimately have "user_vector (of_nat ?b) [] k = Some (Inr (ss, k))"
    using user_vector_strings [of ss "of_nat ?b" k ?ps "[]"] by simp
  moreover have "(of_nat ?b :: u32) \<noteq> 0" using b room(2) by (simp add: word_unat_eq_iff unsigned_of_nat take_bit_nat_eq_self)
  ultimately show ?thesis by (simp add: user_vector_or_null_def returns_def)
qed

lemma stores_read:
  assumes "tables_ok (machine k)" and r: "region (machine k) (of_nat lo) n" and w: "within lo n ws" and so: "sorted_wrt apart_writes ws"
  obtains k' where "do_writes (map (\<lambda>(a, bs). (of_nat a, bs)) ws) k = Inr k'"
    "\<And>a bs. (a, bs) \<in> set ws \<Longrightarrow> get_user (of_nat a) (length bs) k' = Inr (bs, k') \<and>
      (\<forall>j<length bs. user_byte (of_nat a + of_nat j) k' = Inr (bs ! j, k'))"
proof -
  obtain m where m: "do_writes (map (\<lambda>(a, bs). (of_nat a, bs)) ws) k = Inr (set_machine m k)" "same_pages (machine k) m"
    "bytes_at m (of_nat lo) n = fold (\<lambda>(a, bs). splice (a - lo) bs) ws (bytes_at (machine k) (of_nat lo) n)"
    using stores_window [OF assms(1) r w] by blast
  let ?k = "set_machine m k"
  have rm: "region (machine ?k) (of_nat lo) n" using r region_same [OF m(2)] by simp
  have l: "length (bytes_at (machine k) (of_nat lo) n) = n" by (simp add: bytes_at_def)
  have "get_user (of_nat a) (length bs) ?k = Inr (bs, ?k) \<and> (\<forall>j<length bs. user_byte (of_nat a + of_nat j) ?k = Inr (bs ! j, ?k))"
    if "(a, bs) \<in> set ws" for a bs
  proof -
    have t: "take (length bs) (drop (a - lo) (bytes_at (machine ?k) (of_nat lo) n)) = bs"
      using fold_splice_member [of lo "bytes_at (machine k) (of_nat lo) n", unfolded l, OF w so that] m(3) by simp
    have "lo \<le> a" "a + length bs \<le> lo + n" using w that unfolding within_def by blast+
    then show ?thesis using window_bytes [OF rm _ _ t] by simp
  qed
  then show thesis by (rule that [OF m(1)])
qed

lemma do_writes_append: "do_writes (vs @ ws) k = andthen (do_writes vs k) (do_writes ws)"
  by (induction vs k rule: do_writes.induct) (simp_all add: andthen_assoc cong: andthen_cong)

lemma vector_layout_head:
  "vector_room ss < pos \<Longrightarrow> \<exists>a b bs ws. vector_layout pos ss = (a, b # bs) # ws \<and> pos - vector_room ss \<le> a \<and> a < pos"
proof -
  assume r: "vector_room ss < pos"
  have "vector_layout pos ss \<noteq> []" by (simp add: vector_layout_def Let_def)
  then obtain a cs ws where e: "vector_layout pos ss = (a, cs) # ws" by (metis neq_Nil_conv surj_pair)
  have "cs \<noteq> []" using e by (cases ss) (auto simp: vector_layout_def Let_def word_bytes_def)
  then obtain b bs where "cs = b # bs" by (cases cs) auto
  moreover have "pos - vector_room ss \<le> a \<and> a + length cs \<le> pos"
    using vector_layout_within(1) [OF r] e r by (auto simp: within_def)
  ultimately show ?thesis using e by auto
qed

text \<open>
  C9. The environment and the arguments that \<open>execve\<close> puts on the fresh stack of a program, one below the other, are read back
  as the same vectors, if they take one page together (a longer stack makes the kernel loop for ever) and no string contains a zero byte. The
  first byte faults twice, to add the page to the stack area and to map it.
\<close>

theorem execve_vector_roundtrip:
  assumes "fresh_stack P L p k" and "vector_room es + vector_room as \<le> 4096" and "\<forall>s\<in>set es \<union> set as. 0 \<notin> set s"
  shows "\<exists>envp pos k1 argvp fin k2. place_vector USER_STACK_TOP (Some es) k = Inr (envp, pos, k1) \<and>
    place_vector pos (Some as) k1 = Inr (argvp, fin, k2) \<and>
    user_vector_or_null envp k2 = Inr (Some es, k2) \<and> user_vector_or_null argvp k2 = Inr (Some as, k2)"
proof -
  let ?top = "stack_page + 4096" and ?mid = "stack_page + 4096 - vector_room es"
  let ?n = "vector_room es + vector_room as" and ?w = "map (\<lambda>(a, bs). (of_nat a, bs))"
  have ar: "8 \<le> vector_room as" by (simp add: vector_room_def)
  have re: "vector_room es < ?top" "?top < 2 ^ 32" "vector_room as < ?mid" "?mid < 2 ^ 32" using assms(2) ar by auto
  note we = vector_writes_layout [OF re(1,2)] and wa = vector_writes_layout [OF re(3,4)]
  let ?E = "vector_layout ?top es" and ?A = "vector_layout ?mid as"
  let ?lo = "?top - ?n"
  have eq: "?mid - vector_room as = ?lo" "?lo + ?n = ?top" "?lo + vector_room as = ?mid" "?mid + vector_room es = ?top" using assms(2) by auto
  have inE: "?mid \<le> a \<and> a + length bs \<le> ?top" if "(a, bs) \<in> set ?E" for a bs
    using vector_layout_within(1) [OF re(1)] that eq(4) by (auto simp: within_def)
  have inA: "?lo \<le> a \<and> a + length bs \<le> ?mid" if "(a, bs) \<in> set ?A" for a bs
    using vector_layout_within(1) [OF re(3)] that eq(1,3) by (auto simp: within_def)
  have wi: "within ?lo ?n (?E @ ?A)" unfolding within_def eq(2) using inE inA assms(2) by fastforce
  have so: "sorted_wrt apart_writes (?E @ ?A)"
    using vector_layout_within(2) [OF re(1)] vector_layout_within(2) [OF re(3)] inE inA
    by (fastforce simp: sorted_wrt_append apart_writes_def)
  obtain a b bs ws where hd: "?E = (a, b # bs) # ws" "?mid \<le> a" "a < ?top" using vector_layout_head [OF re(1)] by blast
  define i where "i = a - stack_page"
  have i: "0 < i" "i < 4096" "a = stack_page + i" using hd(2,3) assms(2) ar by (auto simp: i_def)
  obtain k' g where k': "\<And>b. put_user_byte (of_nat a) b k = put_user_byte (of_nat a) b k'" "tables_ok (machine k')"
    "\<And>y. vmm_table_idx y = vmm_table_idx (USER_STACK_TOP - PAGE_SIZE) \<Longrightarrow>
       data_page (machine k') y \<and> mmu_translate (machine k') y = Some (frame g OR (y AND PAGE_FLAG_MASK))"
    using fresh_stack_faults [OF assms(1) i(1,2), of "of_nat a"] i(3) by blast
  have "region (machine k') (of_nat ?lo) ?n"
    by (rule page_region [where B = stack_page, OF k'(3)]) (use assms(2) in \<open>auto simp: stack_page_word(1)\<close>)
  from stores_read [OF k'(2) this wi so] obtain k2 where k2: "do_writes (?w (?E @ ?A)) k' = Inr k2"
    "\<And>a bs. (a, bs) \<in> set (?E @ ?A) \<Longrightarrow> get_user (of_nat a) (length bs) k2 = Inr (bs, k2) \<and>
      (\<forall>j<length bs. user_byte (of_nat a + of_nat j) k2 = Inr (bs ! j, k2))" by blast
  obtain k1 where k1: "do_writes (?w ?E) k' = Inr k1" "do_writes (?w ?A) k1 = Inr k2"
    using k2(1) by (auto simp: do_writes_append andthen_eq_Inr)
  have "do_writes (?w ?E) k = do_writes (?w ?E) k'" unfolding hd(1) by (simp add: k'(1))
  then have "place_vector USER_STACK_TOP (Some es) k = Inr (of_nat (vector_base ?top es), of_nat ?mid, k1)"
    using k1(1) we unfolding stack_page_word(2) by (simp add: place_vector_def)
  moreover have "place_vector (of_nat ?mid) (Some as) k1 = Inr (of_nat (vector_base ?mid as), of_nat (?mid - vector_room as), k2)"
    using k1(2) wa by (simp add: place_vector_def)
  moreover have "user_vector_or_null (of_nat (vector_base ?top es)) k2 = Inr (Some es, k2)"
    by (rule vector_read [OF re(1,2)]) (use assms(3) k2(2) in auto)
  moreover have "user_vector_or_null (of_nat (vector_base ?mid as)) k2 = Inr (Some as, k2)"
    by (rule vector_read [OF re(3,4)]) (use assms(3) k2(2) in auto)
  ultimately show ?thesis by blast
qed

text \<open>A process with a data page and an empty stack, on a machine without a page table for the stack.\<close>

definition demo_exec :: kernel where
  "demo_exec = demo_empty\<lparr>kmm := demo_mms 0xBFFFF000\<rparr>"

lemma demo_exec_fresh: "fresh_stack {0} (\<lambda>_. [0, 1]) 0 demo_exec"
proof -
  have k: "kmm demo_exec = demo_mms 0xBFFFF000" "current_proc demo_exec = Inr 0"
    using demo_current by (simp_all add: demo_exec_def current_proc_def current_def thread_of_def)
  have m: "mvm (demo_mms 0xBFFFF000) = demo_vm" by (simp add: demo_mms_def)
  have x: "vmm_dir_idx (USER_STACK_TOP - PAGE_SIZE) = 0x2FF" by (simp add: vmm_dir_idx_def USER_STACK_TOP_def PAGE_SIZE_def)
  have h: "hw_pte demo_vm (USER_STACK_TOP - PAGE_SIZE) = None" by (simp add: hw_pte_def demo_pde x)
  have n: "\<forall>y. USER_STACK_TOP - PAGE_SIZE \<le> y \<and> y \<le> USER_STACK_TOP \<longrightarrow> area_at (demo_mms 0xBFFFF000) [0, 1] y = None"
    unfolding demo_area_at by (auto simp: USER_STACK_TOP_def PAGE_SIZE_def word_le_nat_alt word_less_nat_alt)
  have fl: "(0xA2 :: u32) = MM_FLAG_WRITE OR MM_FLAG_GROWSDOWN OR MM_FLAG_ADDONUSE"
    by (simp add: MM_FLAG_WRITE_def MM_FLAG_GROWSDOWN_def MM_FLAG_ADDONUSE_def)
  have a: "areas (demo_mms 0xBFFFF000) 1 = Some \<lparr>a_start = USER_STACK_TOP, a_end = USER_STACK_TOP,
      a_flags = MM_FLAG_WRITE OR MM_FLAG_GROWSDOWN OR MM_FLAG_ADDONUSE, a_type = MM_TYPE_STACK, owner = 0\<rparr>"
    unfolding fl [symmetric] by (simp add: demo_mms_def USER_STACK_TOP_def)
  have b: "a_end (the (areas (demo_mms 0xBFFFF000) 0)) < USER_STACK_TOP - PAGE_SIZE" "procmm_sem (demo_mms 0xBFFFF000) = 0"
    "pmm (demo_mms 0xBFFFF000) 0 = Some \<lparr>mm = zero_mm, pd = 0x1000, pd_sem = 0\<rparr>" "stack_limit zero_mm < USER_STACK_TOP - PAGE_SIZE"
    by (simp_all add: demo_mms_def USER_STACK_TOP_def PAGE_SIZE_def zero_mm_def)
  have "\<exists>us b a pv. [0, 1] = us @ [b, a] \<and> a_end (the (areas (demo_mms 0xBFFFF000) b)) < USER_STACK_TOP - PAGE_SIZE \<and>
      areas (demo_mms 0xBFFFF000) a = Some \<lparr>a_start = USER_STACK_TOP, a_end = USER_STACK_TOP,
        a_flags = MM_FLAG_WRITE OR MM_FLAG_GROWSDOWN OR MM_FLAG_ADDONUSE, a_type = MM_TYPE_STACK, owner = 0\<rparr> \<and>
      pmm (demo_mms 0xBFFFF000) 0 = Some pv \<and> stack_limit (mm pv) < USER_STACK_TOP - PAGE_SIZE"
    using a b by (intro exI [of _ "[]"] exI [of _ 0] exI [of _ 1] exI [of _ "\<lparr>mm = zero_mm, pd = 0x1000, pd_sem = 0\<rparr>"]) simp
  moreover have "mm_view {0} (demo_mms 0xBFFFF000) (\<lambda>_. [0, 1])" by (rule demo_mms_view) simp_all
  moreover have "\<forall>g\<in>set (avail demo_vm). frame g = g \<and> no_table demo_vm g" "distinct (avail demo_vm)"
    by (simp_all add: demo_avail demo_frames demo_no_table)
  ultimately show ?thesis unfolding fresh_stack_def k m
    using n h b(2) demo_pmm_ok demo_counts(2) by (simp add: demo_mapped x)
qed

theorem execve_vector_roundtrip_witness:
  "\<exists>envp pos k1 argvp fin k2. place_vector USER_STACK_TOP (Some [[0x61]]) demo_exec = Inr (envp, pos, k1) \<and>
    place_vector pos (Some [[0x62], [0x63, 0x64]]) k1 = Inr (argvp, fin, k2) \<and>
    user_vector_or_null envp k2 = Inr (Some [[0x61]], k2) \<and> user_vector_or_null argvp k2 = Inr (Some [[0x62], [0x63, 0x64]], k2)"
  by (rule execve_vector_roundtrip [OF demo_exec_fresh]) (auto simp: vector_room_def room_def)

end
