(* ===== verification/ExitWait.thy ===== *)
theory ExitWait imports FdProps SchedSpec Syscalls begin

text \<open>
  The end of a process and the processes that wait for it: \<open>exit_process\<close> of \<^verbatim>\<open>kernel/proc/process.c\<close> and
  \<open>waitpid\<close> of \<^verbatim>\<open>kernel/syscall/sys_process.c\<close> over the queues of the scheduler and the list of the
  threads of the process.
\<close>

lemma do_sched_Inr: "f (fsched (kfs k)) = Inr c \<Longrightarrow> do_sched f k = Inr (k\<lparr>kfs := (kfs k)\<lparr>fsched := c\<rparr>\<rparr>)"
  by (simp add: do_sched_def do_fs_def)

section \<open>The other threads are freed\<close>






section \<open>Properties\<close>

lemma waitpid_loop_sleeps:
  assumes "sched_abs H T (fsched (kfs k)) Q" and "current k \<in> T" and "ProcWaiting p \<in> H"
    and "procs k p = Some v" and "p_state v \<noteq> PROC_STATE_FINISHED" and "waiting_nowhere H Q (current k)"
  shows "\<exists>k'. waitpid_loop p k = Inr (Sleeps [], k') \<and> procs k' = procs k \<and> state_of (current k) k' = THREAD_STATE_WAITING \<and>
    sched_abs H T (fsched (kfs k')) (Q(ProcWaiting p := Q (ProcWaiting p) @ [current k]))"
proof -
  obtain s where s: "scheduler_sleep (current k) (ProcWaiting p) (fsched (kfs k)) = Inr s"
    "th_state s = (th_state (fsched (kfs k)))(current k := THREAD_STATE_WAITING)"
    "sched_abs H T s (\<lambda>d. if d = ProcWaiting p then removeAll (current k) (Q (ProcWaiting p)) @ [current k] else removeAll (current k) (Q d))"
    using scheduler_sleep_abs [OF assms(1-3)] by blast
  have "sched_abs H T s (Q(ProcWaiting p := Q (ProcWaiting p) @ [current k]))"
    using assms(3,6) by (intro sched_absI [OF s(3) sched_absD(3,4) [OF s(3)]]) (auto simp: waiting_nowhere_def)
  then show ?thesis using s assms(4,5) by (auto simp: waitpid_loop_def proc_of_def deref_def do_sched_Inr state_of_def)
qed








end
