(* ===== verification/HeapGrowth.thy ===== *)
theory HeapGrowth imports SysProcess DemoMachine begin

text \<open>
  The growth of the kernel's heap, \<open>sbrk\<close> of \<^verbatim>\<open>kernel/syscall/sys_mem.c\<close>: its loop always ends.
\<close>

lemma map_heap_ends:
  assumes "target \<le> 0xFFFFF000"
  shows "\<exists>r. map_heap tp target m = Some r \<and>
    (case r of Inl _ \<Rightarrow> True | Inr (tp2, _) \<Rightarrow> target \<le> tp2 \<and> (tp2 = tp \<or> tp2 - target < PAGE_SIZE))"
proof (induction "unat target - unat tp" arbitrary: tp m rule: less_induct)
  case less
  show ?case
  proof (cases "tp < target")
    case False
    then show ?thesis by (subst map_heap.simps) simp
  next
    case True
    have tp: "unat tp < unat target" "unat target \<le> 0xFFFFF000" using True assms by (simp_all add: word_less_nat_alt word_le_nat_alt)
    then have s: "unat (tp + PAGE_SIZE) = unat tp + 4096" by (simp add: unat_word_ariths PAGE_SIZE_def)
    show ?thesis
    proof (cases "andthen (pmm_alloc_page m) (\<lambda>(page, m). vmm_page_set tp (vmm_page_val page (PAGE_PRESENT OR PAGE_WRITE)) m)")
      case (Inl e)
      then show ?thesis using True by (subst map_heap.simps) simp
    next
      case (Inr m')
      have "unat target - unat (tp + PAGE_SIZE) < unat target - unat tp" using s tp by linarith
      from less [OF this, of m'] obtain r where r: "map_heap (tp + PAGE_SIZE) target m' = Some r"
        "case r of Inl _ \<Rightarrow> True | Inr (tp2, _) \<Rightarrow> target \<le> tp2 \<and> (tp2 = tp + PAGE_SIZE \<or> tp2 - target < PAGE_SIZE)"
        by blast
      have "tp2 - target < PAGE_SIZE" if "target \<le> tp2" "tp2 = tp + PAGE_SIZE" for tp2
      proof -
        have "unat (tp2 - target) = unat tp + 4096 - unat target" using unat_sub [OF that(1)] that(2) s by simp
        then show ?thesis using tp by (simp add: word_less_nat_alt PAGE_SIZE_def)
      qed
      then have "case r of Inl _ \<Rightarrow> True | Inr (tp2, _) \<Rightarrow> target \<le> tp2 \<and> (tp2 = tp \<or> tp2 - target < PAGE_SIZE)"
        using r(2) by (auto split: sum.splits)
      then show ?thesis using r(1) Inr True by (subst map_heap.simps) simp
    qed
  qed
qed

text \<open>
  C20. The loop that maps new heap pages ends for every request that is accepted, also when the memory manager fails in
  between: the heap then reaches over the new end by less than a page, unless it was that large before.
\<close>

theorem heap_growth_ends:
  assumes "kmem_ptr h + incr < KERNEL_HEAP_END"
  shows "\<exists>r. map_heap (kmem_top h) (kmem_ptr h + incr) m = Some r \<and>
    kernel_sbrk incr h m = andthen r (\<lambda>(tp2, m'). Inr (kmem_ptr h, 0, h\<lparr>kmem_top := tp2, kmem_ptr := kmem_ptr h + incr\<rparr>, m')) \<and>
    (case r of Inl _ \<Rightarrow> True
     | Inr (tp2, _) \<Rightarrow> kmem_ptr h + incr \<le> tp2 \<and> (tp2 = kmem_top h \<or> tp2 - (kmem_ptr h + incr) < PAGE_SIZE))"
proof -
  have t: "kmem_ptr h + incr \<le> 0xFFFFF000" using assms by (simp add: KERNEL_HEAP_END_def word_less_nat_alt word_le_nat_alt)
  obtain r where "map_heap (kmem_top h) (kmem_ptr h + incr) m = Some r"
    "case r of Inl _ \<Rightarrow> True | Inr (tp2, _) \<Rightarrow> kmem_ptr h + incr \<le> tp2 \<and> (tp2 = kmem_top h \<or> tp2 - (kmem_ptr h + incr) < PAGE_SIZE)"
    using map_heap_ends [OF t, of "kmem_top h" m] by blast
  then show ?thesis using assms by (auto simp: kernel_sbrk_def returns_def not_le [symmetric])
qed

theorem heap_growth_ends_witness:
  "\<exists>r. map_heap 0xE0000000 0xE0002010 demo_vm = Some r \<and>
    (case r of Inl _ \<Rightarrow> True | Inr (tp, _) \<Rightarrow> 0xE0002010 \<le> tp \<and> (tp = 0xE0000000 \<or> tp - 0xE0002010 < PAGE_SIZE))"
  using heap_growth_ends [where h = "\<lparr>kmem_top = 0xE0000000, kmem_ptr = 0xE0000010\<rparr>" and incr = "0x2000" and m = demo_vm] by (auto simp: KERNEL_HEAP_END_def split: sum.splits)

end
