(* ===== verification/AreaSplit.thy ===== *)
theory AreaSplit imports AreaProps begin

text \<open>
  Splitting a memory area (\<open>split_area\<close>): the page of a fault becomes an area of its own, in the process and in every process that
  shares it, without any address changing its permissions.
\<close>

section \<open>One cut\<close>

text \<open>What \<open>split_area\<close> and \<open>split_copy\<close> do to the area \<open>c\<close> with value \<open>v\<close>, but for the copies: pieces left and right of \<open>st\<close> to \<open>en\<close>.\<close>

definition cut_left :: "u32 \<Rightarrow> nat \<Rightarrow> mem_area \<Rightarrow> mms \<Rightarrow> mms" where
  "cut_left st c v s = (if st > a_start v
     then let (l, s) = alloc_area (a_start v) st (a_flags v) (a_type v) (owner v) s
          in s\<lparr>mem := list_insert_to_left (mem s) (Mem c) (Mem l)\<rparr>
     else s)"

definition cut_right :: "u32 \<Rightarrow> nat \<Rightarrow> mem_area \<Rightarrow> mms \<Rightarrow> mms" where
  "cut_right en c v s = (if en < a_end v
     then let (r, s) = alloc_area en (a_end v) (a_flags v) (a_type v) (owner v) s
          in s\<lparr>mem := list_insert_to_right (mem s) (Mem c) (Mem r)\<rparr>
     else s)"

definition cut_out :: "u32 \<Rightarrow> u32 \<Rightarrow> nat \<Rightarrow> mem_area \<Rightarrow> mms \<Rightarrow> mms" where
  "cut_out st en c v s = put_area c (v\<lparr>a_start := st, a_end := en\<rparr>) (cut_right en c v (cut_left st c v s))"

lemma cut_fields [simp]:
  "mvm (cut_out st en c v s) = mvm s" "pmm (cut_out st en c v s) = pmm s" "procmm_sem (cut_out st en c v s) = procmm_sem s"
  by (simp_all add: cut_out_def cut_left_def cut_right_def alloc_area_def put_area_def Let_def)

lemma cut_put:
  assumes "c < next_area s"
  shows "cut_left st c v (put_area c w s) = put_area c w (cut_left st c v s)"
    and "cut_right en c v (put_area c w s) = put_area c w (cut_right en c v s)"
  using assms by (auto simp: cut_left_def cut_right_def alloc_area_def put_area_def Let_def fun_upd_twist)

lemma cut_left_next [simp]: "next_area (cut_left st c v s) = (if st > a_start v then Suc (next_area s) else next_area s)"
  by (simp add: cut_left_def alloc_area_def put_area_def Let_def)

lemma cut_areas:
  "areas (cut_out st en c v s) = (areas (cut_right en c v (cut_left st c v s)))(c \<mapsto> v\<lparr>a_start := st, a_end := en\<rparr>)"
  "areas (cut_left st c v s) = (if st > a_start v then (areas s)(next_area s \<mapsto> v\<lparr>a_end := st\<rparr>) else areas s)"
  "areas (cut_right en c v s) = (if en < a_end v then (areas s)(next_area s \<mapsto> v\<lparr>a_start := en\<rparr>) else areas s)"
  by (cases v, simp add: cut_out_def cut_left_def cut_right_def alloc_area_def put_area_def Let_def)+

lemma insert_right_left:
  assumes r: "ring h c (us @ x # vs)" and n: "n \<notin> set (c # us @ x # vs)"
  shows "list_insert_to_right h x n = list_insert_to_left h (hd (vs @ [c])) n"
proof -
  let ?y = "hd (vs @ [c])"
  have y: "nxt h x = ?y" by (rule ring_mid(1) [OF r])
  have "prv h ?y = x"
  proof (cases vs)
    case Nil
    then show ?thesis using ring_head [OF r] by simp
  next
    case (Cons z zs)
    then show ?thesis using ring_mid(2) [of h c "us @ [x]" z zs] r by simp
  qed
  moreover have "n \<noteq> x" "n \<noteq> ?y" using n hd_mem [of vs c] by auto
  ultimately show ?thesis using y
    by (auto simp: list_insert_to_right_def list_insert_to_left_def set_next_def set_prev_def Let_def fun_eq_iff)
qed

text \<open>Both pieces are areas put on the list, in front of \<open>c\<close> or behind it.\<close>

lemma add_piece:
  assumes m: "mm_view P s L" and p: "p \<in> P" and al: "alloc_area st en fl ty p s = (n, t)" and le: "st \<le> en"
    and free: "\<And>x. st \<le> x \<Longrightarrow> x < en \<Longrightarrow> area_at s (L p) x = None" and l: "L p = us @ vs"
  shows "mm_view P (t\<lparr>mem := list_insert_to_left (mem t) (hd (map Mem vs @ [MemHead p])) (Mem n)\<rparr>) (L(p := us @ n # vs)) \<and>
    (\<forall>q\<in>P. \<forall>x. perms (t\<lparr>mem := list_insert_to_left (mem t) (hd (map Mem vs @ [MemHead p])) (Mem n)\<rparr>) ((L(p := us @ n # vs)) q) x =
      (if q = p \<and> st \<le> x \<and> x < en then Some (fl, ty) else perms s (L q) x))"
proof -
  let ?v = "\<lparr>a_start = st, a_end = en, a_flags = fl, a_type = ty, owner = p\<rparr>"
  note a = alloc_area_view [OF m al]
  have "area_at t (L p) x = area_at s (L p) x" for x unfolding area_at_def by (rule find_cong) (use a p in auto)
  then have f: "area_at t (L p) x = None" if "in_area ?v x" for x using that free by (simp add: in_area_def)
  show ?thesis
    using insert_area_view [of P t L p n ?v us vs, OF _ p _ _ _ _ f l refl] a le by (simp add: in_area_def)
qed

lemma cut_left_view:
  assumes m: "mm_view P s L" and p: "p \<in> P" and l: "L p = us @ c # vs" and ow: "owner v = p" and le: "a_start v \<le> st"
    and free: "\<And>x. a_start v \<le> x \<Longrightarrow> x < st \<Longrightarrow> area_at s (L p) x = None"
  obtains us' where "mm_view P (cut_left st c v s) (L(p := us' @ c # vs))" "set us \<subseteq> set us'"
    "\<forall>q\<in>P. \<forall>x. perms (cut_left st c v s) ((L(p := us' @ c # vs)) q) x =
      (if q = p \<and> a_start v \<le> x \<and> x < st then Some (a_flags v, a_type v) else perms s (L q) x)"
    "a_start v < st \<longrightarrow> next_area s \<in> set us'"
proof (cases "a_start v < st")
  case True
  obtain t where al: "alloc_area (a_start v) st (a_flags v) (a_type v) p s = (next_area s, t)" by (simp add: alloc_area_def Let_def)
  have "cut_left st c v s = t\<lparr>mem := list_insert_to_left (mem t) (Mem c) (Mem (next_area s))\<rparr>" using True al by (simp add: cut_left_def ow)
  then show thesis using add_piece [OF m p al le free l] by (intro that [of "us @ [next_area s]"]) auto
next
  case False
  have "L(p := us @ c # vs) = L" using l by auto
  then show thesis using False m le by (intro that [of us]) (auto simp: cut_left_def)
qed

lemma cut_right_view:
  assumes m: "mm_view P s L" and p: "p \<in> P" and l: "L p = us @ c # vs" and ow: "owner v = p" and le: "en \<le> a_end v"
    and free: "\<And>x. en \<le> x \<Longrightarrow> x < a_end v \<Longrightarrow> area_at s (L p) x = None"
  obtains vs' where "mm_view P (cut_right en c v s) (L(p := us @ c # vs'))" "set vs \<subseteq> set vs'"
    "\<forall>q\<in>P. \<forall>x. perms (cut_right en c v s) ((L(p := us @ c # vs')) q) x =
      (if q = p \<and> en \<le> x \<and> x < a_end v then Some (a_flags v, a_type v) else perms s (L q) x)"
    "en < a_end v \<longrightarrow> next_area s \<in> set vs'"
proof (cases "en < a_end v")
  case True
  obtain t where al: "alloc_area en (a_end v) (a_flags v) (a_type v) p s = (next_area s, t)" by (simp add: alloc_area_def Let_def)
  note a = alloc_area_view [OF m al]
  have "ring (mem t) (MemHead p) (map Mem us @ Mem c # map Mem vs)"
    using ringsD(1) [OF mm_viewD(1), of P t L "MemHead p"] a p l by simp
  moreover have "Mem (next_area s) \<notin> set (MemHead p # map Mem us @ Mem c # map Mem vs)"
    using a p l by (auto simp: queued_def)
  ultimately have "cut_right en c v s = t\<lparr>mem := list_insert_to_left (mem t) (hd (map Mem vs @ [MemHead p])) (Mem (next_area s))\<rparr>"
    using True al by (simp add: cut_right_def ow insert_right_left)
  then show thesis using add_piece [OF m p al le free, of "us @ [c]" vs] l by (intro that [of "next_area s # vs"]) auto
next
  case False
  have "L(p := us @ c # vs) = L" using l by auto
  then show thesis using False m le by (intro that [of vs]) (auto simp: cut_right_def)
qed

text \<open>Giving an area another range or other flags.\<close>

lemma put_area_perms:
  assumes m: "mm_view P s L" and p: "p \<in> P" "c \<in> set (L p)" and v: "areas s c = Some v" and w: "owner w = p" "a_start w \<le> a_end w"
    and sub: "\<forall>x. in_area w x \<longrightarrow> in_area v x" and q: "q \<in> P"
  shows "mm_view P (put_area c w s) L" and "area_at (put_area c w s) (L q) x =
      (if q = p \<and> in_area v x then if in_area w x then Some c else None else area_at s (L q) x)"
    and "perms (put_area c w s) (L q) x =
      (if q = p \<and> in_area v x then if in_area w x then Some (a_flags w, a_type w) else None else perms s (L q) x)"
proof -
  show m': "mm_view P (put_area c w s) L"
    by (rule put_area_view [OF m p w]) (use mm_viewD(4) [OF m p(1)] p v sub in blast)
  have ar: "areas (put_area c w s) b = (if b = c then Some w else areas s b)" for b by (simp add: put_area_def)
  show at: "area_at (put_area c w s) (L q) x =
      (if q = p \<and> in_area v x then if in_area w x then Some c else None else area_at s (L q) x)"
  proof (cases "area_at (put_area c w s) (L q) x")
    case None
    then have n: "\<not> in_area (the (areas (put_area c w s) b)) x" if "b \<in> set (L q)" for b using that by (auto simp: area_at_def find_None_iff)
    have "area_at s (L q) x = None" if "\<not> (q = p \<and> in_area v x)"
    proof -
      have "\<not> in_area (the (areas s b)) x" if "b \<in> set (L q)" for b
        using n [OF that] \<open>\<not> (q = p \<and> in_area v x)\<close> v mm_one_process [OF m p(1) q p(2)] that by (auto simp: ar split: if_splits)
      then show ?thesis by (simp add: area_at_def find_None_iff)
    qed
    then show ?thesis using None n [of c] p(2) by (auto simp: ar)
  next
    case (Some b)
    then have b: "b \<in> set (L q)" "in_area (the (areas (put_area c w s) b)) x" using area_at_Some [OF m' q] by auto
    show ?thesis
    proof (cases "b = c")
      case True
      then have "q = p" "in_area w x" using b mm_one_process [OF m p(1) q p(2)] by (auto simp: ar)
      then show ?thesis using Some True sub by simp
    next
      case False
      then have bx: "in_area (the (areas s b)) x" using b by (simp add: ar)
      have "\<not> (q = p \<and> in_area v x)"
        using mm_viewD(4) [OF m p(1) p(2), of b v "the (areas s b)" x] b(1) False bx v mm_area [OF m q b(1)] by auto
      then show ?thesis using Some area_at_Some [OF m q, of x b] b(1) bx by auto
    qed
  qed
  show "perms (put_area c w s) (L q) x =
      (if q = p \<and> in_area v x then if in_area w x then Some (a_flags w, a_type w) else None else perms s (L q) x)"
  proof (cases "q = p \<and> in_area v x")
    case True
    then show ?thesis using at by (simp add: perms_def ar)
  next
    case False
    have "b \<noteq> c" if "area_at s (L q) x = Some b" for b
      using area_at_Some [OF m q, of x b] that False v mm_one_process [OF m p(1) q p(2)] by auto
    then show ?thesis using at False by (cases "area_at s (L q) x") (auto simp: perms_def ar)
  qed
qed

lemma perms_at:
  assumes "mm_view P s L" "p \<in> P" "c \<in> set (L p)" "areas s c = Some v" "in_area v x"
  shows "area_at s (L p) x = Some c" "perms s (L p) x = Some (a_flags v, a_type v)"
  using area_at_Some [OF assms(1,2), of x c] assms(3-5) by (auto simp: perms_def)

lemma cut_view:
  assumes m: "mm_view P s L" and p: "p \<in> P" "c \<in> set (L p)" and v: "areas s c = Some v"
    and le: "a_start v \<le> st" "st \<le> en" "en \<le> a_end v"
  obtains L' where "mm_view P (cut_out st en c v s) L'" "\<forall>q\<in>P. set (L q) \<subseteq> set (L' q)"
    "\<forall>q\<in>P. perms (cut_out st en c v s) (L' q) = perms s (L q)"
    "a_start v < st \<longrightarrow> next_area s \<in> set (L' p)"
    "en < a_end v \<longrightarrow> next_area (cut_left st c v s) \<in> set (L' p)"
proof -
  have ow: "owner v = p" using mm_viewD(3) [OF m p v] by simp
  let ?w = "v\<lparr>a_start := st, a_end := en\<rparr>" and ?s0 = "put_area c (v\<lparr>a_start := st, a_end := en\<rparr>) s"
  obtain us vs where l: "L p = us @ c # vs" using p(2) by (auto dest: split_list)
  have cn: "c < next_area s" using mm_viewD(2) [OF m, of c] v by (cases "c < next_area s") auto
  have sub: "\<forall>x. in_area ?w x \<longrightarrow> in_area v x" using le by (auto simp: in_area_def)
  have w: "owner ?w = p" "a_start ?w \<le> a_end ?w" using ow le(2) by simp_all
  note s0 = put_area_perms [OF m p v w sub]
  have fl: "area_at ?s0 (L p) x = None" if "a_start v \<le> x" "x < st" for x
    using s0(2) [OF p(1), of x] that le by (auto simp: in_area_def)
  obtain us' where l1: "mm_view P (cut_left st c v ?s0) (L(p := us' @ c # vs))" "set us \<subseteq> set us'"
    "\<forall>q\<in>P. \<forall>x. perms (cut_left st c v ?s0) ((L(p := us' @ c # vs)) q) x =
      (if q = p \<and> a_start v \<le> x \<and> x < st then Some (a_flags v, a_type v) else perms ?s0 (L q) x)"
    "a_start v < st \<longrightarrow> next_area ?s0 \<in> set us'"
    by (rule cut_left_view [OF s0(1) [OF p(1)] p(1) l ow le(1)]) (erule (1) fl | rule that; assumption)+
  let ?L = "L(p := us' @ c # vs)"
  have fr: "area_at (cut_left st c v ?s0) (?L p) x = None" if "en \<le> x" "x < a_end v" for x
  proof -
    have "perms (cut_left st c v ?s0) (?L p) x = None"
      using that le l1(3) [rule_format, OF p(1), of x] s0(3) [OF p(1), of x] by (auto simp: in_area_def)
    then show ?thesis by (simp add: perms_def)
  qed
  have lp: "?L p = us' @ c # vs" by simp
  obtain vs' where l2: "mm_view P (cut_right en c v (cut_left st c v ?s0)) (?L(p := us' @ c # vs'))" "set vs \<subseteq> set vs'"
    "\<forall>q\<in>P. \<forall>x. perms (cut_right en c v (cut_left st c v ?s0)) ((?L(p := us' @ c # vs')) q) x =
      (if q = p \<and> en \<le> x \<and> x < a_end v then Some (a_flags v, a_type v) else perms (cut_left st c v ?s0) (?L q) x)"
    "en < a_end v \<longrightarrow> next_area (cut_left st c v ?s0) \<in> set vs'"
    by (rule cut_right_view [OF l1(1) p(1) lp ow le(3)]) (erule (1) fr | rule that; assumption)+
  note l1p = l1(3) [rule_format] and l2p = l2(3) [rule_format, unfolded fun_upd_upd]
  have eq: "cut_right en c v (cut_left st c v ?s0) = cut_out st en c v s"
    unfolding cut_out_def cut_put(1) [OF cn] by (rule cut_put(2)) (simp add: less_SucI cn)
  have n0: "next_area ?s0 = next_area s" by (simp add: put_area_def)
  show thesis
  proof (rule that [of "L(p := us' @ c # vs')"])
    show "mm_view P (cut_out st en c v s) (L(p := us' @ c # vs'))" using l2(1) eq by simp
    show "\<forall>q\<in>P. set (L q) \<subseteq> set ((L(p := us' @ c # vs')) q)" using l l1(2) l2(2) by auto
    have "perms (cut_out st en c v s) ((L(p := us' @ c # vs')) q) x = perms s (L q) x" if q: "q \<in> P" for q x
    proof (cases "q = p \<and> a_start v \<le> x \<and> x < a_end v")
      case True
      then have "perms s (L q) x = Some (a_flags v, a_type v)" using perms_at(2) [OF m p v] by (simp add: in_area_def)
      moreover have "en \<le> x \<or> x < st \<or> st \<le> x \<and> x < en" by auto
      ultimately show ?thesis
        using True unfolding eq [symmetric] l2p [OF q] l1p [OF q] s0(3) [OF q] in_area_def by auto
    next
      case False
      then have "\<not> (q = p \<and> en \<le> x \<and> x < a_end v)" "\<not> (q = p \<and> a_start v \<le> x \<and> x < st)" using le by auto
      then show ?thesis using False unfolding eq [symmetric] l2p [OF q] l1p [OF q] s0(3) [OF q] in_area_def by auto
    qed
    then show "\<forall>q\<in>P. perms (cut_out st en c v s) ((L(p := us' @ c # vs')) q) = perms s (L q)" by (intro ballI ext)
    show "a_start v < st \<longrightarrow> next_area s \<in> set ((L(p := us' @ c # vs')) p)" using l1(4) n0 by simp
    show "en < a_end v \<longrightarrow> next_area (cut_left st c v s) \<in> set ((L(p := us' @ c # vs')) p)" using l2(4) n0 by auto
  qed
qed

section \<open>The copies\<close>

text \<open>Every copy's pieces join the rings of the pieces of the area itself.\<close>

lemma join_ring:
  assumes r: "rings H S C Q" and l: "l \<in> H" and n: "n \<notin> H" "n \<notin> S"
  shows "rings H (insert n S) (append_to_list (init_list C n) l n) (Q(l := Q l @ [n]))"
proof -
  have "\<not> queued H Q n" using ringsD(2) [OF r] n by (auto simp: queued_def)
  then show ?thesis using rings_append [OF rings_init_item [OF r n] l, of n] by simp
qed

definition joined :: "nat option \<Rightarrow> nat \<Rightarrow> nat links \<Rightarrow> nat links" where
  "joined h n C = (case h of None \<Rightarrow> C | Some l \<Rightarrow> append_to_list (init_list C n) l n)"

lemma joined_rings:
  assumes r: "rings H S C Q" and h: "set_option h \<subseteq> H - {a}" and n: "n \<notin> H" "n \<notin> S"
  obtains Q' where "rings H (S \<union> (if h = None then {} else {n})) (joined h n C) Q'" "Q' a = Q a"
    "\<And>b. b \<in> set_option h \<Longrightarrow> Q' b \<noteq> []" "\<And>b. Q b \<noteq> [] \<Longrightarrow> Q' b \<noteq> []"
proof (cases h)
  case None
  then show thesis using r by (intro that [of Q]) (simp_all add: joined_def)
next
  case (Some l)
  then show thesis using join_ring [OF r _ n, of l] h by (intro that [of "Q(l := Q l @ [n])"]) (auto simp: joined_def)
qed

lemma cut_copies:
  "copies (cut_out st en c v s) = (let C = (if st > a_start v then init_list (copies s) (next_area s) else copies s) in
     if en < a_end v then init_list C (next_area (cut_left st c v s)) else C)"
  by (simp add: cut_out_def cut_left_def cut_right_def alloc_area_def put_area_def Let_def)

lemma cut_dom:
  assumes "c \<in> dom (areas s)"
  shows "dom (areas (cut_out st en c v s)) = dom (areas s) \<union> (if st > a_start v then {next_area s} else {}) \<union>
      (if en < a_end v then {next_area (cut_left st c v s)} else {})"
    and "areas (cut_out st en c v s) c = Some (v\<lparr>a_start := st, a_end := en\<rparr>)"
    and "b \<noteq> c \<Longrightarrow> b < next_area s \<Longrightarrow> areas (cut_out st en c v s) b = areas s b"
  using assms by (auto simp: cut_areas split: if_splits)

lemma split_copy_cut:
  assumes v: "areas s c = Some v" "c < next_area s" and l: "left = None \<longleftrightarrow> \<not> a_start v < st" and r: "right = None \<longleftrightarrow> \<not> en < a_end v"
  shows "split_copy st en left right c s = Inr ((cut_out st en c v s)\<lparr>copies :=
    joined right (next_area (cut_left st c v s)) (joined left (next_area s) (copies s))\<rparr>)"
  using assms
  by (cases left; cases right)
    (auto simp: split_copy_def cut_out_def cut_left_def cut_right_def joined_def area_of_def upd_area_def alloc_area_def put_area_def Let_def)

lemma mm_view_copies [simp]:
  "mm_view P (s\<lparr>copies := C\<rparr>) L = mm_view P s L" "perms (s\<lparr>copies := C\<rparr>) as = perms s as"
  "area_at (s\<lparr>copies := C\<rparr>) as x = area_at s as x"
  by (simp_all add: mm_view_def perms_def area_at_def fun_eq_iff)

lemma view_fresh: "mm_view P s L \<Longrightarrow> areas s c = Some v \<Longrightarrow> c < next_area s"
  using mm_viewD(2) [of P s L c] by (cases "c < next_area s") auto

section \<open>The loop over the copies\<close>

text \<open>
  While \<open>xs\<close> of the copies \<open>cs\<close> of \<open>a\<close> are still whole: the pieces of the others have joined the rings of \<open>H\<close>, \<open>s\<close> being the state after
  the cut of \<open>a\<close>.
\<close>

definition splitting :: "nat set \<Rightarrow> (nat \<Rightarrow> nat list) \<Rightarrow> nat set \<Rightarrow> nat \<Rightarrow> nat list \<Rightarrow> mms \<Rightarrow> nat list \<Rightarrow> mms \<Rightarrow> bool" where
  "splitting P L H a cs s xs t \<longleftrightarrow> (\<exists>old L' S Q. cs = old @ xs \<and> mm_view P t L' \<and> (\<forall>q\<in>P. set (L q) \<subseteq> set (L' q)) \<and>
     (\<forall>q\<in>P. perms t (L' q) = perms s (L q)) \<and> (\<forall>b\<in>dom (areas s) - set old. areas t b = areas s b) \<and>
     rings H S (copies t) Q \<and> Q a = cs \<and> H \<union> S \<subseteq> dom (areas t) \<and> (old \<noteq> [] \<longrightarrow> (\<forall>h\<in>H - {a}. Q h \<noteq> [])) \<and>
     mvm t = mvm s \<and> pmm t = pmm s \<and> procmm_sem t = procmm_sem s)"

lemma splitting_step:
  assumes sp: "splitting P L H a cs s (c # xs) t" and H: "H = insert a (set_option left \<union> set_option right)"
    and a: "a \<notin> set_option left \<union> set_option right"
    and c: "q \<in> P" "c \<in> set (L q)" "areas s c = Some w"
    and l: "left = None \<longleftrightarrow> \<not> a_start w < st" and r: "right = None \<longleftrightarrow> \<not> en < a_end w" and le: "a_start w \<le> st" "st \<le> en" "en \<le> a_end w"
  shows "\<exists>t'. split_copy st en left right c t = Inr t' \<and> splitting P L H a cs s xs t' \<and> nxt (copies t') c = hd (xs @ [a]) \<and> c \<noteq> a"
proof -
  obtain old L' S Q where i: "cs = old @ c # xs" "mm_view P t L'" "\<forall>q\<in>P. set (L q) \<subseteq> set (L' q)"
    "\<forall>q\<in>P. perms t (L' q) = perms s (L q)" "\<forall>b\<in>dom (areas s) - set old. areas t b = areas s b"
    "rings H S (copies t) Q" "Q a = cs" "H \<union> S \<subseteq> dom (areas t)" "old \<noteq> [] \<longrightarrow> (\<forall>h\<in>H - {a}. Q h \<noteq> [])"
    "mvm t = mvm s" "pmm t = pmm s" "procmm_sem t = procmm_sem s" using sp unfolding splitting_def by blast
  have aH: "a \<in> H" using H by simp
  have "distinct (a # cs)" using ring_distinct [OF ringsD(1) [OF i(6) aH]] i(7) by simp
  then have ca: "c \<noteq> a" "c \<notin> set old" using i(1) by auto
  then have "c \<in> dom (areas s) - set old" using c(3) by auto
  then have w: "areas t c = Some w" using i(5) c(3) by simp
  have cL: "c \<in> set (L' q)" using i(3) c(1,2) by blast
  have fr: "b < next_area t" if "b \<in> dom (areas t)" for b using view_fresh [OF i(2)] that by auto
  let ?n = "next_area t" and ?m = "next_area (cut_left st c w t)"
  have n: "?n \<notin> H" "?n \<notin> S" using fr [of ?n] i(8) by auto
  obtain Q1 where Q1: "rings H (S \<union> (if left = None then {} else {?n})) (joined left ?n (copies t)) Q1" "Q1 a = Q a"
    "\<And>b. b \<in> set_option left \<Longrightarrow> Q1 b \<noteq> []" "\<And>b. Q b \<noteq> [] \<Longrightarrow> Q1 b \<noteq> []"
    by (rule joined_rings [OF i(6) _ n, of left a]) (use H a in auto)
  have "?m \<notin> dom (areas t)" by (rule notI, drule fr) (simp split: if_splits)
  then have m0: "?m \<notin> H" "?m \<notin> S" using i(8) by auto
  have m: "?m \<notin> H" "?m \<notin> S \<union> (if left = None then {} else {?n})" using m0 i(8) l by (auto split: if_splits)
  obtain Q2 where Q2: "rings H (S \<union> (if left = None then {} else {?n}) \<union> (if right = None then {} else {?m}))
      (joined right ?m (joined left ?n (copies t))) Q2" "Q2 a = Q1 a"
    "\<And>b. b \<in> set_option right \<Longrightarrow> Q2 b \<noteq> []" "\<And>b. Q1 b \<noteq> [] \<Longrightarrow> Q2 b \<noteq> []"
    by (rule joined_rings [OF Q1(1) _ m, of right a]) (use H a in auto)
  define u where "u = cut_out st en c w t"
  let ?t = "u\<lparr>copies := joined right ?m (joined left ?n (copies t))\<rparr>"
  have run: "split_copy st en left right c t = Inr ?t" unfolding u_def by (rule split_copy_cut [OF w fr l r]) (use w in auto)
  obtain L2 where L2: "mm_view P u L2" "\<forall>q\<in>P. set (L' q) \<subseteq> set (L2 q)" "\<forall>q\<in>P. perms u (L2 q) = perms t (L' q)"
    unfolding u_def by (rule cut_view [OF i(2) c(1) cL w le])
  have cd: "c \<in> dom (areas t)" using w by auto
  note dom = cut_dom [OF cd, where st = st and en = en and v = w, folded u_def]
  have sd: "b \<in> dom (areas t)" if "b \<in> dom (areas s)" for b
  proof (cases "b \<in> set old")
    case True
    then show ?thesis using ringsD(2) [OF i(6) aH] i(1,7,8) by auto
  next
    case False
    then have "areas t b = areas s b" using i(5) that by blast
    then show ?thesis using that by (simp add: domIff)
  qed
  have "splitting P L H a cs s xs ?t" unfolding splitting_def
  proof (intro exI conjI)
    show "cs = (old @ [c]) @ xs" using i(1) by simp
    show "mm_view P ?t L2" using L2(1) by simp
    show "\<forall>q\<in>P. set (L q) \<subseteq> set (L2 q)" using i(3) L2(2) by blast
    show "\<forall>q\<in>P. perms ?t (L2 q) = perms s (L q)" using i(4) L2(3) by simp
    show "\<forall>b\<in>dom (areas s) - set (old @ [c]). areas ?t b = areas s b"
    proof
      fix b assume b: "b \<in> dom (areas s) - set (old @ [c])"
      then have "areas u b = areas t b" using fr [OF sd [of b]] by (intro dom(3)) auto
      then show "areas ?t b = areas s b" using b i(5) by simp
    qed
    show "rings H (S \<union> (if left = None then {} else {?n}) \<union> (if right = None then {} else {?m})) (copies ?t) Q2" using Q2(1) by simp
    show "Q2 a = cs" using Q2(2) Q1(2) i(7) by simp
    show "H \<union> (S \<union> (if left = None then {} else {?n}) \<union> (if right = None then {} else {?m})) \<subseteq> dom (areas ?t)"
      using i(8) l r by (auto simp: dom(1))
    show "old @ [c] \<noteq> [] \<longrightarrow> (\<forall>h\<in>H - {a}. Q2 h \<noteq> [])" using H Q1(3) Q2(3,4) by auto
  qed (simp_all add: u_def i(10-12))
  moreover have "nxt (copies ?t) c = hd (xs @ [a])" using rings_next [OF Q2(1) aH, of old c xs] Q2(2) Q1(2) i(1,7) by simp
  ultimately show ?thesis using run ca(1) by blast
qed

lemma splitting_start:
  assumes m: "mm_view P t L" and sub: "insert a (set cs) \<subseteq> dom (areas s)" and r: "ring (copies s) a cs"
    and t: "t = cut_out st en a v s" and l: "left = (if a_start v < st then Some (next_area s) else None)"
    and rt: "right = (if en < a_end v then Some (next_area (cut_left st a v s)) else None)" and fr: "\<forall>b\<in>dom (areas s). b < next_area s"
  shows "splitting P L (insert a (set_option left \<union> set_option right)) a cs t cs t"
proof -
  have "distinct (a # cs)" using ring_distinct [OF r] .
  then have r0: "rings {a} (set cs) (copies s) (\<lambda>_. cs)" using r by (auto simp: rings_def queued_def)
  let ?n = "next_area s" and ?m = "next_area (cut_left st a v s)"
  have "?n \<notin> dom (areas s)" "?m \<notin> dom (areas s)" by (rule notI, drule fr [rule_format], simp split: if_splits)+
  then have n: "?n \<notin> insert a (set cs)" "?m \<notin> insert a (set cs)" using sub by blast+
  define C where "C = (if a_start v < st then init_list (copies s) ?n else copies s)"
  have "\<exists>Q. rings (insert a (set_option left)) (set cs) C Q \<and> Q a = cs"
  proof (cases "a_start v < st")
    case True
    then show ?thesis using rings_init_head [OF r0, of ?n] n(1) l by (intro exI [of _ "(\<lambda>_. cs)(?n := [])"]) (auto simp: C_def insert_commute)
  next
    case False
    then show ?thesis using r0 l by (auto simp: C_def)
  qed
  then obtain Q where Q: "rings (insert a (set_option left)) (set cs) C Q" "Q a = cs" by blast
  have "\<exists>Q. rings (insert a (set_option left \<union> set_option right)) (set cs) (copies t) Q \<and> Q a = cs"
  proof (cases "en < a_end v")
    case True
    have "?m \<notin> insert a (set_option left)" using n(2) l by auto
    then show ?thesis using rings_init_head [OF Q(1), of ?m] n(2) rt True Q(2)
      by (intro exI [of _ "Q(?m := [])"]) (auto simp: t cut_copies C_def [symmetric] insert_commute)
  next
    case False
    then show ?thesis using Q rt by (auto simp: t cut_copies C_def)
  qed
  then obtain Q' where Q': "rings (insert a (set_option left \<union> set_option right)) (set cs) (copies t) Q'" "Q' a = cs" by blast
  have ad: "a \<in> dom (areas s)" using sub by simp
  show ?thesis unfolding splitting_def
    by (rule exI [of _ "[]"], rule exI [of _ L], rule exI [of _ "set cs"], rule exI [of _ Q'])
      (use m Q' sub l rt cut_dom(1) [OF ad, of st en v] in \<open>auto simp: t\<close>)
qed

section \<open>The split\<close>

text \<open>The areas of \<open>cs\<close> are the copies of area \<open>a\<close>: areas of these processes with the same range.\<close>

definition shared_range :: "nat set \<Rightarrow> (nat \<Rightarrow> nat list) \<Rightarrow> mms \<Rightarrow> nat \<Rightarrow> nat list \<Rightarrow> bool" where
  "shared_range P L s a cs \<longleftrightarrow> ring (copies s) a cs \<and>
     (\<forall>c\<in>set cs. (\<exists>q\<in>P. c \<in> set (L q)) \<and> a_start (the (areas s c)) = a_start (the (areas s a)) \<and> a_end (the (areas s c)) = a_end (the (areas s a)))"

lemma split_area_view:
  assumes m: "mm_view P s L" and p: "p \<in> P" "a \<in> set (L p)" and v: "areas s a = Some v" and sem: "procmm_sem s = 0"
    and al: "st AND PAGE_MASK = st" "en AND PAGE_MASK = en" and le: "a_start v \<le> st" "st \<le> en" "en \<le> a_end v"
    and sh: "shared_range P L s a cs" and ne: "cs \<noteq> []"
  obtains t L' where "split_area a st en s = Inr t" "mm_view P t L'" "\<forall>q\<in>P. set (L q) \<subseteq> set (L' q)" "\<forall>q\<in>P. perms t (L' q) = perms s (L q)"
    "areas t a = Some (v\<lparr>a_start := st, a_end := en\<rparr>)" "ring (copies t) a cs" "mvm t = mvm s" "pmm t = pmm s" "procmm_sem t = 0"
    "\<forall>y. in_area v y \<and> \<not> (st \<le> y \<and> y < en) \<longrightarrow>
       (\<exists>b bs. area_at t (L' p) y = Some b \<and> ring (copies t) b bs \<and> bs \<noteq> [] \<and> set (b # bs) \<inter> set (a # cs) = {})"
proof (cases "a_start v = st \<and> a_end v = en")
  case True
  then have "split_area a st en s = Inr s" using al v by (simp add: split_area_def area_of_def Let_def)
  moreover have "v\<lparr>a_start := st, a_end := en\<rparr> = v" using True by auto
  ultimately show thesis using m v sem sh True by (intro that [of s L]) (auto simp: shared_range_def in_area_def)
next
  case False
  have rg: "ring (copies s) a cs" using sh by (simp add: shared_range_def)
  let ?s = "s\<lparr>procmm_sem := 1\<rparr>" and ?left = "if a_start v < st then Some (next_area s) else None"
  let ?right = "if en < a_end v then Some (next_area (cut_left st a v (s\<lparr>procmm_sem := 1\<rparr>))) else None"
  define t1 where "t1 = cut_out st en a v ?s"
  have m1: "mm_view P ?s L" using m by simp
  obtain L1 where L1: "mm_view P t1 L1" "\<forall>q\<in>P. set (L q) \<subseteq> set (L1 q)" "\<forall>q\<in>P. perms t1 (L1 q) = perms ?s (L q)"
    "a_start v < st \<longrightarrow> next_area ?s \<in> set (L1 p)" "en < a_end v \<longrightarrow> next_area (cut_left st a v ?s) \<in> set (L1 p)"
    unfolding t1_def by (rule cut_view [OF m1 p _ le]) (use v in simp)
  have ad: "a \<in> dom (areas ?s)" using v by auto
  note d1 = cut_dom [OF ad, where st = st and en = en and v = v, folded t1_def]
  have fr: "\<forall>b\<in>dom (areas ?s). b < next_area ?s" using view_fresh [OF m] by auto
  have cd: "c \<in> dom (areas s)" if "c \<in> set cs" for c using sh that mm_area [OF m] unfolding shared_range_def by blast
  have dist: "distinct (a # cs)" by (rule ring_distinct [OF rg])
  let ?H = "insert a (set_option ?left \<union> set_option ?right)"
  have st1: "splitting P L1 ?H a cs t1 cs t1"
    using cd v fr rg by (intro splitting_start [OF L1(1) _ _ t1_def]) auto
  have na: "a < next_area s" using fr ad by auto
  have ah: "a \<notin> set_option ?left \<union> set_option ?right" using na by auto
  have step: "\<exists>t'. split_copy st en ?left ?right c t = Inr t' \<and> splitting P L1 ?H a cs t1 xs t' \<and> nxt (copies t') c = hd (xs @ [a]) \<and> c \<noteq> a"
    if sp: "splitting P L1 ?H a cs t1 (c # xs) t" for c xs t
  proof -
    have c: "c \<in> set cs" using sp by (auto simp: splitting_def)
    obtain q where q: "q \<in> P" "c \<in> set (L q)" using sh c unfolding shared_range_def by blast
    obtain w where w: "areas s c = Some w" using cd [OF c] by blast
    have "c \<noteq> a" using dist c by auto
    then have "areas t1 c = Some w" using d1(3) [of c] fr cd [OF c] w by auto
    moreover have "a_start w = a_start v" "a_end w = a_end v" using sh c w v unfolding shared_range_def by auto
    moreover have "c \<in> set (L1 q)" using L1(2) q by blast
    ultimately show ?thesis using le by (intro splitting_step [OF sp refl ah q(1), where w = w]) auto
  qed
  obtain u where u: "loop_after copies (split_copy st en ?left ?right) a (hd (cs @ [a])) t1 = Some (Inr u)" "splitting P L1 ?H a cs t1 [] u"
    using loop_after_steps [of "splitting P L1 ?H a cs t1" "split_copy st en ?left ?right" copies a, OF step st1] by blast
  obtain L' S Q where U: "mm_view P u L'" "\<forall>q\<in>P. set (L1 q) \<subseteq> set (L' q)" "\<forall>q\<in>P. perms u (L' q) = perms t1 (L1 q)"
    "\<forall>b\<in>dom (areas t1) - set cs. areas u b = areas t1 b" "rings ?H S (copies u) Q" "Q a = cs" "\<forall>h\<in>?H - {a}. Q h \<noteq> []"
    "mvm u = mvm t1" "pmm u = pmm t1" "procmm_sem u = procmm_sem t1"
    using u(2) ne unfolding splitting_def by auto
  have dl: "(if a_start v < st then (let (l, s) = alloc_area (a_start v) st (a_flags v) (a_type v) (owner v) ?s
        in (Some l, s\<lparr>mem := list_insert_to_left (mem s) (Mem a) (Mem l)\<rparr>)) else (None, ?s)) = (?left, cut_left st a v ?s)"
    by (simp add: cut_left_def alloc_area_def put_area_def Let_def)
  have dr: "(if en < a_end v then (let (r, s) = alloc_area en (a_end v) (a_flags v) (a_type v) (owner v) z
        in (Some r, s\<lparr>mem := list_insert_to_right (mem s) (Mem a) (Mem r)\<rparr>)) else (None, z)) =
      (if en < a_end v then Some (next_area z) else None, cut_right en a v z)" for z
    by (simp add: cut_right_def alloc_area_def put_area_def Let_def)
  have "nxt (copies t1) a = hd (cs @ [a])"
    using st1 ringsD(1) [of ?H _ "copies t1" _ a] ring_head [of "copies t1" a cs] unfolding splitting_def by blast
  then have "for_each_do copies a (split_copy st en ?left ?right) t1 = Inr u" using u(1) by (simp add: for_each_do_def)
  moreover have "areas (cut_right en a v (cut_left st a v ?s)) a = Some v" using v na by (simp add: cut_areas)
  ultimately have run: "split_area a st en s = Inr (u\<lparr>procmm_sem := 0\<rparr>)"
    using False v sem al unfolding split_area_def
    by (simp add: area_of_def lock_procmm_def spin_lock_def Let_def [of "st AND PAGE_MASK"] Let_def [of "en AND PAGE_MASK"] dl dr)
      (cases "a_start v < st"; cases "en < a_end v"; auto simp: upd_area_def area_of_def t1_def cut_out_def)
  have piece: "\<exists>bs. area_at u (L' p) y = Some b \<and> ring (copies u) b bs \<and> bs \<noteq> [] \<and> set (b # bs) \<inter> set (a # cs) = {}"
    if b: "b \<in> set_option ?left \<union> set_option ?right" "b \<in> set (L1 p)" "areas t1 b = Some w" "in_area w y" for b w y
  proof -
    have bH: "b \<in> ?H" "a \<in> ?H" "b \<noteq> a" using b(1) ah by auto
    have "next_area s \<le> b" using b(1) by (auto split: if_splits)
    then have "b \<notin> dom (areas s)" using fr by (auto simp: linorder_not_less [symmetric])
    then have "areas u b = Some w" using U(4) b(3) cd by (metis DiffI domI)
    moreover have "b \<in> set (L' p)" using U(2) p(1) b(2) by blast
    ultimately have "area_at u (L' p) y = Some b" using area_at_Some [OF U(1) p(1), of y b] b(4) by simp
    moreover have "ring (copies u) b (Q b)" "Q b \<noteq> []" using ringsD(1) [OF U(5) bH(1)] U(7) bH by auto
    moreover have "set (b # Q b) \<inter> set (a # cs) = {}" using rings_disjoint [OF U(5) bH] U(6) by simp
    ultimately show ?thesis by blast
  qed
  show thesis
  proof (rule that [OF run, of L'])
    show "areas (u\<lparr>procmm_sem := 0\<rparr>) a = Some (v\<lparr>a_start := st, a_end := en\<rparr>)"
    proof -
      have "a \<in> dom (areas t1) - set cs" using d1(2) dist by auto
      then show ?thesis using U(4) d1(2) by simp
    qed
    show "ring (copies (u\<lparr>procmm_sem := 0\<rparr>)) a cs" using ringsD(1) [OF U(5), of a] U(6) by simp
    show "\<forall>y. in_area v y \<and> \<not> (st \<le> y \<and> y < en) \<longrightarrow>
       (\<exists>b bs. area_at (u\<lparr>procmm_sem := 0\<rparr>) (L' p) y = Some b \<and> ring (copies (u\<lparr>procmm_sem := 0\<rparr>)) b bs \<and> bs \<noteq> [] \<and> set (b # bs) \<inter> set (a # cs) = {})"
    proof (intro allI impI)
      fix y assume y: "in_area v y \<and> \<not> (st \<le> y \<and> y < en)"
      show "\<exists>b bs. area_at (u\<lparr>procmm_sem := 0\<rparr>) (L' p) y = Some b \<and> ring (copies (u\<lparr>procmm_sem := 0\<rparr>)) b bs \<and> bs \<noteq> [] \<and> set (b # bs) \<inter> set (a # cs) = {}"
      proof (cases "y < st")
        case True
        then have lt: "a_start v < st" "in_area (v\<lparr>a_end := st\<rparr>) y" using y by (auto simp: in_area_def)
        have "areas t1 (next_area s) = Some (v\<lparr>a_end := st\<rparr>)" using lt(1) na by (simp add: t1_def cut_areas)
        then show ?thesis using piece [of "next_area s", OF _ _ _ lt(2)] L1(4) lt(1) by (auto simp: area_at_def)
      next
        case False
        then have lt: "en < a_end v" "in_area (v\<lparr>a_start := en\<rparr>) y" using y by (auto simp: in_area_def)
        have "areas t1 (next_area (cut_left st a v ?s)) = Some (v\<lparr>a_start := en\<rparr>)" using lt(1) na by (simp add: t1_def cut_areas)
        then show ?thesis using piece [of "next_area (cut_left st a v ?s)", OF _ _ _ lt(2)] L1(5) lt(1) by (auto simp: area_at_def)
      qed
    qed
    show "\<forall>q\<in>P. set (L q) \<subseteq> set (L' q)" using L1(2) U(2) by blast
  qed (use U(1,3,8,9) L1(3) in \<open>simp_all add: t1_def\<close>)
qed

end
