(* ===== verification/CopyOnWrite.thy ===== *)
theory CopyOnWrite imports AreaSplit AllocEffect begin

text \<open>
  Copy on write. The memory of two processes is shared until one of them writes: the page fault gives the writer a page of its
  own with the same content, and nobody else sees a change.
\<close>

section \<open>The copy\<close>

text \<open>
  In \<open>m'\<close> the page of \<open>x\<close> is a writable copy in frame \<open>f\<close> of what entry \<open>e\<close> of \<open>m\<close> leads to. No other page of a process
  changes its entry, and no frame but \<open>f\<close> and those of page tables changes its content.
\<close>

definition own_copy :: "u32 \<Rightarrow> u32 \<Rightarrow> u32 \<Rightarrow> vm \<Rightarrow> vm \<Rightarrow> bool" where
  "own_copy x e f m m' \<longleftrightarrow>
     hw_pte m' x = Some (vmm_page_val f ((e AND PAGE_FLAG_MASK) OR PAGE_WRITE)) \<and>
     (\<forall>i. phys m' (frame f OR (i AND PAGE_FLAG_MASK)) = phys m (frame e OR (i AND PAGE_FLAG_MASK))) \<and>
     (\<forall>y. y < KERNEL_OFFSET \<longrightarrow> vmm_table_idx y \<noteq> vmm_table_idx x \<longrightarrow> hw_pte m' y = hw_pte m y) \<and>
     (\<forall>a. no_table m (frame a) \<longrightarrow> frame a \<noteq> frame f \<longrightarrow> phys m' a = phys m a)"

lemma copy_page_effect:
  assumes ok: "pmm_ok m" and temp: "mapped_dir m VMM_TEMP1" and x: "x < KERNEL_OFFSET" and pte: "hw_pte m x = Some e"
    and room: "pmm_page_stack_ptr m \<noteq> PMM_PAGE_STACK" and used: "no_table m (frame e)"
    and free: "\<forall>g\<in>set (avail m). no_table m (frame g) \<and> frame g \<noteq> frame e"
  obtains f m1 m2 m3 m4 m5 where "vmm_page_set VMM_TEMP1 e m = Inr m1" and "pmm_alloc_page m1 = Inr (f, m2)"
    and "vmm_page_set (x AND PAGE_MASK) (vmm_page_val f ((e AND PAGE_FLAG_MASK) OR PAGE_WRITE)) m2 = Inr m3"
    and "vcopy_page (x AND PAGE_MASK) VMM_TEMP1 m3 = Inr m4" and "vmm_page_set VMM_TEMP1 0 m4 = Inr m5"
    and "f \<in> set (avail m)" and "own_copy x e f m m5"
proof -
  let ?T = VMM_TEMP1
  note d = user_dir [OF x]
  have dx: "vmm_dir_idx x < 1022" using d by (rule less_trans) simp
  have dT: "vmm_dir_idx ?T = 0x3FD" by (simp add: VMM_TEMP1_def vmm_dir_idx_def)
  have T: "vmm_dir_idx ?T < 1022" "vmm_dir_idx ?T \<noteq> vmm_dir_idx PMM_PAGE_STACK" by (simp_all add: dT dir_idx_stack)
  have user: "vmm_dir_idx y < 1022" "vmm_dir_idx y \<noteq> vmm_dir_idx PMM_PAGE_STACK" "vmm_table_idx y \<noteq> vmm_table_idx ?T"
    if "y < KERNEL_OFFSET" for y
    using user_dir [OF that] table_idx_dir_idx [of y ?T] by (auto simp: dir_idx_stack dT word_less_nat_alt)
  have ok_m: "tables_ok m" using stack_ok_facts(1) [OF pmm_okD [OF ok]] .
  define m1 where "m1 = set_pte m ?T e"
  note s1 = set_pte_effect [OF ok_m T(1) temp, where v = e, folded m1_def]
    set_pte_no_table_gen [OF ok_m T(1) temp, where v = e, folded m1_def]
  note p1 = set_pte_pmm_ok [OF ok T temp, where v = e, folded m1_def]
  have r1: "vmm_page_set ?T e m = Inr m1" unfolding m1_def by (rule vmm_page_set_present [OF tables_ok_rec [OF ok_m] temp])
  have "pmm_page_stack_ptr m1 \<noteq> PMM_PAGE_STACK" using room by (simp add: m1_def)
  then obtain f m2 where r2: "pmm_alloc_page m1 = Inr (f, m2)" using pmm_alloc_takes [OF p1(1)] by blast
  note a2 = alloc_effect [OF p1(1) r2]
  have f: "f \<in> set (avail m)" using a2(2) p1(2) by simp
  then have nf: "no_table m (frame f)" "frame f \<noteq> frame e" using free by auto
  have ok2: "tables_ok m2" using stack_ok_facts(1) [OF pmm_okD [OF a2(1)]] .
  have mx: "mapped_dir m2 x" using pte_mapped(1) [OF pte] a2(5) s1(6) by simp
  define v where "v = vmm_page_val f ((e AND PAGE_FLAG_MASK) OR PAGE_WRITE)"
  define m3 where "m3 = set_pte m2 x v"
  note s3 = set_pte_effect [OF ok2 dx mx, where v = v, folded m3_def] set_pte_no_table_gen [OF ok2 dx mx, where v = v, folded m3_def]
  have r3: "vmm_page_set (x AND PAGE_MASK) v m2 = Inr m3"
    using vmm_page_set_present [OF tables_ok_rec [OF ok2], of "x AND PAGE_MASK" v] mx mapped_dir_cong [of "x AND PAGE_MASK" x m2]
    by (simp add: m3_def)
  have vp: "v AND PAGE_PRESENT \<noteq> 0"
  proof -
    have "bit e 0" using pte_mapped(2) [OF pte] by (simp add: and_1_bit)
    then show ?thesis unfolding v_def page_val_present by (simp add: and_1_bit bit_simps bitw)
  qed
  have fv: "frame v = frame f" by (simp add: v_def frame_def)
  have tx: "mmu_translate m3 (x AND PAGE_MASK) = Some (frame f)"
    using s3(3) vp fv hw_pte_cong [of "x AND PAGE_MASK" x m3] frame_flags(1) [of x] by (simp add: mmu_translate_def frame_def)
  have "hw_pte m3 ?T = Some e"
    using s3(4) [OF T(1)] user(3) [OF x] a2(7) [OF T] s1(3) pte_mapped(2) [OF pte] by simp
  then have tT: "mmu_translate m3 ?T = Some (frame e)" using temp_flags by (simp add: mmu_translate_def frame_def)
  define m4 where "m4 = m3\<lparr>phys := (\<lambda>a. if frame a = frame f then phys m3 (frame e OR (a AND PAGE_FLAG_MASK)) else phys m3 a)\<rparr>"
  have r4: "vcopy_page (x AND PAGE_MASK) ?T m3 = Inr m4"
    using tx tT by (simp add: vcopy_page_def m4_def frame_def cong: if_cong)
  have nt3: "no_table m3 = no_table m" using s3(5) a2(4) s1(5) by simp
  have c4: "cr3 m4 = cr3 m3" and out: "\<And>b. frame b \<noteq> frame f \<Longrightarrow> phys m4 b = phys m3 b" by (simp_all add: m4_def)
  have w4: "tables_ok m4" "\<And>y. hw_pde m4 y = hw_pde m3 y" "\<And>y. vmm_dir_idx y < 1022 \<Longrightarrow> hw_pte m4 y = hw_pte m3 y"
    "no_table m4 = no_table m3"
    using no_table_frame_write [of m3 "frame f" m4] s3(1) nf(1) c4 out by (simp_all add: nt3)
  have T4: "mapped_dir m4 ?T"
    using w4(2) s3(2) a2(5) temp s1(6) by (simp add: mapped_dir_def fun_eq_iff)
  define m5 where "m5 = set_pte m4 ?T 0"
  note s5 = set_pte_effect [OF w4(1) T(1) T4, where v = 0, folded m5_def]
  have r5: "vmm_page_set ?T 0 m4 = Inr m5" unfolding m5_def by (rule vmm_page_set_present [OF tables_ok_rec [OF w4(1)] T4])
  have ph3: "phys m3 a = phys m a" if "no_table m (frame a)" for a
  proof -
    have "phys m3 a = phys m2 a" unfolding m3_def using that a2(4) s1(5) by (intro set_pte_outside [OF _ dx mx]) simp
    also have "\<dots> = phys m1 a"
    proof (rule a2(6))
      have "vmm_dir_idx PMM_PAGE_STACK < 1022" by (simp add: dir_idx_stack)
      then show "frame a \<noteq> table_frame m1 PMM_PAGE_STACK"
        using that s1(2) stack_ok_facts(3) [OF pmm_okD [OF ok]] by (auto simp: no_table_def table_frame_def)
    qed
    also have "\<dots> = phys m a" unfolding m1_def using that by (rule set_pte_outside [OF _ T(1) temp])
    finally show ?thesis .
  qed
  have ph5: "phys m5 a = phys m4 a" if "no_table m (frame a)" for a
    unfolding m5_def using that w4(4) nt3 by (intro set_pte_outside [OF _ T(1) T4]) simp
  have pt5: "hw_pte m5 y = hw_pte m3 y" if "y < KERNEL_OFFSET" for y
    using s5(4) [OF user(1) [OF that] user(3) [OF that]] w4(3) [OF user(1) [OF that]] by simp
  have "own_copy x e f m m5" unfolding own_copy_def v_def [symmetric]
  proof (intro conjI allI impI)
    show "hw_pte m5 x = Some v" using pt5 [OF x] s3(3) vp by simp
    show "phys m5 (frame f OR (i AND PAGE_FLAG_MASK)) = phys m (frame e OR (i AND PAGE_FLAG_MASK))" for i
      using ph5 [of "frame f OR (i AND PAGE_FLAG_MASK)"] ph3 [of "frame e OR (i AND PAGE_FLAG_MASK)"] nf(1) used
      by (simp add: m4_def)
    show "hw_pte m5 y = hw_pte m y" if "y < KERNEL_OFFSET" "vmm_table_idx y \<noteq> vmm_table_idx x" for y
      using pt5 [OF that(1)] s3(4) [OF user(1) [OF that(1)] that(2)] a2(7) [OF user(1,2) [OF that(1)]]
        s1(4) [OF user(1,3) [OF that(1)]] by simp
    show "phys m5 a = phys m a" if "no_table m (frame a)" "frame a \<noteq> frame f" for a
      using ph5 [OF that(1)] out [OF that(2)] ph3 [OF that(1)] by simp
  qed
  then show thesis using that r1 r2 r3 [unfolded v_def] r4 r5 f by blast
qed

section \<open>The page fault\<close>

lemma next_page_base: "((x AND PAGE_MASK) + PAGE_SIZE) AND PAGE_MASK = (x AND PAGE_MASK) + PAGE_SIZE"
proof -
  have "x AND PAGE_MASK = push_bit 12 (drop_bit 12 x)" by (rule bit_word_eqI) (auto simp: bit_simps bitw)
  then have s: "(x AND PAGE_MASK) + PAGE_SIZE = push_bit 12 (drop_bit 12 x + 1)"
    by (simp add: PAGE_SIZE_def push_bit_eq_mult algebra_simps)
  show ?thesis unfolding s by (rule bit_word_eqI) (auto simp: bit_simps bitw)
qed

text \<open>
  The fault of a write to a page of the area \<open>a\<close>, which is copied on write; the area may have more pages, and the areas \<open>cs\<close> share it.
\<close>

definition cow_fault :: "u32 \<Rightarrow> u32 \<Rightarrow> nat \<Rightarrow> mem_area \<Rightarrow> u32 \<Rightarrow> nat set \<Rightarrow> (nat \<Rightarrow> nat list) \<Rightarrow> nat \<Rightarrow> nat list \<Rightarrow> mms \<Rightarrow> bool" where
  "cow_fault x fl a v e P L p cs s \<longleftrightarrow>
     p \<in> P \<and> a \<in> set (L p) \<and> areas s a = Some v \<and> in_area v x \<and> a_start v AND PAGE_MASK = a_start v \<and> a_end v AND PAGE_MASK = a_end v \<and>
     a_flags v AND MM_FLAG_COW \<noteq> 0 \<and> fl AND PF_PRESENT \<noteq> 0 \<and> fl AND PF_WRITE \<noteq> 0 \<and> x < KERNEL_OFFSET \<and> hw_pte (mvm s) x = Some e \<and>
     procmm_sem s = 0 \<and> shared_range P L s a cs \<and> cs \<noteq> []"

text \<open>The page of an address that lies in an aligned area lies in the area.\<close>

lemma page_drop: "x AND PAGE_MASK = push_bit 12 (drop_bit 12 x)"
  by (rule bit_word_eqI) (auto simp: bit_simps bitw)

lemma page_unat: "unat (x AND PAGE_MASK) = 4096 * (unat x div 4096)"
proof -
  have "unat (x AND PAGE_MASK) = take_bit 32 (push_bit 12 (unat (drop_bit 12 x)))" by (simp add: page_drop unsigned_push_bit_eq)
  also have "\<dots> = 4096 * (unat x div 4096)"
  proof -
    have "unat x < 2 ^ 32" using unsigned_less [of x] by simp
    moreover have "4096 * (unat x div 4096) \<le> unat x" by simp
    ultimately have "4096 * (unat x div 4096) < 2 ^ 32" by linarith
    then show ?thesis by (simp add: unsigned_drop_bit_eq drop_bit_eq_div push_bit_eq_mult take_bit_nat_eq_self mult.commute unat_div)
  qed
  finally show ?thesis .
qed

lemma page_within:
  assumes "in_area v x" "a_start v AND PAGE_MASK = a_start v" "a_end v AND PAGE_MASK = a_end v"
  shows "a_start v \<le> x AND PAGE_MASK" "unat ((x AND PAGE_MASK) + PAGE_SIZE) = unat (x AND PAGE_MASK) + 4096" "(x AND PAGE_MASK) + PAGE_SIZE \<le> a_end v"
proof -
  have s: "unat (a_start v) = 4096 * (unat (a_start v) div 4096)" and e: "unat (a_end v) = 4096 * (unat (a_end v) div 4096)"
    using page_unat [of "a_start v"] page_unat [of "a_end v"] assms(2,3) by simp_all
  have x: "unat (a_start v) \<le> unat x" "unat x < unat (a_end v)" using assms(1) by (simp_all add: in_area_def word_le_nat_alt word_less_nat_alt)
  have "unat (a_start v) div 4096 \<le> unat x div 4096" using x(1) by (rule div_le_mono)
  then show "a_start v \<le> x AND PAGE_MASK" unfolding word_le_nat_alt page_unat using s by linarith
  have "unat x div 4096 < unat (a_end v) div 4096" using x(2) e by (simp add: div_less_iff_less_mult) 
  then have le: "unat (x AND PAGE_MASK) + 4096 \<le> unat (a_end v)" unfolding page_unat using e by linarith
  have "unat (a_end v) < 2 ^ 32" using unsigned_less [of "a_end v"] by simp
  then show u: "unat ((x AND PAGE_MASK) + PAGE_SIZE) = unat (x AND PAGE_MASK) + 4096"
    using le by (subst unat_add_lem [THEN iffD1]) (simp_all add: PAGE_SIZE_def)
  show "(x AND PAGE_MASK) + PAGE_SIZE \<le> a_end v" unfolding word_le_nat_alt u by (rule le)
qed

lemma same_page:
  assumes "unat ((x AND PAGE_MASK) + PAGE_SIZE) = unat (x AND PAGE_MASK) + 4096"
  shows "x AND PAGE_MASK \<le> y \<and> y < (x AND PAGE_MASK) + PAGE_SIZE \<longleftrightarrow> y AND PAGE_MASK = x AND PAGE_MASK"
proof -
  have "y AND PAGE_MASK = x AND PAGE_MASK \<longleftrightarrow> 4096 * (unat y div 4096) = 4096 * (unat x div 4096)"
    unfolding page_unat [symmetric] by (rule word_unat_eq_iff)
  moreover have "4096 * (i div 4096) \<le> j \<and> j < 4096 * (i div 4096) + 4096 \<longleftrightarrow> 4096 * (j div 4096) = 4096 * (i div (4096 :: nat))" for i j
  proof -
    have "j = 4096 * (j div 4096) + j mod 4096" "j mod 4096 < 4096" by simp_all
    moreover have "j div 4096 = i div 4096" if "4096 * (i div 4096) \<le> j" "j < 4096 * (i div 4096) + 4096"
      using that by (intro div_nat_eqI) simp_all
    ultimately show ?thesis by linarith
  qed
  ultimately show ?thesis unfolding word_le_nat_alt word_less_nat_alt assms unfolding page_unat by blast
qed

text \<open>
  The areas: the split and what is done to them after it, whatever becomes of the pages. \<open>granted\<close> is the state after the page of its own has been
  entered.
\<close>

definition granted :: "nat \<Rightarrow> mem_area \<Rightarrow> vm \<Rightarrow> mms \<Rightarrow> mms" where
  "granted a w m t = (put_area a (w\<lparr>a_flags := (a_flags w AND NOT MM_FLAG_COW) OR MM_FLAG_WRITE\<rparr>) t)
     \<lparr>mvm := m, copies := remove_from_list (copies t) a\<rparr>"

lemma granted_areas:
  assumes s: "mm_view P s L" and c: "cow_fault x fl a v e P L p cs s"
  obtains t L' w where "split_area a (x AND PAGE_MASK) ((x AND PAGE_MASK) + PAGE_SIZE) s = Inr t" "areas t a = Some w" "a_flags w = a_flags v"
    "\<not> list_empty (copies t) a" "mvm t = mvm s"
    "\<forall>m. mm_view P (granted a w m t) L' \<and> procmm_sem (granted a w m t) = 0 \<and>
      (\<forall>q\<in>P. \<forall>y. perms (granted a w m t) (L' q) y = (if q = p \<and> y AND PAGE_MASK = x AND PAGE_MASK
         then Some ((a_flags v AND NOT MM_FLAG_COW) OR MM_FLAG_WRITE, a_type v) else perms s (L q) y)) \<and>
      (\<forall>y. in_area v y \<and> y AND PAGE_MASK \<noteq> x AND PAGE_MASK \<longrightarrow>
         (\<exists>b. area_at (granted a w m t) (L' p) y = Some b \<and> \<not> list_empty (copies (granted a w m t)) b)) \<and>
      ring (copies (granted a w m t)) (hd cs) (tl cs)"
proof -
  note c = c [unfolded cow_fault_def]
  have p: "p \<in> P" "a \<in> set (L p)" and v: "areas s a = Some v" and sem: "procmm_sem s = 0" and sh: "shared_range P L s a cs" "cs \<noteq> []" using c by auto
  have pg: "a_start v \<le> x AND PAGE_MASK" "unat ((x AND PAGE_MASK) + PAGE_SIZE) = unat (x AND PAGE_MASK) + 4096" "(x AND PAGE_MASK) + PAGE_SIZE \<le> a_end v"
    using c by (auto intro!: page_within)
  let ?st = "x AND PAGE_MASK" and ?en = "(x AND PAGE_MASK) + PAGE_SIZE"
  have le: "?st \<le> ?en" using pg(2) by (simp add: word_le_nat_alt)
  obtain t L' where t: "split_area a ?st ?en s = Inr t" "mm_view P t L'" "\<forall>q\<in>P. set (L q) \<subseteq> set (L' q)" "\<forall>q\<in>P. perms t (L' q) = perms s (L q)"
    "areas t a = Some (v\<lparr>a_start := ?st, a_end := ?en\<rparr>)" "ring (copies t) a cs" "mvm t = mvm s" "pmm t = pmm s" "procmm_sem t = 0"
    "\<forall>y. in_area v y \<and> \<not> (?st \<le> y \<and> y < ?en) \<longrightarrow>
       (\<exists>b bs. area_at t (L' p) y = Some b \<and> ring (copies t) b bs \<and> bs \<noteq> [] \<and> set (b # bs) \<inter> set (a # cs) = {})"
    by (rule split_area_view [OF s p v sem page_mask_idem next_page_base pg(1) le pg(3) sh])
  let ?w = "v\<lparr>a_start := ?st, a_end := ?en\<rparr>"
  let ?v = "?w\<lparr>a_flags := (a_flags v AND NOT MM_FLAG_COW) OR MM_FLAG_WRITE\<rparr>"
  have g: "granted a ?w m t = (put_area a ?v t)\<lparr>mvm := m, copies := remove_from_list (copies t) a\<rparr>" for m by (simp add: granted_def)
  have aL: "a \<in> set (L' p)" using t(3) p by blast
  have own: "owner ?v = p" "a_start ?v \<le> a_end ?v" using mm_viewD(3) [OF s p v] le by simp_all
  have sub: "\<forall>y. in_area ?v y \<longrightarrow> in_area ?w y" by (simp add: in_area_def)
  note pp = put_area_perms [OF t(2) p(1) aL t(5) own sub]
  have iw: "in_area ?w y \<longleftrightarrow> y AND PAGE_MASK = x AND PAGE_MASK" "in_area ?v y \<longleftrightarrow> y AND PAGE_MASK = x AND PAGE_MASK" for y
    using same_page [OF pg(2), of y] by (simp_all add: in_area_def)
  have perm: "perms (granted a ?w m t) (L' q) y = (if q = p \<and> y AND PAGE_MASK = x AND PAGE_MASK
      then Some ((a_flags v AND NOT MM_FLAG_COW) OR MM_FLAG_WRITE, a_type v) else perms s (L q) y)" if "q \<in> P" for q y m
    using pp(3) [OF that, of y] t(4) that unfolding iw g by (simp add: perms_def area_at_def)
  have rest: "\<exists>b. area_at (granted a ?w m t) (L' p) y = Some b \<and> \<not> list_empty (copies (granted a ?w m t)) b"
    if y: "in_area v y" "y AND PAGE_MASK \<noteq> x AND PAGE_MASK" for y m
  proof -
    obtain b bs where b: "area_at t (L' p) y = Some b" "ring (copies t) b bs" "bs \<noteq> []" "set (b # bs) \<inter> set (a # cs) = {}"
      using t(10) y same_page [OF pg(2), of y] by blast
    have "ring (remove_from_list (copies t) a) b bs" by (rule remove_other_ring [OF t(6) b(2)]) (use b(4) in auto)
    then have "\<not> list_empty (copies (granted a ?w m t)) b" using list_empty_ring b(3) unfolding g by fastforce
    moreover have "area_at (granted a ?w m t) (L' p) y = Some b" using pp(2) [OF p(1), of y] b(1) y(2) unfolding iw g by (simp add: area_at_def)
    ultimately show ?thesis by blast
  qed
  obtain d ds where cs: "cs = d # ds" using sh(2) by (cases cs) auto
  have "ring (copies (granted a ?w m t)) d ds" for m
    using remove_from_list_ring(1) [of "copies t" d ds a "[]"] ring_rotate [of "copies t" a "[]" d ds] t(6) cs by (simp add: g)
  moreover have "mm_view P (granted a ?w m t) L'" for m using pp(1) [OF p(1)] unfolding g by simp
  moreover have "procmm_sem (granted a ?w m t) = 0" for m using t(9) unfolding g by (simp add: put_area_def)
  ultimately show thesis using perm rest cs list_empty_ring [OF t(6)] by (intro that [OF t(1,5) _ _ t(7), of L']) auto
qed

text \<open>
  C5. A write to a page that is shared by copy on write gives the process a copy of its own, whatever else is shared with it. The
  fault is resolved; the page is now writable and lies in a free frame that has the content of the old one, while the old frame,
  which the other processes still map, and all other frames but page tables keep their content, and no other page of the
  process moves. Exactly the addresses of this page, in this process, change their permissions: from copy on write to writable.
  Every other page of the area still belongs to an area that is copied on write and has copies, so a later write to it is copied too;
  and the areas that shared the page share it without this process from now on.
\<close>

theorem write_fault_copies:
  assumes "mm_view P s L" and "cow_fault x fl a v e P L p cs s"
    and "pmm_ok (mvm s)" and "pmm_page_stack_ptr (mvm s) \<noteq> PMM_PAGE_STACK" and "mapped_dir (mvm s) VMM_TEMP1"
    and "no_table (mvm s) (frame e)" and "\<forall>g\<in>set (avail (mvm s)). no_table (mvm s) (frame g) \<and> frame g \<noteq> frame e"
  shows "\<exists>f s' L'. procmm_handle_page_fault p x fl s = Inr (0, s') \<and> f \<in> set (avail (mvm s)) \<and> own_copy x e f (mvm s) (mvm s') \<and>
    mm_view P s' L' \<and> procmm_sem s' = 0 \<and>
    (\<forall>q\<in>P. \<forall>y. perms s' (L' q) y = (if q = p \<and> y AND PAGE_MASK = x AND PAGE_MASK
       then Some ((a_flags v AND NOT MM_FLAG_COW) OR MM_FLAG_WRITE, a_type v) else perms s (L q) y)) \<and>
    (\<forall>y. in_area v y \<and> y AND PAGE_MASK \<noteq> x AND PAGE_MASK \<longrightarrow> (\<exists>b. area_at s' (L' p) y = Some b \<and> \<not> list_empty (copies s') b)) \<and>
    ring (copies s') (hd cs) (tl cs)"
proof -
  note c = assms(2) [unfolded cow_fault_def]
  have rec: "rec_slot (mvm s)" using stack_ok_facts(2) [OF pmm_okD [OF assms(3)]] .
  have p: "p \<in> P" "a \<in> set (L p)" and v: "areas s a = Some v" "in_area v x" and x: "x < KERNEL_OFFSET" "hw_pte (mvm s) x = Some e" using c by auto
  obtain f m1 m2 m3 m4 m5 where m: "vmm_page_set VMM_TEMP1 e (mvm s) = Inr m1" "pmm_alloc_page m1 = Inr (f, m2)"
    "vmm_page_set (x AND PAGE_MASK) (vmm_page_val f ((e AND PAGE_FLAG_MASK) OR PAGE_WRITE)) m2 = Inr m3"
    "vcopy_page (x AND PAGE_MASK) VMM_TEMP1 m3 = Inr m4" "vmm_page_set VMM_TEMP1 0 m4 = Inr m5"
    "f \<in> set (avail (mvm s))" "own_copy x e f (mvm s) m5"
    by (rule copy_page_effect [OF assms(3,5) x assms(4,6,7)])
  obtain t L' w where t: "split_area a (x AND PAGE_MASK) ((x AND PAGE_MASK) + PAGE_SIZE) s = Inr t" "areas t a = Some w" "a_flags w = a_flags v"
    "\<not> list_empty (copies t) a" "mvm t = mvm s"
    "\<forall>m. mm_view P (granted a w m t) L' \<and> procmm_sem (granted a w m t) = 0 \<and>
      (\<forall>q\<in>P. \<forall>y. perms (granted a w m t) (L' q) y = (if q = p \<and> y AND PAGE_MASK = x AND PAGE_MASK
         then Some ((a_flags v AND NOT MM_FLAG_COW) OR MM_FLAG_WRITE, a_type v) else perms s (L q) y)) \<and>
      (\<forall>y. in_area v y \<and> y AND PAGE_MASK \<noteq> x AND PAGE_MASK \<longrightarrow>
         (\<exists>b. area_at (granted a w m t) (L' p) y = Some b \<and> \<not> list_empty (copies (granted a w m t)) b)) \<and>
      ring (copies (granted a w m t)) (hd cs) (tl cs)"
    by (rule granted_areas [OF assms(1,2)])
  have get: "vmm_page_get x (mvm s) = Inr e" using vmm_page_get_hw [OF rec, of x] x(2) by simp
  have "copy_on_write x a s = Inr (granted a w m5 t)"
    unfolding copy_on_write_def t(1) andthen_Inr t(5) get
    using t(2,4,5) by (simp add: on_vm_def m(1-5) upd_area_def area_of_def put_area_def granted_def)
  moreover have "area_at s (L p) x = Some a" by (rule perms_at(1) [OF assms(1) p v])
  ultimately have "procmm_handle_page_fault p x fl s = Inr (0, granted a w m5 t)"
    using c find_including_view [OF assms(1) p(1), of x] by (simp add: procmm_handle_page_fault_def area_of_def)
  moreover have "mvm (granted a w m5 t) = m5" by (simp add: granted_def)
  ultimately show ?thesis using m(6,7) t(6) [rule_format, of m5] by (intro exI [of _ f] exI [of _ "granted a w m5 t"] exI [of _ L']) simp
qed

text \<open>A process whose three data pages are shared with another process.\<close>

definition demo_cow :: mms where
  "demo_cow = (demo_mms 0xBFFFF000)\<lparr>areas := [0 \<mapsto> \<lparr>a_start = 0, a_end = 0x3000, a_flags = 0x15, a_type = MM_TYPE_DATA, owner = 0\<rparr>,
     1 \<mapsto> \<lparr>a_start = 0xBFFFF000, a_end = 0xBFFFF000, a_flags = 0xA2, a_type = MM_TYPE_STACK, owner = 0\<rparr>,
     2 \<mapsto> \<lparr>a_start = 0, a_end = 0x3000, a_flags = 0x15, a_type = MM_TYPE_DATA, owner = 1\<rparr>],
     mem := \<lparr>prv = (prv demo_links)(MemHead 1 := Mem 2, Mem 2 := MemHead 1), nxt = (nxt demo_links)(MemHead 1 := Mem 2, Mem 2 := MemHead 1)\<rparr>,
     copies := \<lparr>prv = id(0 := 2, 2 := 0), nxt = id(0 := 2, 2 := 0)\<rparr>, next_area := 3\<rparr>"

lemma demo_cow_view: "mm_view {0, 1} demo_cow (\<lambda>p. if p = 0 then [0, 1] else [2])"
proof (rule mm_viewI)
  show "rings (MemHead ` {0, 1}) (Mem ` dom (areas demo_cow)) (mem demo_cow) (mm_lists (\<lambda>p. if p = 0 then [0, 1] else [2]))"
    by (auto simp: rings_def ring_def demo_cow_def demo_mms_def demo_links_def queued_def)
next
  fix p a b v w x
  assume "p \<in> {0 :: nat, 1}" "a \<in> set (if p = 0 then [0, 1] else [2 :: nat])" "b \<in> set (if p = 0 then [0, 1] else [2 :: nat])" "a \<noteq> b"
    "areas demo_cow a = Some v" "areas demo_cow b = Some w" "in_area v x"
  then show "\<not> in_area w x" by (auto simp: demo_cow_def in_area_def split: if_splits dest: order_trans)
qed (auto simp: demo_cow_def demo_mms_def split: if_splits)

theorem write_fault_copies_witness:
  "\<exists>f s' L'. procmm_handle_page_fault 0 0x1234 3 demo_cow = Inr (0, s') \<and> f \<in> set [0x5000, 0x6000, 0x3000] \<and>
     hw_pte (mvm s') 0x1234 = Some (vmm_page_val f 7) \<and> phys (mvm s') (f OR 0x234) = 0xAB \<and> phys (mvm s') 0x9234 = 0xAB \<and>
     perms s' (L' (0 :: nat)) 0x1234 = Some (7, MM_TYPE_DATA) \<and> perms s' (L' 0) 0x2234 = Some (0x15, MM_TYPE_DATA) \<and>
     perms s' (L' 1) 0x1234 = Some (0x15, MM_TYPE_DATA) \<and> list_empty (copies s') 2"
proof -
  have m: "mvm demo_cow = demo_vm" by (simp add: demo_cow_def demo_mms_def)
  let ?v = "\<lparr>a_start = 0, a_end = 0x3000, a_flags = 0x15, a_type = MM_TYPE_DATA, owner = 0 :: nat\<rparr>"
  let ?L = "\<lambda>p. if p = 0 then [0, 1] else [2 :: nat]"
  have e: "hw_pte demo_vm 0x1234 = Some 0x9005"
    by (simp add: hw_pte_def demo_pde vmm_dir_idx_def pte_pa_def PAGE_MASK_def PAGE_PRESENT_def Let_def) (simp add: demo_vm_def demo_phys_def)
  have f: "frame 0x9005 = 0x9000" "frame 0x9234 = 0x9000" by (simp_all add: frame_def PAGE_MASK_def)
  have nt: "no_table demo_vm 0x9000" by (simp add: demo_no_table)
  have nt': "no_table demo_vm (frame 0x9005)" using nt unfolding f(1) .
  have sh: "shared_range {0, 1} ?L demo_cow 0 [2]" by (simp add: shared_range_def ring_def demo_cow_def)
  have "cow_fault 0x1234 3 0 ?v 0x9005 {0, 1} ?L 0 [2] demo_cow"
    unfolding cow_fault_def m e using sh
    by (simp add: demo_cow_def demo_mms_def in_area_def PAGE_MASK_def MM_FLAG_COW_def PF_PRESENT_def PF_WRITE_def KERNEL_OFFSET_def)
  note r = write_fault_copies [OF demo_cow_view this, unfolded m]
  have t: "mapped_dir demo_vm VMM_TEMP1" "pmm_page_stack_ptr demo_vm \<noteq> PMM_PAGE_STACK"
    by (simp_all add: demo_mapped VMM_TEMP1_def vmm_dir_idx_def) (simp add: demo_vm_def PMM_PAGE_STACK_def)
  have fr: "\<forall>g\<in>set (avail demo_vm). no_table demo_vm (frame g) \<and> frame g \<noteq> frame 0x9005"
    by (simp add: demo_avail demo_frames f demo_no_table)
  obtain f s' L' where r: "procmm_handle_page_fault 0 0x1234 3 demo_cow = Inr (0, s')" "f \<in> set (avail demo_vm)"
    "own_copy 0x1234 0x9005 f demo_vm (mvm s')"
    "\<forall>q\<in>{0 :: nat, 1}. \<forall>y. perms s' (L' q) y = (if q = 0 \<and> y AND PAGE_MASK = 0x1234 AND PAGE_MASK
       then Some ((0x15 AND NOT MM_FLAG_COW) OR MM_FLAG_WRITE, MM_TYPE_DATA) else perms demo_cow (?L q) y)"
    "ring (copies s') 2 []"
    using r [OF demo_pmm_ok t(2,1) nt' fr] unfolding mem_area.select_convs list.sel by blast
  have ff: "f \<in> set [0x5000, 0x6000, 0x3000]" using r(2) by (simp add: demo_avail)
  then have fd: "frame f = f" "frame f \<noteq> 0x9000" by (auto simp: demo_frames)
  have "phys (mvm s') (frame f OR (0x234 AND PAGE_FLAG_MASK)) = phys demo_vm (frame 0x9005 OR (0x234 AND PAGE_FLAG_MASK))"
    using r(3) unfolding own_copy_def by blast
  moreover have "phys (mvm s') 0x9234 = phys demo_vm 0x9234"
    using r(3) nt f(2) fd(2) unfolding own_copy_def by metis
  moreover have "phys demo_vm 0x9234 = 0xAB" by (simp add: demo_vm_def demo_phys_def)
  moreover have "(0x9005 AND PAGE_FLAG_MASK) OR PAGE_WRITE = 7" by (simp add: PAGE_FLAG_MASK_def PAGE_WRITE_def)
  moreover have "perms demo_cow [0, 1] 0x2234 = Some (0x15, MM_TYPE_DATA)" "perms demo_cow [2] 0x1234 = Some (0x15, MM_TYPE_DATA)"
    by (simp_all add: perms_def area_at_def demo_cow_def in_area_def)
  ultimately show ?thesis using r(1,3-5) ff unfolding own_copy_def f(1)
    by (intro exI [of _ f] exI [of _ s'] exI [of _ L'])
      (simp add: PAGE_FLAG_MASK_def PAGE_MASK_def MM_FLAG_COW_def MM_FLAG_WRITE_def fd(1) list_empty_ring)
qed

end
