(* ===== verification/SpaceSteps.thy ===== *)
theory SpaceSteps imports AllocEffect begin

text \<open>
  Steps of the kernel that keep an address space: allocations, the entries of the temporary mappings, writes into frames that are
  not in use, and the copy of a page through the temporary mappings (\<open>vmm_copy_page\<close>).
\<close>

section \<open>Steps that keep an address space\<close>

text \<open>
  From \<open>s\<close> to \<open>t\<close> all translations but those of the two windows and of the allocator's own pages stay as they are, and only
  page tables and the frames of \<open>F\<close> are written.
\<close>

definition keeps_space :: "u32 set \<Rightarrow> vm \<Rightarrow> vm \<Rightarrow> bool" where
  "keeps_space F s t \<longleftrightarrow> pmm_ok t \<and> cr3 t = cr3 s \<and> (\<forall>y. vmm_dir_idx y \<noteq> 1022 \<longrightarrow> hw_pde t y = hw_pde s y) \<and>
     (\<forall>y. vmm_dir_idx y < 1022 \<longrightarrow> vmm_dir_idx y \<noteq> vmm_dir_idx PMM_PAGE_STACK \<longrightarrow> hw_pte t y = hw_pte s y) \<and>
     (\<forall>a. no_table s (frame a) \<longrightarrow> frame a \<notin> F \<longrightarrow> phys t a = phys s a)"

lemma keeps_spaceD:
  assumes "keeps_space F s t"
  shows "pmm_ok t" "cr3 t = cr3 s" "vmm_dir_idx y \<noteq> 1022 \<Longrightarrow> hw_pde t y = hw_pde s y"
    "vmm_dir_idx y < 1022 \<Longrightarrow> vmm_dir_idx y \<noteq> vmm_dir_idx PMM_PAGE_STACK \<Longrightarrow> hw_pte t y = hw_pte s y"
    "no_table s (frame a) \<Longrightarrow> frame a \<notin> F \<Longrightarrow> phys t a = phys s a"
  using assms by (auto simp: keeps_space_def)

lemma keeps_space_same:
  assumes "keeps_space F s t"
  shows "vmm_dir_idx y \<noteq> 1022 \<Longrightarrow> mapped_dir t y = mapped_dir s y" "vmm_dir_idx y \<noteq> 1022 \<Longrightarrow> table_frame t y = table_frame s y"
    "no_table t = no_table s" "tables_ok t"
proof -
  note d = keeps_spaceD(2,3) [OF assms]
  show m: "mapped_dir t y = mapped_dir s y" if "vmm_dir_idx y \<noteq> 1022" for y using that d(2) by (simp add: mapped_dir_def)
  show f: "table_frame t y = table_frame s y" if "vmm_dir_idx y \<noteq> 1022" for y using that d(2) by (simp add: table_frame_def)
  have "vmm_dir_idx y \<noteq> 1022" if "vmm_dir_idx y < 1022" for y using that by auto
  then show "no_table t = no_table s" using m f d(1) unfolding no_table_def fun_eq_iff by metis
  show "tables_ok t" using stack_ok_facts(1) [OF pmm_okD [OF keeps_spaceD(1) [OF assms]]] .
qed

lemma keeps_space_refl: "pmm_ok s \<Longrightarrow> keeps_space F s s"
  by (simp add: keeps_space_def)

lemma keeps_space_trans: "keeps_space F s t \<Longrightarrow> keeps_space G t u \<Longrightarrow> keeps_space (F \<union> G) s u"
  using keeps_space_same(3) [of F s t] by (simp add: keeps_space_def)

lemma keeps_space_mono: "keeps_space F s t \<Longrightarrow> F \<subseteq> G \<Longrightarrow> keeps_space G s t"
  by (auto simp: keeps_space_def)

text \<open>The three kinds of steps: an allocation, an entry of a kernel table, and a write into a frame that is not in use.\<close>

lemma alloc_keeps_space:
  assumes ok: "pmm_ok s" and run: "pmm_alloc_page s = Inr (f, t)" shows "keeps_space F s t"
proof -
  note e = alloc_effect [OF ok run]
  have "vmm_dir_idx PMM_PAGE_STACK < 1022" by (simp add: dir_idx_stack)
  then have "frame a \<noteq> table_frame s PMM_PAGE_STACK" if "no_table s (frame a)" for a
    using that stack_ok_facts(3) [OF pmm_okD [OF ok]] by (auto simp: no_table_def)
  then show ?thesis unfolding keeps_space_def using e(1,3,6,7) alloc_memory(1) [OF ok run] by simp
qed

lemma set_pte_keeps_space:
  assumes ok: "pmm_ok s" and va: "vmm_dir_idx va < 1022" "vmm_dir_idx va \<noteq> vmm_dir_idx PMM_PAGE_STACK" "mapped_dir s va"
    and s: "t = set_pte s va v"
  shows "pmm_ok t" "avail t = avail s" "vmm_dir_idx y < 1022 \<Longrightarrow> vmm_table_idx y \<noteq> vmm_table_idx va \<Longrightarrow> hw_pte t y = hw_pte s y"
    "hw_pde t y = hw_pde s y" "no_table s (frame a) \<Longrightarrow> phys t a = phys s a"
  using set_pte_pmm_ok [OF ok va] set_pte_effect(2,4) [OF stack_ok_facts(1) [OF pmm_okD [OF ok]] va(1,3)] set_pte_outside [OF _ va(1,3)]
  unfolding s by auto

lemma frame_write_ok:
  assumes ok: "pmm_ok s" and f: "no_table s (frame f)" "frame f \<notin> frame ` set (avail s)"
    and t: "t = s\<lparr>phys := g\<rparr>" and out: "\<And>a. frame a \<noteq> frame f \<Longrightarrow> g a = phys s a"
  shows "pmm_ok t" "avail t = avail s" "keeps_space {frame f} s t" "hw_pde t y = hw_pde s y"
    "vmm_dir_idx y < 1022 \<Longrightarrow> hw_pte t y = hw_pte s y"
proof -
  note fa = stack_ok_facts [OF pmm_okD [OF ok]]
  have o: "\<And>a. frame a \<noteq> frame f \<Longrightarrow> phys t a = phys s a" "cr3 t = cr3 s" using t out by auto
  have w: "tables_ok t" "\<And>y. hw_pde t y = hw_pde s y" "\<And>y. vmm_dir_idx y < 1022 \<Longrightarrow> hw_pte t y = hw_pte s y"
    "no_table t = no_table s"
    using no_table_frame_write [of s "frame f" t] fa(1) f(1) o by simp_all
  have m: "mapped_dir t = mapped_dir s" by (simp add: mapped_dir_def fun_eq_iff w(2))
  have pte: "hw_pte t (spage i) = hw_pte s (spage i)" if "i < 1024" for i using that by (intro w(3)) (simp add: dir_idx_spage)
  have mem: "phys t a = phys s a" if "i < pmm_pages s" "frame a = sframe s i" for i a
  proof -
    have "frame (sframe s i) = sframe s i" by (simp add: sframe_def frame_def split: option.split)
    then have "sframe s i \<noteq> frame f" using f(2) sframe_no_table [OF ok that(1)] by (metis imageI)
    then show ?thesis using o(1) that(2) by simp
  qed
  have v: "pmm_page_stack_max t = pmm_page_stack_max s" "pmm_page_stack_ptr t = pmm_page_stack_ptr s"
    "pmm_running t = pmm_running s" "pmm_sem t = pmm_sem s" by (simp_all add: t)
  show okt: "pmm_ok t" and "avail t = avail s" using pmm_ok_transfer [OF ok v w(1) _ w(4) pte mem] m by auto
  show "keeps_space {frame f} s t" using okt o w(2,3) by (auto simp: keeps_space_def)
  show "hw_pde t y = hw_pde s y" "vmm_dir_idx y < 1022 \<Longrightarrow> hw_pte t y = hw_pte s y" using w(2,3) by auto
qed

section \<open>Copying and clearing through the temporary mappings\<close>

lemma lock_vars [simp]:
  "pmm_ok (s\<lparr>temp_sem := x\<rparr>) = pmm_ok s" "pmm_ok (s\<lparr>exdir_sem := x\<rparr>) = pmm_ok s"
  "avail (s\<lparr>temp_sem := x\<rparr>) = avail s" "avail (s\<lparr>exdir_sem := x\<rparr>) = avail s"
  "hw_pde (s\<lparr>exdir_sem := x\<rparr>) = hw_pde s" "hw_pte (s\<lparr>exdir_sem := x\<rparr>) = hw_pte s"
  "mapped_dir (s\<lparr>exdir_sem := x\<rparr>) = mapped_dir s" "no_table (s\<lparr>exdir_sem := x\<rparr>) = no_table s"
  using same_mem [of "s\<lparr>temp_sem := x\<rparr>" s] same_mem [of "s\<lparr>exdir_sem := x\<rparr>" s]
  by (simp_all add: pmm_ok_def stack_ok_def pmm_pages_def pmm_entries_def avail_def)

lemma keeps_space_locks [simp]:
  "keeps_space F s (t\<lparr>temp_sem := x\<rparr>) = keeps_space F s t" "keeps_space F s (t\<lparr>exdir_sem := x\<rparr>) = keeps_space F s t"
  "keeps_space F (s\<lparr>temp_sem := x\<rparr>) t = keeps_space F s t" "keeps_space F (s\<lparr>exdir_sem := x\<rparr>) t = keeps_space F s t"
  by (simp_all add: keeps_space_def)

definition old_entry :: "vm \<Rightarrow> u32 \<Rightarrow> u32" where
  "old_entry s x = (case hw_pte s x of None \<Rightarrow> 0 | Some e \<Rightarrow> e)"

lemma old_entry_back: "(if old_entry s x AND PAGE_PRESENT = 0 then None else Some (old_entry s x)) = hw_pte s x"
  by (auto simp: old_entry_def hw_pte_def Let_def split: option.splits)

lemma temp_facts:
  "vmm_dir_idx VMM_TEMP1 < 1022" "vmm_dir_idx VMM_TEMP2 < 1022" "vmm_dir_idx VMM_TEMP1 \<noteq> vmm_dir_idx PMM_PAGE_STACK"
  "vmm_dir_idx VMM_TEMP2 \<noteq> vmm_dir_idx PMM_PAGE_STACK" "vmm_table_idx VMM_TEMP1 \<noteq> vmm_table_idx VMM_TEMP2"
  "mapped_dir s VMM_TEMP2 = mapped_dir s VMM_TEMP1"
  using mapped_dir_cong [of VMM_TEMP2 VMM_TEMP1 s]
  by (simp_all add: dir_idx_stack) (simp_all add: vmm_dir_idx_def vmm_table_idx_def VMM_TEMP1_def VMM_TEMP2_def)

text \<open>A temporary mapping to the frame of \<open>p\<close>.\<close>

lemma map_temp:
  assumes ok: "pmm_ok s" and va: "vmm_dir_idx va < 1022" "vmm_dir_idx va \<noteq> vmm_dir_idx PMM_PAGE_STACK" "mapped_dir s va"
    and fl: "va AND PAGE_FLAG_MASK = 0"
  obtains t where "vmm_page_set va (vmm_page_val p (PAGE_PRESENT OR PAGE_WRITE)) s = Inr t" "t = set_pte s va (vmm_page_val p (PAGE_PRESENT OR PAGE_WRITE))"
    "mmu_translate t va = Some (frame p)" "mapped_dir t = mapped_dir s" "no_table t = no_table s" "temp_sem t = temp_sem s" "exdir_sem t = exdir_sem s"
proof
  let ?t = "set_pte s va (vmm_page_val p (PAGE_PRESENT OR PAGE_WRITE))"
  note fa = stack_ok_facts(1,2) [OF pmm_okD [OF ok]]
  show "vmm_page_set va (vmm_page_val p (PAGE_PRESENT OR PAGE_WRITE)) s = Inr ?t" using fa(2) va(3) by (rule vmm_page_set_present)
  show "mmu_translate ?t va = Some (frame p)"
    using set_pte_effect(3) [OF fa(1) va(1,3)] temp_val_present fl by (simp add: mmu_translate_def frame_def)
  show "mapped_dir ?t = mapped_dir s" "no_table ?t = no_table s" using set_pte_no_table_gen [OF fa(1) va(1,3)] by auto
qed (simp_all add: set_pte_def)

lemma copy_page_keeps:
  assumes ok: "pmm_ok s" and temp: "mapped_dir s VMM_TEMP1" "temp_sem s = 0"
    and dst: "no_table s (frame dst)" "frame dst \<notin> frame ` set (avail s)" and src: "frame src \<noteq> table_frame s VMM_TEMP1"
  obtains t where "vmm_copy_page src dst s = Inr t" "keeps_space {frame dst} s t" "avail t = avail s" "temp_sem t = 0" "exdir_sem t = exdir_sem s"
    "pmm_entries t = pmm_entries s"
    "\<And>y. hw_pde t y = hw_pde s y" "\<And>i. phys t (frame dst OR (i AND PAGE_FLAG_MASK)) = phys s (frame src OR (i AND PAGE_FLAG_MASK))"
proof -
  let ?T1 = VMM_TEMP1 and ?T2 = VMM_TEMP2
  note tf = temp_facts
  define s0 where "s0 = s\<lparr>temp_sem := 1\<rparr>"
  have 0: "pmm_ok s0" "mapped_dir s0 ?T1" using ok temp by (simp_all add: s0_def)
  obtain s1 where s1: "vmm_page_set ?T1 (vmm_page_val src (PAGE_PRESENT OR PAGE_WRITE)) s0 = Inr s1"
    "s1 = set_pte s0 ?T1 (vmm_page_val src (PAGE_PRESENT OR PAGE_WRITE))" "mmu_translate s1 ?T1 = Some (frame src)" "mapped_dir s1 = mapped_dir s0"
    "no_table s1 = no_table s0" "temp_sem s1 = temp_sem s0" "exdir_sem s1 = exdir_sem s0"
    by (rule map_temp [OF 0(1) tf(1,3) 0(2) temp_flags(1)])
  note k1 = set_pte_keeps_space [OF 0(1) tf(1,3) 0(2) s1(2)]
  have T2: "mapped_dir s1 ?T2" using s1(4) 0(2) tf(6) by simp
  obtain s2 where s2: "vmm_page_set ?T2 (vmm_page_val dst (PAGE_PRESENT OR PAGE_WRITE)) s1 = Inr s2"
    "s2 = set_pte s1 ?T2 (vmm_page_val dst (PAGE_PRESENT OR PAGE_WRITE))" "mmu_translate s2 ?T2 = Some (frame dst)" "mapped_dir s2 = mapped_dir s1"
    "no_table s2 = no_table s1" "temp_sem s2 = temp_sem s1" "exdir_sem s2 = exdir_sem s1"
    by (rule map_temp [OF k1(1) tf(2,4) T2 temp_flags(2)])
  note k2 = set_pte_keeps_space [OF k1(1) tf(2,4) T2 s2(2)]
  have "mmu_translate s2 ?T1 = Some (frame src)" using k2(3) [OF tf(1,5)] s1(3) by (simp add: mmu_translate_def)
  define g where "g = (\<lambda>a. if frame a = frame dst then phys s2 (frame src OR (a AND PAGE_FLAG_MASK)) else phys s2 a)"
  define s3 where "s3 = s2\<lparr>phys := g\<rparr>"
  have r3: "vcopy_page ?T2 ?T1 s2 = Inr s3"
    using s2(3) \<open>mmu_translate s2 ?T1 = Some (frame src)\<close> by (simp add: vcopy_page_def s3_def g_def frame_def cong: if_cong)
  have n2: "no_table s2 = no_table s" using s2(5) s1(5) by (simp add: s0_def)
  have a2: "avail s2 = avail s" using k2(2) k1(2) by (simp add: s0_def)
  note k3 = frame_write_ok [OF k2(1) _ _ s3_def, of dst, unfolded n2 a2, OF dst]
  have k3': "pmm_ok s3" "avail s3 = avail s" "\<And>y. hw_pde s3 y = hw_pde s2 y" "\<And>y. vmm_dir_idx y < 1022 \<Longrightarrow> hw_pte s3 y = hw_pte s2 y"
    using k3(1,2,4,5) by (simp_all add: g_def)
  have m3: "mapped_dir s3 y = mapped_dir s y" for y using k3'(3) k2(4) k1(4) by (simp add: mapped_dir_def s0_def)
  define s4 where "s4 = set_pte s3 ?T1 (old_entry s ?T1)"
  have T3: "mapped_dir s3 ?T1" using m3 temp by simp
  note k4 = set_pte_keeps_space [OF k3'(1) tf(1,3) T3 s4_def]
  define s5 where "s5 = set_pte s4 ?T2 (old_entry s ?T2)"
  have m4: "mapped_dir s4 y = mapped_dir s y" for y using k4(4) m3 by (simp add: mapped_dir_def)
  have T4: "mapped_dir s4 ?T2" using m4 temp tf(6) [of s] by simp
  note k5 = set_pte_keeps_space [OF k4(1) tf(2,4) T4 s5_def]
  have get: "vmm_page_get ?T1 s0 = Inr (old_entry s ?T1)" "vmm_page_get ?T2 s0 = Inr (old_entry s ?T2)"
    using vmm_page_get_hw [OF stack_ok_facts(2) [OF pmm_okD [OF 0(1)]]] by (simp_all add: old_entry_def s0_def)
  have set4: "vmm_page_set ?T1 (old_entry s ?T1) s3 = Inr s4" unfolding s4_def
    by (rule vmm_page_set_present [OF stack_ok_facts(2) [OF pmm_okD [OF k3'(1)]] T3])
  have set5: "vmm_page_set ?T2 (old_entry s ?T2) s4 = Inr s5" unfolding s5_def
    by (rule vmm_page_set_present [OF stack_ok_facts(2) [OF pmm_okD [OF k4(1)]] T4])
  have run: "vmm_copy_page src dst s = Inr (s5\<lparr>temp_sem := 0\<rparr>)"
    using temp(2) s1(1) s2(1) get r3 set4 set5 unfolding s0_def by (simp add: vmm_copy_page_def lock_temp_def)
  have pde: "hw_pde s5 y = hw_pde s y" for y using k5(4) k4(4) k3'(3) k2(4) k1(4) by (simp add: s0_def)
  have pte: "hw_pte s5 y = hw_pte s y" if y: "vmm_dir_idx y < 1022" for y
  proof -
    consider "vmm_table_idx y = vmm_table_idx ?T1" | "vmm_table_idx y = vmm_table_idx ?T2"
      | "vmm_table_idx y \<noteq> vmm_table_idx ?T1" "vmm_table_idx y \<noteq> vmm_table_idx ?T2" by blast
    then show ?thesis
    proof cases
      case 1
      have "hw_pte s5 ?T1 = hw_pte s4 ?T1" by (rule k5(3) [OF tf(1,5)])
      also have "\<dots> = hw_pte s ?T1" unfolding s4_def
        using set_pte_effect(3) [OF stack_ok_facts(1) [OF pmm_okD [OF k3'(1)]] tf(1) T3] old_entry_back by simp
      finally show ?thesis using hw_pte_cong [OF 1] by simp
    next
      case 2
      have "hw_pte s5 ?T2 = hw_pte s ?T2" unfolding s5_def
        using set_pte_effect(3) [OF stack_ok_facts(1) [OF pmm_okD [OF k4(1)]] tf(2) T4] old_entry_back by simp
      then show ?thesis using hw_pte_cong [OF 2] by simp
    next
      case 3
      then show ?thesis using k5(3) [OF y 3(2)] k4(3) [OF y 3(1)] k3'(4) [OF y] k2(3) [OF y 3(2)] k1(3) [OF y 3(1)] by (simp add: s0_def)
    qed
  qed
  have n: "no_table s4 = no_table s" "no_table s3 = no_table s" "no_table s1 = no_table s"
  proof -
    have "cr3 s3 = cr3 s" by (simp add: s3_def s2(2) s1(2) set_pte_def s0_def)
    then show "no_table s3 = no_table s" using k3'(3) k2(4) k1(4) by (simp add: no_table_def mapped_dir_def table_frame_def fun_eq_iff s0_def)
    then show "no_table s4 = no_table s" using set_pte_no_table_gen(1) [OF stack_ok_facts(1) [OF pmm_okD [OF k3'(1)]] tf(1) T3] by (simp add: s4_def)
    show "no_table s1 = no_table s" using s1(5) by (simp add: s0_def)
  qed
  have ph5: "phys s5 a = g a" if "no_table s (frame a)" for a
    using k5(5) k4(5) that n by (simp add: s3_def)
  have ph2: "phys s2 a = phys s a" if "frame a \<noteq> table_frame s ?T1" for a
  proof -
    have "table_frame s1 ?T2 = table_frame s ?T1" "table_frame s0 ?T1 = table_frame s ?T1"
      using k1(4) hw_pde_cong [of ?T2 ?T1 s] by (simp_all add: table_frame_def s0_def) (simp add: vmm_dir_idx_def VMM_TEMP1_def VMM_TEMP2_def)
    then show ?thesis using that by (auto simp: s2(2) s1(2) set_pte_def s0_def table_frame_def)
  qed
  have "frame a \<noteq> table_frame s ?T1" if "no_table s (frame a)" for a using that temp(1) tf(1) by (auto simp: no_table_def)
  then have ph: "phys s5 a = phys s a" if "no_table s (frame a)" "frame a \<noteq> frame dst" for a
    using that ph5 [OF that(1)] ph2 [of a] by (auto simp: g_def)
  have cr: "cr3 s5 = cr3 s" by (simp add: s5_def s4_def s3_def s2(2) s1(2) set_pte_def s0_def)
  show thesis
  proof
    show "vmm_copy_page src dst s = Inr (s5\<lparr>temp_sem := 0\<rparr>)" by (rule run)
    show "keeps_space {frame dst} s (s5\<lparr>temp_sem := 0\<rparr>)" using k5(1) cr pde pte ph by (simp add: keeps_space_def)
    show "avail (s5\<lparr>temp_sem := 0\<rparr>) = avail s" using k5(2) k4(2) k3'(2) by simp
    show "exdir_sem (s5\<lparr>temp_sem := 0\<rparr>) = exdir_sem s" using s1(7) s2(7) by (simp add: s5_def s4_def s3_def set_pte_def s0_def)
    show "pmm_entries (s5\<lparr>temp_sem := 0\<rparr>) = pmm_entries s" by (simp add: pmm_entries_def s5_def s4_def s3_def s2(2) s1(2) s0_def)
    show "hw_pde (s5\<lparr>temp_sem := 0\<rparr>) y = hw_pde s y" for y using pde by simp
    show "phys (s5\<lparr>temp_sem := 0\<rparr>) (frame dst OR (i AND PAGE_FLAG_MASK)) = phys s (frame src OR (i AND PAGE_FLAG_MASK))" for i
      using ph5 [of "frame dst OR (i AND PAGE_FLAG_MASK)"] ph2 [of "frame src OR (i AND PAGE_FLAG_MASK)"] dst(1) src by (simp add: g_def)
  qed simp
qed

end
