(* ===== verification/CloneSpace.thy ===== *)
theory CloneSpace imports SpaceSteps begin

text \<open>
  The copy of an address space that \<open>fork\<close> makes (\<open>vmm_clone_pd\<close>): the child's directory leads every address of a process to
  the frame it has for the parent, through page tables of its own, and shares the tables of the kernel.
\<close>

section \<open>A new directory\<close>

text \<open>
  The allocator and the temporary mappings are ready, and the free pages hold neither the directory nor page tables.
\<close>

definition space_ok :: "vm \<Rightarrow> bool" where
  "space_ok s \<longleftrightarrow> pmm_ok s \<and> mapped_dir s VMM_TEMP1 \<and> temp_sem s = 0 \<and> distinct (avail s) \<and>
     (\<forall>g\<in>set (avail s). frame g = g \<and> g \<noteq> 0 \<and> no_table s g)"

lemma space_okD:
  assumes "space_ok s"
  shows "pmm_ok s" "mapped_dir s VMM_TEMP1" "temp_sem s = 0" "distinct (avail s)" "g \<in> set (avail s) \<Longrightarrow> frame g = g"
    "g \<in> set (avail s) \<Longrightarrow> g \<noteq> 0" "g \<in> set (avail s) \<Longrightarrow> no_table s g"
  using assms by (auto simp: space_ok_def)

lemma keeps_space_ok:
  assumes "space_ok s" and k: "keeps_space F s t" and "mset (avail s) = mset fs + mset (avail t)" and "temp_sem t = 0"
  shows "space_ok t" "set fs \<inter> set (avail t) = {}" "distinct fs"
proof -
  have d: "distinct (fs @ avail t)" using assms(1,3) mset_eq_imp_distinct_iff [of "avail s" "fs @ avail t"] by (simp add: space_ok_def)
  then show "set fs \<inter> set (avail t) = {}" "distinct fs" by auto
  have "set (avail t) \<subseteq> set (avail s)" using mset_eq_setD [of "avail s" "fs @ avail t"] assms(3) by auto
  moreover have "vmm_dir_idx VMM_TEMP1 \<noteq> 1022" using temp_facts(1) by auto
  ultimately show "space_ok t" using assms(1,4) d keeps_spaceD(1) [OF k] keeps_space_same(1,3) [OF k] unfolding space_ok_def by auto
qed

lemma space_alloc:
  assumes ok: "space_ok s" and run: "pmm_alloc_page s = Inr (f, t)"
  shows "f \<in> set (avail s)" "keeps_space F s t" "mset (avail s) = add_mset f (mset (avail t))" "space_ok t" "f \<notin> set (avail t)"
    "no_table t f" "frame f = f" "f \<noteq> 0" "hw_pde t y = hw_pde s y" "exdir_sem t = exdir_sem s"
proof -
  note o = space_okD [OF ok]
  show f: "f \<in> set (avail s)" "hw_pde t y = hw_pde s y" using alloc_effect(2,3) [OF o(1) run] by auto
  show k: "keeps_space F s t" for F by (rule alloc_keeps_space [OF o(1) run])
  show m: "mset (avail s) = add_mset f (mset (avail t))" using pmm_alloc_result [OF o(1) run] by blast
  have k': "mset (avail s) = mset [f] + mset (avail t)" "temp_sem t = 0" using m alloc_memory(2) [OF o(1) run] o(3) by auto
  show "space_ok t" "f \<notin> set (avail t)" using keeps_space_ok [OF ok k k'] by auto
  show "no_table t f" "frame f = f" "f \<noteq> 0" using o(5-7) f keeps_space_same(3) [OF k] by auto
  show "exdir_sem t = exdir_sem s" by (rule alloc_memory(4) [OF o(1) run])
qed

lemma last_slot: "VMM_TEMP1 + 4 * (VMM_PAGES_PER_TABLE - 1) = VMM_TEMP1 OR 0xFFC"
  "vmm_table_idx (VMM_TEMP1 OR 0xFFC) = vmm_table_idx VMM_TEMP1" "(VMM_TEMP1 OR 0xFFC) AND PAGE_FLAG_MASK = 0xFFC"
  by (simp_all add: VMM_TEMP1_def VMM_PAGES_PER_TABLE_def vmm_table_idx_def PAGE_FLAG_MASK_def)

lemma store_mapped:
  assumes "mmu_translate s va = Some (frame pa)" and "va AND PAGE_FLAG_MASK = 0" and "vmm_table_idx (va OR i) = vmm_table_idx va"
    and "(va OR i) AND PAGE_FLAG_MASK = i"
  shows "vstore (va OR i) v s = Inr (s\<lparr>phys := (phys s)(frame pa OR i := v)\<rparr>)"
  using assms hw_pte_cong [OF assms(3), of s] by (auto simp: vstore_def mmu_translate_def split: option.splits)

text \<open>The directory lies in a free page, and is empty but for the slot that leads back to itself.\<close>

lemma new_pd_keeps:
  assumes ok: "space_ok s"
  shows "vmm_new_pd s = Inl Panic \<and> pmm_entries s = 0 \<or> (\<exists>pd t. vmm_new_pd s = Inr (pd, t) \<and> pmm_entries s \<noteq> 0 \<and>
    pmm_entries s \<le> Suc (pmm_entries t) \<and> pd \<in> set (avail s) \<and> keeps_space {pd} s t \<and>
    mset (avail s) = add_mset pd (mset (avail t)) \<and> space_ok t \<and> exdir_sem t = exdir_sem s \<and> (\<forall>y. hw_pde t y = hw_pde s y) \<and>
    (\<forall>i. phys t (pd OR (i AND PAGE_FLAG_MASK)) =
       (if i AND PAGE_FLAG_MASK = 0xFFC then vmm_page_val pd (PAGE_PRESENT OR PAGE_WRITE) else 0)))"
proof (cases "pmm_alloc_page s")
  case (Inl h)
  then have "h = Panic" "pmm_entries s = 0" using pmm_alloc_entries(3) [OF space_okD(1) [OF ok]] by auto
  then show ?thesis using Inl by (simp add: vmm_new_pd_def)
next
  case (Inr r)
  then obtain pd a where run: "pmm_alloc_page s = Inr (pd, a)" by (cases r) auto
  note al = space_alloc [OF ok run]
  note o = space_okD [OF al(4)]
  note tf = temp_facts
  let ?T = VMM_TEMP1 and ?w = "vmm_page_val pd (PAGE_PRESENT OR PAGE_WRITE)"
  define s0 where "s0 = a\<lparr>temp_sem := 1\<rparr>"
  have 0: "pmm_ok s0" "mapped_dir s0 ?T" using o by (simp_all add: s0_def)
  obtain s1 where s1: "vmm_page_set ?T ?w s0 = Inr s1" "s1 = set_pte s0 ?T ?w" "mmu_translate s1 ?T = Some (frame pd)"
    "mapped_dir s1 = mapped_dir s0" "no_table s1 = no_table s0" "temp_sem s1 = temp_sem s0" "exdir_sem s1 = exdir_sem s0"
    by (rule map_temp [OF 0(1) tf(1,3) 0(2) temp_flags(1)])
  note k1 = set_pte_keeps_space [OF 0(1) tf(1,3) 0(2) s1(2)]
  have n1: "no_table s1 = no_table a" "avail s1 = avail a" using s1(5) k1(2) by (simp_all add: s0_def)
  have pd: "no_table s1 (frame pd)" "frame pd \<notin> frame ` set (avail s1)" using al(5-7) o(5) n1 by (auto simp: image_iff)
  have c2: "clear_frame (frame pd) s1 = s1\<lparr>phys := (\<lambda>b. if frame b = frame pd then 0 else phys s1 b)\<rparr>" by (simp add: clear_frame_def)
  note k2 = frame_write_ok [OF k1(1) pd c2]
  define g where "g = (\<lambda>b. if frame b = frame pd then if b = pd OR 0xFFC then ?w else 0 else phys s1 b)"
  define s3 where "s3 = s1\<lparr>phys := g\<rparr>"
  have k3: "pmm_ok s3" "avail s3 = avail s1" "\<And>y. hw_pde s3 y = hw_pde s1 y" "\<And>y. vmm_dir_idx y < 1022 \<Longrightarrow> hw_pte s3 y = hw_pte s1 y"
    using frame_write_ok [OF k1(1) pd s3_def] by (simp_all add: g_def)
  have "mmu_translate (clear_frame (frame pd) s1) ?T = Some (frame pd)" using s1(3) k2(5) [OF _ tf(1)] by (simp add: mmu_translate_def)
  from store_mapped [OF this temp_flags(1) last_slot(2,3)]
  have st: "vstore (?T OR 0xFFC) ?w (clear_frame (frame pd) s1) = Inr s3"
  proof -
    have "frame (pd OR 0xFFC) = frame pd"
      using frame_flags(2) [of pd "0xFFC"] al(7) by (simp add: PAGE_FLAG_MASK_def)
    then have "(\<lambda>b. if frame b = frame pd then 0 else phys s1 b)(frame pd OR 0xFFC := ?w) = g"
      using al(7) by (auto simp: g_def fun_eq_iff)
    then show ?thesis using \<open>vstore _ _ _ = _\<close> by (simp add: s3_def c2)
  qed
  have m3: "mapped_dir s3 y = mapped_dir a y" for y using k3(3) k1(4) by (simp add: mapped_dir_def s0_def)
  have T3: "mapped_dir s3 ?T" using m3 o(2) by simp
  define s4 where "s4 = set_pte s3 ?T (old_entry a ?T)"
  note k4 = set_pte_keeps_space [OF k3(1) tf(1,3) T3 s4_def]
  have get: "vmm_page_get ?T s0 = Inr (old_entry a ?T)"
    using vmm_page_get_hw [OF stack_ok_facts(2) [OF pmm_okD [OF 0(1)]]] by (simp add: old_entry_def s0_def)
  have set4: "vmm_page_set ?T (old_entry a ?T) s3 = Inr s4" unfolding s4_def
    by (rule vmm_page_set_present [OF stack_ok_facts(2) [OF pmm_okD [OF k3(1)]] T3])
  have "lock_temp a = Inr s0" using o(3) by (simp add: lock_temp_def s0_def)
  then have run': "vmm_new_pd s = Inr (pd, s4\<lparr>temp_sem := 0\<rparr>)"
    using run s1(1) get vclear_page_frame [OF s1(3)] st set4 unfolding vmm_new_pd_def last_slot(1) by (simp add: frame_def)
  have pde: "hw_pde s4 y = hw_pde a y" for y using k4(4) k3(3) k1(4) by (simp add: s0_def)
  have pte: "hw_pte s4 y = hw_pte a y" if y: "vmm_dir_idx y < 1022" for y
  proof (cases "vmm_table_idx y = vmm_table_idx ?T")
    case True
    have "hw_pte s4 ?T = hw_pte a ?T" unfolding s4_def
      using set_pte_effect(3) [OF stack_ok_facts(1) [OF pmm_okD [OF k3(1)]] tf(1) T3] old_entry_back by simp
    then show ?thesis using hw_pte_cong [OF True] by simp
  next
    case False
    then show ?thesis using k4(3) [OF y] k3(4) [OF y] k1(3) [OF y] by (simp add: s0_def)
  qed
  have cr: "cr3 s4 = cr3 a" by (simp add: s4_def s3_def s1(2) set_pte_def s0_def)
  have n3: "no_table s3 = no_table a"
    using m3 k3(3) k1(4) by (simp add: no_table_def table_frame_def fun_eq_iff s0_def) (simp add: s3_def s1(2) set_pte_def s0_def)
  have ph: "phys s4 b = g b" if "no_table a (frame b)" for b using k4(5) that n3 by (simp add: s3_def)
  have "keeps_space {pd} a (s4\<lparr>temp_sem := 0\<rparr>)"
    using k4(1) cr pde pte ph k1(5) al(7) by (auto simp: keeps_space_def g_def s0_def)
  then have k: "keeps_space {pd} s (s4\<lparr>temp_sem := 0\<rparr>)" using keeps_space_trans [OF al(2)] by (metis sup_bot_left)
  have av: "avail (s4\<lparr>temp_sem := 0\<rparr>) = avail a" using k4(2) k3(2) n1(2) by simp
  have m: "mset (avail s) = mset [pd] + mset (avail (s4\<lparr>temp_sem := 0\<rparr>))" using al(3) av by simp
  have "space_ok (s4\<lparr>temp_sem := 0\<rparr>)" by (rule keeps_space_ok(1) [OF ok k m]) simp
  moreover have "phys s4 (pd OR (i AND PAGE_FLAG_MASK)) = (if i AND PAGE_FLAG_MASK = 0xFFC then ?w else 0)" for i
  proof -
    have f: "frame (pd OR (i AND PAGE_FLAG_MASK)) = pd" using frame_flags(2) [of pd i] al(7) by simp
    have "pd OR (i AND PAGE_FLAG_MASK) = pd OR 0xFFC \<longleftrightarrow> i AND PAGE_FLAG_MASK = 0xFFC"
      using frame_flags(3) [of pd i] frame_flags(3) [of pd "0xFFC"] al(7) by (auto simp: PAGE_FLAG_MASK_def)
    then show ?thesis using ph [of "pd OR (i AND PAGE_FLAG_MASK)"] f al(6,7) by (simp add: g_def)
  qed
  moreover have "exdir_sem s4 = exdir_sem s" using al(10) s1(7) by (simp add: s4_def s3_def set_pte_def s0_def)
  moreover have "pmm_entries (s4\<lparr>temp_sem := 0\<rparr>) = pmm_entries a" by (simp add: pmm_entries_def s4_def s3_def s1(2) s0_def)
  ultimately show ?thesis using run' al(1,9) k m pde pmm_alloc_entries(2) [OF space_okD(1) [OF ok] run] by (intro disjI2 exI [of _ pd] exI [of _ "s4\<lparr>temp_sem := 0\<rparr>"]) simp
qed

section \<open>The window to a second directory\<close>

lemma exdir_idx: "vmm_dir_idx VMM_EXPAGE_DIR = 1022"
  by (simp add: vmm_dir_idx_def VMM_EXPAGE_DIR_def)

lemma exslot_write:
  assumes ok: "pmm_ok s" and t: "t = s\<lparr>phys := (phys s)(pde_pa (cr3 s) VMM_EXPAGE_DIR := w)\<rparr>"
  shows "pmm_ok t" "avail t = avail s" "keeps_space {} s t" "hw_pde t VMM_EXPAGE_DIR = w"
proof -
  note fa = stack_ok_facts [OF pmm_okD [OF ok]]
  have pde: "hw_pde t y = (if vmm_dir_idx y = 1022 then w else hw_pde s y)" for y
    using pde_pa_eq [of "cr3 s" y VMM_EXPAGE_DIR] by (simp add: hw_pde_def t exdir_idx)
  have c: "cr3 t = cr3 s" by (simp add: t)
  have low: "mapped_dir t y = mapped_dir s y" "table_frame t y = table_frame s y" if "vmm_dir_idx y < 1022" for y
    using that pde [of y] by (auto simp: mapped_dir_def table_frame_def)
  have "vmm_dir_idx VMM_PAGE_DIR \<noteq> 1022" by (simp add: vmm_dir_idx_def VMM_PAGE_DIR_def)
  then have "rec_slot t" using fa(2) pde [of VMM_PAGE_DIR] c by (simp add: rec_slot_def)
  then have ok_t: "tables_ok t" using fa(1) low c by (auto simp: tables_ok_def)
  have n: "no_table t = no_table s" using low c by (auto simp: no_table_def fun_eq_iff)
  have ph: "phys t a = phys s a" if "frame a \<noteq> frame (cr3 s)" for a using that by (auto simp: t)
  have pte: "hw_pte t y = hw_pte s y" if y: "vmm_dir_idx y < 1022" for y
  proof (cases "mapped_dir s y")
    case True
    then have "frame (pte_pa (hw_pde s y) y) \<noteq> frame (cr3 s)" using fa(1) y by (auto simp: tables_ok_def table_frame_def)
    then show ?thesis using pde [of y] y ph by (auto simp: hw_pte_def)
  next
    case False
    then show ?thesis using pde [of y] y by (auto simp: hw_pte_def mapped_dir_def)
  qed
  have mem: "phys t a = phys s a" if "i < pmm_pages s" "frame a = sframe s i" for i a
    using sframe_no_table [OF ok that(1)] that(2) ph by (auto simp: no_table_def)
  show okt: "pmm_ok t" and "avail t = avail s"
    using pmm_ok_transfer [OF ok _ _ _ _ ok_t _ n pte mem] low(1) [of PMM_PAGE_STACK] by (auto simp: dir_idx_spage dir_idx_stack t)
  show "keeps_space {} s t" using okt c pde pte ph by (auto simp: keeps_space_def no_table_def)
  show "hw_pde t VMM_EXPAGE_DIR = w" using pde by (simp add: exdir_idx)
qed

lemma exdir_set_run:
  assumes ok: "pmm_ok s" and pd: "frame pd = pd"
  defines "w \<equiv> if pd \<noteq> 0 then pd OR PAGE_PRESENT OR PAGE_WRITE else 0"
  shows "vmm_exdir_set pd s = Inr (hw_pde s VMM_EXPAGE_DIR AND PAGE_MASK, s\<lparr>phys := (phys s)(pde_pa (cr3 s) VMM_EXPAGE_DIR := w)\<rparr>)"
  using page_directory_get_rec [OF stack_ok_facts(2) [OF pmm_okD [OF ok]], of VMM_EXPAGE_DIR]
    page_directory_set_rec [OF stack_ok_facts(2) [OF pmm_okD [OF ok]], of VMM_EXPAGE_DIR]
  by (simp add: vmm_exdir_set_def w_def)

lemma VMM_EXPAGE_DIR_bits: "bit VMM_EXPAGE_DIR n \<longleftrightarrow> 12 \<le> n \<and> n < 32 \<and> n \<noteq> 22"
proof -
  have e: "VMM_EXPAGE_DIR = push_bit 23 (mask 9) OR push_bit 12 (mask 10)"
    by (simp add: VMM_EXPAGE_DIR_def mask_eq_exp_minus_1 push_bit_eq_mult)
  show ?thesis unfolding e by (auto simp: bit_simps)
qed

lemma exdir_window_idx:
  "vmm_dir_idx (VMM_EXPAGE_DIR + 4 * vmm_dir_idx y) = vmm_dir_idx VMM_EXPAGE_DIR"
  "drop_bit 12 (VMM_EXPAGE_DIR + 4 * vmm_dir_idx y) AND 0x3FF = drop_bit 22 VMM_PAGE_DIR"
  "(VMM_EXPAGE_DIR + 4 * vmm_dir_idx y) AND PAGE_FLAG_MASK = 4 * drop_bit 22 y"
proof -
  have w: "VMM_EXPAGE_DIR + 4 * vmm_dir_idx y = VMM_EXPAGE_DIR OR push_bit 2 (drop_bit 22 y)"
    unfolding four_times vmm_dir_idx_def
    by (rule disjunctive_add) (auto simp: bit_simps VMM_EXPAGE_DIR_bits dest: word_bit_less)
  show "vmm_dir_idx (VMM_EXPAGE_DIR + 4 * vmm_dir_idx y) = vmm_dir_idx VMM_EXPAGE_DIR"
    unfolding w unfolding vmm_dir_idx_def by (rule bit_word_eqI) (force simp: bit_simps dest: word_bit_less)
  show "drop_bit 12 (VMM_EXPAGE_DIR + 4 * vmm_dir_idx y) AND 0x3FF = drop_bit 22 VMM_PAGE_DIR"
    unfolding w unfolding VMM_PAGE_DIR_bits
    by (rule bit_word_eqI) (force simp: bit_simps bitw VMM_EXPAGE_DIR_bits dest: word_bit_less)
  show "(VMM_EXPAGE_DIR + 4 * vmm_dir_idx y) AND PAGE_FLAG_MASK = 4 * drop_bit 22 y"
    unfolding w by (rule bit_word_eqI) (force simp: bit_simps bitw VMM_EXPAGE_DIR_bits dest: word_bit_less)
qed

lemma exdir_window:
  assumes w: "hw_pde u VMM_EXPAGE_DIR = pd OR PAGE_PRESENT OR PAGE_WRITE" and pd: "frame pd = pd"
    and slot: "phys u (pde_pa pd VMM_PAGE_DIR) = vmm_page_val pd (PAGE_PRESENT OR PAGE_WRITE)"
  shows "mmu_translate u (VMM_EXPAGE_DIR + 4 * vmm_dir_idx y) = Some (pde_pa pd y)"
proof -
  let ?x = "VMM_EXPAGE_DIR + 4 * vmm_dir_idx y"
  have f: "frame (pd OR PAGE_PRESENT OR PAGE_WRITE) = pd" "(pd OR PAGE_PRESENT OR PAGE_WRITE) AND PAGE_PRESENT \<noteq> 0"
  proof -
    have "frame (pd OR PAGE_PRESENT OR PAGE_WRITE) = frame pd" unfolding frame_def by (rule bit_word_eqI) (auto simp: bit_simps bitw)
    then show "frame (pd OR PAGE_PRESENT OR PAGE_WRITE) = pd" using pd by simp
    show "(pd OR PAGE_PRESENT OR PAGE_WRITE) AND PAGE_PRESENT \<noteq> 0" by (simp add: and_1_bit bit_simps bitw)
  qed
  have e: "hw_pde u ?x = pd OR PAGE_PRESENT OR PAGE_WRITE" using hw_pde_cong [OF exdir_window_idx(1), of u y] w by simp
  have "pte_pa (hw_pde u ?x) ?x = pde_pa pd VMM_PAGE_DIR"
    using f(1) pd unfolding e by (simp add: pte_pa_def pde_pa_def exdir_window_idx(2) frame_def)
  then have "hw_pte u ?x = Some (vmm_page_val pd (PAGE_PRESENT OR PAGE_WRITE))"
    using f(2) temp_val_present unfolding hw_pte_def e by (simp add: slot Let_def)
  then show ?thesis using exdir_window_idx(3) [of y] by (simp add: mmu_translate_def pde_pa_def)
qed

section \<open>The loops\<close>

text \<open>The address space of directory \<open>pd\<close>.\<close>

definition space_of :: "u32 \<Rightarrow> vm \<Rightarrow> vm" where
  "space_of pd u = u\<lparr>cr3 := pd\<rparr>"

lemma space_of_pde: "hw_pde (space_of pd u) y = phys u (pde_pa pd y)"
  by (simp add: space_of_def hw_pde_def)

lemma space_of_pte: "hw_pte (space_of pd u) y =
    (let d = hw_pde (space_of pd u) y; e = phys u (pte_pa d y)
     in if d AND PAGE_PRESENT = 0 \<or> e AND PAGE_PRESENT = 0 then None else Some e)"
  by (simp add: hw_pte_def Let_def) (simp add: space_of_def)

text \<open>What is done for the address \<open>y\<close>: a table of its own with the same entry, or the same table if it is the kernel's.\<close>

definition entry_done :: "vm \<Rightarrow> u32 \<Rightarrow> vm \<Rightarrow> u32 \<Rightarrow> bool" where
  "entry_done s pd u y \<longleftrightarrow>
     (if vmm_dir_idx y < 768
      then hw_pte (space_of pd u) y = hw_pte s y \<and> hw_pde (space_of pd u) y AND PAGE_FLAG_MASK = hw_pde s y AND PAGE_FLAG_MASK \<and>
        (mapped_dir s y \<longrightarrow> table_frame (space_of pd u) y \<in> set (avail s) - set (avail u) - {pd})
      else hw_pde (space_of pd u) y = hw_pde s y)"

definition cloning :: "vm \<Rightarrow> u32 \<Rightarrow> nat \<Rightarrow> vm \<Rightarrow> bool" where
  "cloning s pd n u \<longleftrightarrow> space_ok u \<and> keeps_space (set (avail s)) s u \<and> set (avail u) \<subseteq> set (avail s) - {pd} \<and>
     hw_pde u VMM_EXPAGE_DIR = pd OR PAGE_PRESENT OR PAGE_WRITE \<and> exdir_sem u = 1 \<and>
     phys u (pde_pa pd VMM_PAGE_DIR) = vmm_page_val pd (PAGE_PRESENT OR PAGE_WRITE) \<and>
     (\<forall>y. unat (vmm_dir_idx y) < n \<longrightarrow> entry_done s pd u y) \<and>
     (\<forall>y. n \<le> unat (vmm_dir_idx y) \<longrightarrow> vmm_dir_idx y \<noteq> 1023 \<longrightarrow> phys u (pde_pa pd y) = 0) \<and>
     (\<forall>y z. unat (vmm_dir_idx y) < n \<longrightarrow> unat (vmm_dir_idx z) < n \<longrightarrow> vmm_dir_idx y < 768 \<longrightarrow> vmm_dir_idx z < 768 \<longrightarrow> mapped_dir s y \<longrightarrow>
        mapped_dir s z \<longrightarrow> table_frame (space_of pd u) y = table_frame (space_of pd u) z \<longrightarrow> vmm_dir_idx y = vmm_dir_idx z)"

lemma cloningD:
  assumes "cloning s pd n u"
  shows "space_ok u" "keeps_space (set (avail s)) s u" "set (avail u) \<subseteq> set (avail s) - {pd}"
    "hw_pde u VMM_EXPAGE_DIR = pd OR PAGE_PRESENT OR PAGE_WRITE" "exdir_sem u = 1"
    "phys u (pde_pa pd VMM_PAGE_DIR) = vmm_page_val pd (PAGE_PRESENT OR PAGE_WRITE)"
    "unat (vmm_dir_idx y) < n \<Longrightarrow> entry_done s pd u y"
    "n \<le> unat (vmm_dir_idx y) \<Longrightarrow> vmm_dir_idx y \<noteq> 1023 \<Longrightarrow> phys u (pde_pa pd y) = 0"
    "unat (vmm_dir_idx y) < n \<Longrightarrow> unat (vmm_dir_idx z) < n \<Longrightarrow> vmm_dir_idx y < 768 \<Longrightarrow> vmm_dir_idx z < 768 \<Longrightarrow> mapped_dir s y \<Longrightarrow>
      mapped_dir s z \<Longrightarrow> table_frame (space_of pd u) y = table_frame (space_of pd u) z \<Longrightarrow> vmm_dir_idx y = vmm_dir_idx z"
  using assms unfolding cloning_def by blast+

text \<open>An address with a given directory index.\<close>

lemma slot_address:
  assumes "i < 1024"
  shows "vmm_dir_idx (push_bit 22 (of_nat i)) = of_nat i" "unat (of_nat i :: u32) = i"
proof -
  show u: "unat (of_nat i :: u32) = i" using assms by (simp add: unsigned_of_nat take_bit_nat_eq_self)
  have b: "n < 10" if "bit i n" for n
  proof (rule ccontr)
    assume "\<not> n < 10"
    then have "(2::nat) ^ 10 \<le> 2 ^ n" by (intro power_increasing) simp_all
    then show False using that assms by (simp add: bit_iff_odd)
  qed
  show "vmm_dir_idx (push_bit 22 (of_nat i)) = of_nat i"
    unfolding vmm_dir_idx_def by (rule bit_word_eqI) (use b in \<open>auto simp: bit_simps\<close>)
qed

text \<open>A step that writes slot \<open>y0\<close> of the new directory and the frames of \<open>F\<close> leaves all other slots as they are.\<close>

lemma other_slot:
  assumes same: "\<forall>a. no_table s (frame a) \<longrightarrow> frame a \<notin> F \<longrightarrow> a \<noteq> pde_pa pd y0 \<longrightarrow> phys c a = phys u a"
    and pd: "no_table s pd" "frame pd = pd" "pd \<notin> F" and y: "vmm_dir_idx y \<noteq> vmm_dir_idx y0"
    and av: "set (avail c) \<subseteq> set (avail u)" and tab: "\<forall>g\<in>set (avail s). no_table s g" "F \<subseteq> set (avail u)"
  shows "phys c (pde_pa pd y) = phys u (pde_pa pd y)" "table_frame (space_of pd c) y = table_frame (space_of pd u) y"
    "entry_done s pd u y \<Longrightarrow> entry_done s pd c y"
proof -
  show e: "phys c (pde_pa pd y) = phys u (pde_pa pd y)" using same [rule_format, of "pde_pa pd y"] pd y pde_pa_eq [of pd y y0] by simp
  then show t: "table_frame (space_of pd c) y = table_frame (space_of pd u) y" by (simp add: table_frame_def space_of_pde)
  assume d: "entry_done s pd u y"
  show "entry_done s pd c y"
  proof (cases "vmm_dir_idx y < 768")
    case True
    have "hw_pte (space_of pd c) y = hw_pte (space_of pd u) y"
    proof (cases "mapped_dir s y")
      case m: True
      let ?p = "pte_pa (hw_pde (space_of pd u) y) y"
      have f: "table_frame (space_of pd u) y \<in> set (avail s) - set (avail u) - {pd}" using d m True by (simp add: entry_done_def)
      have fp: "frame ?p = table_frame (space_of pd u) y" by (simp add: table_frame_def)
      have n: "no_table s (frame ?p)" "frame ?p \<notin> F" "frame ?p \<noteq> pd" using f tab unfolding fp by auto
      have "?p \<noteq> pde_pa pd y0" using n(3) pd(2) by (metis frame_pde_pa)
      then have "phys c ?p = phys u ?p" using same n(1,2) by blast
      then show ?thesis using e by (simp add: space_of_pte space_of_pde Let_def)
    next
      case False
      have "hw_pte s y = None" using False by (simp add: hw_pte_def mapped_dir_def)
      moreover have "bit (hw_pde s y AND PAGE_FLAG_MASK) 0 = bit (hw_pde (space_of pd u) y AND PAGE_FLAG_MASK) 0"
        using d True by (simp add: entry_done_def)
      ultimately show ?thesis using False e
        by (simp add: space_of_pte space_of_pde Let_def mapped_dir_def and_1_bit bit_simps bitw)
    qed
    then show ?thesis using d True e t av by (auto simp: entry_done_def space_of_pde)
  next
    case False
    then show ?thesis using d e by (simp add: entry_done_def space_of_pde)
  qed
qed

text \<open>One slot of the new directory: a table of its own for a process, the parent's table for the kernel.\<close>

lemma slot_write:
  assumes c: "cloning s pd n u" and ok: "space_ok s" "pd \<in> set (avail s)" and a: "space_ok a" "keeps_space {} u a" "hw_pde a = hw_pde u"
    and av: "set (avail a) \<subseteq> set (avail u)" and y0: "vmm_dir_idx y0 = of_nat n" "n < 1022"
  obtains b where "expage_directory_set (of_nat n) v a = Inr b" "expage_directory_get (of_nat n) b = Inr v" "space_ok b" "avail b = avail a"
    "keeps_space {pd} a b" "hw_pde b = hw_pde u" "phys b (pde_pa pd y0) = v" "\<And>x. x \<noteq> pde_pa pd y0 \<Longrightarrow> phys b x = phys a x"
    "pmm_entries b = pmm_entries a" "exdir_sem b = exdir_sem a"
proof -
  note d = cloningD [OF c]
  note o = space_okD [OF ok(1)]
  have pd: "no_table s pd" "frame pd = pd" using o(5,7) ok(2) by auto
  have n: "no_table a = no_table s" using keeps_space_same(3) [OF a(2)] keeps_space_same(3) [OF d(2)] by simp
  have idx: "vmm_dir_idx VMM_PAGE_DIR \<noteq> of_nat n"
  proof -
    have "vmm_dir_idx VMM_PAGE_DIR = of_nat 1023" by (simp add: vmm_dir_idx_def VMM_PAGE_DIR_def)
    then show ?thesis using y0(2) slot_address(2) [of n] slot_address(2) [of 1023] by auto
  qed
  define b where "b = a\<lparr>phys := (phys a)(pde_pa pd y0 := v)\<rparr>"
  have win: "hw_pde a VMM_EXPAGE_DIR = pd OR PAGE_PRESENT OR PAGE_WRITE" using d(4) a(3) by simp
  have slot: "phys a (pde_pa pd VMM_PAGE_DIR) = vmm_page_val pd (PAGE_PRESENT OR PAGE_WRITE)"
    using d(6) keeps_spaceD(5) [OF a(2), of "pde_pa pd VMM_PAGE_DIR"] pd keeps_space_same(3) [OF d(2)] by simp
  have free: "no_table a (frame pd)" "frame pd \<notin> frame ` set (avail a)"
    using pd n space_okD(5) [OF a(1)] d(3) av by auto
  have out: "((phys a)(pde_pa pd y0 := v)) x = phys a x" if "frame x \<noteq> frame pd" for x using that by auto
  note w = frame_write_ok [OF space_okD(1) [OF a(1)] free b_def out]
  have w: "pmm_ok b" "avail b = avail a" "keeps_space {pd} a b" "\<And>y. hw_pde b y = hw_pde a y"
    using w(1-4) pd(2) by simp_all
  show thesis
  proof
    show "expage_directory_set (of_nat n) v a = Inr b"
      using exdir_window [OF win pd(2) slot, of y0] y0(1) by (simp add: expage_directory_set_def vstore_def b_def)
    have slot': "phys b (pde_pa pd VMM_PAGE_DIR) = vmm_page_val pd (PAGE_PRESENT OR PAGE_WRITE)"
      using slot pde_pa_eq [of pd VMM_PAGE_DIR y0] idx y0(1) by (simp add: b_def)
    show "expage_directory_get (of_nat n) b = Inr v"
      using exdir_window [OF _ pd(2) slot', of y0] win w(4) y0(1) by (simp add: expage_directory_get_def vload_def b_def)
    show "space_ok b" by (rule keeps_space_ok(1) [OF a(1) w(3), of "[]"]) (use w(2) space_okD(3) [OF a(1)] in \<open>simp_all add: b_def\<close>)
  qed (use w a(3) in \<open>auto simp: b_def fun_eq_iff pmm_entries_def\<close>)
qed

text \<open>The invariant after a step that has written slot \<open>y0\<close> and the frames of \<open>F\<close>.\<close>

lemma cloning_step:
  assumes c: "cloning s pd n u" and ok: "space_ok s" "pd \<in> set (avail s)" and y0: "vmm_dir_idx y0 = of_nat n" "n < 1022"
    and t: "space_ok t" "keeps_space G u t" "hw_pde t = hw_pde u" "exdir_sem t = exdir_sem u" "set (avail t) \<subseteq> set (avail u)"
    and G: "G \<subseteq> set (avail s)" and F: "F \<subseteq> set (avail u)"
    and same: "\<forall>a. no_table s (frame a) \<longrightarrow> frame a \<notin> F \<longrightarrow> a \<noteq> pde_pa pd y0 \<longrightarrow> phys t a = phys u a"
    and fin: "\<And>y. vmm_dir_idx y = vmm_dir_idx y0 \<Longrightarrow> entry_done s pd t y"
    and new: "vmm_dir_idx y0 < 768 \<Longrightarrow> mapped_dir s y0 \<Longrightarrow> table_frame (space_of pd t) y0 \<in> set (avail u)"
  shows "cloning s pd (Suc n) t"
proof -
  note d = cloningD [OF c]
  note o = space_okD [OF ok(1)]
  have F': "pd \<notin> F" using F d(3) by auto
  have pd: "no_table s pd" "frame pd = pd" using o(5,7) ok(2) by auto
  have "\<forall>g\<in>set (avail s). no_table s g" using o(7) by blast
  note other = other_slot [OF same pd F' _ t(5) this F]
  have idx: "unat (vmm_dir_idx y) = n \<longleftrightarrow> vmm_dir_idx y = vmm_dir_idx y0" for y
    using slot_address(2) [of n] y0 by (auto simp: word_unat_eq_iff)
  have low: "vmm_dir_idx y \<noteq> vmm_dir_idx y0" if "unat (vmm_dir_idx y) < n" for y using that idx [of y] by auto
  have at: "mapped_dir s y = mapped_dir s y0" "phys t (pde_pa pd y) = phys t (pde_pa pd y0)"
    "table_frame (space_of pd t) y = table_frame (space_of pd t) y0" if "vmm_dir_idx y = vmm_dir_idx y0" for y
    using that mapped_dir_cong [OF that, of s] pde_pa_eq [of pd y y0] by (auto simp: table_frame_def space_of_pde)
  have "keeps_space (set (avail s)) s t" by (rule keeps_space_mono [OF keeps_space_trans [OF d(2) t(2)]]) (use G in auto)
  moreover have "vmm_dir_idx VMM_PAGE_DIR \<noteq> vmm_dir_idx y0"
    using idx [of VMM_PAGE_DIR] y0(2) by (auto simp: vmm_dir_idx_def VMM_PAGE_DIR_def)
  from other(1) [OF this] have "phys t (pde_pa pd VMM_PAGE_DIR) = vmm_page_val pd (PAGE_PRESENT OR PAGE_WRITE)" using d(6) by simp
  moreover have "entry_done s pd t y" if "unat (vmm_dir_idx y) < Suc n" for y
    using that idx [of y] fin [of y] other(3) [OF low d(7), of y] by (cases "unat (vmm_dir_idx y) = n") auto
  moreover have "phys t (pde_pa pd y) = 0" if "Suc n \<le> unat (vmm_dir_idx y)" "vmm_dir_idx y \<noteq> 1023" for y
  proof -
    have "vmm_dir_idx y \<noteq> vmm_dir_idx y0" using that(1) idx [of y] by auto
    from other(1) [OF this] show ?thesis using d(8) [of y] that by simp
  qed
  moreover have "vmm_dir_idx y = vmm_dir_idx z"
    if yz: "unat (vmm_dir_idx y) < Suc n" "unat (vmm_dir_idx z) < Suc n" and "vmm_dir_idx y < 768" "vmm_dir_idx z < 768" "mapped_dir s y"
      "mapped_dir s z" "table_frame (space_of pd t) y = table_frame (space_of pd t) z" for y z
  proof -
    have old: "table_frame (space_of pd t) x \<notin> set (avail u)" if "unat (vmm_dir_idx x) < n" "vmm_dir_idx x < 768" "mapped_dir s x" for x
      using other(2) [OF low [OF that(1)]] d(7) [OF that(1)] that by (simp add: entry_done_def)
    consider "unat (vmm_dir_idx y) < n" "unat (vmm_dir_idx z) < n" | "vmm_dir_idx y = vmm_dir_idx y0" "unat (vmm_dir_idx z) < n"
      | "unat (vmm_dir_idx y) < n" "vmm_dir_idx z = vmm_dir_idx y0" | "vmm_dir_idx y = vmm_dir_idx y0" "vmm_dir_idx z = vmm_dir_idx y0"
      using yz unfolding less_Suc_eq idx by blast
    then show ?thesis
    proof cases
      case 1
      then show ?thesis using d(9) [of y z] that(3-7) other(2) [OF low [of y]] other(2) [OF low [of z]] by simp
    next
      case 2
      then show ?thesis using old [OF 2(2) that(4,6)] new at(1,3) [OF 2(1)] that(3,5,7) by simp
    next
      case 3
      then show ?thesis using old [OF 3(1) that(3,5)] new at(1,3) [OF 3(2)] that(4,6,7) by simp
    next
      case 4
      then show ?thesis by simp
    qed
  qed
  moreover have "set (avail t) \<subseteq> set (avail s) - {pd}" "hw_pde t VMM_EXPAGE_DIR = pd OR PAGE_PRESENT OR PAGE_WRITE" "exdir_sem t = 1"
    using t(3-5) d(3-5) by auto
  ultimately show ?thesis using t(1) unfolding cloning_def by (intro conjI allI impI)
qed

definition user_slot :: "vm \<Rightarrow> nat \<Rightarrow> bool" where
  "user_slot s n \<longleftrightarrow> mapped_dir s (push_bit 22 (of_nat n))"

lemma pte_pa_frame: "pte_pa d y = frame d OR (4 * (drop_bit 12 y AND 0x3FF) AND PAGE_FLAG_MASK)"
  unfolding pte_pa_def frame_def four_times by (rule bit_word_eqI) (auto simp: bit_simps bitw)

lemma clone_user_step:
  assumes c: "cloning s pd n u" and ok: "space_ok s" "pd \<in> set (avail s)" and n: "n < 768"
    and present: "\<forall>y. vmm_dir_idx y < 768 \<longrightarrow> hw_pde s y \<noteq> 0 \<longrightarrow> mapped_dir s y"
  shows "clone_user_table (of_nat n) u = Inl Panic \<and> user_slot s n \<and> pmm_entries u = 0 \<or>
    (\<exists>t. clone_user_table (of_nat n) u = Inr t \<and> cloning s pd (Suc n) t \<and> pmm_entries u \<le> pmm_entries t + of_bool (user_slot s n))"
proof -
  note d = cloningD [OF c]
  note o = space_okD [OF ok(1)]
  note ou = space_okD [OF d(1)]
  define y0 :: u32 where "y0 = push_bit 22 (of_nat n)"
  have y0: "vmm_dir_idx y0 = of_nat n" "n < 1022" using slot_address(1) [of n] n by (auto simp: y0_def)
  have "(of_nat n :: u32) < 768" using slot_address(2) [of n] n by (simp add: word_less_nat_alt)
  then have low: "vmm_dir_idx y0 < 768" "vmm_dir_idx y0 < 1022" "vmm_dir_idx y0 \<noteq> 1022" "vmm_dir_idx y0 \<noteq> 1023" using y0(1) by (auto simp: word_less_nat_alt)
  have pde: "hw_pde u y0 = hw_pde s y0" by (rule keeps_spaceD(3) [OF d(2) low(3)])
  have us: "user_slot s n = mapped_dir s y0" by (simp add: user_slot_def y0_def)
  have get: "page_directory_get (of_nat n) x = Inr (hw_pde x y0)" if "pmm_ok x" for x
    using page_directory_get_rec [OF stack_ok_facts(2) [OF pmm_okD [OF that]], of y0] y0(1) by simp
  have same_dir: "hw_pde s y = hw_pde s y0" if "vmm_dir_idx y = vmm_dir_idx y0" for y using hw_pde_cong [OF that] .
  show ?thesis
  proof (cases "hw_pde s y0 = 0")
    case True
    have nm: "\<not> mapped_dir s y0" using True by (simp add: mapped_dir_def)
    have z: "phys u (pde_pa pd y) = 0" if "vmm_dir_idx y = vmm_dir_idx y0" for y
      using d(8) [of y0] slot_address(2) [of n] n low(4) y0(1) pde_pa_eq [of pd y y0] that by simp
    have "entry_done s pd u y" if "vmm_dir_idx y = vmm_dir_idx y0" for y
      using z [OF that] same_dir [OF that] True low(1) that
      by (simp add: entry_done_def space_of_pde space_of_pte Let_def mapped_dir_def) (simp add: hw_pte_def)
    then have "cloning s pd (Suc n) u"
      using cloning_step [OF c ok y0 d(1) keeps_space_refl [OF ou(1), of "{}"], of "{}"] nm by simp
    moreover have "clone_user_table (of_nat n) u = Inr u" using get [OF ou(1)] pde True by (simp add: clone_user_table_def)
    ultimately show ?thesis by auto
  next
    case False
    then have m: "mapped_dir s y0" using present low(1) by blast
    let ?v = "\<lambda>f. vmm_page_val f (hw_pde s y0 AND PAGE_FLAG_MASK)"
    show ?thesis
    proof (cases "pmm_alloc_page u")
      case (Inl h)
      then have "clone_user_table (of_nat n) u = Inl Panic" "pmm_entries u = 0"
        using get [OF ou(1)] pde False pmm_alloc_entries(3) [OF ou(1) Inl] by (simp_all add: clone_user_table_def)
      then show ?thesis using m us by simp
    next
      case (Inr r)
      then obtain f a where alloc: "pmm_alloc_page u = Inr (f, a)" by (cases r) auto
      note al = space_alloc [OF d(1) alloc]
      have ava: "set (avail a) \<subseteq> set (avail u)" "f \<notin> set (avail a)" "f \<in> set (avail s)" "f \<noteq> pd"
        using mset_eq_setD [of "avail u" "f # avail a"] al(1,3,5) d(3) by auto
      have pa: "hw_pde a = hw_pde u" using al(9) by auto
      obtain b where b: "expage_directory_set (of_nat n) (?v f) a = Inr b" "expage_directory_get (of_nat n) b = Inr (?v f)" "space_ok b"
        "avail b = avail a" "keeps_space {pd} a b" "hw_pde b = hw_pde u" "phys b (pde_pa pd y0) = ?v f"
        "\<And>x. x \<noteq> pde_pa pd y0 \<Longrightarrow> phys b x = phys a x" "pmm_entries b = pmm_entries a" "exdir_sem b = exdir_sem a"
        by (rule slot_write [OF c ok al(4) al(2) pa ava(1) y0]) blast
      note ob = space_okD [OF b(3)]
      have kb: "keeps_space {pd} u b" using keeps_space_trans [OF al(2) b(5), of "{}"] by simp
      have nb: "no_table b = no_table s" using keeps_space_same(3) [OF kb] keeps_space_same(3) [OF d(2)] by simp
      have eb: "hw_pde b y0 = hw_pde s y0" "mapped_dir b y0" using b(6) pde m by (simp_all add: mapped_dir_def)
      have f: "frame f = f" "no_table b (frame f)" "frame f \<notin> frame ` set (avail b)"
        using al(7) o(7) [OF ava(3)] nb ava(2) ob(5) b(4) by auto
      have "vmm_dir_idx y0 \<noteq> vmm_dir_idx VMM_TEMP1" using low(1) by (auto simp: vmm_dir_idx_def VMM_TEMP1_def)
      then have src: "frame (hw_pde s y0) \<noteq> table_frame b VMM_TEMP1"
        using stack_ok_facts(1) [OF pmm_okD [OF ob(1)]] eb low(2) temp_facts(1) ob(2) unfolding tables_ok_def table_frame_def by metis
      obtain t where t: "vmm_copy_page (hw_pde s y0 AND PAGE_MASK) f b = Inr t" "keeps_space {frame f} b t" "avail t = avail b" "temp_sem t = 0"
        "exdir_sem t = exdir_sem b" "pmm_entries t = pmm_entries b" "\<And>y. hw_pde t y = hw_pde b y"
        "\<And>i. phys t (frame f OR (i AND PAGE_FLAG_MASK)) = phys b (frame (hw_pde s y0) OR (i AND PAGE_FLAG_MASK))"
        by (rule copy_page_keeps [OF ob(1-3) f(2,3), of "hw_pde s y0 AND PAGE_MASK"]) (use src in \<open>auto simp: frame_def\<close>)
      have "?v f AND PAGE_MASK = f" using f(1) by (simp add: frame_def)
      then have run: "clone_user_table (of_nat n) u = Inr t"
        using get [OF ou(1)] get [OF space_okD(1) [OF al(4)]] get [OF ob(1)] pde pa eb(1) False alloc b(1,2) t(1)
        by (simp add: clone_user_table_def)
      have k: "keeps_space ({pd} \<union> {f}) u t" using keeps_space_trans [OF kb t(2)] f(1) by simp
      have ok_t: "space_ok t" by (rule keeps_space_ok(1) [OF b(3) t(2), of "[]"]) (use t(3,4) in simp_all)
      have same: "\<forall>x. no_table s (frame x) \<longrightarrow> frame x \<notin> {f} \<longrightarrow> x \<noteq> pde_pa pd y0 \<longrightarrow> phys t x = phys u x"
        using keeps_spaceD(5) [OF t(2)] keeps_spaceD(5) [OF al(2), of _ "{}"] b(8) nb f(1) keeps_space_same(3) [OF d(2)] by simp
      have slot: "phys t (pde_pa pd y) = ?v f" if "vmm_dir_idx y = vmm_dir_idx y0" for y
        using keeps_spaceD(5) [OF t(2), of "pde_pa pd y"] b(7) nb o(5,7) [OF ok(2)] ava(4) f(1) pde_pa_eq [of pd y y0] that by simp
      have tab: "table_frame (space_of pd t) y = f" if "vmm_dir_idx y = vmm_dir_idx y0" for y
        using slot [OF that] f(1) by (simp add: table_frame_def space_of_pde frame_def)
      have fin: "entry_done s pd t y" if "vmm_dir_idx y = vmm_dir_idx y0" for y
      proof -
        have "?v f AND PAGE_PRESENT = hw_pde s y0 AND PAGE_PRESENT"
          unfolding page_val_present by (rule bit_word_eqI) (auto simp: bit_simps bitw)
        then have p: "?v f AND PAGE_PRESENT \<noteq> 0" using m by (simp add: mapped_dir_def)
        have "vmm_dir_idx y < 1022" "vmm_dir_idx y \<noteq> vmm_dir_idx PMM_PAGE_STACK" using that low by (auto simp: dir_idx_stack)
        then have "hw_pte b y = hw_pte s y" using keeps_spaceD(4) [OF kb] keeps_spaceD(4) [OF d(2)] by simp
        moreover have "hw_pde b y = hw_pde s y0" using hw_pde_cong [OF that, of b] eb(1) by simp
        moreover have "phys t (pte_pa (?v f) y) = phys b (pte_pa (hw_pde s y0) y)"
          using t(8) [of "4 * (drop_bit 12 y AND 0x3FF)"] by (simp add: pte_pa_frame [of "?v f"] pte_pa_frame [of "hw_pde s y0"]) (simp add: frame_def)
        moreover have "hw_pte (space_of pd t) y = (let e = phys t (pte_pa (?v f) y) in if e AND PAGE_PRESENT = 0 then None else Some e)"
          using slot [OF that] p by (simp add: space_of_pte space_of_pde Let_def)
        ultimately have "hw_pte (space_of pd t) y = hw_pte s y"
          using m by (simp add: hw_pte_def [of b] mapped_dir_def Let_def)
        then show ?thesis using low(1) that slot [OF that] tab [OF that] same_dir [OF that] ava t(3) b(4) by (simp add: entry_done_def space_of_pde)
      qed
      have "cloning s pd (Suc n) t"
      proof (rule cloning_step [OF c ok y0 ok_t k _ _ _ _ _ same fin])
        show "hw_pde t = hw_pde u" using t(7) b(6) by auto
        show "exdir_sem t = exdir_sem u" using t(5) b(10) al(10) by simp
      qed (use t(3) b(4) ava al(1) ok(2) tab [of y0] in auto)
      moreover have "pmm_entries u \<le> Suc (pmm_entries t)" using pmm_alloc_entries(2) [OF ou(1) alloc] t(6) b(9) by simp
      ultimately show ?thesis using run m us by simp
    qed
  qed
qed

lemma share_step:
  assumes c: "cloning s pd n u" and ok: "space_ok s" "pd \<in> set (avail s)" and n: "768 \<le> n" "n < 1022"
  shows "\<exists>t. share_kernel_table (of_nat n) u = Inr t \<and> cloning s pd (Suc n) t \<and> pmm_entries t = pmm_entries u"
proof -
  note d = cloningD [OF c]
  note ou = space_okD [OF d(1)]
  define y0 :: u32 where "y0 = push_bit 22 (of_nat n)"
  have y0: "vmm_dir_idx y0 = of_nat n" using slot_address(1) [of n] n by (simp add: y0_def)
  have idx: "\<not> vmm_dir_idx y < 768" "vmm_dir_idx y \<noteq> 1022" if "vmm_dir_idx y = vmm_dir_idx y0" for y
    using slot_address(2) [of n] n y0 that by (auto simp: word_less_nat_alt)
  have kr: "keeps_space {} u u" by (rule keeps_space_refl [OF ou(1)])
  obtain b where b: "expage_directory_set (of_nat n) (hw_pde u y0) u = Inr b" "space_ok b" "avail b = avail u" "keeps_space {pd} u b"
    "hw_pde b = hw_pde u" "phys b (pde_pa pd y0) = hw_pde u y0" "\<And>x. x \<noteq> pde_pa pd y0 \<Longrightarrow> phys b x = phys u x"
    "pmm_entries b = pmm_entries u" "exdir_sem b = exdir_sem u"
    by (rule slot_write [OF c ok d(1) kr refl _ y0 n(2)]) auto
  have fin: "entry_done s pd b y" if "vmm_dir_idx y = vmm_dir_idx y0" for y
    using idx [OF that] b(6) pde_pa_eq [of pd y y0] that keeps_spaceD(3) [OF d(2), of y0] hw_pde_cong [OF that, of s]
    by (simp add: entry_done_def space_of_pde)
  have "cloning s pd (Suc n) b"
    by (rule cloning_step [OF c ok y0 n(2) b(2,4,5,9) _ _ _ _ fin, of "{}"]) (use b(3,7) ok(2) idx(1) [of y0] in auto)
  moreover have "page_directory_get (of_nat n) u = Inr (hw_pde u y0)"
    using page_directory_get_rec [OF stack_ok_facts(2) [OF pmm_okD [OF ou(1)]], of y0] y0 by simp
  ultimately show ?thesis using b(1,8) by (auto simp: share_kernel_table_def)
qed

text \<open>The two loops, with the number of user tables still to copy.\<close>

definition table_count :: "vm \<Rightarrow> nat \<Rightarrow> nat" where
  "table_count s n = length (filter (user_slot s) [n..<768])"

lemma clone_user_loop:
  assumes ok: "space_ok s" "pd \<in> set (avail s)" and present: "\<forall>y. vmm_dir_idx y < 768 \<longrightarrow> hw_pde s y \<noteq> 0 \<longrightarrow> mapped_dir s y"
  shows "n \<le> 768 \<Longrightarrow> cloning s pd n u \<Longrightarrow>
    for_in clone_user_table (map of_nat [n..<768]) u = Inl Panic \<and> pmm_entries u < table_count s n \<or>
    (\<exists>t. for_in clone_user_table (map of_nat [n..<768]) u = Inr t \<and> cloning s pd 768 t)"
proof (induction "768 - n" arbitrary: n u)
  case 0
  then show ?case by (simp add: upt_rec)
next
  case (Suc k)
  then have n: "n < 768" by simp
  note step = clone_user_step [OF Suc.prems(2) ok n present]
  have k: "k = 768 - Suc n" "Suc n \<le> 768" using Suc.hyps(2) n by auto
  have c: "[n..<768] = n # [Suc n..<768]" using n by (simp add: upt_conv_Cons)
  have tc: "table_count s n = of_bool (user_slot s n) + table_count s (Suc n)" by (simp add: table_count_def c)
  show ?case using step Suc.hyps(1) [OF k] unfolding c tc by fastforce
qed

lemma share_loop:
  assumes ok: "space_ok s" "pd \<in> set (avail s)"
  shows "768 \<le> n \<Longrightarrow> n \<le> 1022 \<Longrightarrow> cloning s pd n u \<Longrightarrow>
    \<exists>t. for_in share_kernel_table (map of_nat [n..<1022]) u = Inr t \<and> cloning s pd 1022 t"
proof (induction "1022 - n" arbitrary: n u)
  case 0
  then show ?case by (simp add: upt_rec)
next
  case (Suc k)
  then have n: "n < 1022" by simp
  obtain t where t: "share_kernel_table (of_nat n) u = Inr t" "cloning s pd (Suc n) t"
    using share_step [OF Suc.prems(3) ok Suc.prems(1) n] by blast
  have k: "k = 1022 - Suc n" "768 \<le> Suc n" "Suc n \<le> 1022" using Suc.hyps(2) Suc.prems(1) n by auto
  have "[n..<1022] = n # [Suc n..<1022]" using n by (simp add: upt_conv_Cons)
  then show ?case using t(1) Suc.hyps(1) [OF k t(2)] by simp
qed

section \<open>The copy\<close>

text \<open>The child: tables of its own in fresh pages for the user's addresses, the parent's tables for the kernel.\<close>

definition cloned :: "vm \<Rightarrow> u32 \<Rightarrow> vm \<Rightarrow> bool" where
  "cloned s pd c \<longleftrightarrow> tables_ok (space_of pd c) \<and>
     (\<forall>x<KERNEL_OFFSET. hw_pte (space_of pd c) x = hw_pte s x \<and> hw_pte c x = hw_pte s x \<and>
        hw_pde (space_of pd c) x AND PAGE_FLAG_MASK = hw_pde s x AND PAGE_FLAG_MASK \<and> hw_pde c x = hw_pde s x \<and>
        (mapped_dir s x \<longrightarrow> table_frame (space_of pd c) x \<in> set (avail s) - set (avail c) - {pd})) \<and>
     (\<forall>x. 768 \<le> vmm_dir_idx x \<longrightarrow> vmm_dir_idx x < 1022 \<longrightarrow> hw_pde (space_of pd c) x = hw_pde s x) \<and>
     (\<forall>a. no_table s (frame a) \<longrightarrow> frame a \<notin> set (avail s) \<longrightarrow> phys c a = phys s a)"

text \<open>What the loops leave of the invariant when the window has been closed.\<close>

definition copied :: "vm \<Rightarrow> u32 \<Rightarrow> vm \<Rightarrow> bool" where
  "copied s pd u \<longleftrightarrow> keeps_space (set (avail s)) s u \<and> phys u (pde_pa pd VMM_PAGE_DIR) = vmm_page_val pd (PAGE_PRESENT OR PAGE_WRITE) \<and>
     (\<forall>y. vmm_dir_idx y < 1022 \<longrightarrow> entry_done s pd u y) \<and>
     (\<forall>y z. vmm_dir_idx y < 768 \<longrightarrow> vmm_dir_idx z < 768 \<longrightarrow> mapped_dir s y \<longrightarrow> mapped_dir s z \<longrightarrow>
        table_frame (space_of pd u) y = table_frame (space_of pd u) z \<longrightarrow> vmm_dir_idx y = vmm_dir_idx z)"

lemma copiedD:
  assumes "copied s pd u"
  shows "keeps_space (set (avail s)) s u" "phys u (pde_pa pd VMM_PAGE_DIR) = vmm_page_val pd (PAGE_PRESENT OR PAGE_WRITE)"
    "vmm_dir_idx y < 1022 \<Longrightarrow> entry_done s pd u y"
    "vmm_dir_idx y < 768 \<Longrightarrow> vmm_dir_idx z < 768 \<Longrightarrow> mapped_dir s y \<Longrightarrow> mapped_dir s z \<Longrightarrow>
      table_frame (space_of pd u) y = table_frame (space_of pd u) z \<Longrightarrow> vmm_dir_idx y = vmm_dir_idx z"
  using assms unfolding copied_def by blast+

lemma cloning_copied: "cloning s pd 1022 u \<Longrightarrow> copied s pd u"
  unfolding copied_def using cloningD [of s pd 1022 u] by (intro conjI allI impI) (auto simp: word_less_nat_alt)

lemma copied_closed:
  assumes c: "copied s pd u" and ok: "space_ok s" "pd \<in> set (avail s)"
    and t: "keeps_space {} u t" "avail t = avail u"
  shows "copied s pd t"
proof -
  note d = copiedD [OF c]
  note o = space_okD [OF ok(1)]
  have n: "no_table u = no_table s" using keeps_space_same(3) [OF d(1)] .
  have same: "\<forall>a. no_table s (frame a) \<longrightarrow> frame a \<notin> {} \<longrightarrow> a \<noteq> pde_pa pd VMM_EXPAGE_DIR \<longrightarrow> phys t a = phys u a"
    using keeps_spaceD(5) [OF t(1)] n by simp
  have nt: "\<forall>g\<in>set (avail s). no_table s g" using o(7) by blast
  have idx: "vmm_dir_idx y \<noteq> vmm_dir_idx VMM_EXPAGE_DIR" if "vmm_dir_idx y < 1022 \<or> vmm_dir_idx y < 768 \<or> y = VMM_PAGE_DIR" for y
    using that by (auto simp: exdir_idx) (simp add: vmm_dir_idx_def VMM_PAGE_DIR_def)
  note other = other_slot [OF same o(7) [OF ok(2)] o(5) [OF ok(2)] _ idx _ nt, unfolded t(2)]
  have "keeps_space (set (avail s)) s t" using keeps_space_trans [OF d(1) t(1)] by simp
  moreover have "entry_done s pd t y" if "vmm_dir_idx y < 1022" for y using other(3) [of y] d(3) [OF that] that by simp
  ultimately show ?thesis using other(1) [of VMM_PAGE_DIR] other(2) d(2,4) unfolding copied_def by simp
qed

lemma cloned_tables_ok:
  assumes c: "copied s pd u" and ok: "space_ok s" "pd \<in> set (avail s)"
  shows "tables_ok (space_of pd u)"
proof -
  note d = copiedD [OF c]
  note o = space_okD [OF ok(1)]
  let ?c = "space_of pd u"
  have pd: "frame pd = pd" "no_table s pd" using o(5,7) ok(2) by auto
  have tab: "vmm_dir_idx x < 768 \<and> mapped_dir s x \<and> table_frame ?c x \<in> set (avail s) - {pd} \<or>
      \<not> vmm_dir_idx x < 768 \<and> mapped_dir s x \<and> table_frame ?c x = table_frame s x"
    if x: "vmm_dir_idx x < 1022" "mapped_dir ?c x" for x
  proof (cases "vmm_dir_idx x < 768")
    case True
    have e: "entry_done s pd u x" using d(3) [of x] x(1) by simp
    have "bit (hw_pde ?c x AND PAGE_FLAG_MASK) 0 = bit (hw_pde s x AND PAGE_FLAG_MASK) 0" using e True by (simp add: entry_done_def)
    then have "mapped_dir s x" using x(2) by (simp add: mapped_dir_def and_1_bit bit_simps bitw)
    then show ?thesis using e True by (simp add: entry_done_def)
  next
    case False
    then show ?thesis using d(3) [of x] x by (simp add: entry_done_def mapped_dir_def table_frame_def)
  qed
  have free: "table_frame s x \<notin> set (avail s)" if "vmm_dir_idx x < 1022" "mapped_dir s x" for x
    using o(7) that by (auto simp: no_table_def)
  have "rec_slot ?c"
    using d(2) temp_val_present [of pd] pd(1) by (simp add: rec_slot_def space_of_pde) (simp add: space_of_def)
  moreover have "table_frame ?c x \<noteq> frame (cr3 ?c)" if "vmm_dir_idx x < 1022" "mapped_dir ?c x" for x
    using tab [OF that] free [OF that(1)] ok(2) pd(1) by (auto simp: space_of_def)
  moreover have "vmm_dir_idx x = vmm_dir_idx y"
    if "vmm_dir_idx x < 1022" "vmm_dir_idx y < 1022" "mapped_dir ?c x" "mapped_dir ?c y" "table_frame ?c x = table_frame ?c y" for x y
    using tab [OF that(1,3)] tab [OF that(2,4)] free [OF that(1)] free [OF that(2)] d(4) [of x y] that(1,2,5)
      stack_ok_facts(1) [OF pmm_okD [OF o(1)]]
    by (auto simp: tables_ok_def)
  ultimately show ?thesis unfolding tables_ok_def by blast
qed

lemma copied_cloned:
  assumes c: "copied s pd u" and ok: "space_ok s" "pd \<in> set (avail s)"
  shows "cloned s pd u"
proof -
  note d = copiedD [OF c]
  have "hw_pte (space_of pd u) x = hw_pte s x \<and> hw_pte u x = hw_pte s x \<and>
      hw_pde (space_of pd u) x AND PAGE_FLAG_MASK = hw_pde s x AND PAGE_FLAG_MASK \<and> hw_pde u x = hw_pde s x \<and>
      (mapped_dir s x \<longrightarrow> table_frame (space_of pd u) x \<in> set (avail s) - set (avail u) - {pd})" if "x < KERNEL_OFFSET" for x
  proof -
    have l: "vmm_dir_idx x < 768" by (rule user_dir [OF that])
    then have "vmm_dir_idx x < 1022" "vmm_dir_idx x \<noteq> vmm_dir_idx PMM_PAGE_STACK" "vmm_dir_idx x \<noteq> 1022"
      by (auto simp: dir_idx_stack word_less_nat_alt)
    then show ?thesis using d(3) [of x] keeps_spaceD(3,4) [OF d(1), of x] l by (simp add: entry_done_def)
  qed
  moreover have "hw_pde (space_of pd u) x = hw_pde s x" if "768 \<le> vmm_dir_idx x" "vmm_dir_idx x < 1022" for x
    using d(3) [of x] that by (simp add: entry_done_def)
  ultimately show ?thesis using cloned_tables_ok [OF assms] keeps_spaceD(5) [OF d(1)] unfolding cloned_def by blast
qed

text \<open>The start of the loops: an empty directory behind the window.\<close>

lemma pde_pa_frame: "frame pd = pd \<Longrightarrow> pde_pa pd y = pd OR (4 * drop_bit 22 y AND PAGE_FLAG_MASK)"
proof -
  assume "frame pd = pd"
  then have "pde_pa pd y = frame pd OR 4 * drop_bit 22 y" by (simp add: pde_pa_def frame_def)
  moreover have "4 * drop_bit 22 y = 4 * drop_bit 22 y AND PAGE_FLAG_MASK"
    unfolding four_times by (rule bit_word_eqI) (auto simp: bit_simps bitw dest: word_bit_less)
  ultimately show ?thesis using \<open>frame pd = pd\<close> by simp
qed

lemma cloning_start:
  assumes ok: "space_ok s" and pd: "pd \<in> set (avail s)"
    and s1: "space_ok s1" "keeps_space {pd} s s1" "mset (avail s) = add_mset pd (mset (avail s1))"
    and dir: "\<And>i. phys s1 (pd OR (i AND PAGE_FLAG_MASK)) = (if i AND PAGE_FLAG_MASK = 0xFFC then vmm_page_val pd (PAGE_PRESENT OR PAGE_WRITE) else 0)"
    and s2: "s2 = s1\<lparr>exdir_sem := 1, phys := (phys s1)(pde_pa (cr3 s1) VMM_EXPAGE_DIR := pd OR PAGE_PRESENT OR PAGE_WRITE)\<rparr>"
  shows "cloning s pd 0 s2" "pmm_entries s2 = pmm_entries s1"
proof -
  note o = space_okD [OF ok]
  have f: "frame pd = pd" "no_table s pd" using o(5,7) pd by auto
  let ?a = "s1\<lparr>exdir_sem := 1\<rparr>"
  have e: "s2 = ?a\<lparr>phys := (phys ?a)(pde_pa (cr3 ?a) VMM_EXPAGE_DIR := pd OR PAGE_PRESENT OR PAGE_WRITE)\<rparr>" by (simp add: s2)
  have "pmm_ok ?a" using space_okD(1) [OF s1(1)] by simp
  note w = exslot_write [OF this e]
  have k: "keeps_space {} s1 s2" using w(3) by simp
  have av: "avail s2 = avail s1" using w(2) by simp
  have "space_ok s2" by (rule keeps_space_ok(1) [OF s1(1) k, of "[]"]) (use av space_okD(3) [OF s1(1)] in \<open>simp_all add: s2\<close>)
  moreover have "keeps_space (set (avail s)) s s2"
    by (rule keeps_space_mono [OF keeps_space_trans [OF s1(2) k]]) (use pd in simp)
  moreover have "set (avail s2) \<subseteq> set (avail s) - {pd}"
  proof -
    have "distinct (pd # avail s1)" using o(4) s1(3) mset_eq_imp_distinct_iff [of "avail s" "pd # avail s1"] by simp
    then show ?thesis using av mset_eq_setD [of "avail s" "pd # avail s1"] s1(3) by auto
  qed
  moreover have "phys s2 (pde_pa pd y) = (if vmm_dir_idx y = 1023 then vmm_page_val pd (PAGE_PRESENT OR PAGE_WRITE) else 0)" for y
  proof -
    have "phys s2 (pde_pa pd y) = phys s1 (pde_pa pd y)"
      using keeps_spaceD(5) [OF k, of "pde_pa pd y"] f keeps_space_same(3) [OF s1(2)] by simp
    moreover have "4 * drop_bit 22 y AND PAGE_FLAG_MASK = 0xFFC \<longleftrightarrow> vmm_dir_idx y = 1023"
    proof -
      have "pde_pa pd y = pde_pa pd VMM_PAGE_DIR \<longleftrightarrow> 4 * drop_bit 22 y AND PAGE_FLAG_MASK = 4 * drop_bit 22 VMM_PAGE_DIR AND PAGE_FLAG_MASK"
        using frame_flags(3) [of pd "4 * drop_bit 22 y"] frame_flags(3) [of pd "4 * drop_bit 22 VMM_PAGE_DIR"] f(1)
        unfolding pde_pa_frame [OF f(1)] by metis
      moreover have "4 * drop_bit 22 VMM_PAGE_DIR AND PAGE_FLAG_MASK = 0xFFC" "vmm_dir_idx VMM_PAGE_DIR = 1023"
        by (simp_all add: VMM_PAGE_DIR_def PAGE_FLAG_MASK_def vmm_dir_idx_def)
      ultimately show ?thesis unfolding pde_pa_eq by simp
    qed
    ultimately show ?thesis using dir [of "4 * drop_bit 22 y"] by (simp add: pde_pa_frame [OF f(1)])
  qed
  then have "phys s2 (pde_pa pd VMM_PAGE_DIR) = vmm_page_val pd (PAGE_PRESENT OR PAGE_WRITE)"
    "\<And>y. vmm_dir_idx y \<noteq> 1023 \<Longrightarrow> phys s2 (pde_pa pd y) = 0" by (simp_all add: vmm_dir_idx_def VMM_PAGE_DIR_def)
  ultimately show "cloning s pd 0 s2" using w(4) unfolding cloning_def by (simp add: s2)
  show "pmm_entries s2 = pmm_entries s1" by (simp add: s2 pmm_entries_def)
qed

lemma clone_pd_effect:
  assumes ok: "space_ok s" and free: "exdir_sem s = 0"
    and present: "\<forall>y. vmm_dir_idx y < 768 \<longrightarrow> hw_pde s y \<noteq> 0 \<longrightarrow> mapped_dir s y"
  shows "vmm_clone_pd s = Inl Panic \<and> pmm_entries s \<le> table_count s 0 \<or>
    (\<exists>pd t. vmm_clone_pd s = Inr (pd, t) \<and> pd \<in> set (avail s) \<and> cloned s pd t \<and> pmm_ok t \<and> temp_sem t = 0 \<and> exdir_sem t = 0)"
proof -
  have tabs: "user_tables = map of_nat [0..<768]" "kernel_tables = map of_nat [768..<1022]"
    by (simp_all add: user_tables_def kernel_tables_def KERNEL_OFFSET_def VMM_PAGES_PER_TABLE_def vmm_dir_idx_def)
  consider "vmm_new_pd s = Inl Panic" "pmm_entries s = 0"
    | pd s1 where "vmm_new_pd s = Inr (pd, s1)" "pmm_entries s \<le> Suc (pmm_entries s1)" "pd \<in> set (avail s)"
      "keeps_space {pd} s s1" "mset (avail s) = add_mset pd (mset (avail s1))" "space_ok s1" "exdir_sem s1 = 0"
      "\<And>i. phys s1 (pd OR (i AND PAGE_FLAG_MASK)) = (if i AND PAGE_FLAG_MASK = 0xFFC then vmm_page_val pd (PAGE_PRESENT OR PAGE_WRITE) else 0)"
    using new_pd_keeps [OF ok] free by auto
  then show ?thesis
  proof cases
    case 1
    then show ?thesis by (simp add: vmm_clone_pd_def)
  next
    case 2
    define s2 where "s2 = s1\<lparr>exdir_sem := 1, phys := (phys s1)(pde_pa (cr3 s1) VMM_EXPAGE_DIR := pd OR PAGE_PRESENT OR PAGE_WRITE)\<rparr>"
    note st = cloning_start [OF ok 2(3,6,4,5,8) s2_def]
    have fpd: "frame pd = pd" "pd \<noteq> 0" using space_okD(5,6) [OF ok 2(3)] by auto
    have l: "lock_exdir s1 = Inr (s1\<lparr>exdir_sem := 1\<rparr>)" using 2(7) by (simp add: lock_exdir_def)
    have "pmm_ok (s1\<lparr>exdir_sem := 1\<rparr>)" using space_okD(1) [OF 2(6)] by simp
    from exdir_set_run [OF this fpd(1)] have x: "vmm_exdir_set pd (s1\<lparr>exdir_sem := 1\<rparr>) = Inr (hw_pde s1 VMM_EXPAGE_DIR AND PAGE_MASK, s2)"
      using fpd(2) by (simp add: s2_def)
    define old where "old = hw_pde s1 VMM_EXPAGE_DIR AND PAGE_MASK"
    note run = 2(1) l x [folded old_def]
    consider "for_in clone_user_table user_tables s2 = Inl Panic" "pmm_entries s2 < table_count s 0"
      | u where "for_in clone_user_table user_tables s2 = Inr u" "cloning s pd 768 u"
      using clone_user_loop [OF ok 2(3) present _ st(1)] unfolding tabs by auto
    then show ?thesis
    proof cases
      case A: 1
      then show ?thesis using run 2(2) st(2) by (simp add: vmm_clone_pd_def)
    next
      case B: 2
      obtain v where v: "for_in share_kernel_table kernel_tables u = Inr v" "cloning s pd 1022 v"
        using share_loop [OF ok 2(3) _ _ B(2)] unfolding tabs by auto
      note d = cloningD [OF v(2)]
      note ov = space_okD [OF d(1)]
      have "frame old = old" by (simp add: old_def frame_def and.assoc)
      from exdir_set_run [OF ov(1) this] obtain e w where w: "vmm_exdir_set old v = Inr (e, w)"
        "\<exists>z. w = v\<lparr>phys := (phys v)(pde_pa (cr3 v) VMM_EXPAGE_DIR := z)\<rparr>" by blast
      then obtain z where z: "w = v\<lparr>phys := (phys v)(pde_pa (cr3 v) VMM_EXPAGE_DIR := z)\<rparr>" by blast
      note k = exslot_write [OF ov(1) z]
      have "copied s pd (w\<lparr>exdir_sem := 0\<rparr>)"
        using copied_closed [OF cloning_copied [OF v(2)] ok 2(3), of "w\<lparr>exdir_sem := 0\<rparr>"] k(2,3) by simp
      then have "cloned s pd (w\<lparr>exdir_sem := 0\<rparr>)" by (rule copied_cloned [OF _ ok 2(3)])
      moreover have "vmm_clone_pd s = Inr (pd, w\<lparr>exdir_sem := 0\<rparr>)" using run B(1) v(1) w(1) by (simp add: vmm_clone_pd_def)
      moreover have "temp_sem w = 0" using ov(3) by (simp add: z)
      ultimately show ?thesis using 2(3) k(1) by auto
    qed
  qed
qed

text \<open>C4. \<open>vmm_clone_pd\<close>, the address space that \<open>fork\<close> gives the child: with more entries on the page stack than the parent has
  user tables it succeeds. Then every user address has, in the child's directory as in the parent's, the page table entry it had before, through page tables
  of the child's own in pages that were free; the kernel's entries are the parent's; the child's directory has the recursive slot and no table twice; no
  frame in use is written; and the managers' locks are free again.\<close>

theorem clone_pd_same_view:
  assumes ok: "space_ok s" and free: "exdir_sem s = 0"
    and present: "\<forall>y. vmm_dir_idx y < 768 \<longrightarrow> hw_pde s y \<noteq> 0 \<longrightarrow> mapped_dir s y"
  shows "vmm_clone_pd s = Inl Panic \<and> pmm_entries s \<le> table_count s 0 \<or>
    (\<exists>pd t. vmm_clone_pd s = Inr (pd, t) \<and> pd \<in> set (avail s) \<and> cloned s pd t \<and> pmm_ok t \<and> temp_sem t = 0 \<and> exdir_sem t = 0)"
  by (rule clone_pd_effect [OF assms])

text \<open>On the concrete machine: the page at \<open>0x1000\<close> is found at its frame through the child's directory too.\<close>

lemma demo_space_ok: "space_ok demo_vm"
proof -
  have "vmm_dir_idx VMM_TEMP1 = 0x3FD" by (simp add: vmm_dir_idx_def VMM_TEMP1_def)
  then show ?thesis
    by (simp add: space_ok_def demo_pmm_ok demo_mapped demo_avail demo_frames demo_no_table) (simp add: demo_vm_def)
qed

lemma demo_present: "vmm_dir_idx y < 768 \<Longrightarrow> hw_pde demo_vm y \<noteq> 0 \<Longrightarrow> mapped_dir demo_vm y"
  by (auto simp: demo_pde demo_mapped split: if_splits)

lemma demo_table_count: "table_count demo_vm 0 = 1"
proof -
  have "user_slot demo_vm n \<longleftrightarrow> n = 0" if "n < 768" for n
    using that slot_address [of n] word_unat_eq_iff [of "of_nat n :: u32" 0]
    by (auto simp: user_slot_def demo_mapped word_unat_eq_iff)
  then have "filter (user_slot demo_vm) [0..<768] = filter (\<lambda>n. n = 0) [0..<768]" by (intro filter_cong) auto
  also have "\<dots> = [0]" by (simp add: upt_conv_Cons [of 0 768] filter_empty_conv)
  finally show ?thesis by (simp add: table_count_def)
qed

theorem clone_pd_same_view_witness: "\<exists>pd t. vmm_clone_pd demo_vm = Inr (pd, t) \<and> mmu_translate (space_of pd t) 0x1234 = Some 0x9234"
proof -
  have free: "exdir_sem demo_vm = 0" by (simp add: demo_vm_def)
  have present: "\<forall>y. vmm_dir_idx y < 768 \<longrightarrow> hw_pde demo_vm y \<noteq> 0 \<longrightarrow> mapped_dir demo_vm y" using demo_present by blast
  have x: "(0x1234 :: u32) < KERNEL_OFFSET" by (simp add: KERNEL_OFFSET_def)
  have "mmu_translate demo_vm 0x1234 = Some 0x9234"
    by (simp add: mmu_translate_def hw_pte_def demo_pde vmm_dir_idx_def pte_pa_def PAGE_MASK_def PAGE_PRESENT_def PAGE_FLAG_MASK_def Let_def)
      (simp add: demo_vm_def demo_phys_def)
  then show ?thesis using clone_pd_same_view [OF demo_space_ok free present] x demo_table_count demo_counts(2) by (auto simp: cloned_def mmu_translate_def)
qed

end
