(* ===== verification/WriteProtect.thy ===== *)
theory WriteProtect imports CloneSpace AreaProps begin

text \<open>
  The loop of \<open>share_area\<close> that takes the right to write away: it works on the current address space through the window
  for a second one, page by page.
\<close>

section \<open>The window on the current directory\<close>

lemma ex_table_window_idx:
  "drop_bit 22 (VMM_EXPAGE_TABLES + 4 * vmm_table_idx y) = drop_bit 22 VMM_EXPAGE_DIR"
  "drop_bit 12 (VMM_EXPAGE_TABLES + 4 * vmm_table_idx y) AND 0x3FF = drop_bit 22 y"
  "(VMM_EXPAGE_TABLES + 4 * vmm_table_idx y) AND PAGE_FLAG_MASK = 4 * (drop_bit 12 y AND 0x3FF)"
proof -
  have e: "VMM_EXPAGE_TABLES = push_bit 23 (mask 9)" by (simp add: VMM_EXPAGE_TABLES_def mask_eq_exp_minus_1 push_bit_eq_mult)
  have b: "bit VMM_EXPAGE_TABLES n \<longleftrightarrow> 23 \<le> n \<and> n < 32" for n unfolding e by (auto simp: bit_simps)
  have w: "VMM_EXPAGE_TABLES + 4 * vmm_table_idx y = VMM_EXPAGE_TABLES OR push_bit 2 (drop_bit 12 y)"
    unfolding four_times vmm_table_idx_def by (rule disjunctive_add) (auto simp: bit_simps b dest: word_bit_less)
  show "drop_bit 22 (VMM_EXPAGE_TABLES + 4 * vmm_table_idx y) = drop_bit 22 VMM_EXPAGE_DIR"
    unfolding w by (rule bit_word_eqI) (force simp: bit_simps b VMM_EXPAGE_DIR_bits dest: word_bit_less)
  show "drop_bit 12 (VMM_EXPAGE_TABLES + 4 * vmm_table_idx y) AND 0x3FF = drop_bit 22 y"
    "(VMM_EXPAGE_TABLES + 4 * vmm_table_idx y) AND PAGE_FLAG_MASK = 4 * (drop_bit 12 y AND 0x3FF)"
    unfolding w by (rule bit_word_eqI, force simp: bit_simps bitw b dest: word_bit_less)+
qed

definition own_window :: "vm \<Rightarrow> bool" where
  "own_window m \<longleftrightarrow> rec_slot m \<and> frame (cr3 m) = cr3 m \<and> hw_pde m VMM_EXPAGE_DIR = cr3 m OR PAGE_PRESENT OR PAGE_WRITE"

lemma own_window_slot:
  assumes "own_window m"
  shows "frame (hw_pde m VMM_EXPAGE_DIR) = cr3 m" "hw_pde m VMM_EXPAGE_DIR AND PAGE_PRESENT \<noteq> 0"
proof -
  have e: "hw_pde m VMM_EXPAGE_DIR = cr3 m OR PAGE_PRESENT OR PAGE_WRITE" "frame (cr3 m) = cr3 m" using assms by (auto simp: own_window_def)
  have "frame (cr3 m OR PAGE_PRESENT OR PAGE_WRITE) = frame (cr3 m)" unfolding frame_def by (rule bit_word_eqI) (auto simp: bit_simps bitw)
  then show "frame (hw_pde m VMM_EXPAGE_DIR) = cr3 m" using e by simp
  show "hw_pde m VMM_EXPAGE_DIR AND PAGE_PRESENT \<noteq> 0" unfolding e by (simp add: and_1_bit bit_simps bitw)
qed

lemma own_dir_window:
  assumes w: "own_window m"
  shows "mmu_translate m (VMM_EXPAGE_DIR + 4 * vmm_dir_idx y) = Some (pde_pa (cr3 m) y)"
proof -
  let ?x = "VMM_EXPAGE_DIR + 4 * vmm_dir_idx y"
  note s = own_window_slot [OF w]
  have r: "rec_slot m" "frame (cr3 m) = cr3 m" using w by (auto simp: own_window_def)
  have d: "hw_pde m ?x = hw_pde m VMM_EXPAGE_DIR" by (rule hw_pde_cong [OF exdir_window_idx(1)])
  have "pte_pa (hw_pde m VMM_EXPAGE_DIR) ?x = pde_pa (cr3 m) VMM_PAGE_DIR"
    using s(1) r(2) by (simp add: pte_pa_def pde_pa_def exdir_window_idx(2) frame_def)
  then have "hw_pte m ?x = Some (hw_pde m VMM_PAGE_DIR)"
    using s(2) r(1) unfolding hw_pte_def d by (simp add: rec_slot_def Let_def) (simp add: hw_pde_def)
  then show ?thesis using r exdir_window_idx(3) [of y] by (simp add: mmu_translate_def pde_pa_def rec_slot_def)
qed

lemma own_table_window:
  assumes w: "own_window m"
  shows "mmu_translate m (VMM_EXPAGE_TABLES + 4 * vmm_table_idx y) = (if mapped_dir m y then Some (pte_pa (hw_pde m y) y) else None)"
proof -
  let ?x = "VMM_EXPAGE_TABLES + 4 * vmm_table_idx y"
  note s = own_window_slot [OF w]
  have r: "frame (cr3 m) = cr3 m" using w by (auto simp: own_window_def)
  have d: "hw_pde m ?x = hw_pde m VMM_EXPAGE_DIR" by (simp add: hw_pde_def pde_pa_def ex_table_window_idx(1))
  have "pte_pa (hw_pde m VMM_EXPAGE_DIR) ?x = pde_pa (cr3 m) y"
    using s(1) r by (simp add: pte_pa_def pde_pa_def ex_table_window_idx(2) frame_def)
  then have "hw_pte m ?x = (if mapped_dir m y then Some (hw_pde m y) else None)"
    using s(2) unfolding hw_pte_def d by (simp add: Let_def mapped_dir_def) (simp add: hw_pde_def)
  then show ?thesis using ex_table_window_idx(3) [of y] by (simp add: mmu_translate_def pte_pa_def)
qed

lemma expage_get_own:
  assumes w: "own_window m"
  shows "vmm_expage_get y m = Inr (case hw_pte m y of None \<Rightarrow> 0 | Some e \<Rightarrow> e)"
proof -
  have r: "rec_slot m" using w by (simp add: own_window_def)
  have "hw_pde m VMM_EXPAGE_DIR \<noteq> 0" using own_window_slot(2) [OF w] by auto
  moreover have "expage_directory_get (vmm_dir_idx (y AND PAGE_MASK)) m = Inr (hw_pde m y)"
    using own_dir_window [OF w, of y] by (simp add: expage_directory_get_def vload_def hw_pde_def)
  moreover have "expage_tables_get (vmm_table_idx (y AND PAGE_MASK)) m = Inr (phys m (pte_pa (hw_pde m y) y))" if "mapped_dir m y"
    using own_table_window [OF w, of y] that by (simp add: expage_tables_get_def vload_def)
  ultimately show ?thesis
    using page_directory_get_rec [OF r, of VMM_EXPAGE_DIR] by (auto simp: vmm_expage_get_def Let_def hw_pte_def mapped_dir_def)
qed

lemma expage_set_own:
  assumes w: "own_window m" and y: "mapped_dir m y"
  shows "vmm_expage_set y v m = Inr (set_pte m y v)"
proof -
  have r: "rec_slot m" using w by (simp add: own_window_def)
  have "hw_pde m VMM_EXPAGE_DIR \<noteq> 0" using own_window_slot(2) [OF w] by auto
  moreover have "expage_directory_get (vmm_dir_idx (y AND PAGE_MASK)) m = Inr (hw_pde m y)"
    using own_dir_window [OF w, of y] by (simp add: expage_directory_get_def vload_def hw_pde_def)
  moreover have "expage_tables_set (vmm_table_idx (y AND PAGE_MASK)) v m = Inr (set_pte m y v)"
    using own_table_window [OF w, of y] y by (simp add: expage_tables_set_def vstore_def set_pte_def)
  ultimately show ?thesis
    using page_directory_get_rec [OF r, of VMM_EXPAGE_DIR] y
    by (simp add: vmm_expage_set_def vmm_expage_touch_def Let_def page_mask_idem mapped_dir_def)
qed

section \<open>Protected pages\<close>

text \<open>From \<open>m\<close> to \<open>t\<close> the pages of \<open>A\<close> lose the right to be written, and nothing else changes for a process.\<close>

definition protected :: "u32 set \<Rightarrow> vm \<Rightarrow> vm \<Rightarrow> bool" where
  "protected A m t \<longleftrightarrow> pmm_ok t \<and> avail t = avail m \<and> cr3 t = cr3 m \<and> (\<forall>y. vmm_dir_idx y \<noteq> 1022 \<longrightarrow> hw_pde t y = hw_pde m y) \<and>
     (\<forall>y<KERNEL_OFFSET. hw_pte t y = (if y \<in> A then map_option (\<lambda>e. e AND NOT PAGE_WRITE) (hw_pte m y) else hw_pte m y)) \<and>
     (\<forall>a. no_table m (frame a) \<longrightarrow> phys t a = phys m a) \<and> temp_sem t = temp_sem m \<and> exdir_sem t = exdir_sem m \<and> pmm_entries t = pmm_entries m"

lemma protectedD:
  assumes "protected A m t"
  shows "pmm_ok t" "avail t = avail m" "cr3 t = cr3 m" "vmm_dir_idx y \<noteq> 1022 \<Longrightarrow> hw_pde t y = hw_pde m y"
    "y < KERNEL_OFFSET \<Longrightarrow> hw_pte t y = (if y \<in> A then map_option (\<lambda>e. e AND NOT PAGE_WRITE) (hw_pte m y) else hw_pte m y)"
    "no_table m (frame a) \<Longrightarrow> phys t a = phys m a" "temp_sem t = temp_sem m" "exdir_sem t = exdir_sem m" "pmm_entries t = pmm_entries m"
  using assms by (auto simp: protected_def)

lemma protected_refl: "pmm_ok m \<Longrightarrow> protected {} m m"
  by (simp add: protected_def)

lemma protected_dirs:
  assumes "protected A m t"
  shows "vmm_dir_idx y \<noteq> 1022 \<Longrightarrow> mapped_dir t y = mapped_dir m y" "no_table t = no_table m"
proof -
  note d = protectedD(3,4) [OF assms]
  show m: "mapped_dir t y = mapped_dir m y" if "vmm_dir_idx y \<noteq> 1022" for y using that d(2) by (simp add: mapped_dir_def)
  have f: "table_frame t y = table_frame m y" if "vmm_dir_idx y \<noteq> 1022" for y using that d(2) by (simp add: table_frame_def)
  have "vmm_dir_idx y \<noteq> 1022" if "vmm_dir_idx y < 1022" for y using that by auto
  then show "no_table t = no_table m" using m f d(1) unfolding no_table_def fun_eq_iff by metis
qed

lemma protected_trans:
  assumes "protected A m t" "protected B t u" shows "protected (A \<union> B) m u"
proof -
  have "hw_pte u y = (if y \<in> A \<union> B then map_option (\<lambda>e. e AND NOT PAGE_WRITE) (hw_pte m y) else hw_pte m y)" if "y < KERNEL_OFFSET" for y
    using protectedD(5) [OF assms(1) that] protectedD(5) [OF assms(2) that]
    by (cases "hw_pte m y") (auto simp: and.assoc)
  then show ?thesis using protectedD [OF assms(1)] protectedD [OF assms(2)] protected_dirs(2) [OF assms(1)]
    unfolding protected_def by simp
qed

lemma protected_locks [simp]: "protected A m (t\<lparr>exdir_sem := exdir_sem t\<rparr>) = protected A m t" by simp

lemma protect_page:
  assumes ok: "pmm_ok m" and w: "own_window m" and y: "y < KERNEL_OFFSET" "mapped_dir m y"
  obtains t where "andthen (vmm_expage_get y m) (\<lambda>pt. vmm_expage_set y (pt AND NOT PAGE_WRITE) m) = Inr t"
    "protected {z. vmm_table_idx z = vmm_table_idx y} m t" "own_window t"
proof
  define v where "v = (case hw_pte m y of None \<Rightarrow> 0 | Some e \<Rightarrow> e) AND NOT PAGE_WRITE"
  let ?t = "set_pte m y v"
  have l: "vmm_dir_idx y < 1022" "vmm_dir_idx y \<noteq> vmm_dir_idx PMM_PAGE_STACK" using user_dir [OF y(1)] by (auto simp: dir_idx_stack word_less_nat_alt)
  show "andthen (vmm_expage_get y m) (\<lambda>pt. vmm_expage_set y (pt AND NOT PAGE_WRITE) m) = Inr ?t"
    by (simp add: expage_get_own [OF w] expage_set_own [OF w y(2)] v_def)
  have k: "pmm_ok ?t" "avail ?t = avail m" "\<And>z. hw_pde ?t z = hw_pde m z" "\<And>a. no_table m (frame a) \<Longrightarrow> phys ?t a = phys m a"
    using set_pte_keeps_space [OF ok l y(2) refl] by blast+
  have "hw_pte ?t z = (if vmm_table_idx z = vmm_table_idx y then map_option (\<lambda>e. e AND NOT PAGE_WRITE) (hw_pte m z) else hw_pte m z)"
    if z: "z < KERNEL_OFFSET" for z
  proof (cases "vmm_table_idx z = vmm_table_idx y")
    case True
    have "hw_pte ?t y = map_option (\<lambda>e. e AND NOT PAGE_WRITE) (hw_pte m y)"
    proof (cases "hw_pte m y")
      case None
      then show ?thesis using set_pte_effect(3) [OF stack_ok_facts(1) [OF pmm_okD [OF ok]] l(1) y(2), of v] by (simp add: v_def)
    next
      case (Some e)
      have "e AND NOT PAGE_WRITE AND PAGE_PRESENT = e AND PAGE_PRESENT" by (rule bit_word_eqI) (auto simp: bit_simps bitw)
      then show ?thesis using Some pte_mapped(2) [OF Some] set_pte_effect(3) [OF stack_ok_facts(1) [OF pmm_okD [OF ok]] l(1) y(2), of v]
        by (simp add: v_def and.assoc)
    qed
    then show ?thesis using True hw_pte_cong [OF True] by simp
  next
    case False
    have "vmm_dir_idx z < 1022" using user_dir [OF z] by (auto simp: word_less_nat_alt)
    then show ?thesis using False set_pte_keeps_space(3) [OF ok l y(2) refl] by simp
  qed
  then show "protected {z. vmm_table_idx z = vmm_table_idx y} m ?t"
    using k unfolding protected_def by (simp add: pmm_entries_def) (simp add: set_pte_def)
  show "own_window ?t" using w k(3) by (simp add: own_window_def rec_slot_def)
qed

lemma aligned_mod: "i AND PAGE_MASK = i \<longleftrightarrow> unat (i :: u32) mod 4096 = 0"
proof -
  have "i AND PAGE_MASK = i \<longleftrightarrow> i AND PAGE_FLAG_MASK = 0"
  proof
    assume "i AND PAGE_MASK = i"
    then have "frame i = i" by (simp add: frame_def)
    then show "i AND PAGE_FLAG_MASK = 0" using frame_flags(1) [of i] by simp
  next
    assume "i AND PAGE_FLAG_MASK = 0"
    then show "i AND PAGE_MASK = i" using page_split [of i] by simp
  qed
  also have "\<dots> \<longleftrightarrow> take_bit 12 i = 0" by (simp add: PAGE_FLAG_MASK_mask take_bit_eq_mask)
  also have "\<dots> \<longleftrightarrow> unat (take_bit 12 i) = 0" by (simp add: unat_eq_0)
  also have "\<dots> \<longleftrightarrow> unat i mod 4096 = 0" by (simp add: take_bit_eq_mod unat_mod)
  finally show ?thesis .
qed

lemma page_range:
  assumes "i AND PAGE_MASK = i" "unat i + 4096 < 4294967296"
  shows "vmm_table_idx z = vmm_table_idx i \<longleftrightarrow> i \<le> z \<and> z < i + PAGE_SIZE" "unat (i + PAGE_SIZE) = unat i + 4096"
    "(i + PAGE_SIZE) AND PAGE_MASK = i + PAGE_SIZE"
proof -
  show n: "unat (i + PAGE_SIZE) = unat i + 4096" using next_page [of i i] assms(2) by simp
  have d: "unat (vmm_table_idx x) = unat x div 4096" for x by (simp only: vmm_table_idx_def unat_drop_bit_eq) (simp add: drop_bit_eq_div)
  have "vmm_table_idx z = vmm_table_idx i \<longleftrightarrow> unat z div 4096 = unat i div 4096" by (simp add: word_unat_eq_iff d)
  also have "\<dots> \<longleftrightarrow> unat i \<le> unat z \<and> unat z < unat i + 4096"
  proof -
    obtain k where "unat i = 4096 * k" using assms(1) unfolding aligned_mod by auto
    then show ?thesis by auto
  qed
  finally show "vmm_table_idx z = vmm_table_idx i \<longleftrightarrow> i \<le> z \<and> z < i + PAGE_SIZE" using n by (simp add: word_le_nat_alt word_less_nat_alt)
  show "(i + PAGE_SIZE) AND PAGE_MASK = i + PAGE_SIZE" using assms(1) n unfolding aligned_mod by simp
qed

lemma write_protect_range:
  assumes en: "en AND PAGE_MASK = en" "en \<le> KERNEL_OFFSET"
  shows "pmm_ok m \<Longrightarrow> own_window m \<Longrightarrow> i AND PAGE_MASK = i \<Longrightarrow> i \<le> en \<Longrightarrow> \<forall>y. i \<le> y \<and> y < en \<longrightarrow> mapped_dir m y \<Longrightarrow>
    \<exists>t. write_protect i en m = Some (Inr t) \<and> protected {i..<en} m t \<and> own_window t"
proof (induction "unat en - unat i" arbitrary: i m rule: less_induct)
  case less
  show ?case
  proof (cases "i < en")
    case False
    then show ?thesis using less.prems by (subst write_protect.simps) (simp add: protected_refl)
  next
    case True
    have k: "unat en \<le> 3221225472" using en(2) by (simp add: word_le_nat_alt KERNEL_OFFSET_def)
    have i: "unat i < unat en" using True by (simp add: word_less_nat_alt)
    then have r: "unat i + 4096 < 4294967296" using k by simp
    note pr = page_range [OF less.prems(3) r]
    have ik: "i < KERNEL_OFFSET" using True en(2) by simp
    have step: "unat i + 4096 \<le> unat en"
    proof -
      obtain a b where "unat i = 4096 * a" "unat en = 4096 * b" using less.prems(3) en(1) unfolding aligned_mod by (auto elim!: dvdE)
      then show ?thesis using i by simp
    qed
    have "mapped_dir m i" using less.prems(5) True by simp
    then obtain t where t: "andthen (vmm_expage_get i m) (\<lambda>pt. vmm_expage_set i (pt AND NOT PAGE_WRITE) m) = Inr t"
      "protected {z. vmm_table_idx z = vmm_table_idx i} m t" "own_window t"
      by (rule protect_page [OF less.prems(1,2) ik])
    have rest: "i + PAGE_SIZE \<le> en" using step pr(2) by (simp add: word_le_nat_alt)
    have "mapped_dir t y" if "i + PAGE_SIZE \<le> y" "y < en" for y
    proof -
      have "y < KERNEL_OFFSET" using that(2) en(2) by simp
      then have "vmm_dir_idx y \<noteq> 1022" using user_dir [of y] by (auto simp: word_less_nat_alt)
      moreover have "i \<le> y" using that(1) pr(2) by (simp add: word_le_nat_alt)
      ultimately show ?thesis using protected_dirs(1) [OF t(2)] less.prems(5) that(2) by simp
    qed
    moreover have "unat en - unat (i + PAGE_SIZE) < unat en - unat i" using i pr(2) by linarith
    ultimately obtain u where u: "write_protect (i + PAGE_SIZE) en t = Some (Inr u)" "protected {i + PAGE_SIZE..<en} t u" "own_window u"
      using less.hyps [of "i + PAGE_SIZE" t, OF _ protectedD(1) [OF t(2)] t(3) pr(3) rest] by blast
    have "{z. vmm_table_idx z = vmm_table_idx i} \<union> {i + PAGE_SIZE..<en} = {i..<en}"
      unfolding pr(1) using rest pr(2) by (auto simp: word_le_nat_alt word_less_nat_alt)
    then have "protected {i..<en} m u" using protected_trans [OF t(2) u(2)] by simp
    then show ?thesis using True t(1) u(1,3) by (subst write_protect.simps) (simp add: andthen_def split: sum.splits)
  qed
qed

end
