(* ===== verification/ForkAreas.thy ===== *)
theory ForkAreas imports WriteProtect begin

text \<open>
  The memory areas of a forked process (\<open>procmm_fork\<close>, \<open>share_area\<close>): the child gets every area of the parent that may be shared, and
  both lose the right to write until the next page fault.
\<close>

section \<open>The parent's pages\<close>

lemma exslot_protected:
  assumes ok: "pmm_ok s" and t: "t = s\<lparr>phys := (phys s)(pde_pa (cr3 s) VMM_EXPAGE_DIR := w)\<rparr>"
  shows "protected {} s t"
proof -
  note k = exslot_write [OF ok t]
  have "hw_pte t y = hw_pte s y" if "y < KERNEL_OFFSET" for y
  proof -
    have "vmm_dir_idx y < 1022" "vmm_dir_idx y \<noteq> vmm_dir_idx PMM_PAGE_STACK" using user_dir [OF that] by (auto simp: dir_idx_stack word_less_nat_alt)
    then show ?thesis by (rule keeps_spaceD(4) [OF k(3)])
  qed
  then show ?thesis using k(1,2) keeps_spaceD(2,3,5) [OF k(3)] unfolding protected_def by (simp add: t pmm_entries_def)
qed

text \<open>Process \<open>p\<close> is the running one, and nobody holds the lock of its directory.\<close>

definition running_pd :: "nat \<Rightarrow> mms \<Rightarrow> bool" where
  "running_pd p s \<longleftrightarrow> pmm_ok (mvm s) \<and> (\<exists>v. pmm s p = Some v \<and> pd v = cr3 (mvm s) \<and> pd_sem v = 0) \<and>
     frame (cr3 (mvm s)) = cr3 (mvm s) \<and> cr3 (mvm s) \<noteq> 0"

lemma with_own_pd:
  assumes r: "running_pd p s"
    and body: "\<And>m. pmm_ok m \<Longrightarrow> own_window m \<Longrightarrow> (\<forall>y. vmm_dir_idx y \<noteq> 1022 \<longrightarrow> mapped_dir m y = mapped_dir (mvm s) y) \<Longrightarrow>
      \<exists>t. body m = Inr t \<and> protected A m t"
  shows "\<exists>t. with_pd p body s = Inr (s\<lparr>mvm := t\<rparr>) \<and> protected A (mvm s) t"
proof -
  obtain v where v: "pmm s p = Some v" "pd v = cr3 (mvm s)" "pd_sem v = 0" and ok: "pmm_ok (mvm s)"
    and f: "frame (cr3 (mvm s)) = cr3 (mvm s)" "cr3 (mvm s) \<noteq> 0" using r by (auto simp: running_pd_def)
  define m where "m = (mvm s)\<lparr>phys := (phys (mvm s))(pde_pa (cr3 (mvm s)) VMM_EXPAGE_DIR := cr3 (mvm s) OR PAGE_PRESENT OR PAGE_WRITE)\<rparr>"
  note k = exslot_write [OF ok m_def] and p0 = exslot_protected [OF ok m_def]
  have x: "vmm_exdir_set (pd v) (mvm s) = Inr (hw_pde (mvm s) VMM_EXPAGE_DIR AND PAGE_MASK, m)"
    using exdir_set_run [OF ok f(1)] f(2) v(2) by (simp add: m_def)
  have cr: "cr3 m = cr3 (mvm s)" by (simp add: m_def)
  have "own_window m" using k(4) f(1) stack_ok_facts(2) [OF pmm_okD [OF k(1)]] by (simp add: own_window_def cr)
  then obtain t where t: "body m = Inr t" "protected A m t" using body [OF k(1)] protected_dirs(1) [OF p0] by blast
  obtain z where z: "vmm_exdir_set (hw_pde (mvm s) VMM_EXPAGE_DIR AND PAGE_MASK) t
      = Inr (z, t\<lparr>phys := (phys t)(pde_pa (cr3 t) VMM_EXPAGE_DIR := (if hw_pde (mvm s) VMM_EXPAGE_DIR AND PAGE_MASK \<noteq> 0
          then (hw_pde (mvm s) VMM_EXPAGE_DIR AND PAGE_MASK) OR PAGE_PRESENT OR PAGE_WRITE else 0))\<rparr>)"
    using exdir_set_run [OF protectedD(1) [OF t(2)], of "hw_pde (mvm s) VMM_EXPAGE_DIR AND PAGE_MASK"]
    by (simp add: frame_def and.assoc)
  define u where "u = t\<lparr>phys := (phys t)(pde_pa (cr3 t) VMM_EXPAGE_DIR := (if hw_pde (mvm s) VMM_EXPAGE_DIR AND PAGE_MASK \<noteq> 0
          then (hw_pde (mvm s) VMM_EXPAGE_DIR AND PAGE_MASK) OR PAGE_PRESENT OR PAGE_WRITE else 0))\<rparr>"
  have "protected ({} \<union> A \<union> {}) (mvm s) u"
    by (rule protected_trans [OF protected_trans [OF p0 t(2)] exslot_protected [OF protectedD(1) [OF t(2)] u_def]])
  moreover have "with_pd p body s = Inr (s\<lparr>mvm := u\<rparr>)"
  proof -
    have "(pmm s)(p \<mapsto> v\<lparr>pd_sem := 0\<rparr>) = pmm s" using v(1,3) by (auto simp: fun_eq_iff)
    then show ?thesis using v x t(1) z [folded u_def]
      by (simp add: with_pd_def lock_pd_def pmm_of_def unlock_pd_def upd_pmm_def)
  qed
  ultimately show ?thesis by auto
qed

section \<open>The child's area\<close>

lemma new_cow_area:
  assumes m: "mm_view P s L" and p: "p \<in> P" and fit: "st AND PAGE_MASK = st" "page_up en = en" "st \<le> en" "unat en + 4096 < 4294967296"
    and sem: "procmm_sem s = 0" and free: "\<And>x. st \<le> x \<Longrightarrow> x \<le> en \<Longrightarrow> area_at s (L p) x = None" and cow: "fl AND MM_FLAG_COW \<noteq> 0"
  obtains us vs s' where "L p = us @ vs" "new_area p st en fl ty s = Inr (next_area s, s')" "mm_view P s' (L(p := us @ next_area s # vs))"
    "areas s' = (areas s)(next_area s \<mapsto> \<lparr>a_start = st, a_end = en, a_flags = fl, a_type = ty, owner = p\<rparr>)"
    "mvm s' = mvm s" "pmm s' = pmm s" "procmm_sem s' = 0" "copies s' = init_list (copies s) (next_area s)"
    "\<And>q x. q \<in> P \<Longrightarrow> perms s' ((L(p := us @ next_area s # vs)) q) x = (if q = p \<and> st \<le> x \<and> x < en then Some (fl, ty) else perms s (L q) x)"
proof -
  let ?v = "\<lparr>a_start = st, a_end = en, a_flags = fl, a_type = ty, owner = p\<rparr>" and ?n = "next_area s"
  obtain s1 where al: "alloc_area st en fl ty p s = (?n, s1)" by (simp add: alloc_area_def Let_def)
  note v1 = alloc_area_view [OF m al]
  have s1: "areas s1 = (areas s)(?n \<mapsto> ?v)" "copies s1 = init_list (copies s) ?n"
    using al by (auto simp: alloc_area_def Let_def put_area_def)
  let ?s2 = "s1\<lparr>procmm_sem := 1\<rparr>"
  obtain us vs where l: "L p = us @ vs"
    and y: "insert_point p en (map (\<lambda>a. (a, the (areas ?s2 a))) (L p)) = hd (map Mem vs @ [MemHead p])"
    using insert_point_split [of "L p" p en "\<lambda>a. the (areas ?s2 a)"] by (elim exE conjE)
  let ?y = "insert_point p en (map (\<lambda>a. (a, the (areas ?s2 a))) (L p))"
  let ?s3 = "?s2\<lparr>mem := list_insert_to_left (mem ?s2) ?y (Mem ?n)\<rparr>" and ?L = "L(p := us @ ?n # vs)"
  let ?s4 = "?s3\<lparr>procmm_sem := 0\<rparr>"
  have m2: "mm_view P ?s2 L" using v1 by simp
  have fr: "in_area ?v x \<Longrightarrow> area_at ?s2 (L p) x = None" for x
  proof -
    assume "in_area ?v x"
    then have "area_at s (L p) x = None" by (intro free) (auto simp: in_area_def)
    moreover have "area_at ?s2 (L p) x = area_at s (L p) x" unfolding area_at_def by (rule find_cong) (use v1 p in auto)
    ultimately show ?thesis by simp
  qed
  have ins: "mm_view P ?s3 ?L \<and> (\<forall>q\<in>P. \<forall>x. perms ?s3 (?L q) x = (if q = p \<and> in_area ?v x then Some (fl, ty) else perms ?s2 (L q) x))"
    using insert_area_view [OF m2 p _ _ _ _ fr l y] v1 fit(3) by simp
  have "returns (check_collision p st en s) = Inr ()" by (simp add: check_collision_free [OF m p fit(4) free] returns_def)
  moreover have "lock_procmm s1 = Inr ?s2" using v1 sem by (simp add: lock_procmm_def spin_lock_def)
  moreover have "glue_area ?n ?s4 = Inr (?n, ?s4)"
    using cow by (simp add: glue_area_def area_of_def s1 list_empty_def init_list_def)
  ultimately have new: "new_area p st en fl ty s = Inr (?n, ?s4)"
    unfolding new_area_def Let_def fit(1,2) using cow by (simp add: al proc_areas_view [OF m2 p])
  have "mm_view P ?s4 ?L" unfolding mm_view_sem using ins ..
  moreover have "perms ?s4 (?L q) x = (if q = p \<and> st \<le> x \<and> x < en then Some (fl, ty) else perms s (L q) x)" if "q \<in> P" for q x
    using ins v1 that unfolding mm_view_sem in_area_def by simp
  ultimately show thesis by (intro that [OF l new]) (use v1 s1 in auto)
qed

section \<open>The rings of copies\<close>

definition copies_ok :: "mms \<Rightarrow> bool" where
  "copies_ok s \<longleftrightarrow> (\<forall>a\<in>dom (areas s). prv (copies s) (nxt (copies s) a) = a \<and> nxt (copies s) (prv (copies s) a) = a \<and>
     nxt (copies s) a \<in> dom (areas s) \<and> prv (copies s) a \<in> dom (areas s))"

lemma add_copy:
  assumes ok: "copies_ok s" and a: "a \<in> dom (areas s)" and n: "n \<notin> dom (areas s)"
    and t: "dom (areas t) = insert n (dom (areas s))" "copies t = append_to_list (init_list (copies s) n) a n"
  shows "copies_ok t" "\<not> list_empty (copies t) a" "\<not> list_empty (copies t) n"
    "b \<in> dom (areas s) \<Longrightarrow> \<not> list_empty (copies s) b \<Longrightarrow> \<not> list_empty (copies t) b"
proof -
  let ?c = "copies s" and ?p = "prv (copies s) a"
  have o: "prv ?c (nxt ?c b) = b" "nxt ?c (prv ?c b) = b" "nxt ?c b \<in> dom (areas s)" "prv ?c b \<in> dom (areas s)" if "b \<in> dom (areas s)" for b
    using ok that by (auto simp: copies_ok_def)
  have ne: "a \<noteq> n" "?p \<noteq> n" using a n o(4) [OF a] by auto
  have nx: "nxt (copies t) = (nxt ?c)(n := a, ?p := n)" and pr: "prv (copies t) = (prv ?c)(n := ?p, a := n)"
    using ne by (auto simp: t(2) append_to_list_def init_list_def Let_def set_next_def set_prev_def fun_eq_iff)
  show "copies_ok t" unfolding copies_ok_def t(1)
  proof
    fix b assume b: "b \<in> insert n (dom (areas s))"
    have 1: "nxt ?c b = a \<longleftrightarrow> b = ?p" "prv ?c b = ?p \<longleftrightarrow> b = a" if "b \<in> dom (areas s)"
    proof -
      show "nxt ?c b = a \<longleftrightarrow> b = ?p"
      proof
        assume "nxt ?c b = a"
        then show "b = ?p" using o(1) [OF that] by simp
      next
        assume "b = ?p"
        then show "nxt ?c b = a" using o(2) [OF a] by simp
      qed
      show "prv ?c b = ?p \<longleftrightarrow> b = a"
      proof
        assume "prv ?c b = ?p"
        then have "nxt ?c (prv ?c b) = nxt ?c ?p" by (rule arg_cong)
        then show "b = a" unfolding o(2) [OF that] o(2) [OF a] .
      qed simp
    qed
    show "prv (copies t) (nxt (copies t) b) = b \<and> nxt (copies t) (prv (copies t) b) = b \<and>
      nxt (copies t) b \<in> insert n (dom (areas s)) \<and> prv (copies t) b \<in> insert n (dom (areas s))"
    proof (cases "b = n")
      case True
      then show ?thesis using ne a o(4) [OF a] unfolding nx pr by simp
    next
      case False
      then have b: "b \<in> dom (areas s)" using b by simp
      have x: "nxt ?c b \<noteq> n" "prv ?c b \<noteq> n" using o(3,4) [OF b] n by auto
      have "prv (copies t) (nxt (copies t) b) = b" using False 1(1) [OF b] x ne o(1) [OF b] unfolding nx pr by simp
      moreover have "nxt (copies t) (prv (copies t) b) = b" using False 1(2) [OF b] x ne o(2) [OF b] unfolding nx pr by simp
      moreover have "nxt (copies t) b \<in> insert n (dom (areas s))" using False o(3) [OF b] unfolding nx fun_upd_apply by simp
      moreover have "prv (copies t) b \<in> insert n (dom (areas s))" using False ne o(4) [OF b] unfolding pr fun_upd_apply by simp
      ultimately show ?thesis by blast
    qed
  qed
  have "nxt ?c a = a \<Longrightarrow> ?p = a" using o(1) [OF a] by simp
  then show "\<not> list_empty (copies t) a" using ne unfolding list_empty_def nx by auto
  show "\<not> list_empty (copies t) n" using ne unfolding list_empty_def nx by auto
  show "b \<in> dom (areas s) \<Longrightarrow> \<not> list_empty (copies s) b \<Longrightarrow> \<not> list_empty (copies t) b"
    using n unfolding list_empty_def nx by auto
qed

section \<open>One area\<close>

definition shared_flags :: "u32 \<Rightarrow> u32" where
  "shared_flags f = ((f OR MM_FLAG_SHARED) AND NOT MM_FLAG_WRITE) OR MM_FLAG_COW"

definition may_share :: "u32 \<Rightarrow> bool" where
  "may_share f \<longleftrightarrow> f AND MM_FLAG_NOSHARE \<noteq> MM_FLAG_NOSHARE"

text \<open>An area whose pages can be protected: page aligned, in user space, with page tables, and writable at once or by copy on write.\<close>

definition can_share :: "mms \<Rightarrow> mem_area \<Rightarrow> bool" where
  "can_share s v \<longleftrightarrow> a_start v AND PAGE_MASK = a_start v \<and> a_end v AND PAGE_MASK = a_end v \<and> a_end v \<le> KERNEL_OFFSET \<and>
     (a_flags v AND MM_FLAG_WRITE \<noteq> 0 \<or> a_flags v AND MM_FLAG_COW \<noteq> 0) \<and> (\<forall>y. in_area v y \<longrightarrow> mapped_dir (mvm s) y)"

lemma share_area_effect:
  assumes m: "mm_view P s L" and P: "par \<in> P" "ch \<in> P" "par \<noteq> ch" and a: "a \<in> set (L par)" "areas s a = Some v"
    and r: "running_pd par s" and sem: "procmm_sem s = 0" and can: "can_share s v" and c: "copies_ok s"
    and free: "\<And>x. a_start v \<le> x \<Longrightarrow> x \<le> a_end v \<Longrightarrow> area_at s (L ch) x = None"
  obtains us vs n t where "share_area ch a s = Inr t" "L ch = us @ vs" "mm_view P t (L(ch := us @ n # vs))" "n \<notin> dom (areas s)"
    "areas t = (areas s)(a \<mapsto> v\<lparr>a_flags := shared_flags (a_flags v)\<rparr>,
       n \<mapsto> \<lparr>a_start = a_start v, a_end = a_end v, a_flags = shared_flags (a_flags v), a_type = a_type v, owner = ch\<rparr>)"
    "\<And>x. perms t (us @ n # vs) x = (if in_area v x then Some (shared_flags (a_flags v), a_type v) else perms s (L ch) x)"
    "protected {x. in_area v x} (mvm s) (mvm t)" "pmm t = pmm s" "procmm_sem t = 0"
    "copies t = append_to_list (init_list (copies s) n) a n"
proof -
  let ?f = "a_flags v" and ?g = "shared_flags (a_flags v)"
  have le: "owner v = par" "a_start v \<le> a_end v" using mm_viewD(3) [OF m P(1) a(1,2)] by auto
  have fl: "(?f OR MM_FLAG_SHARED) AND MM_FLAG_WRITE \<noteq> 0 \<or> (?f OR MM_FLAG_SHARED) AND MM_FLAG_COW \<noteq> 0"
  proof -
    have "(?f OR MM_FLAG_SHARED) AND MM_FLAG_WRITE = ?f AND MM_FLAG_WRITE" "(?f OR MM_FLAG_SHARED) AND MM_FLAG_COW = ?f AND MM_FLAG_COW"
      by (simp_all add: bit.conj_disj_distrib2 MM_FLAG_SHARED_def MM_FLAG_WRITE_def MM_FLAG_COW_def)
    then show ?thesis using can by (simp add: can_share_def)
  qed
  let ?w = "v\<lparr>a_flags := ?g\<rparr>"
  let ?s1 = "put_area a ?w (put_area a (v\<lparr>a_flags := ?f OR MM_FLAG_SHARED\<rparr>) (s\<lparr>procmm_sem := 1\<rparr>))"
  have s1: "?s1 = (put_area a ?w s)\<lparr>procmm_sem := 1\<rparr>" by (simp add: put_area_def)
  have "running_pd par ?s1" using r by (simp add: running_pd_def put_area_def)
  note wp = with_own_pd [OF this, of "\<lambda>m. returns (write_protect (a_start v) (a_end v) m)" "{a_start v..<a_end v}"]
  have "\<exists>t. with_pd par (\<lambda>m. returns (write_protect (a_start v) (a_end v) m)) ?s1 = Inr (?s1\<lparr>mvm := t\<rparr>) \<and> protected {a_start v..<a_end v} (mvm ?s1) t"
  proof (rule wp)
    fix m assume ok: "pmm_ok m" "own_window m" and same: "\<forall>y. vmm_dir_idx y \<noteq> 1022 \<longrightarrow> mapped_dir m y = mapped_dir (mvm ?s1) y"
    have "mapped_dir m y" if y: "a_start v \<le> y" "y < a_end v" for y
    proof -
      have "y < KERNEL_OFFSET" using y(2) can by (auto simp: can_share_def)
      then have "vmm_dir_idx y \<noteq> 1022" using user_dir [of y] by (auto simp: word_less_nat_alt)
      then show ?thesis using same can y by (simp add: can_share_def in_area_def put_area_def)
    qed
    then show "\<exists>t. returns (write_protect (a_start v) (a_end v) m) = Inr t \<and> protected {a_start v..<a_end v} m t"
      using write_protect_range [of "a_end v" m "a_start v"] can le(2) ok by (auto simp: can_share_def returns_def)
  qed
  then obtain u where u: "with_pd par (\<lambda>m. returns (write_protect (a_start v) (a_end v) m)) ?s1 = Inr (?s1\<lparr>mvm := u\<rparr>)"
    "protected {a_start v..<a_end v} (mvm s) u" by (auto simp: put_area_def)
  let ?s2 = "?s1\<lparr>mvm := u, procmm_sem := 0\<rparr>"
  have v1: "mm_view P (put_area a ?w s) L"
    using mm_viewD(4) [OF m P(1)] a le by (intro put_area_view [OF m P(1) a(1)]) (auto simp: in_area_def)
  then have v2: "mm_view P ?s2 L" by (simp add: s1)
  have s2a: "areas ?s2 = (areas s)(a \<mapsto> ?w)" by (simp add: put_area_def)
  have other: "areas ?s2 b = areas s b" if "b \<in> set (L ch)" for b
    using mm_one_process [OF m P(1,2) a(1)] that P(3) unfolding s2a by auto
  have at2: "area_at ?s2 (L ch) x = area_at s (L ch) x" for x
    unfolding area_at_def by (rule find_cong [OF refl]) (simp only: other)
  have fit: "page_up (a_end v) = a_end v" "unat (a_end v) + 4096 < 4294967296"
    using can page_aligned [of "a_end v"] by (auto simp: can_share_def word_le_nat_alt KERNEL_OFFSET_def)
  have cow: "?g AND MM_FLAG_COW \<noteq> 0" by (simp add: shared_flags_def bit.conj_disj_distrib2 MM_FLAG_COW_def)
  have al: "a_start v AND PAGE_MASK = a_start v" using can by (simp add: can_share_def)
  have "\<And>x. a_start v \<le> x \<Longrightarrow> x \<le> a_end v \<Longrightarrow> area_at ?s2 (L ch) x = None" unfolding at2 by (rule free)
  from new_cow_area [OF v2 P(2) al fit(1) le(2) fit(2) _ this cow, of "a_type v"]
  obtain us vs t where n: "L ch = us @ vs" "new_area ch (a_start v) (a_end v) ?g (a_type v) ?s2 = Inr (next_area ?s2, t)"
    "mm_view P t (L(ch := us @ next_area ?s2 # vs))"
    "areas t = (areas ?s2)(next_area ?s2 \<mapsto> \<lparr>a_start = a_start v, a_end = a_end v, a_flags = ?g, a_type = a_type v, owner = ch\<rparr>)"
    "mvm t = mvm ?s2" "pmm t = pmm ?s2" "procmm_sem t = 0" "copies t = init_list (copies ?s2) (next_area ?s2)"
    "\<And>q x. q \<in> P \<Longrightarrow> perms t ((L(ch := us @ next_area ?s2 # vs)) q) x =
       (if q = ch \<and> a_start v \<le> x \<and> x < a_end v then Some (?g, a_type v) else perms ?s2 (L q) x)" by (simp add: put_area_def) blast
  let ?n = "next_area s" and ?t = "t\<lparr>copies := append_to_list (copies t) a (next_area s)\<rparr>"
  have run: "share_area ch a s = Inr ?t"
    using fl a(2) sem u(1) n(2) le(1)
    by (simp add: share_area_def lock_procmm_def spin_lock_def upd_area_def area_of_def put_area_def shared_flags_def)
  have p2: "perms ?s2 (L ch) = perms s (L ch)" by (rule perms_same) (rule other)
  show thesis
  proof (rule that [of ?t us vs ?n, OF run n(1)])
    show "mm_view P ?t (L(ch := us @ ?n # vs))" using n(3) by (simp add: mm_view_def put_area_def)
    show "?n \<notin> dom (areas s)" using mm_viewD(2) [OF m, of ?n] by auto
    show "perms ?t (us @ ?n # vs) x = (if in_area v x then Some (?g, a_type v) else perms s (L ch) x)" for x
      using n(9) [OF P(2), of x] p2 by (simp add: in_area_def perms_def area_at_def put_area_def)
    have "{x. in_area v x} = {a_start v..<a_end v}" by (auto simp: in_area_def)
    then show "protected {x. in_area v x} (mvm s) (mvm ?t)" using u(2) n(5) by simp
  qed (use n in \<open>auto simp: put_area_def\<close>)
qed

section \<open>The loop over the areas\<close>

definition fork_perm :: "(u32 \<times> u32) option \<Rightarrow> (u32 \<times> u32) option" where
  "fork_perm pm = (case pm of None \<Rightarrow> None | Some (f, ty) \<Rightarrow> if may_share f then Some (shared_flags f, ty) else None)"

definition marked :: "mem_area \<Rightarrow> mem_area" where
  "marked v = (if may_share (a_flags v) then v\<lparr>a_flags := shared_flags (a_flags v)\<rparr> else v)"

definition shared_part :: "mms \<Rightarrow> nat list \<Rightarrow> u32 set" where
  "shared_part s as = {x. \<exists>a\<in>set as. may_share (a_flags (the (areas s a))) \<and> in_area (the (areas s a)) x}"

text \<open>After the areas of \<open>old\<close>: the child has what may be shared of them, and the parent's own are marked and protected.\<close>

definition forking :: "mms \<Rightarrow> nat set \<Rightarrow> (nat \<Rightarrow> nat list) \<Rightarrow> nat \<Rightarrow> nat list \<Rightarrow> mms \<Rightarrow> bool" where
  "forking s P L ch old t \<longleftrightarrow>
     (\<exists>cs. mm_view P t (L(ch := cs)) \<and> (\<forall>x. perms t cs x = fork_perm (perms s old x)) \<and> (\<forall>c\<in>set cs. \<not> list_empty (copies t) c)) \<and>
     (\<forall>q\<in>P. q \<noteq> ch \<longrightarrow> (\<forall>a\<in>set (L q). areas t a = (if a \<in> set old then map_option marked (areas s a) else areas s a))) \<and>
     protected (shared_part s old) (mvm s) (mvm t) \<and> pmm t = pmm s \<and> procmm_sem t = 0 \<and> copies_ok t \<and>
     (\<forall>a\<in>set old. may_share (a_flags (the (areas s a))) \<longrightarrow> \<not> list_empty (copies t) a)"

lemma area_at_snoc: "area_at s (as @ [a]) x =
    (case area_at s as x of None \<Rightarrow> if in_area (the (areas s a)) x then Some a else None | Some b \<Rightarrow> Some b)"
  by (induction as) (simp_all add: area_at_def)

lemma perms_snoc: "perms s (as @ [a]) x =
    (case perms s as x of None \<Rightarrow> if in_area (the (areas s a)) x then Some (a_flags (the (areas s a)), a_type (the (areas s a))) else None
     | Some p \<Rightarrow> Some p)"
  by (auto simp: perms_def area_at_snoc split: option.splits)

lemma shared_part_snoc: "shared_part s (as @ [a]) =
    shared_part s as \<union> (if may_share (a_flags (the (areas s a))) then {x. in_area (the (areas s a)) x} else {})"
  by (auto simp: shared_part_def)

lemma fork_step:
  assumes f: "forking s P L ch old t" and m: "mm_view P s L" and P: "par \<in> P" "ch \<in> P" "par \<noteq> ch" and l: "L par = old @ a # rest"
    and ok: "running_pd par s" and can: "may_share (a_flags (the (areas s a))) \<Longrightarrow> can_share s (the (areas s a))"
    and sorted: "\<And>b. b \<in> set old \<Longrightarrow> a_end (the (areas s b)) \<le> a_start (the (areas s a))"
  shows "\<exists>t'. share_if_allowed ch (Mem a) t = Inr t' \<and> forking s P L ch (old @ [a]) t'"
proof -
  note fk = f [unfolded forking_def]
  obtain cs where cs: "mm_view P t (L(ch := cs))" "\<forall>x. perms t cs x = fork_perm (perms s old x)" "\<forall>c\<in>set cs. \<not> list_empty (copies t) c"
    using fk by blast
  have t: "mm_view P t (L(ch := cs))" "\<And>x. perms t cs x = fork_perm (perms s old x)" "\<And>c. c \<in> set cs \<Longrightarrow> \<not> list_empty (copies t) c"
    "\<And>q a. q \<in> P \<Longrightarrow> q \<noteq> ch \<Longrightarrow> a \<in> set (L q) \<Longrightarrow> areas t a = (if a \<in> set old then map_option marked (areas s a) else areas s a)"
    "protected (shared_part s old) (mvm s) (mvm t)" "pmm t = pmm s" "procmm_sem t = 0" "copies_ok t"
    "\<And>a. a \<in> set old \<Longrightarrow> may_share (a_flags (the (areas s a))) \<Longrightarrow> \<not> list_empty (copies t) a" using cs fk by simp_all
  have ain: "a \<in> set (L par)" "a \<notin> set old" using l mm_distinct [OF m P(1)] by auto
  obtain v where v: "areas s a = Some v" using mm_area [OF m P(1) ain(1)] by blast
  have tv: "areas t a = Some v" using t(4) [OF P(1,3) ain(1)] ain(2) v by simp
  have none: "perms s old x = None" if "a_start v \<le> x" for x
  proof -
    have "\<not> in_area (the (areas s b)) x" if "b \<in> set old" for b using sorted [OF that] v \<open>a_start v \<le> x\<close> by (auto simp: in_area_def)
    then show ?thesis by (simp add: perms_def area_at_def find_None_iff)
  qed
  show ?thesis
  proof (cases "may_share (a_flags v)")
    case False
    have "marked v = v" using False by (simp add: marked_def)
    then have "areas t b = (if b \<in> set (old @ [a]) then map_option marked (areas s b) else areas s b)" if "q \<in> P" "q \<noteq> ch" "b \<in> set (L q)" for q b
      using t(4) [OF that] v by auto
    moreover have "perms t cs x = fork_perm (perms s (old @ [a]) x)" for x
      using False v by (auto simp: t(2) perms_snoc fork_perm_def split: option.splits)
    ultimately have "forking s P L ch (old @ [a]) t"
      using t False v unfolding forking_def by (intro conjI exI [of _ cs]) (auto simp: shared_part_snoc)
    moreover have "share_if_allowed ch (Mem a) t = Inr t" using False tv by (simp add: share_if_allowed_def area_of_def may_share_def)
    ultimately show ?thesis by blast
  next
    case True
    have can_t: "can_share t v"
    proof -
      have c: "can_share s v" using can True v by simp
      have "mapped_dir (mvm t) y" if "in_area v y" for y
      proof -
        have "y < KERNEL_OFFSET" using that c by (auto simp: can_share_def in_area_def)
        then have "vmm_dir_idx y \<noteq> 1022" using user_dir [of y] by (auto simp: word_less_nat_alt)
        then show ?thesis using protected_dirs(1) [OF t(5)] c that by (simp add: can_share_def)
      qed
      then show ?thesis using c by (simp add: can_share_def)
    qed
    have run_t: "running_pd par t" using ok protectedD(1,3) [OF t(5)] by (simp add: running_pd_def t(6))
    have free: "area_at t ((L(ch := cs)) ch) x = None" if "a_start v \<le> x" "x \<le> a_end v" for x
      using t(2) [of x] none [OF that(1)] by (simp add: fork_perm_def perms_def)
    have apar: "a \<in> set ((L(ch := cs)) par)" using ain(1) P(3) by simp
    obtain us vs n t' where e: "share_area ch a t = Inr t'" "cs = us @ vs" "mm_view P t' (L(ch := us @ n # vs))" "n \<notin> dom (areas t)"
      "areas t' = (areas t)(a \<mapsto> v\<lparr>a_flags := shared_flags (a_flags v)\<rparr>,
         n \<mapsto> \<lparr>a_start = a_start v, a_end = a_end v, a_flags = shared_flags (a_flags v), a_type = a_type v, owner = ch\<rparr>)"
      "\<And>x. perms t' (us @ n # vs) x = (if in_area v x then Some (shared_flags (a_flags v), a_type v) else perms t cs x)"
      "protected {x. in_area v x} (mvm t) (mvm t')" "pmm t' = pmm t" "procmm_sem t' = 0"
      "copies t' = append_to_list (init_list (copies t) n) a n"
      by (rule share_area_effect [OF t(1) P apar tv run_t t(7) can_t t(8) free, unfolded fun_upd_upd fun_upd_same]) blast+
    have dom: "a \<in> dom (areas t)" "dom (areas t') = insert n (dom (areas t))" using tv e(5) by auto
    note cp = add_copy [OF t(8) dom(1) e(4) dom(2) e(10)]
    have cs_dom: "c \<in> dom (areas t)" if "c \<in> set cs" for c using mm_area [OF t(1) P(2), of c] that by auto
    have old_dom: "b \<in> dom (areas t)" if "b \<in> set old" for b using mm_area [OF t(1) P(1), of b] that l P(3) by auto
    have "perms t' (us @ n # vs) x = fork_perm (perms s (old @ [a]) x)" for x
      using none [of x] True v by (auto simp: e(6) t(2) perms_snoc fork_perm_def in_area_def split: option.splits)
    moreover have "\<not> list_empty (copies t') c" if "c \<in> set (us @ n # vs)" for c
      using that cp(3,4) t(3) cs_dom e(2) by auto
    moreover have "areas t' b = (if b \<in> set (old @ [a]) then map_option marked (areas s b) else areas s b)" if "q \<in> P" "q \<noteq> ch" "b \<in> set (L q)" for q b
    proof -
      have "b \<noteq> n" using mm_area [OF t(1) that(1), of b] that e(4) by auto
      then show ?thesis using t(4) [OF that] v True by (auto simp: e(5) marked_def)
    qed
    moreover have "protected (shared_part s (old @ [a])) (mvm s) (mvm t')"
      using protected_trans [OF t(5) e(7)] True v by (simp add: shared_part_snoc)
    moreover have "\<not> list_empty (copies t') b" if "b \<in> set (old @ [a])" "may_share (a_flags (the (areas s b)))" for b
      using that cp(2,4) t(9) old_dom by auto
    ultimately have "forking s P L ch (old @ [a]) t'"
      using e(3,9) t(6) e(8) cp(1) unfolding forking_def by (intro conjI exI [of _ "us @ n # vs"]) auto
    moreover have "share_if_allowed ch (Mem a) t = Inr t'" using True tv e(1) by (simp add: share_if_allowed_def area_of_def may_share_def)
    ultimately show ?thesis by blast
  qed
qed

lemma forking_start:
  assumes "mm_view P s L" "L ch = []" "procmm_sem s = 0" "copies_ok s" "pmm_ok (mvm s)"
  shows "forking s P L ch [] s"
proof -
  have "L(ch := []) = L" using assms(2) by auto
  then show ?thesis using assms protected_refl [OF assms(5)]
    unfolding forking_def by (intro conjI exI [of _ "[]"]) (auto simp: perms_def area_at_def fork_perm_def shared_part_def)
qed

lemma share_all:
  assumes m: "mm_view P s L" and P: "par \<in> P" "ch \<in> P" "par \<noteq> ch" and ok: "running_pd par s"
    and can: "\<forall>a\<in>set (L par). may_share (a_flags (the (areas s a))) \<longrightarrow> can_share s (the (areas s a))"
    and sorted: "sorted_wrt (\<lambda>a b. a_end (the (areas s a)) \<le> a_start (the (areas s b))) (L par)"
    and start: "forking s P L ch [] s"
  shows "\<exists>t. for_each_do mem (MemHead par) (share_if_allowed ch) s = Inr t \<and> forking s P L ch (L par) t"
proof -
  define I where "I = (\<lambda>xs t. \<exists>old rest. L par = old @ rest \<and> xs = map Mem rest \<and> forking s P L ch old t)"
  have step: "\<exists>t'. share_if_allowed ch x t = Inr t' \<and> I xs t' \<and> nxt (mem t') x = hd (xs @ [MemHead par]) \<and> x \<noteq> MemHead par"
    if "I (x # xs) t" for x xs t
  proof -
    obtain old a rest where l: "L par = old @ a # rest" "x = Mem a" "xs = map Mem rest" "forking s P L ch old t"
      using \<open>I (x # xs) t\<close> unfolding I_def by (auto simp: Cons_eq_map_conv)
    have "a_end (the (areas s b)) \<le> a_start (the (areas s a))" if "b \<in> set old" for b
      using sorted that unfolding l(1) by (simp add: sorted_wrt_append)
    then obtain t' where t': "share_if_allowed ch (Mem a) t = Inr t'" "forking s P L ch (old @ [a]) t'"
      using fork_step [OF l(4) m P l(1) ok] can l(1) by auto
    obtain cs where cs: "mm_view P t' (L(ch := cs))" using t'(2) unfolding forking_def by blast
    have "ring (mem t') (MemHead par) (map Mem old @ Mem a # map Mem rest)"
      using ringsD(1) [OF mm_viewD(1) [OF cs], of "MemHead par"] P l(1) by simp
    then have "nxt (mem t') (Mem a) = hd (map Mem rest @ [MemHead par])" by (rule ring_mid(1))
    moreover have "I xs t'" unfolding I_def using l(1,3) t'(2) by (intro exI [of _ "old @ [a]"] exI [of _ rest]) simp
    ultimately show ?thesis using t'(1) l(2,3) by auto
  qed
  have "I (map Mem (L par)) s" unfolding I_def using start by (intro exI [of _ "[]"] exI [of _ "L par"]) simp
  then obtain t where t: "loop_after mem (share_if_allowed ch) (MemHead par) (hd (map Mem (L par) @ [MemHead par])) s = Some (Inr t)" "I [] t"
    using loop_after_steps [of I "share_if_allowed ch" mem "MemHead par"] step by blast
  have "ring (mem s) (MemHead par) (map Mem (L par))" using ringsD(1) [OF mm_viewD(1) [OF m], of "MemHead par"] P by simp
  then have "nxt (mem s) (MemHead par) = hd (map Mem (L par) @ [MemHead par])" by (simp add: ring_head)
  then have "for_each_do mem (MemHead par) (share_if_allowed ch) s = Inr t" using t(1) by (simp add: for_each_do_def)
  moreover have "forking s P L ch (L par) t" using t(2) unfolding I_def by auto
  ultimately show ?thesis by blast
qed

section \<open>The memory of a forked process\<close>

text \<open>The entry of the page of \<open>x\<close> after the fork, in either process.\<close>

definition fork_pte :: "mms \<Rightarrow> nat list \<Rightarrow> u32 \<Rightarrow> u32 option" where
  "fork_pte s as x = (case perms s as x of
      None \<Rightarrow> hw_pte (mvm s) x
    | Some (f, _) \<Rightarrow> if may_share f then map_option (\<lambda>e. e AND NOT PAGE_WRITE) (hw_pte (mvm s) x) else hw_pte (mvm s) x)"

definition fork_ready :: "nat set \<Rightarrow> (nat \<Rightarrow> nat list) \<Rightarrow> nat \<Rightarrow> nat \<Rightarrow> mms \<Rightarrow> bool" where
  "fork_ready P L par ch s \<longleftrightarrow> mm_view P s L \<and> par \<in> P \<and> ch \<in> P \<and> par \<noteq> ch \<and> L ch = [] \<and> pmm s ch \<noteq> None \<and>
     running_pd par s \<and> procmm_sem s = 0 \<and> copies_ok s \<and>
     (\<forall>a\<in>set (L par). may_share (a_flags (the (areas s a))) \<longrightarrow> can_share s (the (areas s a))) \<and>
     sorted_wrt (\<lambda>a b. a_end (the (areas s a)) \<le> a_start (the (areas s b))) (L par)"

lemma procmm_fork_effect:
  assumes r: "fork_ready P L par ch s"
  obtains t cs where "procmm_fork par ch s = Inr t" "mm_view P t (L(ch := cs))" "\<forall>x. perms t cs x = fork_perm (perms s (L par) x)"
    "\<forall>c\<in>set cs. \<not> list_empty (copies t) c"
    "\<forall>q\<in>P. q \<noteq> ch \<longrightarrow> (\<forall>a\<in>set (L q). areas t a = (if q = par then map_option marked (areas s a) else areas s a))"
    "protected (shared_part s (L par)) (mvm s) (mvm t)" "map_option mm (pmm t ch) = map_option mm (pmm s par)"
    "\<forall>a\<in>set (L par). may_share (a_flags (the (areas s a))) \<longrightarrow> \<not> list_empty (copies t) a" "procmm_sem t = 0" "copies_ok t"
proof -
  note d = r [unfolded fork_ready_def]
  have m: "mm_view P s L" and P: "par \<in> P" "ch \<in> P" "par \<noteq> ch" and ch: "L ch = []" and rp: "running_pd par s" using d by auto
  obtain cv where cv: "pmm s ch = Some cv" using d by auto
  obtain v where v: "pmm s par = Some v" using rp by (auto simp: running_pd_def)
  let ?s = "s\<lparr>pmm := (pmm s)(ch \<mapsto> cv\<lparr>mm := mm v\<rparr>)\<rparr>"
  have "ring (mem s) (MemHead ch) []" using ringsD(1) [OF mm_viewD(1) [OF m], of "MemHead ch"] P ch by simp
  then have "nxt (mem s) (MemHead ch) = MemHead ch" "prv (mem s) (MemHead ch) = MemHead ch" using ring_head by fastforce+
  then have "init_list (mem s) (MemHead ch) = mem s"
    by (simp add: init_list_def Let_def set_next_def set_prev_def fun_upd_idem)
  then have run: "procmm_fork par ch s = for_each_do mem (MemHead par) (share_if_allowed ch) ?s"
    using v cv by (simp add: procmm_fork_def pmm_of_def upd_pmm_def Let_def)
  have m': "mm_view P ?s L" using m by (simp add: mm_view_def)
  have rp': "running_pd par ?s" using rp P(3) by (simp add: running_pd_def)
  have c': "copies_ok ?s" using d by (simp add: copies_ok_def)
  have ok: "pmm_ok (mvm ?s)" using rp by (simp add: running_pd_def)
  have "forking ?s P L ch [] ?s" by (rule forking_start [OF m' ch _ c' ok]) (use d in simp)
  with share_all [OF m' P rp'] obtain t where t: "procmm_fork par ch s = Inr t" "forking ?s P L ch (L par) t"
    using d run by (auto simp: can_share_def)
  have pe: "perms ?s (L par) = perms s (L par)" by (rule perms_same) simp
  have one: "a \<in> set (L par) \<longleftrightarrow> q = par" if "q \<in> P" "a \<in> set (L q)" for q a
    using mm_one_process [OF m P(1) that(1) _ that(2)] that(2) by auto
  obtain cs where cs: "mm_view P t (L(ch := cs))" "\<forall>x. perms t cs x = fork_perm (perms ?s (L par) x)" "\<forall>c\<in>set cs. \<not> list_empty (copies t) c"
    using t(2) unfolding forking_def by blast
  note f = t(2) [unfolded forking_def]
  show thesis
  proof (rule that [OF t(1) cs(1)])
    show "\<forall>x. perms t cs x = fork_perm (perms s (L par) x)" using cs(2) pe by simp
    show "\<forall>c\<in>set cs. \<not> list_empty (copies t) c" by (rule cs(3))
    show "\<forall>q\<in>P. q \<noteq> ch \<longrightarrow> (\<forall>a\<in>set (L q). areas t a = (if q = par then map_option marked (areas s a) else areas s a))"
      using f one by simp
    show "protected (shared_part s (L par)) (mvm s) (mvm t)" using f by (simp add: shared_part_def)
    show "map_option mm (pmm t ch) = map_option mm (pmm s par)" using f v by simp
  qed (use f in simp_all)
qed

end
