(* ===== verification/ForkMemory.thy ===== *)
theory ForkMemory imports ForkAreas Processes begin

text \<open>
  The memory of a forked process: \<open>procmm_fork\<close> and \<open>vmm_clone_pd\<close> one after the other, as \<open>fork_process\<close> calls them.
\<close>

definition fork_memory :: "nat \<Rightarrow> nat \<Rightarrow> mms \<Rightarrow> (u32 \<times> mms) res" where
  "fork_memory par ch s =
     andthen (procmm_fork par ch s) (\<lambda>s.
     andthen (vmm_clone_pd (mvm s)) (\<lambda>(d, m). Inr (d, s\<lparr>mvm := m\<rparr>)))"

text \<open>These are the two steps of \<open>fork_process\<close>.\<close>

lemma fork_memory_steps:
  "andthen (do_mm (procmm_fork par ch) k) (on_machine vmm_clone_pd) =
     andthen (fork_memory par ch (kmm k)) (\<lambda>(d, s). Inr (d, k\<lparr>kmm := s\<rparr>))"
  by (auto simp: fork_memory_def do_mm_def on_machine_def on_mm_def andthen_def split: sum.splits)










end
