(* ===== verification/Registers.thy ===== *)
theory Registers imports Dispatch FdRuns begin

text \<open>
  What the kernel does to the saved registers of threads. The locale \<open>user_registers\<close> is the contract: a predicate on
  registers that a new user thread satisfies and that the writes of the kernel respect. Inside of it every operation of the
  kernel, from a single update to the whole interrupt handler, keeps the predicate for all threads but the idle one.
\<close>

section \<open>The contract\<close>

definition all_regs :: "(registers \<Rightarrow> bool) \<Rightarrow> nat \<Rightarrow> kernel \<Rightarrow> bool" where
  "all_regs M b k \<longleftrightarrow> boot_thread k = b \<and> 
     (\<forall>t v. threads k t = Some v \<longrightarrow> t < next_obj k \<and> (t \<noteq> b \<longrightarrow> M (regs v)))"

lemma all_regs_other [simp]:
  "all_regs M b (k\<lparr>kfs := s\<rparr>) = all_regs M b k" "all_regs M b (k\<lparr>kmm := m\<rparr>) = all_regs M b k"
  "all_regs M b (k\<lparr>procs := ps\<rparr>) = all_regs M b k" "all_regs M b (k\<lparr>signals := sg\<rparr>) = all_regs M b k"
  "all_regs M b (k\<lparr>descs := ds\<rparr>) = all_regs M b k" "all_regs M b (k\<lparr>process_list := l1\<rparr>) = all_regs M b k"
  "all_regs M b (k\<lparr>process_threads := l2\<rparr>) = all_regs M b k" "all_regs M b (k\<lparr>signal_queue := l3\<rparr>) = all_regs M b k"
  "all_regs M b (k\<lparr>frames := fr\<rparr>) = all_regs M b k" "all_regs M b (k\<lparr>next_pid := i\<rparr>) = all_regs M b k"
  "all_regs M b (k\<lparr>next_tid := i\<rparr>) = all_regs M b k"
  "all_regs M b (k\<lparr>kernel_booted := kb\<rparr>) = all_regs M b k" "all_regs M b (k\<lparr>esp0 := es\<rparr>) = all_regs M b k"
  "all_regs M b (set_state t w k) = all_regs M b k" "all_regs M b (set_tasks h k) = all_regs M b k"
  "all_regs M b (kerrno e k) = all_regs M b k" "all_regs M b (put_proc p v k) = all_regs M b k"
  by (simp_all add: all_regs_def set_state_def set_tasks_def kerrno_def put_proc_def)

section \<open>Operations that leave threads alone\<close>

definition same_threads :: "kernel \<Rightarrow> kernel \<Rightarrow> bool" where
  "same_threads k k' \<longleftrightarrow> threads k' = threads k \<and> boot_thread k' = boot_thread k \<and> next_obj k \<le> next_obj k'"

lemma same_threads_refl [simp]: "same_threads k k"
  by (simp add: same_threads_def)

lemma same_threads_trans: "same_threads k k' \<Longrightarrow> same_threads k' k'' \<Longrightarrow> same_threads k k''"
  by (simp add: same_threads_def)

lemma same_threads_regs: "same_threads k k' \<Longrightarrow> all_regs M b k \<Longrightarrow> all_regs M b k'"
  by (fastforce simp: same_threads_def all_regs_def)

lemma same_threads_other [simp]:
  "same_threads k (set_state t w l) = same_threads k l" "same_threads k (set_tasks h l) = same_threads k l"
  "same_threads k (kerrno e l) = same_threads k l" "same_threads k (put_proc p v l) = same_threads k l"
  "threads (kerrno e k) = threads k" "boot_thread (kerrno e k) = boot_thread k"
  "threads (put_proc p v k) = threads k" "boot_thread (put_proc p v k) = boot_thread k"
  "threads (set_state t w k) = threads k" "boot_thread (set_state t w k) = boot_thread k"
  "threads (set_tasks h k) = threads k" "boot_thread (set_tasks h k) = boot_thread k"
  "next_obj (kerrno e k) = next_obj k" "next_obj (put_proc p v k) = next_obj k" "next_obj (set_state t w k) = next_obj k"
  "next_obj (set_tasks h k) = next_obj k"
  by (simp_all add: same_threads_def set_state_def set_tasks_def kerrno_def put_proc_def)

lemma part_same:
  "on_fs f1 k = Inr (x1, k') \<Longrightarrow> same_threads k k'" "do_fs f2 k = Inr k' \<Longrightarrow> same_threads k k'"
  "do_sched f3 k = Inr k' \<Longrightarrow> same_threads k k'" "on_mm f4 k = Inr (x4, k') \<Longrightarrow> same_threads k k'"
  "do_mm f5 k = Inr k' \<Longrightarrow> same_threads k k'"
  by (auto simp: same_threads_def dest!: partD)

lemma object_same:
  "upd_proc p f k = Inr k' \<Longrightarrow> same_threads k k'" "upd_desc d g k = Inr k' \<Longrightarrow> same_threads k k'"
  "on_machine h k = Inr (x, k') \<Longrightarrow> same_threads k k'" "set_pd p pdir k = Inr k' \<Longrightarrow> same_threads k k'"
  "set_slot p i s k = Inr k' \<Longrightarrow> same_threads k k'" "upd_mm um k = Inr k' \<Longrightarrow> same_threads k k'"
  "switch_process p k = Inr k' \<Longrightarrow> same_threads k k'" "new_desc k = (d, k') \<Longrightarrow> same_threads k k'"
  by (auto simp: upd_proc_def upd_desc_def on_machine_def set_pd_def set_slot_def upd_mm_def switch_process_def new_desc_def
      same_threads_def andthen_eq_Inr split: if_split_asm dest!: partD)

lemma desc_same:
  "fd_get d k = Inr k' \<Longrightarrow> same_threads k k'" "fd_put d k = Inr k' \<Longrightarrow> same_threads k k'"
  "drop_slot p i d k = Inr k' \<Longrightarrow> same_threads k k'" "advance d n k = Inr k' \<Longrightarrow> same_threads k k'"
  by (auto simp: fd_get_def fd_put_def drop_slot_def advance_def same_threads_def andthen_eq_Inr split: if_split_asm
      dest!: object_same [unfolded same_threads_def])

lemmas fs_same = part_same object_same desc_same
lemmas fs_same_eqs = fs_same [unfolded same_threads_def]

lemma grab_same: "grab_slot p k = Inr (g, k') \<Longrightarrow> same_threads k k'"
  by (auto simp: grab_slot_def same_threads_def new_desc_def andthen_eq_Inr split: option.split_asm dest!: fs_same_eqs)

text \<open>The file system calls.\<close>

lemma file_same:
  "sys_close file k = Inr (r, k') \<Longrightarrow> same_threads k k'"
  "sys_fstat file st k = Inr (r, md, k') \<Longrightarrow> same_threads k k'"
  "sys_isatty file k = Inr (r, k') \<Longrightarrow> same_threads k k'"
  "sys_lseek file ptr dir k = Inr (r, k') \<Longrightarrow> same_threads k k'"
  "sys_dup file k = Inr (r, k') \<Longrightarrow> same_threads k k'"
  "sys_stat addr path st k = Inr (r, md, k') \<Longrightarrow> same_threads k k'"
  "sys_readdir file num k = Inr (z, k') \<Longrightarrow> same_threads k k'"
  by (auto simp: sys_close_def sys_fstat_def sys_isatty_def sys_lseek_def sys_dup_def sys_stat_def sys_readdir_def same_threads_def
      andthen_eq_Inr Let_def split: option.split_asm if_split_asm dest!: fs_same_eqs)

lemma case_outcome_Inr:
  "(case r of Returns x \<Rightarrow> f x | Sleeps w \<Rightarrow> g w) = Inr y \<longleftrightarrow> (\<exists>x. r = Returns x \<and> f x = Inr y) \<or> (\<exists>w. r = Sleeps w \<and> g w = Inr y)"
  by (cases r) auto

lemma case_option_Inr:
  "(case r of None \<Rightarrow> e | Some x \<Rightarrow> f x) = Inr y \<longleftrightarrow> (r = None \<and> e = Inr y) \<or> (\<exists>x. r = Some x \<and> f x = Inr y)"
  by (cases r) auto

lemma transfer_same:
  "sys_read file addr len k = Inr (x, k') \<Longrightarrow> same_threads k k'"
  "sys_write file addr buf k = Inr (y, k') \<Longrightarrow> same_threads k k'"
  by (auto simp: sys_read_def sys_write_def same_threads_def andthen_eq_Inr case_outcome_Inr case_option_Inr split: if_split_asm
      dest!: fs_same_eqs)

lemma open_same: "sys_open addr path mode k = Inr (r, k') \<Longrightarrow> same_threads k k'"
  by (auto simp: sys_open_def same_threads_def andthen_eq_Inr case_option_Inr split: if_split_asm
      dest!: fs_same_eqs grab_same [unfolded same_threads_def])

lemma dup2_same: "sys_dup2 file file2 k = Inr (r, k') \<Longrightarrow> same_threads k k'"
  by (auto simp: sys_dup2_def same_threads_def andthen_eq_Inr split: if_split_asm
      dest!: fs_same_eqs file_same [unfolded same_threads_def])

lemma pipe_same:
  assumes "sys_pipe junk k = Inr (r, fds, k')" shows "same_threads k k'"
proof -
  obtain p g1 k1 g2 k2 where g: "current_proc k = Inr p" "grab_slot p k = Inr (g1, k1)" "grab_slot p k1 = Inr (g2, k2)"
    using assms by (auto simp: sys_pipe_def andthen_eq_Inr)
  have "same_threads k2 k'"
  proof (cases "g1 = None \<or> g2 = None")
    case True
    then show ?thesis using assms by (auto simp: sys_pipe_def g Let_def split: option.split_asm)
  next
    case False
    then obtain i1 d1 i2 d2 where i: "g1 = Some (i1, d1)" "g2 = Some (i2, d2)" by auto
    obtain rd wr s where m: "make_pipe 512 junk (kfs k2) = (rd, wr, s)" by (metis prod_cases3)
    obtain k3 x k4 k5 y where "upd_desc d1 (\<lambda>v. v\<lparr>ino := Some rd, fd_flags := O_RDONLY\<rparr>) (k2\<lparr>kfs := s\<rparr>) = Inr k3"
      "on_fs (vfs_open rd O_RDONLY) k3 = Inr (x, k4)" "upd_desc d2 (\<lambda>v. v\<lparr>ino := Some wr, fd_flags := O_WRONLY\<rparr>) k4 = Inr k5"
      "on_fs (vfs_open wr O_WRONLY) k5 = Inr (y, k')"
      using assms by (auto simp: sys_pipe_def g i m Let_def andthen_eq_Inr)
    then show ?thesis by (auto simp: same_threads_def dest!: fs_same_eqs)
  qed
  then show ?thesis using g by (blast intro: same_threads_trans grab_same)
qed

section \<open>User memory and executables\<close>

lemma returns_Inr: "returns r = Inr x \<longleftrightarrow> r = Some (Inr x)"
  by (auto simp: returns_def split: option.splits)

lemma byte_same:
  "kernel_fault addr err k = Inr k' \<Longrightarrow> same_threads k k'" "user_byte va k = Inr (c, k') \<Longrightarrow> same_threads k k'"
  "put_user_byte va c k = Inr k' \<Longrightarrow> same_threads k k'"
proof -
  show f: "same_threads k k'" if "kernel_fault addr err k = Inr k'" for addr err k k'
    using that by (auto simp: kernel_fault_def same_threads_def andthen_eq_Inr split: if_split_asm dest!: fs_same_eqs)
  have l: "\<forall>c k'. r = Inr (c, k') \<longrightarrow> same_threads k k'" if "user_byte_loop va k = Some r" for r k
    using that
  proof (rule user_byte_loop.raw_induct [rotated])
    fix g va k r
    assume ih: "\<And>va k r. g va k = Some r \<Longrightarrow> \<forall>c k'. r = Inr (c, k') \<longrightarrow> same_threads k k'"
      and st: "(case vload_byte va (mvm (kmm k)) of Inl x \<Rightarrow>
          (case kernel_fault va 0 k of Inl e \<Rightarrow> Some (Inl e) | Inr k \<Rightarrow> g va k) | Inr b \<Rightarrow> Some (Inr (b, k))) = Some r"
    show "\<forall>c k'. r = Inr (c, k') \<longrightarrow> same_threads k k'"
      using st by (auto split: sum.split_asm dest!: ih dest: f intro: same_threads_trans)
  qed
  have w: "\<forall>k'. r = Inr k' \<longrightarrow> same_threads k k'" if "put_user_byte_loop va c k = Some r" for r k
    using that
  proof (rule put_user_byte_loop.raw_induct [rotated])
    fix g va b k r
    assume ih: "\<And>va b k r. g va b k = Some r \<Longrightarrow> \<forall>k'. r = Inr k' \<longrightarrow> same_threads k k'"
      and st: "(case vstore_byte va b (mvm (kmm k)) of Inl x \<Rightarrow>
          (case kernel_fault va PF_WRITE k of Inl e \<Rightarrow> Some (Inl e) | Inr k \<Rightarrow> g va b k)
        | Inr m \<Rightarrow> Some (Inr (k\<lparr>kmm := kmm k\<lparr>mvm := m\<rparr>\<rparr>))) = Some r"
    show "\<forall>k'. r = Inr k' \<longrightarrow> same_threads k k'"
      using st by (auto simp: same_threads_def split: sum.split_asm dest!: ih dest!: f [unfolded same_threads_def])
  qed
  show "same_threads k k'" if "user_byte va k = Inr (c, k')"
    using that l by (auto simp: user_byte_def returns_Inr)
  show "same_threads k k'" if "put_user_byte va c k = Inr k'"
    using that w by (auto simp: put_user_byte_def returns_Inr)
qed

lemma put_user_same: "put_user va bs k = Inr k' \<Longrightarrow> same_threads k k'"
  by (induction va bs k rule: put_user.induct) (auto simp: andthen_eq_Inr intro: same_threads_trans dest!: byte_same)

lemma get_user_same: "get_user va n k = Inr (bs, k') \<Longrightarrow> same_threads k k'"
  by (induction va n k arbitrary: bs rule: get_user.induct) (auto simp: andthen_eq_Inr intro: same_threads_trans dest!: byte_same)

lemma word_same: "put_user_word va w k = Inr k' \<Longrightarrow> same_threads k k'" "get_user_word va k = Inr (w, k') \<Longrightarrow> same_threads k k'"
  by (auto simp: put_user_word_def get_user_word_def andthen_eq_Inr dest: put_user_same get_user_same)

lemma user_bytes_same: "user_bytes va acc k = Some (Inr (bs, k')) \<Longrightarrow> same_threads k k'"
proof -
  have "\<forall>bs k'. r = Inr (bs, k') \<longrightarrow> same_threads k k'" if "user_bytes va acc k = Some r" for r va acc k
    using that
  proof (rule user_bytes.raw_induct [rotated])
    fix f va acc k r
    assume ih: "\<And>va acc k r. f va acc k = Some r \<Longrightarrow> \<forall>bs k'. r = Inr (bs, k') \<longrightarrow> same_threads k k'"
      and st: "(case user_byte va k of Inl e \<Rightarrow> Some (Inl e)
        | Inr (c, k) \<Rightarrow> if c = 0 then Some (Inr (rev acc, k)) else f (va + 1) (c # acc) k) = Some r"
    show "\<forall>bs k'. r = Inr (bs, k') \<longrightarrow> same_threads k k'"
      using st by (auto simp: same_threads_def split: sum.split_asm if_split_asm dest!: ih byte_same)
  qed
  then show "user_bytes va acc k = Some (Inr (bs, k')) \<Longrightarrow> same_threads k k'" by blast
qed

lemma user_vector_same: "user_vector va acc k = Some (Inr (ss, k')) \<Longrightarrow> same_threads k k'"
proof -
  have "\<forall>ss k'. r = Inr (ss, k') \<longrightarrow> same_threads k k'" if "user_vector va acc k = Some r" for r va acc k
    using that
  proof (rule user_vector.raw_induct [rotated])
    fix f va acc k r
    assume ih: "\<And>va acc k r. f va acc k = Some r \<Longrightarrow> \<forall>ss k'. r = Inr (ss, k') \<longrightarrow> same_threads k k'"
      and st: "(case get_user_word va k of Inl e \<Rightarrow> Some (Inl e)
        | Inr (w, k) \<Rightarrow> if w = 0 then Some (Inr (rev acc, k))
           else case returns (user_bytes w [] k) of Inl e \<Rightarrow> Some (Inl e) | Inr (s, k) \<Rightarrow> f (va + 4) (s # acc) k) = Some r"
    show "\<forall>ss k'. r = Inr (ss, k') \<longrightarrow> same_threads k k'"
      using st by (auto simp: returns_Inr same_threads_def split: sum.split_asm if_split_asm dest!: ih word_same user_bytes_same)
  qed
  then show "user_vector va acc k = Some (Inr (ss, k')) \<Longrightarrow> same_threads k k'" by blast
qed

lemma argument_same:
  "user_arg i k = Inr (w, k') \<Longrightarrow> same_threads k k'" "user_string va k = Inr (s, k') \<Longrightarrow> same_threads k k'"
  "user_vector_or_null va k = Inr (v, k') \<Longrightarrow> same_threads k k'" "store_mode va md k = Inr k' \<Longrightarrow> same_threads k k'"
  by (auto simp: user_arg_def user_string_def user_vector_or_null_def store_mode_def andthen_eq_Inr returns_Inr
      split: if_split_asm option.split_asm dest: word_same user_bytes_same user_vector_same)

lemma do_writes_same: "do_writes ws k = Inr k' \<Longrightarrow> same_threads k k'"
  by (induction ws k rule: do_writes.induct) (auto simp: andthen_eq_Inr intro: same_threads_trans dest!: put_user_same)

lemma place_vector_same: "place_vector pos v k = Inr (base, fin, k') \<Longrightarrow> same_threads k k'"
  by (auto simp: place_vector_def andthen_eq_Inr split: option.split_asm prod.split_asm dest: do_writes_same)

lemma read_struct_same: "read_struct file len off junk k = Inr (bs, k') \<Longrightarrow> same_threads k k'"
  by (auto simp: read_struct_def andthen_eq_Inr case_outcome_Inr dest: part_same)

lemma is_elf_same: "is_elf file junk k = Inr (r, k') \<Longrightarrow> same_threads k k'"
  by (auto simp: is_elf_def andthen_eq_Inr dest: read_struct_same)

lemma load_elf_segment_same: "load_elf_segment file ph k = Inr k' \<Longrightarrow> same_threads k k'"
  by (auto simp: load_elf_segment_def andthen_eq_Inr Let_def same_threads_def case_outcome_Inr split: if_split_asm
      dest!: fs_same_eqs put_user_same [unfolded same_threads_def])

lemma load_segments_same: "load_segments file phs k = Inr k' \<Longrightarrow> same_threads k k'"
  by (induction phs arbitrary: k)
    (auto simp: andthen_eq_Inr split: if_split_asm dest!: fs_same load_elf_segment_same, (meson same_threads_trans)+)

lemma load_elf_same: "load_elf file junk1 junk2 k = Inr (r, k') \<Longrightarrow> same_threads k k'"
  by (auto simp: load_elf_def andthen_eq_Inr Let_def same_threads_def split: if_split_asm
      dest!: fs_same_eqs read_struct_same [unfolded same_threads_def] load_segments_same [unfolded same_threads_def])

section \<open>Processes and signals\<close>

lemma alloc_process_same: "alloc_process k = Inr (p, k') \<Longrightarrow> same_threads k k'"
  by (auto simp: alloc_process_def same_threads_def Let_def andthen_eq_Inr dest!: fs_same_eqs)

lemma share_descs_same: "share_descs ds k = Inr k' \<Longrightarrow> same_threads k k'"
  by (induction ds k rule: share_descs.induct) (auto simp: andthen_eq_Inr dest!: fs_same desc_same, meson same_threads_trans)

lemma adopt_from_same:
  assumes "adopt_from i init k = Some (Inr (j, k'))" shows "same_threads k k'"
proof -
  have "\<forall>j k'. r = Inr (j, k') \<longrightarrow> same_threads k k'" if "adopt_from i init k = Some r" for r i init k
    using that
  proof (rule adopt_from.raw_induct [rotated])
    fix f i init k r
    assume ih: "\<And>i init k r. f i init k = Some r \<Longrightarrow> \<forall>j k'. r = Inr (j, k') \<longrightarrow> same_threads k k'"
      and st: "(case proc_of i k of Inl e \<Rightarrow> Some (Inl e) | Inr v \<Rightarrow>
         (case older_sibling v of None \<Rightarrow> Some (Inr (i, k))
          | Some j \<Rightarrow> f j init (put_proc i (v\<lparr>p_parent := Some init\<rparr>) k))) = Some r"
    show "\<forall>j k'. r = Inr (j, k') \<longrightarrow> same_threads k k'"
      using st by (auto simp: same_threads_def split: sum.split_asm option.split_asm dest!: ih)
  qed
  with assms show ?thesis by blast
qed

lemma adopt_children_same: "adopt_children ch init k = Inr k' \<Longrightarrow> same_threads k k'"
  by (auto simp: adopt_children_def same_threads_def andthen_eq_Inr returns_Inr
      dest!: fs_same_eqs adopt_from_same [unfolded same_threads_def])

lemma leave_family_same: "leave_family p k = Inr k' \<Longrightarrow> same_threads k k'"
  by (auto simp: leave_family_def same_threads_def andthen_eq_Inr case_option_Inr split: if_split_asm dest!: fs_same_eqs)

lemma queue_signal_same: "queue_signal p n k = Inr k' \<Longrightarrow> same_threads k k'"
  by (auto simp: queue_signal_def same_threads_def andthen_eq_Inr Let_def)

lemma free_signal_same [simp]: "same_threads k (free_signal g k)"
  by (simp add: free_signal_def same_threads_def)

lemma close_slots_same: "close_slots is p k = Inr k' \<Longrightarrow> same_threads k k'"
  by (induction "is" p k rule: close_slots.induct)
    (auto simp: andthen_eq_Inr split: if_split_asm dest!: file_same, meson same_threads_trans)

lemma memory_call_same:
  "usr_sbrk incr k = Inr (r, k') \<Longrightarrow> same_threads k k'" "sys_vidmem k = Inr (r, k') \<Longrightarrow> same_threads k k'"
  "sys_getpid k = Inr (r, k') \<Longrightarrow> same_threads k k'" "sys_process_debug k = Inr k' \<Longrightarrow> same_threads k k'"
  "sys_signal stop s hn k = Inr (r, k') \<Longrightarrow> same_threads k k'"
  by (auto simp: usr_sbrk_def sys_vidmem_def sys_getpid_def sys_process_debug_def sys_signal_def same_threads_def andthen_eq_Inr
      case_option_Inr Let_def split: if_split_asm dest!: fs_same_eqs)

section \<open>The running thread\<close>

lemma vfs_open_cur:
  assumes "vfs_open n md s = Inr (r, s')" shows "cur_th s' = cur_th s"
proof -
  obtain s1 d where st: "upd_node n (\<lambda>v. v\<lparr>users := users v + 1\<rparr>) s = Inr s1"
    "(case d_open (driver_of d) of Some f \<Rightarrow> f n md s1 | None \<Rightarrow> Inr (-1, set_errno EACCES s1)) = Inr (r, s')"
    using assms by (auto simp: vfs_open_def driver_at_def andthen_eq_Inr)
  have "cur_th s1 = cur_th s" using st(1) by (auto simp: upd_node_def andthen_eq_Inr)
  moreover have "cur_th s' = cur_th s1" using st(2)
    by (cases d) (auto simp: tarfs_driver_def pipe_driver_def debug_driver_def open_tar_def open_pipe_def
        debug_open_def put_pipe_def andthen_eq_Inr upd_node_def set_errno_def Let_def split: if_split_asm)
  ultimately show ?thesis by simp
qed

lemma fork_process_clones:
  assumes "fork_process k = Inr (ch, k')"
  shows "\<exists>k1 t k2. same_threads k k1 \<and> current k1 = current k \<and> threads k (current k) \<noteq> None \<and>
    clone_thread (current k) k1 = Inr (t, k2) \<and> add_thread ch t k2 = Inr k'"
proof -
  have u: "same_threads k l" "current l = current k" if "upd_proc q f k = Inr l" for q f k l
    using that object_same(1) [OF that] by (auto simp: upd_proc_def andthen_eq_Inr current_def put_proc_def)
  have sd: "current l = current k" if "share_descs ds k = Inr l" for ds k l
    using that
    by (induction ds k rule: share_descs.induct)
      (auto simp: andthen_eq_Inr fd_get_def upd_desc_def current_def on_fs_def dest!: vfs_open_cur)
  obtain par k1 k2 d k3 k4 k5 k6 k7 cmd k8 k9 k10 t k11 and pv :: process where st: "current_proc k = Inr par" "alloc_process k = Inr (ch, k1)"
    "do_mm (procmm_fork par ch) k1 = Inr k2" "on_machine vmm_clone_pd k2 = Inr (d, k3)" "set_pd ch d k3 = Inr k4"
    "upd_proc ch (\<lambda>v. v\<lparr>fd := fd pv\<rparr>) k4 = Inr k5" "share_descs (fd pv) k5 = Inr k6"
    "upd_proc ch (\<lambda>v. v\<lparr>signal_handler := signal_handler pv\<rparr>) k6 = Inr k7"
    "upd_proc ch (\<lambda>v. v\<lparr>cmdline := Some cmd, p_parent := Some par, older_sibling := p_child pv\<rparr>)
       (k7\<lparr>signal_queue := init_list (signal_queue k7) (SignalQueue ch)\<rparr>) = Inr k8"
    "(case p_child pv of None \<Rightarrow> Inr k8 | Some o' \<Rightarrow> upd_proc o' (\<lambda>w. w\<lparr>younger_sibling := Some ch\<rparr>) k8) = Inr k9"
    "upd_proc par (\<lambda>v. v\<lparr>p_child := Some ch\<rparr>) k9 = Inr k10"
    "clone_thread (current k10) k10 = Inr (t, k11)" "add_thread ch t k11 = Inr k'"
    using assms unfolding fork_process_def Let_def by (simp add: andthen_eq_Inr) (elim exE conjE, hypsubst, rule that, assumption+)
  have "same_threads k k1" "current k1 = current k"
    using alloc_process_same [OF st(2)] st(2)
    by (auto simp: alloc_process_def Let_def andthen_eq_Inr current_def put_proc_def set_tasks_def dest!: partD)
  moreover have "same_threads k1 k4" "current k4 = current k1"
    using st(3-5) by (auto simp: on_machine_def set_pd_def current_def same_threads_def dest!: partD)
  moreover have "same_threads k4 k6" "current k6 = current k4"
    using u [OF st(6)] sd [OF st(7)] share_descs_same [OF st(7)] by (auto intro: same_threads_trans)
  moreover have "same_threads k6 k8" "current k8 = current k6"
    using u [OF st(8)] u [OF st(9)] by (auto simp: same_threads_def current_def)
  moreover have "same_threads k8 k9" "current k9 = current k8"
    using st(10) by (auto split: option.split_asm dest: u)
  then have "same_threads k8 k10" "current k10 = current k8"
    using u [OF st(11)] by (auto intro: same_threads_trans)
  moreover have "threads k (current k) \<noteq> None"
    using st(1) by (auto simp: current_proc_def thread_of_def andthen_eq_Inr deref_eq_Inr)
  ultimately have "same_threads k k10 \<and> current k10 = current k \<and> threads k (current k) \<noteq> None"
    by (auto intro: same_threads_trans [OF _ same_threads_trans [OF _ same_threads_trans [OF _ same_threads_trans]]])
  then show ?thesis using st(12,13) by metis
qed

section \<open>Operations that keep the predicate\<close>

definition keeps_regs :: "(registers \<Rightarrow> bool) \<Rightarrow> kernel \<Rightarrow> kernel \<Rightarrow> bool" where
  "keeps_regs M k k' \<longleftrightarrow> boot_thread k' = boot_thread k \<and> (\<forall>b. all_regs M b k \<longrightarrow> all_regs M b k')"

lemma keeps_regs_refl [simp]: "keeps_regs M k k"
  by (simp add: keeps_regs_def)

lemma keeps_regs_trans: "keeps_regs M k k' \<Longrightarrow> keeps_regs M k' k'' \<Longrightarrow> keeps_regs M k k''"
  by (simp add: keeps_regs_def)

lemma same_keeps: "same_threads k k' \<Longrightarrow> keeps_regs M k k'"
  by (auto simp: keeps_regs_def intro: same_threads_regs) (simp add: same_threads_def)

lemmas leaves_threads = fs_same byte_same put_user_same get_user_same word_same argument_same do_writes_same place_vector_same
  is_elf_same load_elf_same alloc_process_same share_descs_same adopt_children_same leave_family_same queue_signal_same
  close_slots_same memory_call_same file_same transfer_same open_same dup2_same pipe_same

lemma keeps_regs_other [simp]:
  "keeps_regs M k (kerrno e l) = keeps_regs M k l" "keeps_regs M k (set_state t w l) = keeps_regs M k l"
  "keeps_regs M k (l\<lparr>kfs := s\<rparr>) = keeps_regs M k l" "keeps_regs M k (l\<lparr>esp0 := es\<rparr>) = keeps_regs M k l"
  "keeps_regs M k (l\<lparr>process_threads := l2\<rparr>) = keeps_regs M k l" "keeps_regs M k (l\<lparr>process_list := l1\<rparr>) = keeps_regs M k l"
  "keeps_regs M k (l\<lparr>procs := ps\<rparr>) = keeps_regs M k l" "keeps_regs M k (l\<lparr>signal_queue := l3\<rparr>) = keeps_regs M k l"
  "keeps_regs M k (l\<lparr>kernel_booted := kb\<rparr>) = keeps_regs M k l" "keeps_regs M k (free_signal g l) = keeps_regs M k l"
  by (simp_all add: keeps_regs_def free_signal_def)

locale user_registers =
  fixes M :: "registers \<Rightarrow> bool"
  assumes fresh [simp]: "M (start_regs func True zero_regs)"
    and eax [simp]: "M r \<Longrightarrow> M (r\<lparr>r_eax := w\<rparr>)" and ebx [simp]: "M r \<Longrightarrow> M (r\<lparr>r_ebx := w\<rparr>)"
    and ecx [simp]: "M r \<Longrightarrow> M (r\<lparr>r_ecx := w\<rparr>)" and edx [simp]: "M r \<Longrightarrow> M (r\<lparr>r_edx := w\<rparr>)"
    and ebp [simp]: "M r \<Longrightarrow> M (r\<lparr>r_ebp := w\<rparr>)" and eip [simp]: "M r \<Longrightarrow> M (r\<lparr>r_eip := w\<rparr>)"
    and useresp [simp]: "M r \<Longrightarrow> M (r\<lparr>r_useresp := w\<rparr>)"
    and interrupts [simp]: "M r \<Longrightarrow> M (r\<lparr>r_eflags := r_eflags r OR EFL_INT\<rparr>)"
begin

lemmas keeps_all = leaves_threads [THEN same_keeps [where M = M]]

lemma upd_thread_keeps_regs:
  "upd_thread t f k = Inr k' \<Longrightarrow> (\<And>v. M (regs v) \<Longrightarrow> M (regs (f v))) \<Longrightarrow> keeps_regs M k k'"
  by (auto simp: upd_thread_def thread_of_def deref_eq_Inr andthen_eq_Inr keeps_regs_def all_regs_def split: if_split_asm)

lemma free_thread_keeps_regs: "free_thread t k = Inr k' \<Longrightarrow> keeps_regs M k k'"
  by (auto simp: free_thread_def keeps_regs_def andthen_eq_Inr Let_def dest!: fs_same_eqs) (fastforce simp: all_regs_def)

lemma free_one_keeps_regs: "clean_one i k = Inr k' \<Longrightarrow> keeps_regs M k k'" "free_other i k = Inr k' \<Longrightarrow> keeps_regs M k k'"
  by (auto simp: clean_one_def free_other_def andthen_eq_Inr free_thread_keeps_regs split: if_split_asm)

lemma free_loops_keep_regs: "clean_threads p k = Inr k' \<Longrightarrow> keeps_regs M k k'" "free_other_threads p k = Inr k' \<Longrightarrow> keeps_regs M k k'"
  unfolding clean_threads_def free_other_threads_def
  by (erule for_each_safe_rel; blast intro: free_one_keeps_regs keeps_regs_refl keeps_regs_trans)+

lemma exit_process_keeps_regs: "exit_process p c k = Inr k' \<Longrightarrow> keeps_regs M k k'"
  by (auto simp: exit_process_def Let_def andthen_eq_Inr keeps_regs_def dest!: keeps_all free_loops_keep_regs)

lemma free_process_keeps_regs: "free_process p k = Inr k' \<Longrightarrow> keeps_regs M k k'"
  by (auto simp: free_process_def Let_def andthen_eq_Inr keeps_regs_def case_option_Inr dest!: keeps_all free_loops_keep_regs)

lemma sys_exit_keeps_regs: "sys_exit rc k = Inr k' \<Longrightarrow> keeps_regs M k k'"
  by (auto simp: sys_exit_def andthen_eq_Inr keeps_regs_def dest!: keeps_all exit_process_keeps_regs)

lemma add_thread_keeps_regs: "add_thread p t k = Inr k' \<Longrightarrow> keeps_regs M k k'"
  by (auto simp: add_thread_def keeps_regs_def dest!: upd_thread_keeps_regs)

lemma return_from_signal_keeps_regs: "return_from_signal k = Inr k' \<Longrightarrow> keeps_regs M k k'"
  by (auto simp: return_from_signal_def Let_def andthen_eq_Inr keeps_regs_def dest!: keeps_all)

lemma waitpid_keeps_regs: "sys_waitpid n k = Inr (r, k') \<Longrightarrow> keeps_regs M k k'"
  by (auto simp: sys_waitpid_def waitpid_loop_def andthen_eq_Inr keeps_regs_def split: if_split_asm
      dest!: keeps_all free_process_keeps_regs)

lemma switch_kernel_thread_keeps_regs:
  assumes "switch_kernel_thread r k = Inr (r', k')" shows "keeps_regs M k k'"
proof -
  obtain k1 n t k2 p k3 k4 where st:
    "(if r \<noteq> None \<and> r \<noteq> Some (ThreadRegs (boot_thread k))
        then andthen (upd_thread (current k) (\<lambda>v. v\<lparr>kernel_thread := r\<rparr>) k) (\<lambda>k.
             if state_of (current k) k = THREAD_STATE_READY
             then do_sched (scheduler_insert (current k)) k else Inr k)
        else Inr k) = Inr k1"
    "(case n of None \<Rightarrow> Inr (boot_thread k1, k1)
              | Some t \<Rightarrow> andthen (do_sched (scheduler_remove t) k1) (\<lambda>k. Inr (t, k))) = Inr (t, k2)"
    "switch_process p k2 = Inr k3" "clean_threads p k3 = Inr k4"
    "k' = k4\<lparr>kernel_booted := True, kfs := (kfs k4)\<lparr>cur_th := t\<rparr>\<rparr>"
    using assms unfolding switch_kernel_thread_def by (auto simp: andthen_eq_Inr Let_def)
  have u: "keeps_regs M k l" if "upd_thread t (\<lambda>v. v\<lparr>kernel_thread := r\<rparr>) k = Inr l" for t l r
    by (rule upd_thread_keeps_regs [OF that]) simp
  have "keeps_regs M k k1" using st(1)
    by (auto simp: andthen_eq_Inr split: if_split_asm intro: keeps_regs_trans dest!: u keeps_all)
  moreover have "keeps_regs M k1 k2" using st(2) by (cases n) (auto simp: andthen_eq_Inr dest: keeps_all)
  moreover have "keeps_regs M k2 k4" using st(3,4) by (blast intro: keeps_regs_trans keeps_all free_loops_keep_regs)
  ultimately show ?thesis unfolding st(5) by (auto intro: keeps_regs_trans)
qed

lemma set_regs_keeps_regs: "set_regs f k = Inr k' \<Longrightarrow> (\<And>r. M r \<Longrightarrow> M (f r)) \<Longrightarrow> keeps_regs M k k'"
  unfolding set_regs_def by (erule upd_thread_keeps_regs) simp

lemma result_keeps_regs:
  "set_result w k = Inr (r, k') \<Longrightarrow> keeps_regs M k k'" "set_eax w k = Inr (r, k') \<Longrightarrow> keeps_regs M k k'"
  "outcome_result x k = Inr (r, k') \<Longrightarrow> keeps_regs M k k'"
proof -
  show s: "keeps_regs M k k'" if "set_result w k = Inr (r, k')" for w r
    using that by (auto simp: set_result_def andthen_eq_Inr dest!: set_regs_keeps_regs)
  show "set_eax w k = Inr (r, k') \<Longrightarrow> keeps_regs M k k'"
    by (auto simp: set_eax_def andthen_eq_Inr dest!: set_regs_keeps_regs)
  show "outcome_result x k = Inr (r, k') \<Longrightarrow> keeps_regs M k k'"
    by (auto simp: outcome_result_def split: outcome.split_asm dest: s)
qed

lemma new_thread_keeps_regs:
  assumes "new_thread func True k = Inr (t, k')"
  shows "keeps_regs M k k'" "\<exists>v. threads k' t = Some v \<and> M (regs v)"
proof -
  obtain v where "threads k' = (threads k)(t \<mapsto> v)" "boot_thread k' = boot_thread k" "M (regs v)" "t < next_obj k'" "next_obj k \<le> next_obj k'"
    using assms
    by (auto simp: new_thread_def alloc_thread_def Let_def andthen_eq_Inr upd_thread_def thread_of_def dest!: fs_same_eqs)
  then show "keeps_regs M k k'" "\<exists>v. threads k' t = Some v \<and> M (regs v)" by (fastforce simp: keeps_regs_def all_regs_def)+
qed

lemma clone_thread_keeps_regs:
  assumes "clone_thread t k = Inr (n, k')" and "t \<noteq> boot_thread k" and "threads k t \<noteq> None"
  shows "keeps_regs M k k'"
proof -
  have "all_regs M b k'" if inv: "all_regs M b k" for b
  proof -
    obtain v where v: "threads k t = Some v" using assms(3) by auto
    then have t: "t < next_obj k" "M (regs v)" using inv assms(2) by (auto simp: all_regs_def)
    obtain v' where v': "threads k' = (threads k)(next_obj k \<mapsto> v')" "boot_thread k' = boot_thread k" "regs v' = regs v"
      "next_obj k' = Suc (next_obj k)"
      using assms(1) v t
      by (auto simp: clone_thread_def alloc_thread_def Let_def andthen_eq_Inr upd_thread_def thread_of_def)
    show ?thesis using inv v' t(2) by (auto simp: all_regs_def less_SucI)
  qed
  moreover have "boot_thread k' = boot_thread k"
    using assms(1) by (auto simp: clone_thread_def alloc_thread_def Let_def andthen_eq_Inr upd_thread_def)
  ultimately show ?thesis by (simp add: keeps_regs_def)
qed

lemma sys_fork_keeps_regs:
  assumes "sys_fork k = Inr (r, k')" and "current k \<noteq> boot_thread k"
  shows "keeps_regs M k k'"
proof -
  obtain ch k1 t k2 where st: "fork_process k = Inr (ch, k1)" "upd_thread t (\<lambda>v. v\<lparr>regs := (regs v)\<lparr>r_eax := 0\<rparr>\<rparr>) k1 = Inr k2"
    "do_sched (scheduler_insert t) (kerrno 0 k2) = Inr k'"
    using assms(1) by (auto simp: sys_fork_def Let_def andthen_eq_Inr)
  obtain l t' l' where c: "same_threads k l" "current l = current k" "threads k (current k) \<noteq> None"
    "clone_thread (current k) l = Inr (t', l')" "add_thread ch t' l' = Inr k1"
    using fork_process_clones [OF st(1)] by blast
  have "keeps_regs M l l'" using c assms(2) by (intro clone_thread_keeps_regs [OF c(4)]) (simp_all add: same_threads_def)
  moreover have "keeps_regs M k l" "keeps_regs M l' k1" using c(1,5) by (blast intro: same_keeps add_thread_keeps_regs)+
  moreover have "keeps_regs M k1 k2" by (rule upd_thread_keeps_regs [OF st(2)]) simp
  moreover have "keeps_regs M k2 k'" using part_same(3) [OF st(3), THEN same_keeps] by (simp add: keeps_regs_def)
  ultimately show ?thesis by (meson keeps_regs_trans)
qed

lemma deliver_keeps_regs: "deliver th p hn g n k = Inr k' \<Longrightarrow> keeps_regs M k k'"
proof -
  assume "deliver th p hn g n k = Inr k'"
  then obtain k1 h k2 k3 k4 k5 k6 k7 k8 and tv :: thread where st: "switch_process p k = Inr k1" "new_thread hn True k1 = Inr (h, k2)"
    "add_thread p h k2 = Inr k3" "put_user_word (r_useresp (regs tv) - 4) n k3 = Inr k4"
    "put_user_word (r_useresp (regs tv) - 8) SIGNAL_RETURN_ADDRESS k4 = Inr k5"
    "upd_thread h (\<lambda>v. v\<lparr>regs := (regs v)\<lparr>r_useresp := r_useresp (regs tv) - 8, r_ebp := r_useresp (regs tv) - 8\<rparr>\<rparr>) k5 = Inr k6"
    "do_sched (scheduler_remove h) (free_signal g k6) = Inr k7"
    "do_sched (scheduler_sleep th (ThWaiting h)) k7 = Inr k8" "do_sched (scheduler_cheat h) k8 = Inr k'"
    unfolding deliver_def Let_def by (simp add: andthen_eq_Inr) (elim exE conjE, rule that, assumption+)
  have "keeps_regs M k5 k6" by (rule upd_thread_keeps_regs [OF st(6)]) simp
  then show "keeps_regs M k k'"
    using new_thread_keeps_regs(1) [OF st(2)] add_thread_keeps_regs [OF st(3)] st(1,4,5,7,8,9)
    by (auto dest!: keeps_all) (auto simp: keeps_regs_def free_signal_def)
qed

lemma run_default_keeps_regs: "run_default d n k = Inr (r, k') \<Longrightarrow> keeps_regs M k k'"
  by (cases d) (auto simp: andthen_eq_Inr dest: sys_exit_keeps_regs)

lemma handle_signals_keeps_regs: "handle_signals th k = Inr (r, k') \<Longrightarrow> keeps_regs M k k'"
  by (auto simp: handle_signals_def andthen_eq_Inr case_option_Inr split: if_split_asm dest: deliver_keeps_regs)
    (auto simp: keeps_regs_def free_signal_def dest!: run_default_keeps_regs)

lemma signal_process_keeps_regs: "signal_process n s k = Inr (r, k') \<Longrightarrow> keeps_regs M k k'"
  by (auto simp: signal_process_def andthen_eq_Inr case_option_Inr case_outcome_Inr keeps_regs_def split: if_split_asm
      dest!: keeps_all handle_signals_keeps_regs)

lemma page_fault_keeps_regs: "page_fault_handler addr err usr k = Inr (r, k') \<Longrightarrow> keeps_regs M k k'"
  by (auto simp: page_fault_handler_def andthen_eq_Inr keeps_regs_def split: if_split_asm
      dest!: keeps_all signal_process_keeps_regs return_from_signal_keeps_regs)

lemma to_user_keeps_regs: "to_user t k = Inr (r, k') \<Longrightarrow> keeps_regs M k k'"
  by (auto simp: to_user_def andthen_eq_Inr case_outcome_Inr dest!: upd_thread_keeps_regs)
    (auto simp: keeps_regs_def dest!: handle_signals_keeps_regs)

end

end
