(* ===== verification/Privileges.thy ===== *)
theory Privileges imports Registers DispatchProps begin

text \<open>
  The saved registers of user threads: no system call, signal, fork or switch assigns a thread other than the idle one registers with
  which it would go on in kernel mode or with access to all ports.
\<close>

section \<open>System calls and interrupts\<close>

lemma case_reg_ptr_Inr:
  "(case r of ThreadRegs t \<Rightarrow> f t | Frame n \<Rightarrow> g n) = Inr y \<longleftrightarrow> (\<exists>t. r = ThreadRegs t \<and> f t = Inr y) \<or> (\<exists>n. r = Frame n \<and> g n = Inr y)"
  by (cases r) auto

context user_registers
begin

lemma sys_kill_keeps_regs: "sys_kill n s k = Inr (r, k') \<Longrightarrow> keeps_regs M k k'"
  by (auto simp: sys_kill_def andthen_eq_Inr split: if_split_asm dest!: signal_process_keeps_regs)

lemma sys_thread_fork_keeps_regs:
  assumes "sys_thread_fork stack func arg k = Inr (r, k')" shows "keeps_regs M k k'"
proof -
  obtain t k1 p k2 k3 k4 where st: "new_thread func True k = Inr (t, k1)" "add_thread p t k1 = Inr k2"
    "put_user_word (stack - 4) arg k2 = Inr k3" "put_user_word (stack - 8) SIGNAL_RETURN_ADDRESS k3 = Inr k4"
    "upd_thread t (\<lambda>v. v\<lparr>regs := (regs v)\<lparr>r_useresp := stack - 8, r_ebp := stack - 8\<rparr>\<rparr>) k4 = Inr k'"
    using assms by (auto simp: sys_thread_fork_def andthen_eq_Inr)
  have "keeps_regs M k4 k'" by (rule upd_thread_keeps_regs [OF st(5)]) simp
  then show ?thesis using new_thread_keeps_regs(1) [OF st(1)] st(2-4)
    by (auto dest!: keeps_all add_thread_keeps_regs) (auto simp: keeps_regs_def)
qed

lemma upd_kernel_thread_keeps_regs: "upd_thread t (\<lambda>v. v\<lparr>kernel_thread := kt\<rparr>) k = Inr k' \<Longrightarrow> keeps_regs M k k'"
  by (erule upd_thread_keeps_regs) simp

lemma exec_regs_keeps_regs:
  "set_regs (\<lambda>r. r\<lparr>r_eax := 0, r_ebx := 0, r_ecx := 0, r_edx := 0\<rparr>) k = Inr k' \<Longrightarrow> keeps_regs M k k'"
  "set_regs (\<lambda>r. r\<lparr>r_useresp := sp, r_ebp := sp, r_ecx := sp\<rparr>) k = Inr k' \<Longrightarrow> keeps_regs M k k'"
  "set_regs (\<lambda>r. r\<lparr>r_eip := ip\<rparr>) k = Inr k' \<Longrightarrow> keeps_regs M k k'"
  "set_regs (\<lambda>r. r\<lparr>r_edx := w\<rparr>) k = Inr k' \<Longrightarrow> keeps_regs M k k'"
  by (erule set_regs_keeps_regs; simp)+

lemma sys_execve_keeps_regs: "sys_execve g1 g2 g3 path argv env k = Inr (r, k') \<Longrightarrow> keeps_regs M k k'"
  by (auto simp: sys_execve_def andthen_eq_Inr Let_def case_option_Inr keeps_regs_def split: if_split_asm
      dest!: keeps_all exec_regs_keeps_regs upd_kernel_thread_keeps_regs)

lemma run_call_keeps_regs:
  assumes "run_call e c k = Inr (r, k')" and "current k \<noteq> boot_thread k"
  shows "keeps_regs M k k'"
proof (cases c)
  case C_execve
  then show ?thesis using assms(1)
    by (auto simp: k_execve_def andthen_eq_Inr keeps_regs_def split: if_split_asm
        dest!: keeps_all sys_execve_keeps_regs result_keeps_regs exec_regs_keeps_regs)
next
  case C_fork
  then show ?thesis using assms
    by (auto simp: k_fork_def andthen_eq_Inr keeps_regs_def dest!: sys_fork_keeps_regs result_keeps_regs)
next
  case C_kill
  then show ?thesis using assms(1)
    by (auto simp: k_kill_def andthen_eq_Inr keeps_regs_def dest!: keeps_all sys_kill_keeps_regs result_keeps_regs)
next
  case C_read
  then show ?thesis using assms(1)
    by (auto simp: k_read_def andthen_eq_Inr keeps_regs_def case_outcome_Inr dest!: keeps_all result_keeps_regs)
next
  case C_thread
  then show ?thesis using assms(1)
    by (auto simp: k_thread_fork_def andthen_eq_Inr keeps_regs_def dest!: keeps_all sys_thread_fork_keeps_regs result_keeps_regs)
next
  case C_link
  then show ?thesis using assms(1)
    by (auto simp: k_link_def sys_link_def keeps_regs_def dest!: result_keeps_regs)
next
  case C_unlink
  then show ?thesis using assms(1)
    by (auto simp: k_unlink_def sys_unlink_def keeps_regs_def dest!: result_keeps_regs)
next
  case C_times
  then show ?thesis using assms(1)
    by (auto simp: k_times_def sys_times_def keeps_regs_def dest!: result_keeps_regs)
next
  case C_wait
  then show ?thesis using assms(1)
    by (auto simp: k_wait_def sys_wait_def keeps_regs_def dest!: result_keeps_regs)
next
  case C_yield
  then show ?thesis using assms(1) by (simp add: k_yield_def)
next
  case C_exit
  then show ?thesis using assms(1)
    by (auto simp: k_exit_def andthen_eq_Inr keeps_regs_def dest!: keeps_all sys_exit_keeps_regs)
next
  case C_waitpid
  then show ?thesis using assms(1)
    by (auto simp: k_waitpid_def andthen_eq_Inr keeps_regs_def dest!: keeps_all waitpid_keeps_regs result_keeps_regs)
qed (use assms(1) in \<open>auto simp: k_close_def k_fstat_def k_getpid_def k_isatty_def k_lseek_def k_open_def k_sbrk_def k_stat_def
    k_write_def k_signal_def k_readdir_def k_dup_def k_dup2_def k_pipe_def k_process_debug_def k_printf_def k_vidmem_def
    andthen_eq_Inr keeps_regs_def case_option_Inr
    dest!: keeps_all result_keeps_regs exec_regs_keeps_regs\<close>)

lemma syscall_handler_keeps_regs:
  "syscall_handler e tab k = Inr (r, k') \<Longrightarrow> current k \<noteq> boot_thread k \<Longrightarrow> keeps_regs M k k'"
  by (auto simp: syscall_handler_def andthen_eq_Inr case_option_Inr split: if_split_asm
      dest!: run_call_keeps_regs exec_regs_keeps_regs)

lemma keyboard_keeps_regs: "keyboard_handler st sc kb k = Inr (r, kb', k') \<Longrightarrow> keeps_regs M k k'"
  by (auto simp: keyboard_handler_def andthen_eq_Inr case_outcome_Inr Let_def keeps_regs_def split: prod.split_asm dest!: keeps_all)

text \<open>A handler for registers of a thread: they are those of the running thread, which is not the idle one.\<close>

lemma run_handler_keeps_regs:
  assumes "run_handler e hw h r s = Inr (out, s')" and "r \<noteq> ThreadRegs (boot_thread (kern s))"
  shows "keeps_regs M (kern s) (kern s')"
proof (cases h)
  case SyscallHandler
  then show ?thesis using assms
    by (auto simp: andthen_eq_Inr split: if_split_asm dest!: syscall_handler_keeps_regs)
qed (use assms in \<open>auto simp: andthen_eq_Inr Let_def timer_tick_def
    dest!: page_fault_keeps_regs switch_kernel_thread_keeps_regs keyboard_keeps_regs\<close>)

lemma idt_handler_keeps_regs:
  assumes "idt_handler e hw r s = Inr (out, s')" and "r \<noteq> ThreadRegs (boot_thread (kern s))"
  shows "keeps_regs M (kern s) (kern s')"
proof -
  have o: "kern (outb_all os s) = kern s" for os by (simp add: outb_all_def)
  show ?thesis using assms
    by (auto simp: idt_handler_def andthen_eq_Inr Let_def case_option_Inr case_outcome_Inr case_reg_ptr_Inr o
        split: if_split_asm dest!: run_handler_keeps_regs to_user_keeps_regs)
      (auto simp: keeps_regs_def o)
qed

section \<open>The start of the kernel\<close>

lemma process_init_regs:
  assumes "process_init func k = Inr (p, k')" and "threads k = (\<lambda>_. None)"
  shows "\<exists>b. all_regs M b k'"
proof -
  obtain k1 d k2 k3 t k4 k5 k6 where st: "alloc_process (k\<lparr>process_list := init_list (process_list k) ProcessList\<rparr>) = Inr (p, k1)"
    "on_machine vmm_clone_pd k1 = Inr (d, k2)" "set_pd p d k2 = Inr k3" "new_thread func False k3 = Inr (t, k4)"
    "add_thread p t k4 = Inr k5" "upd_thread t (\<lambda>v. v\<lparr>regs := (regs v)\<lparr>r_eflags := EFL_INT\<rparr>\<rparr>) k5 = Inr k6"
    "switch_process p (k6\<lparr>esp0 := Some t, boot_thread := t, kfs := (kfs k6)\<lparr>cur_th := t\<rparr>\<rparr>) = Inr k'"
    using assms(1) by (auto simp: process_init_def Let_def andthen_eq_Inr)
  have "threads k3 = (\<lambda>_. None)"
    using st(1-3) assms(2) by (auto dest!: leaves_threads) (simp add: same_threads_def)
  then obtain v where v: "threads k4 = (\<lambda>_. None)(t \<mapsto> v)" "t < next_obj k4"
    using st(4) by (auto simp: new_thread_def alloc_thread_def Let_def andthen_eq_Inr upd_thread_def thread_of_def dest!: fs_same_eqs)
  then obtain w where "threads k6 = (\<lambda>_. None)(t \<mapsto> w)" "next_obj k6 = next_obj k4"
    using st(5,6) by (auto simp: add_thread_def upd_thread_def thread_of_def andthen_eq_Inr)
  then have "all_regs M t k'" using fs_same_eqs(12) [OF st(7)] v by (auto simp: all_regs_def)
  then show ?thesis by blast
qed

lemma start_init_keeps_regs: "start_init b k = Inr k' \<Longrightarrow> keeps_regs M k k'"
proof -
  assume "start_init b k = Inr k'"
  then obtain x k1 w t k2 q where st: "sys_execve (junk_header b) (junk_header b) (junk_pheads b) ''/bin/init'' None None k = Inr (x, k1)"
    "new_thread w True k1 = Inr (t, k2)" "upd_thread t (\<lambda>v. v\<lparr>proc := Some q\<rparr>) k2 = Inr k'"
    by (auto simp: start_init_def andthen_eq_Inr)
  have "keeps_regs M k2 k'" by (rule upd_thread_keeps_regs [OF st(3)]) simp
  then show "keeps_regs M k k'"
    using sys_execve_keeps_regs [OF st(1)] new_thread_keeps_regs(1) [OF st(2)] by (meson keeps_regs_trans)
qed

lemma boot_step_keeps_regs:
  "mount_tarfs path loc k = Inr k' \<Longrightarrow> keeps_regs M k k'" "mount_debug k = Inr k' \<Longrightarrow> keeps_regs M k k'"
  "keyboard_init j1 j2 k = Inr (kb, k') \<Longrightarrow> keeps_regs M k k'"
  by (auto simp: mount_tarfs_def mount_debug_def keyboard_init_def new_desc_def andthen_eq_Inr Let_def split_beta same_threads_def
      intro!: same_keeps dest!: fs_same_eqs)

lemma on_kern_keeps_regs:
  "on_kern f s = Inr s' \<Longrightarrow> (\<And>k k'. f k = Inr k' \<Longrightarrow> keeps_regs M k k') \<Longrightarrow> keeps_regs M (kern s) (kern s')"
  by (auto simp: on_kern_def andthen_eq_Inr)

lemma kinit_regs:
  assumes "kinit b mboot magic s = Inr (r, s')" and "threads (kern s) = (\<lambda>_. None)"
  shows "\<exists>idle. all_regs M idle (kern s')"
proof -
  have reg: "kern s' = kern s" if "register_int_handler n h s = Inr (old, s')" for n h s old s'
    using that by (auto simp: register_int_handler_def split: if_split_asm)
  have mem: "same_threads k k'" if "init_memory mboot k = Inr (tar, k')" for tar k k'
    using that by (auto simp: init_memory_def andthen_eq_Inr Let_def same_threads_def dest!: fs_same_eqs)
  have tss: "kern s' = kern s" if "tss_init base s = Inr s'" for base s s'
    using that by (auto simp: tss_init_def Let_def split: if_split_asm)
  have tim: "kern s' = kern s" if "start_timer f s = Inr s'" for f s s'
    using that by (auto simp: start_timer_def andthen_eq_Inr outb_all_def dest!: reg)
  have sys: "kern s' = kern s" if "start_syscalls s = Inr s'" for s s'
    using that by (auto simp: start_syscalls_def andthen_eq_Inr dest!: reg)
  have kbd: "keeps_regs M (kern s) (kern s')" if "start_keyboard j1 j2 s = Inr s'" for j1 j2 s s'
    using that by (auto simp: start_keyboard_def andthen_eq_Inr dest!: reg boot_step_keeps_regs)
  have sch: "same_threads (kern s) (kern s')" if "on_kern (do_sched scheduler_init) s = Inr s'" for s s'
    using that by (auto simp: on_kern_def andthen_eq_Inr dest: leaves_threads)
  have out: "kern (setup_interrupts isr s) = kern s" for isr s by (simp add: setup_interrupts_def outb_all_def)
  obtain s0 tar k1 s1 o1 s2 o2 s3 s4 s5 s6 p k2 s8 s9 s10 s11 x1 k3 x2 k4 k5 k6 where st:
    "init_memory mboot (kern s) = Inr (tar, k1)"
    "tss_init (tss_address b) (setup_interrupts (stubs b) (s0\<lparr>kern := k1\<rparr>)) = Inr s1"
    "register_int_handler (unat INT_PF) PageFaultHandler s1 = Inr (o1, s2)"
    "register_int_handler (unat INT_SCHEDULE) SwitchHandler s2 = Inr (o2, s3)"
    "on_kern (do_sched scheduler_init) s3 = Inr s4" "start_timer 500 s4 = Inr s5" "start_syscalls s5 = Inr s6"
    "process_init (idle_address b) (kern s6) = Inr (p, k2)"
    "on_kern (mount_tarfs ''/'' tar) (s6\<lparr>kern := k2\<lparr>kfs := vfs_init (kfs k2)\<rparr>, debug_enabled := True\<rparr>) = Inr s8"
    "on_kern (mount_tarfs ''/mnt/tarfs'' tar) s8 = Inr s9" "on_kern mount_debug s9 = Inr s10"
    "start_keyboard (junk_kbd b) (junk_raw b) s10 = Inr s11"
    "sys_open 0 ''/dev/debug'' (fopen_w b) (kern s11) = Inr (x1, k3)" "sys_open 0 ''/dev/debug'' (fopen_w b) k3 = Inr (x2, k4)"
    "start_init b k4 = Inr k5" "s11\<lparr>kern := k6\<rparr> = s'" "switch_kernel_thread None k5 = Inr (r, k6)"
    using assms(1) unfolding kinit_def Let_def
    by (simp add: andthen_eq_Inr split: if_split_asm) (elim exE conjE, rule that, assumption+)
  have "same_threads (kern s) (kern s6)"
    using mem [OF st(1)] tss [OF st(2)] reg [OF st(3)] reg [OF st(4)] sch [OF st(5)] tim [OF st(6)] sys [OF st(7)] out
    by (auto simp: same_threads_def)
  then have "threads (kern s6) = (\<lambda>_. None)" using assms(2) by (simp add: same_threads_def)
  then obtain idle where "all_regs M idle k2" using process_init_regs [OF st(8)] by blast
  moreover have "keeps_regs M (k2\<lparr>kfs := vfs_init (kfs k2)\<rparr>) (kern s8)" using on_kern_keeps_regs [OF st(9) boot_step_keeps_regs(1)] by simp
  moreover have "keeps_regs M (kern s8) (kern s10)"
    using on_kern_keeps_regs [OF st(10) boot_step_keeps_regs(1)] on_kern_keeps_regs [OF st(11) boot_step_keeps_regs(2)]
    by (meson keeps_regs_trans)
  moreover have "keeps_regs M (kern s10) k4"
    using kbd [OF st(12)] open_same [OF st(13), THEN same_keeps] open_same [OF st(14), THEN same_keeps] by (meson keeps_regs_trans)
  moreover have "keeps_regs M k4 k6"
    using start_init_keeps_regs [OF st(15)] switch_kernel_thread_keeps_regs [OF st(17)] by (meson keeps_regs_trans)
  ultimately have "all_regs M idle (kern s')" using st(16) by (auto simp: keeps_regs_def)
  then show ?thesis by blast
qed

end

section \<open>Runs of the machine\<close>

text \<open>
  Registers with which the processor runs in user mode, and which give no access to ports by their privilege level.
\<close>

definition user_mode :: "registers \<Rightarrow> bool" where
  "user_mode r \<longleftrightarrow> r_cs r AND 3 = 3 \<and> r_ss r AND 3 = 3 \<and> r_eflags r AND 0x3000 = 0"

lemma keeps_level: "(x OR EFL_INT) AND 0x3000 = x AND (0x3000 :: u32)"
proof -
  have "EFL_INT AND 0x3000 = 0" by (simp add: EFL_INT_def)
  then show ?thesis by (simp add: bit.conj_disj_distrib2)
qed

interpretation um: user_registers user_mode
  by unfold_locales
    (simp_all add: user_mode_def start_regs_def zero_regs_def keeps_level SEG_USER_CODE_def SEG_USER_DATA_def)

text \<open>
  A run: interrupts, calls and signals that go on after a sleep, registers that the kernel pushes on its stack, and user
  code, which may change its registers and memory as long as it stays in user mode. The idle thread makes no calls.
\<close>

inductive machine_run :: "environment \<Rightarrow> system \<Rightarrow> system \<Rightarrow> bool" for e where
  at_start: "machine_run e s s"
| interrupt: "machine_run e s l \<Longrightarrow> idt_handler e hw r l = Inr (out, l') \<Longrightarrow> r \<noteq> ThreadRegs (boot_thread (kern l)) \<Longrightarrow>
    machine_run e s l'"
| resumed_call: "machine_run e s l \<Longrightarrow> run_call e c (kern l) = Inr (u, k') \<Longrightarrow> current (kern l) \<noteq> boot_thread (kern l) \<Longrightarrow>
    machine_run e s (l\<lparr>kern := k'\<rparr>)"
| resumed_return: "machine_run e s l \<Longrightarrow> to_user t (kern l) = Inr (n, k') \<Longrightarrow> machine_run e s (l\<lparr>kern := k'\<rparr>)"
| pushed_frame: "machine_run e s l \<Longrightarrow> machine_run e s (l\<lparr>kern := (kern l)\<lparr>frames := fr\<rparr>\<rparr>)"
| user_code: "machine_run e s l \<Longrightarrow> threads (kern l) t = Some v \<Longrightarrow> t \<noteq> boot_thread (kern l) \<Longrightarrow> user_mode r' \<Longrightarrow>
    machine_run e s (l\<lparr>kern := (kern l)\<lparr>threads := (threads (kern l))(t \<mapsto> v\<lparr>regs := r'\<rparr>), kmm := m\<rparr>\<rparr>)"

lemma machine_run_keeps: "machine_run e s s' \<Longrightarrow> keeps_regs user_mode (kern s) (kern s')"
proof (induction rule: machine_run.induct)
  case (user_code s l t v r' m)
  then show ?case by (auto simp: keeps_regs_def all_regs_def)
next
  case (pushed_frame s l fr)
  then show ?case by (simp add: keeps_regs_def)
qed (auto intro: keeps_regs_trans dest: um.idt_handler_keeps_regs um.run_call_keeps_regs um.to_user_keeps_regs)

text \<open>
  Along every run of the machine no assignment of the kernel to saved registers gives a thread other than the idle one the kernel's code or
  stack segment, or a privilege level that lets it use ports. The saved registers are objects of their own here; in the machine they lie
  in kernel memory, which a thread can write through the pointers the kernel does not check (the stack pointer given to \<open>thread_fork\<close> or
  left in its registers when a signal is delivered, the result arrays of \<open>pipe\<close> and \<open>readdir\<close>). The lemma is about the assignments only and
  is no protection against these.
\<close>

lemma runs_keep_user_mode:
  assumes "machine_run e s s'" and "boot_thread (kern s) = idle"
    and "\<forall>t v. threads (kern s) t = Some v \<longrightarrow> t < next_obj (kern s) \<and> (t = idle \<or> user_mode (regs v))"
  shows "\<forall>t v. threads (kern s') t = Some v \<longrightarrow> t = idle \<or> user_mode (regs v)"
proof -
  have "all_regs user_mode idle (kern s)" using assms(2,3) by (auto simp: all_regs_def)
  then have "all_regs user_mode idle (kern s')" using machine_run_keeps [OF assms(1)] by (simp add: keeps_regs_def)
  then show ?thesis by (auto simp: all_regs_def)
qed

end
