(* ===== verification/Programs.thy ===== *)
theory Programs imports Libc begin

text \<open>
  The small programs under \<^verbatim>\<open>tarfs/src/\<close>: what they print, as bytes, and the calls they make. \<open>printf\<close> of the C library
  is replaced by the text it produces.
\<close>

definition bytes_of :: "string \<Rightarrow> u8 list" where
  "bytes_of s = map of_char s"

section \<open>Text\<close>

definition echo :: "u8 list list \<Rightarrow> u8 list" where
  "echo argv = concat (map (\<lambda>s. s @ [0x20]) (drop 1 argv)) @ [10]"

definition env_program :: "u8 list list \<Rightarrow> u8 list" where
  "env_program env = concat (map (\<lambda>s. s @ [10]) env)"

definition hello :: "u8 list" where
  "hello = bytes_of ''Hello, world!''"

text \<open>\<open>name\<close> drops the last character of the line it has read, the newline; an empty line writes in front of the array.\<close>

definition name_program :: "u8 list \<Rightarrow> u8 list res" where
  "name_program line =
     (if line = [] then Inl Overrun else Inr (bytes_of ''Hi! What'' @ [0x27] @ bytes_of ''s your name?'' @ [10] @ bytes_of ''Hello, '' @ butlast line @ bytes_of ''.''))"

text \<open>The rows of \<open>escape\<close>: every pair of colours, in the four styles.\<close>

definition colour :: "nat \<Rightarrow> nat \<Rightarrow> u8 list" where
  "colour i j = [0x1B, 0x5B, 0x33, 0x30 + of_nat i, 0x3B, 0x34, 0x30 + of_nat j, 0x6D, 0x58]"

definition colour_row :: "nat \<Rightarrow> u8 list" where
  "colour_row i =
     (let row = concat (map (colour i) [0..<8]) in
      [0x1B, 0x5B, 0x30, 0x6D] @ row @ [0x1B, 0x5B, 0x30, 0x3B, 0x31, 0x6D] @ row @
      [0x1B, 0x5B, 0x30, 0x3B, 0x37, 0x6D] @ row @ [0x1B, 0x5B, 0x30, 0x3B, 0x31, 0x3B, 0x37, 0x6D] @ row @ [10])"

definition colour_table :: "u8 list" where
  "colour_table = concat (map colour_row [0..<8])"

text \<open>The lines in front of the table move the cursor; a part that follows an escape character starts in the next string.\<close>

definition escape_line :: "string list \<Rightarrow> u8 list" where
  "escape_line parts = bytes_of (hd parts) @ concat (map (\<lambda>p. 0x1B # bytes_of p) (tl parts)) @ [10]"

definition escape_head :: "u8 list" where
  "escape_head = concat (map escape_line
     [[''Clearing screen '', ''[2J''], [''Right:'', ''[5Chere''], [''Left:     .'', ''[5Dhere''],
      [''Down:'', ''[2BUp:'', ''[1ABack''], [''Failed code '', ''[25;34;12x end''], [[], ''[0;3HPosition''],
      [[], ''[6;0fPosition2''], [''1234567890'', ''[3Dc'', ''[K'']])"

definition escape :: "u8 list" where
  "escape = escape_head @ colour_table"

section \<open>Calls\<close>

text \<open>\<open>ls\<close>: the names of the entries, read at \<open>de\<close>, until there is none.\<close>

partial_function (option) ls_loop :: "environment \<Rightarrow> u32 \<Rightarrow> DIR \<Rightarrow> u8 list \<Rightarrow> libc \<Rightarrow> ((u8 list \<times> DIR) called \<times> libc) res option" where
  "ls_loop e de d acc s =
     (case readdir e de d s of
        Inl x \<Rightarrow> Some (Inl x)
      | Inr (out, s) \<Rightarrow>
         (case out of
            Asleep w \<Rightarrow> Some (Inr (Asleep w, s))
          | Away t \<Rightarrow> Some (Inr (Away t, s))
          | Back (r, d) \<Rightarrow>
             if r = 0 then Some (Inr (Back (acc, d), s))
             else (case returns (user_bytes (r + 4) [] (lkern s)) of
                     Inl x \<Rightarrow> Some (Inl x)
                   | Inr (bs, k) \<Rightarrow> ls_loop e de d (acc @ bs @ [10]) (s\<lparr>lkern := k\<rparr>))))"

text \<open>
  The exit code and the output; \<open>root\<close> is the address of the string of the root. Without an argument \<open>argv1\<close> is a null
  pointer, which \<open>printf\<close> shows as a word.
\<close>

definition ls :: "environment \<Rightarrow> u32 \<Rightarrow> u32 \<Rightarrow> u32 \<Rightarrow> u32 \<Rightarrow> libc \<Rightarrow> ((u32 \<times> u8 list) called \<times> libc) res" where
  "ls e de root argc argv1 s =
     andback (opendir e (if 1 <s argc then argv1 else root) s) (\<lambda>dirp s.
     case dirp of
       None \<Rightarrow> andthen (if argv1 = 0 then Inr (bytes_of ''(null)'', lkern s) else returns (user_bytes argv1 [] (lkern s))) (\<lambda>(nm, k).
               Inr (Back (1, bytes_of ''ls: '' @ nm @ bytes_of '' : No such directory'' @ [10]), s\<lparr>lkern := k\<rparr>))
     | Some d \<Rightarrow>
        andback (returns (ls_loop e de (rewinddir d) (bytes_of ''ls:'' @ [10]) s)) (\<lambda>(out, d) s.
        andback (closedir e d s) (\<lambda>_ s. Inr (Back (0, out), s))))"

text \<open>\<open>init\<close> sets two variables before its loop; an environment maps names to values.\<close>

definition init_environment :: "(u8 list \<Rightarrow> u8 list option) \<Rightarrow> u8 list \<Rightarrow> u8 list option" where
  "init_environment env = env(bytes_of ''HOME'' \<mapsto> bytes_of ''/'', bytes_of ''PATH'' \<mapsto> bytes_of ''/bin:/usr/sbin:/bin'')"

text \<open>A round of the loop of \<open>init\<close>: the child becomes the terminal, the parent waits for it.\<close>

definition init_round :: "environment \<Rightarrow> u32 \<Rightarrow> u32 \<Rightarrow> libc \<Rightarrow> (u32 called \<times> libc) res" where
  "init_round e path command s =
     andback (libc_fork e s) (\<lambda>n s. if n \<noteq> 0 then stub e SYSCALL_WAITPID [n] s else libc_execve e path command (environ s) s)"

text \<open>\<open>debug\<close> marks its process, then becomes the program given by its arguments; \<open>run\<close> is \<open>execvp\<close> on them.\<close>

definition debug_program :: "environment \<Rightarrow> (libc \<Rightarrow> (u32 called \<times> libc) res) \<Rightarrow> libc \<Rightarrow> (u32 called \<times> libc) res" where
  "debug_program e run s = andback (stub e SYSCALL_PDBG [] s) (\<lambda>_ s. andback (run s) (\<lambda>_ s. Inr (Back 1, s)))"

section \<open>Test programs\<close>

definition loop_program :: "libc \<Rightarrow> (u32 called \<times> libc) res" where
  "loop_program s = Inl Hang"

text \<open>A write to an address that is not mapped; the first line is printed before, the second one when it has gone well.\<close>

definition pagefault_program :: "libc \<Rightarrow> ((u32 \<times> u8 list) called \<times> libc) res" where
  "pagefault_program s =
     andthen (put_user 0x12345678 (bytes_of ''Page fault!'' @ [0]) (lkern s)) (\<lambda>k.
     Inr (Back (0, bytes_of ''Causing page fault!'' @ [10] @ bytes_of ''Page fault caused.'' @ [10]), s\<lparr>lkern := k\<rparr>))"

text \<open>The conversion \<open>%d\<close>.\<close>

fun decimal :: "nat \<Rightarrow> u8 list" where
  "decimal n = (if n < 10 then [0x30 + of_nat n] else decimal (n div 10) @ [0x30 + of_nat (n mod 10)])"

declare decimal.simps [simp del]

definition signed_decimal :: "u32 \<Rightarrow> u8 list" where
  "signed_decimal w = (if sint w < 0 then 0x2D # decimal (nat (- sint w)) else decimal (nat (sint w)))"

text \<open>\<open>signal\<close>: a handler that changes a variable, at \<open>var\<close>, and a program that sends itself a signal.\<close>

definition signal_handler :: "u32 \<Rightarrow> u32 \<Rightarrow> libc \<Rightarrow> (u8 list \<times> libc) res" where
  "signal_handler var a s =
     andthen (put_user_word var 2 (lkern s)) (\<lambda>k. Inr (bytes_of ''Signal handler got '' @ signed_decimal a @ [10], s\<lparr>lkern := k\<rparr>))"

definition signal_program :: "environment \<Rightarrow> u32 \<Rightarrow> u32 \<Rightarrow> libc \<Rightarrow> ((u32 \<times> u8 list) called \<times> libc) res" where
  "signal_program e handler var s =
     andback (libc_signal e 2 handler s) (\<lambda>_ s.
     andback (libc_getpid e s) (\<lambda>n s.
     andback (libc_kill e n 2 s) (\<lambda>_ s.
     andthen (get_user_word var (lkern s)) (\<lambda>(v, k).
     Inr (Back (0, bytes_of ''Registering signal handler'' @ [10] @ bytes_of ''Sending kill request'' @ [10] @
       bytes_of ''Variable='' @ signed_decimal v @ [10]), s\<lparr>lkern := k\<rparr>)))))"

end
