(* ===== verification/Spec2Isabelle.thy ===== *)
theory Spec2Isabelle imports Lists PmmProps VmmProps SchedSpec AreaProps PipeLive Vfs PathNames FdProps Syscalls ConsoleProps TerminalProps TerminalMain ShellProps DispatchProps ExecArgs ExitWait HeapGrowth CopyOnWrite ForkMemory Privileges Programs begin

text \<open>
  os5 is a small Unix-like kernel for 32 bit x86 with a tar file as its disk and a handful of user programs. This is a model of
  all of its C code that computes: each function of \<^verbatim>\<open>src/kernel\<close>, \<^verbatim>\<open>src/toolchain/myos\<close> and \<^verbatim>\<open>src/tarfs/src\<close> is a
  definition of the same name, and the theorems say what the components do.

  \<^bold>\<open>How the parts work together.\<close> The memory managers give out physical pages and set page tables; the memory areas of
  a process say which pages it may have, and a page fault asks them. Threads wait on queues of the scheduler: the run queue, and
  the queues of pipes, processes and threads. The virtual file system calls drivers (tar file system, pipes, debug
  device) through a table. Processes own memory areas, threads, signals and a table of file descriptors. A system call enters through
  the interrupt table, takes its arguments from the user's stack and leaves its result in two registers, where the C library
  finds them; the programs use the C library. One record per layer holds the state: \<open>vm\<close> (machine and memory managers) in \<open>mms\<close>
  (memory areas), \<open>sched\<close> in \<open>fs\<close> (file systems and pipes), both in \<open>kernel\<close>, \<open>kernel\<close> in \<open>system\<close> (interrupts, devices) and
  in \<open>libc\<close> (a program's view).

  \<^bold>\<open>Conventions.\<close> Integers keep their width (\<open>u8\<close>, \<open>u16\<close>, \<open>u32\<close>). Kernel code gives \<open>'a res\<close>: \<open>Inr\<close> a result, or \<open>Inl\<close>
  a reason to stop (\<open>Panic\<close>, \<open>Hang\<close>, \<open>Deadlock\<close>, \<open>Fault\<close>, \<open>BadPtr\<close>, \<open>Overrun\<close>). Objects are named by numbers, a pointer is a number or
  \<open>None\<close>, and \<open>malloc\<close> gives a number that was never used and does not fail. A loop that may not end is a \<open>partial_function (option)\<close>;
  \<open>None\<close> is an endless loop and becomes \<open>Hang\<close> (\<open>returns\<close>). A call that gives the processor away ends with
  the outcome \<open>Sleeps\<close>, and goes on with another call of the model when its thread is woken. What the hardware answers (ports, the
  fault address) is an argument, bytes sent to ports are a list of pairs.

  \<^bold>\<open>Memory.\<close>
  \<^item> \<open>Machine\<close>: physical memory, address translation, kernel variables. \<open>Paging\<close> and \<open>VmmOps\<close>: \<^verbatim>\<open>kernel/mem/pmm.c\<close> and
    \<^verbatim>\<open>kernel/mem/vmm.c\<close>. The allocator and \<open>vmm_page_set\<close> call each other; the recursion is unrolled to depth 2, and \<open>pmm_alloc_page_eq\<close> shows
    that this is a solution of the recursive equations. \<open>Tables\<close>, \<open>Pmm\<close>: the invariants \<open>tables_ok\<close> and \<open>pmm_ok\<close>. \<open>PmmSpec\<close>: the allocator as a
    locale over a bag of pages. \<open>PmmProps\<close>, \<open>VmmProps\<close>: the properties.
  \<^item> \<open>Procmm\<close>: \<^verbatim>\<open>kernel/mem/procmm.c\<close>. \<open>Areas\<close>, \<open>AreaOps\<close>, \<open>NewArea\<close>: the areas of a process refine a partial function from
    addresses to permissions. \<open>AreaProps\<close>: lookup, overriding by a new area, growth of the stack.
  \<^item> \<open>AllocEffect\<close>, \<open>SpaceSteps\<close>, \<open>CloneSpace\<close>: what the steps of \<open>vmm_clone_pd\<close> leave alone, and the address space it makes.
    \<open>WriteProtect\<close>, \<open>ForkAreas\<close>, \<open>ForkMemory\<close>: \<open>procmm_fork\<close> takes the right to write away page by page and shares the areas; with
    \<open>vmm_clone_pd\<close> this is the memory of a forked process. \<open>AreaSplit\<close>, \<open>CopyOnWrite\<close>: the page fault of a write to a shared page cuts
    the page out of its area and out of every area that shares it, and copies it.
  \<^item> \<open>HeapGrowth\<close>: the loop of the kernel's \<open>sbrk\<close> (\<^verbatim>\<open>kernel/syscall/sys_mem.c\<close>) ends for every request that is accepted.

  \<^bold>\<open>Threads and processes.\<close>
  \<^item> \<open>Lists\<close>, \<open>ListFamily\<close>: the macros of \<^verbatim>\<open>kernel/include/lists.h\<close>, and families of lists in one heap of links.
  \<^item> \<open>Scheduler\<close>, \<open>SchedSpec\<close>: \<^verbatim>\<open>kernel/proc/scheduler.c\<close> as queues, its contract as a locale, and order of waking and running.
  \<^item> \<open>Kernel\<close>, \<open>Threads\<close>, \<open>Processes\<close>, \<open>Signals\<close>, \<open>Elf\<close>, \<open>SysProcess\<close>: the state, \<^verbatim>\<open>kernel/proc\<close>, and the process calls. \<open>ExitWait\<close>: the end of
    a process, seen by the threads that wait for it.
  \<^item> \<open>UserMem\<close>, \<open>UserMemProps\<close>: access of the kernel to user memory. The processor repeats an access until no page fault is raised or the
    fault is not resolved; this is a loop (\<open>user_byte_loop\<close>, \<open>put_user_byte_loop\<close>). \<open>StackFaults\<close>: the two faults of the first write to a
    fresh stack, which add a page to the stack area and map it. \<open>ExecArgs\<close>: the arguments of a new program are the ones that were given.
  \<^item> \<open>Registers\<close>, \<open>Privileges\<close>: along a run of the machine (\<open>machine_run\<close>) the kernel assigns no saved registers that leave user mode, with a
    locale as the contract of the predicate on registers. Saved registers are objects of their own in the model. In the machine they lie in
    kernel memory, and the calls \<open>thread_fork\<close>, \<open>pipe\<close> and \<open>readdir\<close> and the delivery of signals write through user pointers that are not
    checked, so this is no proof of isolation.

  \<^bold>\<open>Files.\<close>
  \<^item> \<open>FsState\<close>, \<open>Vfs\<close>, \<open>Tarfs\<close>, \<open>Pipes\<close>: \<^verbatim>\<open>kernel/fs\<close>. A pipe call is a sequence of rounds between which the
    thread sleeps (\<open>write_pipe_from\<close> goes on behind the bytes already written). \<open>PipeSpec\<close>: a pipe is a bounded queue of bytes, stated as a
    locale. \<open>PipeLive\<close>: a writer and a reader that sleep and wake each other through the scheduler always finish; three rounds for each
    byte are enough fuel for \<open>pump\<close>, since a byte is read at the latest in every third round.
    \<open>PathNames\<close>: \<open>canonicalize_path\<close> gives the normal form.
  \<^item> \<open>SysFs\<close>: \<^verbatim>\<open>kernel/syscall/sys_fs.c\<close>. \<open>FdTable\<close>, \<open>FdRuns\<close>, \<open>FdProps\<close>: the user count of a descriptor is the number of slots that
    hold it, along every run of calls, forks, ends of processes and switches.

  \<^bold>\<open>Interrupts and calls.\<close>
  \<^item> \<open>Syscalls\<close>: table of calls and their wrappers, interrupt table, return to user mode. \<open>Dispatch\<close>: the common interrupt
    handler and \<open>kinit\<close>, the start of the kernel. \<open>DispatchProps\<close>: which interrupts there are, who may raise them, what an interrupt without
    handler does, and the segment of the task state.
  \<^item> \<open>Devices\<close>, \<open>Console\<close>, \<open>ConsoleProps\<close>: \<^verbatim>\<open>kernel/drivers\<close>; the screen is the window of the last rows of an endless page, and
    numbers are printed so that they can be read back.

  \<^bold>\<open>User side.\<close>
  \<^item> \<open>Libc\<close>, \<open>LibcProps\<close>: \<^verbatim>\<open>toolchain/myos\<close>; a call gives the program the result and the error of the kernel's function.
  \<^item> \<open>Terminal\<close>, \<open>TerminalMain\<close>, \<open>TerminalProps\<close>, \<open>Shell\<close>, \<open>ShellProps\<close>, \<open>Programs\<close>: \<^verbatim>\<open>tarfs/src\<close>; control sequences, the loops of the
    terminal program, arguments and variables of command lines, and the small programs with the three test programs. The programs are composed with
    the calls of \<open>Libc\<close>.

  \<open>Prelude\<close> holds the shared types and lemmas, \<open>DemoMachine\<close> and the \<open>demo\<close> definitions of other theories the concrete states
  on which the properties are applied.

  \<^bold>\<open>Not modelled.\<close> The assembly files (boot, interrupt stubs, start of a C program): what they do to the state is part of
  the definitions they lead to, and the addresses of the stubs are a parameter. The translation cache of the processor: the code flushes the pages it
  changes. Real concurrency: interrupts are off in the kernel, so a lock that is held is a deadlock, and threads interleave only where
  they sleep. Messages of the kernel, \<open>print_registers\<close>, \<open>print_areas\<close> and \<open>print_stack_trace\<close> (it reads the frames of compiled code).
  Functions of the C library that are not in the repository (\<open>malloc\<close>, \<open>printf\<close>, \<open>strtok\<close>, \<open>getenv\<close>) are modelled by what the standard says
  of them or are parameters. Build information, and headers with prototypes only.
\<close>

end
